(* ===== verification/Prelude.thy ===== *)
theory Prelude
  imports Main "HOL-Library.AList" "HOL-Library.Multiset" "HOL-Library.Sublist"
begin

text \<open>
  Shared vocabulary of the development.

  Go strings are byte sequences; they are modelled as \<^typ>\<open>string\<close>, one \<^typ>\<open>char\<close> per byte.
  The functions of Go's \<^verbatim>\<open>strings\<close> package that the program uses are defined here:
  \<open>trim_space\<close> is exact on bytes (the ASCII white space and the UTF-8 encodings of the other
  code points of \<^verbatim>\<open>unicode.IsSpace\<close>), \<open>to_lower\<close> and \<open>to_upper\<close> change the ASCII
  letters and leave every other byte alone, so they agree with Go on text whose letters are ASCII
  (provider names, header names, locations, event names).

  A Go map that is only looked up and updated is an association list handled with
  \<^const>\<open>map_of\<close> and \<^const>\<open>AList.update\<close>; a Go loop over a map, whose order the language leaves
  open, runs over the list, so its order is an argument of the model.
  Fallible functions return a sum whose left side names the error branch; \<open>bind_res\<close> sequences
  them.

  The theory also holds the two generic interfaces of the library: \<open>rotor\<close>, the contract of a
  round-robin selector under arbitrary interleavings with other operations, and
  \<open>value_normaliser\<close>, the contract of the de-duplicating list normalisers.
\<close>

named_theorems go_str \<open>rewrite rules for the string primitives\<close>

section \<open>Results\<close>

definition bind_res :: "('e + 'a) \<Rightarrow> ('a \<Rightarrow> 'e + 'b) \<Rightarrow> 'e + 'b" where
  "bind_res r f = (case r of Inl e \<Rightarrow> Inl e | Inr x \<Rightarrow> f x)"

lemma bind_res_simps [simp]:
  "bind_res (Inl e) f = Inl e"
  "bind_res (Inr x) f = f x"
  by (simp_all add: bind_res_def)

lemma bind_res_eq_Inr:
  "bind_res r f = Inr y \<longleftrightarrow> (\<exists>x. r = Inr x \<and> f x = Inr y)"
  by (cases r) auto

lemma bind_res_eq_Inl:
  "bind_res r f = Inl e \<longleftrightarrow> r = Inl e \<or> (\<exists>x. r = Inr x \<and> f x = Inl e)"
  by (cases r) auto

fun map_res :: "('a \<Rightarrow> 'e + 'b) \<Rightarrow> 'a list \<Rightarrow> 'e + 'b list" where
  "map_res f [] = Inr []"
| "map_res f (x # xs) = bind_res (f x) (\<lambda>y. bind_res (map_res f xs) (\<lambda>ys. Inr (y # ys)))"

lemma map_res_Inr_iff:
  "map_res f xs = Inr ys \<longleftrightarrow> list_all2 (\<lambda>x y. f x = Inr y) xs ys"
  by (induction xs arbitrary: ys) (auto simp: bind_res_eq_Inr list_all2_Cons1)

section \<open>White space\<close>

definition is_ascii_space :: "char \<Rightarrow> bool" where
  "is_ascii_space c \<longleftrightarrow>
     c = CHR '' '' \<or> c = CHR 0x09 \<or> c = CHR 0x0A \<or> c = CHR 0x0B \<or> c = CHR 0x0C \<or> c = CHR 0x0D"

text \<open>The UTF-8 encodings of the code points above U+007F that \<^verbatim>\<open>unicode.IsSpace\<close> accepts.\<close>

definition utf8_spaces :: "string list" where
  "utf8_spaces =
     [[CHR 0xC2, CHR 0x85], [CHR 0xC2, CHR 0xA0], [CHR 0xE1, CHR 0x9A, CHR 0x80],
      [CHR 0xE2, CHR 0x80, CHR 0x80], [CHR 0xE2, CHR 0x80, CHR 0x81],
      [CHR 0xE2, CHR 0x80, CHR 0x82], [CHR 0xE2, CHR 0x80, CHR 0x83],
      [CHR 0xE2, CHR 0x80, CHR 0x84], [CHR 0xE2, CHR 0x80, CHR 0x85],
      [CHR 0xE2, CHR 0x80, CHR 0x86], [CHR 0xE2, CHR 0x80, CHR 0x87],
      [CHR 0xE2, CHR 0x80, CHR 0x88], [CHR 0xE2, CHR 0x80, CHR 0x89],
      [CHR 0xE2, CHR 0x80, CHR 0x8A], [CHR 0xE2, CHR 0x80, CHR 0xA8],
      [CHR 0xE2, CHR 0x80, CHR 0xA9], [CHR 0xE2, CHR 0x80, CHR 0xAF],
      [CHR 0xE2, CHR 0x81, CHR 0x9F], [CHR 0xE3, CHR 0x80, CHR 0x80]]"

text \<open>
  One step of trimming at the front: what is left after the space the string starts with, if it
  starts with one. An ASCII byte that is no space ends the search at once.
\<close>

definition skip_space :: "string list \<Rightarrow> string \<Rightarrow> string option" where
  "skip_space mb s =
     (case s of
        [] \<Rightarrow> None
      | c # s' \<Rightarrow>
          (if is_ascii_space c then Some s'
           else if \<not> digit7 c then None
           else map_option (\<lambda>p. drop (length p) s) (List.find (\<lambda>p. prefix p s) mb)))"

lemma skip_space_shorter:
  "skip_space mb s = Some s' \<Longrightarrow> [] \<notin> set mb \<Longrightarrow> length s' < length s"
proof -
  assume *: "skip_space mb s = Some s'" and ne: "[] \<notin> set mb"
  show ?thesis
  proof (cases s)
    case (Cons c t)
    show ?thesis
    proof (cases "is_ascii_space c \<or> \<not> digit7 c")
      case True
      with * Cons show ?thesis by (auto simp: skip_space_def split: if_splits)
    next
      case False
      with * Cons obtain p where "List.find (\<lambda>p. prefix p s) mb = Some p" "s' = drop (length p) s"
        by (auto simp: skip_space_def)
      moreover from this ne have "p \<noteq> []" by (metis find_Some_iff nth_mem)
      ultimately show ?thesis using Cons by (cases p) auto
    qed
  qed (use * in \<open>simp add: skip_space_def\<close>)
qed

fun drop_spaces :: "nat \<Rightarrow> string list \<Rightarrow> string \<Rightarrow> string" where
  "drop_spaces 0 mb s = s"
| "drop_spaces (Suc n) mb s =
     (case skip_space mb s of None \<Rightarrow> s | Some s' \<Rightarrow> drop_spaces n mb s')"

text \<open>
  The first argument bounds the number of steps; the length of the string is always enough
  (\<open>drop_spaces_done\<close> below), because every step removes at least one byte.
\<close>

definition trim_left :: "string \<Rightarrow> string" where
  "trim_left s = drop_spaces (length s) utf8_spaces s"

definition trim_right :: "string \<Rightarrow> string" where
  "trim_right s = rev (drop_spaces (length s) (map rev utf8_spaces) (rev s))"

definition trim_space :: "string \<Rightarrow> string" where
  "trim_space s = trim_right (trim_left s)"

section \<open>Case\<close>

definition lower_byte :: "char \<Rightarrow> char" where
  "lower_byte c =
     (let n = (of_char c :: nat) in if 65 \<le> n \<and> n \<le> 90 then char_of (n + 32) else c)"

definition upper_byte :: "char \<Rightarrow> char" where
  "upper_byte c =
     (let n = (of_char c :: nat) in if 97 \<le> n \<and> n \<le> 122 then char_of (n - 32) else c)"

definition to_lower :: "string \<Rightarrow> string" where
  "to_lower s = map lower_byte s"

definition to_upper :: "string \<Rightarrow> string" where
  "to_upper s = map upper_byte s"

definition equal_fold :: "string \<Rightarrow> string \<Rightarrow> bool" where
  "equal_fold s t \<longleftrightarrow> to_lower s = to_lower t"

section \<open>Prefixes, search, splitting and joining\<close>

abbreviation has_prefix :: "string \<Rightarrow> string \<Rightarrow> bool" where
  "has_prefix s p \<equiv> prefix p s"

definition has_suffix :: "string \<Rightarrow> string \<Rightarrow> bool" where
  "has_suffix s p \<longleftrightarrow> prefix (rev p) (rev s)"

definition trim_prefix :: "string \<Rightarrow> string \<Rightarrow> string" where
  "trim_prefix s p = (if has_prefix s p then drop (length p) s else s)"

definition trim_suffix :: "string \<Rightarrow> string \<Rightarrow> string" where
  "trim_suffix s p = (if has_suffix s p then take (length s - length p) s else s)"

fun str_index :: "string \<Rightarrow> string \<Rightarrow> nat option" where
  "str_index [] sub = (if sub = [] then Some 0 else None)"
| "str_index (c # s) sub =
     (if prefix sub (c # s) then Some 0 else map_option Suc (str_index s sub))"

definition str_contains :: "string \<Rightarrow> string \<Rightarrow> bool" where
  "str_contains s sub \<longleftrightarrow> str_index s sub \<noteq> None"

lemma str_index_bound: "str_index s sub = Some i \<Longrightarrow> i + length sub \<le> length s"
  by (induction s sub arbitrary: i rule: str_index.induct)
     (auto simp: prefix_length_le split: if_splits dest: prefix_length_le)

text \<open>
  \<^verbatim>\<open>strings.Split\<close> with a separator that is not empty, which is how the program calls it.
\<close>

function str_split :: "string \<Rightarrow> string \<Rightarrow> string list" where
  "str_split s sep =
     (case str_index s sep of
        None \<Rightarrow> [s]
      | Some i \<Rightarrow> (if sep = [] then [s] else take i s # str_split (drop (i + length sep) s) sep))"
  by pat_completeness auto
termination
proof (relation "measure (\<lambda>(s, sep). length s)")
  fix s sep :: string and i
  assume "str_index s sep = Some i" "sep \<noteq> []"
  then have "i + length sep \<le> length s" "0 < length sep" by (auto dest: str_index_bound)
  then have "length s - (i + length sep) < length s" by linarith
  then show "((drop (i + length sep) s, sep), s, sep) \<in> measure (\<lambda>(s, sep). length s)" by simp
qed simp

declare str_split.simps [simp del]

fun str_join :: "string \<Rightarrow> string list \<Rightarrow> string" where
  "str_join sep [] = []"
| "str_join sep [x] = x"
| "str_join sep (x # y # xs) = x @ sep @ str_join sep (y # xs)"

lemma str_index_at: "c \<notin> set s \<Longrightarrow> str_index (s @ c # rest) (c # cs) = (if prefix cs rest then Some (length s) else
    map_option (\<lambda>i. length s + Suc i) (str_index rest (c # cs)))"
  by (induction s) (auto simp: option.map_comp comp_def)

lemma str_index_absent: "c \<notin> set s \<Longrightarrow> str_index s (c # cs) = None"
  by (induction s) auto

lemma str_split_at: "c \<notin> set x \<Longrightarrow> str_split (x @ c # r) [c] = x # str_split r [c]"
  by (simp add: str_split.simps[of "x @ c # r"] str_index_at)

lemma str_split_none: "c \<notin> set x \<Longrightarrow> str_split x [c] = [x]"
  by (simp add: str_split.simps[of x] str_index_absent)

definition is_digit :: "char \<Rightarrow> bool" where
  "is_digit c \<longleftrightarrow> 48 \<le> (of_char c :: nat) \<and> (of_char c :: nat) \<le> 57"

fun itoa :: "nat \<Rightarrow> string" where
  "itoa n = (if n < 10 then [char_of (48 + n)] else itoa (n div 10) @ [char_of (48 + n mod 10)])"

declare itoa.simps [simp del]

text \<open>The decimal text of an integer, as \<^verbatim>\<open>%d\<close> prints it.\<close>

definition int_text :: "int \<Rightarrow> string" where
  "int_text n = (if n < 0 then CHR ''-'' # itoa (nat (- n)) else itoa (nat n))"

section \<open>64-bit integers\<close>

definition in_int64 :: "int \<Rightarrow> bool" where
  "in_int64 i \<longleftrightarrow> - (2 ^ 63) \<le> i \<and> i < 2 ^ 63"

definition wrap64 :: "int \<Rightarrow> int" where
  "wrap64 i = (i + 2 ^ 63) mod 2 ^ 64 - 2 ^ 63"

lemma wrap64_id: "in_int64 i \<Longrightarrow> wrap64 i = i"
  by (simp add: wrap64_def in_int64_def)

section \<open>Runes\<close>

text \<open>
  The number of bytes that one step of Go's \<^verbatim>\<open>for _, r := range s\<close> consumes: the length of the
  UTF-8 sequence at the front, or one byte where no valid sequence starts.
\<close>

definition byte_in :: "nat \<Rightarrow> nat \<Rightarrow> char \<Rightarrow> bool" where
  "byte_in lo hi c \<longleftrightarrow> lo \<le> (of_char c :: nat) \<and> (of_char c :: nat) \<le> hi"

abbreviation is_cont :: "char \<Rightarrow> bool" where
  "is_cont \<equiv> byte_in 128 191"

definition second_ok :: "char \<Rightarrow> char \<Rightarrow> bool" where
  "second_ok a b =
     (let n = (of_char a :: nat) in
      if n = 224 then byte_in 160 191 b
      else if n = 237 then byte_in 128 159 b
      else if n = 240 then byte_in 144 191 b
      else if n = 244 then byte_in 128 143 b
      else is_cont b)"

definition rune_width :: "string \<Rightarrow> nat" where
  "rune_width s =
     (case s of
        a # b # c # d # _ \<Rightarrow>
          if byte_in 240 244 a \<and> second_ok a b \<and> is_cont c \<and> is_cont d then 4
          else if byte_in 224 239 a \<and> second_ok a b \<and> is_cont c then 3
          else if byte_in 194 223 a \<and> is_cont b then 2 else 1
      | [a, b, c] \<Rightarrow>
          if byte_in 224 239 a \<and> second_ok a b \<and> is_cont c then 3
          else if byte_in 194 223 a \<and> is_cont b then 2 else 1
      | [a, b] \<Rightarrow> if byte_in 194 223 a \<and> is_cont b then 2 else 1
      | _ \<Rightarrow> 1)"

lemma rune_width_pos: "0 < rune_width s"
  by (simp add: rune_width_def split: list.split)

lemma rune_width_le: "s \<noteq> [] \<Longrightarrow> rune_width s \<le> length s"
  by (auto simp: rune_width_def split: list.split)

section \<open>Maps with a zero default, stable sorting\<close>

text \<open>Reading an absent key of a Go \<^verbatim>\<open>map[string]int\<close> gives zero.\<close>

definition lookup_nat :: "('k \<times> nat) list \<Rightarrow> 'k \<Rightarrow> nat" where
  "lookup_nat m k = (case map_of m k of None \<Rightarrow> 0 | Some i \<Rightarrow> i)"

text \<open>
  \<^verbatim>\<open>sort.SliceStable\<close> with a strict weak order \<open>lt\<close>: every stable sort gives the list of this
  insertion sort.
\<close>

fun stable_insert :: "('a \<Rightarrow> 'a \<Rightarrow> bool) \<Rightarrow> 'a \<Rightarrow> 'a list \<Rightarrow> 'a list" where
  "stable_insert lt x [] = [x]"
| "stable_insert lt x (y # ys) =
     (if lt y x then y # stable_insert lt x ys else x # y # ys)"

definition slice_stable :: "('a \<Rightarrow> 'a \<Rightarrow> bool) \<Rightarrow> 'a list \<Rightarrow> 'a list" where
  "slice_stable lt xs = foldr (stable_insert lt) xs []"

lemma lookup_nat_update [simp]:
  "lookup_nat (AList.update k v m) k' = (if k' = k then v else lookup_nat m k')"
  by (simp add: lookup_nat_def update_conv')

lemma in_set_update:
  "(k, v) \<in> set (AList.update a b m) \<Longrightarrow> (k, v) \<in> set m \<or> (k = a \<and> v = b)"
  by (induction m) (auto split: if_splits)

lemma mset_stable_insert [simp]: "mset (stable_insert lt x ys) = add_mset x (mset ys)"
  by (induction ys) auto

lemma mset_slice_stable [simp]: "mset (slice_stable lt xs) = mset xs"
  by (induction xs) (simp_all add: slice_stable_def)

lemma set_slice_stable [simp]: "set (slice_stable lt xs) = set xs"
  by (metis mset_slice_stable set_mset_mset)

lemma stable_insert_append:
  "\<forall>y \<in> set ys. lt y x \<Longrightarrow> stable_insert lt x (ys @ zs) = ys @ stable_insert lt x zs"
  by (induction ys) auto

lemma stable_insert_front:
  "(\<forall>y \<in> set ys. \<not> lt y x) \<Longrightarrow> stable_insert lt x ys = x # ys"
  by (cases ys) auto

section \<open>Lemmas on bytes, trimming and case\<close>

lemma digit7_iff: "digit7 c \<longleftrightarrow> 128 \<le> (of_char c :: nat)"
  by (cases c) (auto simp: of_char_def)

lemma char_eq_nat: "c = d \<longleftrightarrow> (of_char c :: nat) = of_char d"
  by simp

lemma is_ascii_space_iff: "is_ascii_space c \<longleftrightarrow> (of_char c :: nat) \<in> {9, 10, 11, 12, 13, 32}"
  unfolding is_ascii_space_def by (subst (1 2 3 4 5 6) char_eq_nat) auto

lemma of_char_lower_byte:
  "(of_char (lower_byte c) :: nat) =
     (let n = of_char c in if 65 \<le> n \<and> n \<le> 90 then n + 32 else n)"
  by (simp add: lower_byte_def Let_def)

lemma lower_byte_idem [simp]: "lower_byte (lower_byte c) = lower_byte c"
  by (simp add: lower_byte_def Let_def)

lemma is_ascii_space_lower_byte [simp]: "is_ascii_space (lower_byte c) = is_ascii_space c"
  by (auto simp: is_ascii_space_iff of_char_lower_byte Let_def)

lemma digit7_lower_byte [simp]: "digit7 (lower_byte c) = digit7 c"
  by (auto simp: digit7_iff of_char_lower_byte Let_def)

lemma lower_byte_digit7 [simp]: "digit7 c \<Longrightarrow> lower_byte c = c"
  by (auto simp: digit7_iff lower_byte_def Let_def)

lemma to_lower_idem [simp]: "to_lower (to_lower s) = to_lower s"
  by (simp add: to_lower_def o_def)

lemma to_lower_Nil_iff [simp]: "to_lower s = [] \<longleftrightarrow> s = []"
  by (simp add: to_lower_def)

lemma to_lower_Nil [simp]: "to_lower [] = []"
  by simp

lemma prefix_map_lower_byte:
  "list_all digit7 p \<Longrightarrow> prefix p (map lower_byte s) = prefix p s"
proof (induction p arbitrary: s)
  case (Cons a p)
  show ?case
  proof (cases s)
    case (Cons c t)
    have "a = lower_byte c \<longleftrightarrow> a = c"
      using Cons.prems by simp (metis digit7_lower_byte lower_byte_digit7)
    with Cons Cons.prems Cons.IH[of t] show ?thesis by simp
  qed simp
qed simp

lemma skip_space_Cons:
  "s = c # t \<Longrightarrow> skip_space mb s =
     (if is_ascii_space c then Some t else if \<not> digit7 c then None
      else map_option (\<lambda>p. drop (length p) s) (List.find (\<lambda>p. prefix p s) mb))"
  by (simp add: skip_space_def)

lemma skip_space_map_lower:
  assumes mb: "list_all (list_all digit7) mb"
  shows "skip_space mb (map lower_byte s) = map_option (map lower_byte) (skip_space mb s)"
proof (cases s)
  case (Cons c t)
  have find: "List.find (\<lambda>p. prefix p (map lower_byte s)) mb = List.find (\<lambda>p. prefix p s) mb"
    using mb by (intro find_cong) (auto simp: list_all_iff prefix_map_lower_byte)
  have drop: "map_option (\<lambda>p. drop (length p) (map lower_byte s)) r =
      map_option (map lower_byte) (map_option (\<lambda>p. drop (length p) s) r)" for r :: "string option"
    by (cases r) (simp_all add: drop_map)
  from Cons have "map lower_byte s = lower_byte c # map lower_byte t" by simp
  from skip_space_Cons[OF this, of mb] skip_space_Cons[OF Cons, of mb] show ?thesis
    by (simp only: find drop is_ascii_space_lower_byte digit7_lower_byte split: if_split) simp
qed (simp add: skip_space_def)

lemma utf8_spaces_digit7:
  "list_all (list_all digit7) utf8_spaces"
  "list_all (list_all digit7) (map rev utf8_spaces)"
  by (simp_all add: utf8_spaces_def)

lemma utf8_spaces_nonempty:
  "[] \<notin> set utf8_spaces" "[] \<notin> set (map rev utf8_spaces)"
  by (simp_all add: utf8_spaces_def)

lemma drop_spaces_done:
  "length s \<le> n \<Longrightarrow> [] \<notin> set mb \<Longrightarrow> skip_space mb (drop_spaces n mb s) = None"
proof (induction n mb s rule: drop_spaces.induct)
  case (1 mb s)
  then show ?case by (simp add: skip_space_def)
next
  case (2 n mb s)
  then show ?case using skip_space_shorter[of mb s] by (fastforce split: option.split)
qed

lemma drop_spaces_id: "skip_space mb s = None \<Longrightarrow> drop_spaces n mb s = s"
  by (cases n) auto

lemma skip_space_suffix: "skip_space mb s = Some t \<Longrightarrow> suffix t s"
  by (auto simp: skip_space_def suffix_drop split: list.splits if_splits intro: suffix_ConsI)

lemma drop_spaces_suffix: "suffix (drop_spaces n mb s) s"
  by (induction n mb s rule: drop_spaces.induct)
     (auto split: option.split dest: skip_space_suffix intro: suffix_order.trans)

lemma skip_space_None_prefix:
  "skip_space mb s = None \<Longrightarrow> prefix t s \<Longrightarrow> skip_space mb t = None"
  by (auto simp: skip_space_def find_None_iff prefix_Cons
           split: list.splits if_splits intro: prefix_order.trans)

lemma drop_spaces_map_lower:
  "list_all (list_all digit7) mb \<Longrightarrow>
     drop_spaces n mb (map lower_byte s) = map lower_byte (drop_spaces n mb s)"
  by (induction n mb s rule: drop_spaces.induct) (auto simp: skip_space_map_lower split: option.split)

lemma trim_left_done: "skip_space utf8_spaces (trim_left s) = None"
  by (simp add: trim_left_def drop_spaces_done utf8_spaces_nonempty)

lemma trim_right_prefix: "prefix (trim_right s) s"
  using drop_spaces_suffix[of "length s" "map rev utf8_spaces" "rev s"]
  by (simp add: trim_right_def suffix_to_prefix)

lemma trim_space_idem [simp]: "trim_space (trim_space s) = trim_space s"
proof -
  let ?t = "trim_space s"
  have "prefix ?t (trim_left s)" by (simp add: trim_space_def trim_right_prefix)
  with trim_left_done have "skip_space utf8_spaces ?t = None" by (rule skip_space_None_prefix)
  then have l: "trim_left ?t = ?t" by (simp add: trim_left_def drop_spaces_id)
  have "skip_space (map rev utf8_spaces) (rev ?t) = None"
    unfolding trim_space_def trim_right_def rev_rev_ident
    by (rule drop_spaces_done) (use utf8_spaces_nonempty in simp_all)
  then have "trim_right ?t = ?t" by (simp add: trim_right_def drop_spaces_id)
  with l show ?thesis by (simp add: trim_space_def)
qed

lemma trim_space_to_lower: "trim_space (to_lower s) = to_lower (trim_space s)"
  by (simp add: trim_space_def trim_left_def trim_right_def to_lower_def rev_map
                drop_spaces_map_lower utf8_spaces_digit7)

lemma trim_space_id:
  assumes "s \<noteq> []" "\<not> digit7 (hd s)" "\<not> is_ascii_space (hd s)" "\<not> digit7 (last s)"
    "\<not> is_ascii_space (last s)"
  shows "trim_space s = s"
proof -
  have "skip_space utf8_spaces s = None" using assms by (cases s) (auto simp: skip_space_def)
  then have "trim_left s = s" by (simp add: trim_left_def drop_spaces_id)
  moreover have "skip_space (map rev utf8_spaces) (rev s) = None"
    using assms by (cases s rule: rev_cases) (auto simp: skip_space_def)
  then have "trim_right s = s" by (simp add: trim_right_def drop_spaces_id)
  ultimately show ?thesis by (simp add: trim_space_def)
qed

lemma trim_space_Nil [simp]: "trim_space [] = []"
  by (simp add: trim_space_def trim_left_def trim_right_def)

section \<open>De-duplicating normalisers\<close>

text \<open>
  The loop shared by \<^verbatim>\<open>normalizeProviders\<close>, \<^verbatim>\<open>normalizeAllowedValues\<close> and
  \<^verbatim>\<open>normalizeAccessKeyValues\<close>: each value is rewritten by \<open>f\<close>, empty results and values seen
  before are skipped.
\<close>

fun normalise_values :: "(string \<Rightarrow> string) \<Rightarrow> string list \<Rightarrow> string list \<Rightarrow> string list" where
  "normalise_values f seen [] = []"
| "normalise_values f seen (v # vs) =
     (let v' = f v in
      if v' = [] then normalise_values f seen vs
      else if v' \<in> set seen then normalise_values f seen vs
      else v' # normalise_values f (v' # seen) vs)"

lemma set_normalise_values:
  "set (normalise_values f seen vs) = (f ` set vs - {[]}) - set seen"
  by (induction f seen vs rule: normalise_values.induct) (auto simp: Let_def)

lemma distinct_normalise_values: "distinct (normalise_values f seen vs)"
  by (induction f seen vs rule: normalise_values.induct) (auto simp: Let_def set_normalise_values)

lemma normalise_values_fixed:
  "distinct vs \<Longrightarrow> [] \<notin> set vs \<Longrightarrow> set vs \<inter> set seen = {} \<Longrightarrow> \<forall>v \<in> set vs. f v = v \<Longrightarrow>
     normalise_values f seen vs = vs"
  by (induction f seen vs rule: normalise_values.induct) (auto simp: Let_def)

locale value_normaliser =
  fixes f :: "string \<Rightarrow> string"
    and norm :: "string list \<Rightarrow> string list"
  assumes f_idem: "f (f v) = f v"
    and norm_eq: "norm vs = normalise_values f [] vs"
begin

lemma set_norm: "set (norm vs) = f ` set vs - {[]}"
  by (simp add: norm_eq set_normalise_values)

lemma distinct_norm: "distinct (norm vs)"
  by (simp add: norm_eq distinct_normalise_values)

lemma norm_idem: "norm (norm vs) = norm vs"
  unfolding norm_eq
  by (rule normalise_values_fixed)
     (auto simp: distinct_normalise_values set_normalise_values f_idem)

lemma ex_norm_iff:
  assumes "f v \<noteq> []"
  shows "(\<exists>a \<in> set (norm vs). f a = f v) \<longleftrightarrow> (\<exists>a \<in> set vs. f a = f v)"
proof
  assume "\<exists>a \<in> set (norm vs). f a = f v"
  then obtain b where "b \<in> set vs" "f (f b) = f v" unfolding set_norm by blast
  then show "\<exists>a \<in> set vs. f a = f v" unfolding f_idem by (rule bexI[rotated])
next
  assume "\<exists>a \<in> set vs. f a = f v"
  then obtain a where "a \<in> set vs" "f a = f v" by blast
  then have "f a \<in> set (norm vs)" using assms unfolding set_norm by (metis Diff_iff imageI singletonD)
  moreover have "f (f a) = f v" unfolding f_idem by fact
  ultimately show "\<exists>a \<in> set (norm vs). f a = f v" by (rule bexI[rotated])
qed

lemma norm_Nil_iff: "norm vs = [] \<longleftrightarrow> (\<forall>v \<in> set vs. f v = [])"
proof -
  have "norm vs = [] \<longleftrightarrow> set (norm vs) = {}" by simp
  then show ?thesis by (auto simp: set_norm)
qed

end

text \<open>
  The rewriting of allowlist entries and the loop over provider key bindings that the
  authentication middleware and the control plane share.
\<close>

definition fold_value :: "bool \<Rightarrow> string \<Rightarrow> string" where
  "fold_value lower v = (let t = trim_space v in if lower then to_lower t else t)"

lemma fold_value_idem [simp]: "fold_value lower (fold_value lower v) = fold_value lower v"
  by (simp add: fold_value_def Let_def trim_space_to_lower)

lemma fold_value_Nil_iff: "fold_value lower v = [] \<longleftrightarrow> trim_space v = []"
  by (simp add: fold_value_def Let_def)

fun normalize_bindings :: "(string \<times> string) list \<Rightarrow> (string \<times> string) list \<Rightarrow> (string \<times> string) list" where
  "normalize_bindings out [] = out"
| "normalize_bindings out ((provider, keyName) # bs) =
     (let p = to_lower (trim_space provider); k = trim_space keyName in
      normalize_bindings (if p \<noteq> [] \<and> k \<noteq> [] then AList.update p k out else out) bs)"

section \<open>Guarded operations and their invariant\<close>

text \<open>
  A component whose operations keep an invariant when called within their contract; a run is a
  sequence of such calls, each in the state its predecessors left.
\<close>

fun run_within :: "('op \<Rightarrow> 's \<Rightarrow> bool) \<Rightarrow> ('op \<Rightarrow> 's \<Rightarrow> 's) \<Rightarrow> 'op list \<Rightarrow> 's \<Rightarrow> bool" where
  "run_within ok step [] s \<longleftrightarrow> True"
| "run_within ok step (op # ops) s \<longleftrightarrow> ok op s \<and> run_within ok step ops (step op s)"

locale guarded_ops =
  fixes ok :: "'op \<Rightarrow> 's \<Rightarrow> bool"
    and step :: "'op \<Rightarrow> 's \<Rightarrow> 's"
    and inv :: "'s \<Rightarrow> bool"
  assumes step_inv: "inv s \<Longrightarrow> ok op s \<Longrightarrow> inv (step op s)"
begin

lemma run_inv: "inv s \<Longrightarrow> run_within ok step ops s \<Longrightarrow> inv (fold step ops s)"
  by (induction ops arbitrary: s) (simp_all add: step_inv)

end

section \<open>Operations that take effect once\<close>

text \<open>
  The contract of scripts guarded by an idempotency key: a replay changes nothing, an operation
  that changes the state leaves its key behind, and keys are never forgotten. \<open>applied_ops\<close> are the
  operations of a run that took effect.
\<close>

fun applied_ops ::
    "('op \<Rightarrow> 'k) \<Rightarrow> ('s \<Rightarrow> 'k set) \<Rightarrow> ('op \<Rightarrow> 's \<Rightarrow> 's) \<Rightarrow> 'op list \<Rightarrow> 's \<Rightarrow> 'op list" where
  "applied_ops key seen act [] s = []"
| "applied_ops key seen act (op # ops) s =
     (if key op \<notin> seen s \<and> key op \<in> seen (act op s) then [op] else []) @
     applied_ops key seen act ops (act op s)"

locale once_only =
  fixes key :: "'op \<Rightarrow> 'k"
    and seen :: "'s \<Rightarrow> 'k set"
    and act :: "'op \<Rightarrow> 's \<Rightarrow> 's"
  assumes replay: "key op \<in> seen s \<Longrightarrow> act op s = s"
    and marks: "act op s \<noteq> s \<Longrightarrow> key op \<in> seen (act op s)"
    and seen_mono: "seen s \<subseteq> seen (act op s)"
begin

lemma act_idem: "act op (act op s) = act op s"
  using replay[of op s] replay[of op "act op s"] marks[of op s] by (cases "act op s = s") auto

lemma fold_seen_mono: "seen s \<subseteq> seen (fold act ops s)"
  by (induction ops arbitrary: s) (auto dest: subsetD[OF seen_mono])

lemma late_retry: "key op \<in> seen s \<Longrightarrow> act op (fold act ops s) = fold act ops s"
  using fold_seen_mono[of s ops] replay by blast

lemma applied_fresh: "op \<in> set (applied_ops key seen act ops s) \<Longrightarrow> key op \<notin> seen s"
  by (induction ops arbitrary: s) (auto split: if_splits dest: subsetD[OF seen_mono])

lemma applied_distinct: "distinct (map key (applied_ops key seen act ops s))"
  by (induction ops arbitrary: s) (auto dest: applied_fresh)

lemma not_applied: "\<not> (key op \<notin> seen s \<and> key op \<in> seen (act op s)) \<Longrightarrow> act op s = s"
  using replay marks by blast

end

section \<open>Round-robin selection\<close>

text \<open>
  Results of the operations of interest in a run in which they are interleaved with others.
\<close>

fun run_results ::
    "('op \<Rightarrow> 's \<Rightarrow> 'a option \<times> 's) \<Rightarrow> ('op \<Rightarrow> bool) \<Rightarrow> 'op list \<Rightarrow> 's \<Rightarrow> 'a option list" where
  "run_results act mine [] s = []"
| "run_results act mine (op # ops) s =
     (let (r, s') = act op s in (if mine op then [r] else []) @ run_results act mine ops s')"

lemma map_nth_mod_rotate:
  "map (\<lambda>j. xs ! ((i + j) mod length xs)) [0..<length xs] = rotate i xs"
  by (rule nth_equalityI) (auto simp: nth_rotate)

lemma mset_rotate [simp]: "mset (rotate i xs) = mset xs"
  by (metis mset_append rotate_drop_take append_take_drop_id add.commute)

text \<open>
  The contract of a rotating selector: the operations of interest read the item under a cursor and
  advance it modulo the number of items, the other operations leave cursor and items alone.
\<close>

locale rotor =
  fixes act :: "'op \<Rightarrow> 's \<Rightarrow> 'a option \<times> 's"
    and mine :: "'op \<Rightarrow> bool"
    and items :: "'s \<Rightarrow> 'a list"
    and idx :: "'s \<Rightarrow> nat"
    and invar :: "'s \<Rightarrow> bool"
  assumes pick: "invar s \<Longrightarrow> mine op \<Longrightarrow>
      fst (act op s) = Some (items s ! (idx s mod length (items s)))"
    and advance: "invar s \<Longrightarrow> mine op \<Longrightarrow>
      idx (snd (act op s)) = Suc (idx s mod length (items s)) mod length (items s)"
    and idx_frame: "invar s \<Longrightarrow> \<not> mine op \<Longrightarrow> idx (snd (act op s)) = idx s"
    and items_frame: "invar s \<Longrightarrow> items (snd (act op s)) = items s"
    and invar_act: "invar s \<Longrightarrow> invar (snd (act op s))"
    and items_nonempty: "invar s \<Longrightarrow> items s \<noteq> []"
begin

lemma results_nth:
  "invar s \<Longrightarrow> run_results act mine ops s =
     map (\<lambda>j. Some (items s ! ((idx s + j) mod length (items s)))) [0..<length (filter mine ops)]"
proof (induction ops arbitrary: s)
  case (Cons op ops)
  let ?s = "snd (act op s)" and ?n = "length (items s)"
  note frame = items_frame[OF Cons.prems] invar_act[OF Cons.prems]
  show ?case
  proof (cases "mine op")
    case True
    have "run_results act mine ops ?s =
        map (\<lambda>j. Some (items s ! ((Suc (idx s mod ?n) mod ?n + j) mod ?n)))
          [0..<length (filter mine ops)]"
      using Cons.IH[OF frame(2)[of op]] frame(1)[of op] advance[OF Cons.prems True] by simp
    also have "\<dots> = map (\<lambda>j. Some (items s ! ((idx s + Suc j) mod ?n))) [0..<length (filter mine ops)]"
      by (simp add: mod_simps)
    finally show ?thesis
      using True pick[OF Cons.prems True]
      by (simp add: case_prod_beta Let_def upt_conv_Cons o_def del: upt_Suc flip: map_Suc_upt)
  next
    case False
    with Cons.IH[OF frame(2)[of op]] frame(1)[of op] idx_frame[OF Cons.prems False]
    show ?thesis by (simp add: case_prod_beta Let_def)
  qed
qed simp

lemma full_cycle:
  "invar s \<Longrightarrow> length (filter mine ops) = length (items s) \<Longrightarrow>
     run_results act mine ops s = map Some (rotate (idx s) (items s))"
  by (simp add: results_nth map_nth_mod_rotate[symmetric] o_def)

lemma full_cycle_mset:
  "invar s \<Longrightarrow> length (filter mine ops) = length (items s) \<Longrightarrow>
     mset (run_results act mine ops s) = mset (map Some (items s))"
  by (simp add: full_cycle)

end

end
