(* ===== verification/Encodings.thy ===== *)
theory Encodings
  imports Prelude
begin

text \<open>
  The encodings of Go's standard library that keys and tokens go through:
  \<^verbatim>\<open>encoding/base64\<close> (\<open>StdEncoding\<close>, with padding, and \<open>RawURLEncoding.Strict\<close>, without) and
  the query strings of \<^verbatim>\<open>net/url\<close>. The round-trip lemmas at the end carry the key encryption and
  token theorems.
\<close>

section \<open>Base64\<close>

record base64_enc =
  b64_alphabet :: string
  b64_padding :: bool
  b64_strict :: bool

definition std_encoding :: base64_enc where
  "std_encoding =
     \<lparr>b64_alphabet = ''ABCDEFGHIJKLMNOPQRSTUVWXYZabcdefghijklmnopqrstuvwxyz0123456789+/'',
      b64_padding = True, b64_strict = False\<rparr>"

definition raw_url_strict :: base64_enc where
  "raw_url_strict =
     \<lparr>b64_alphabet = ''ABCDEFGHIJKLMNOPQRSTUVWXYZabcdefghijklmnopqrstuvwxyz0123456789-_'',
      b64_padding = False, b64_strict = True\<rparr>"

definition b64_char :: "base64_enc \<Rightarrow> nat \<Rightarrow> char" where
  "b64_char e d = b64_alphabet e ! d"

definition b64_digit :: "base64_enc \<Rightarrow> char \<Rightarrow> nat option" where
  "b64_digit e c = map_of (zip (b64_alphabet e) [0..<64]) c"

definition pad_chars :: "base64_enc \<Rightarrow> nat \<Rightarrow> string" where
  "pad_chars e n = (if b64_padding e then replicate n (CHR ''='') else [])"

fun b64_encode :: "base64_enc \<Rightarrow> string \<Rightarrow> string" where
  "b64_encode e [] = []"
| "b64_encode e [x] =
     (let a = (of_char x :: nat) in
      [b64_char e (a div 4), b64_char e (a mod 4 * 16)] @ pad_chars e 2)"
| "b64_encode e [x, y] =
     (let a = (of_char x :: nat); b = (of_char y :: nat) in
      [b64_char e (a div 4), b64_char e (a mod 4 * 16 + b div 16), b64_char e (b mod 16 * 4)] @
      pad_chars e 1)"
| "b64_encode e (x # y # z # s) =
     (let a = (of_char x :: nat); b = (of_char y :: nat); c = (of_char z :: nat) in
      b64_char e (a div 4) # b64_char e (a mod 4 * 16 + b div 16) #
      b64_char e (b mod 16 * 4 + c div 64) # b64_char e (c mod 64) # b64_encode e s)"

text \<open>The last, incomplete group: two digits give one byte, three give two.\<close>

definition b64_tail2 :: "base64_enc \<Rightarrow> char \<Rightarrow> char \<Rightarrow> string option" where
  "b64_tail2 e w x =
     (case (b64_digit e w, b64_digit e x) of
        (Some p, Some q) \<Rightarrow>
          if b64_strict e \<and> q mod 16 \<noteq> 0 then None else Some [char_of (p * 4 + q div 16)]
      | _ \<Rightarrow> None)"

definition b64_tail3 :: "base64_enc \<Rightarrow> char \<Rightarrow> char \<Rightarrow> char \<Rightarrow> string option" where
  "b64_tail3 e w x y =
     (case (b64_digit e w, b64_digit e x, b64_digit e y) of
        (Some p, Some q, Some r) \<Rightarrow>
          if b64_strict e \<and> r mod 4 \<noteq> 0 then None
          else Some [char_of (p * 4 + q div 16), char_of (q mod 16 * 16 + r div 4)]
      | _ \<Rightarrow> None)"

fun b64_groups :: "base64_enc \<Rightarrow> string \<Rightarrow> string option" where
  "b64_groups e [] = Some []"
| "b64_groups e [w] = None"
| "b64_groups e [w, x] = (if b64_padding e then None else b64_tail2 e w x)"
| "b64_groups e [w, x, y] = (if b64_padding e then None else b64_tail3 e w x y)"
| "b64_groups e (w # x # y # z # s) =
     (if b64_padding e \<and> y = CHR ''='' then
        (if z = CHR ''='' \<and> s = [] then b64_tail2 e w x else None)
      else if b64_padding e \<and> z = CHR ''='' then
        (if s = [] then b64_tail3 e w x y else None)
      else
        case (b64_digit e w, b64_digit e x, b64_digit e y, b64_digit e z) of
          (Some p, Some q, Some r, Some t) \<Rightarrow>
            map_option (\<lambda>bs. char_of (p * 4 + q div 16) # char_of (q mod 16 * 16 + r div 4) #
                             char_of (r mod 4 * 64 + t) # bs)
              (b64_groups e s)
        | _ \<Rightarrow> None)"

text \<open>\<^verbatim>\<open>DecodeString\<close>: line breaks are skipped wherever they stand.\<close>

definition b64_decode :: "base64_enc \<Rightarrow> string \<Rightarrow> string option" where
  "b64_decode e s = b64_groups e (filter (\<lambda>c. c \<noteq> CHR 0x0A \<and> c \<noteq> CHR 0x0D) s)"

section \<open>Query strings\<close>

definition hex_value :: "char \<Rightarrow> nat option" where
  "hex_value c =
     (let n = (of_char c :: nat) in
      if 48 \<le> n \<and> n \<le> 57 then Some (n - 48)
      else if 97 \<le> n \<and> n \<le> 102 then Some (n - 97 + 10)
      else if 65 \<le> n \<and> n \<le> 70 then Some (n - 65 + 10)
      else None)"

fun query_unescape :: "string \<Rightarrow> string option" where
  "query_unescape [] = Some []"
| "query_unescape (c # s) =
     (if c = CHR ''%'' then
        (case s of
           h # l # s' \<Rightarrow>
             (case (hex_value h, hex_value l) of
                (Some a, Some b) \<Rightarrow> map_option (Cons (char_of (16 * a + b))) (query_unescape s')
              | _ \<Rightarrow> None)
         | _ \<Rightarrow> None)
      else map_option (Cons (if c = CHR ''+'' then CHR '' '' else c)) (query_unescape s))"

text \<open>\<^verbatim>\<open>strings.Cut\<close> at a single byte: what precedes it and what follows it.\<close>

definition str_cut :: "char \<Rightarrow> string \<Rightarrow> string \<times> string" where
  "str_cut c s = (takeWhile (\<lambda>x. x \<noteq> c) s, drop 1 (dropWhile (\<lambda>x. x \<noteq> c) s))"

definition query_pair :: "string \<Rightarrow> (string \<times> string) option" where
  "query_pair p =
     (let (k, v) = str_cut (CHR ''='') p in
      case query_unescape k of
        None \<Rightarrow> None
      | Some k' \<Rightarrow> map_option (Pair k') (query_unescape v))"

text \<open>
  \<^verbatim>\<open>url.ParseQuery\<close> for a caller that gives up on any error: the pairs in order, or \<open>None\<close>.
\<close>

function parse_query :: "string \<Rightarrow> (string \<times> string) list option" where
  "parse_query q =
     (if q = [] then Some []
      else
        let (p, rest) = str_cut (CHR ''&'') q in
        if CHR '';'' \<in> set p then None
        else if p = [] then parse_query rest
        else
          case query_pair p of
            None \<Rightarrow> None
          | Some kv \<Rightarrow> map_option (Cons kv) (parse_query rest))"
  by pat_completeness auto
termination
proof (relation "measure length")
  have shorter: "length rest < length q" if "q \<noteq> []" "(p, rest) = str_cut c q" for p rest q c
  proof -
    have "length (dropWhile (\<lambda>x. x \<noteq> c) q) \<le> length q" by (rule length_dropWhile_le)
    with that show ?thesis by (cases q) (auto simp: str_cut_def)
  qed
  show "q \<noteq> [] \<Longrightarrow> x = str_cut (CHR ''&'') q \<Longrightarrow> (p, rest) = x \<Longrightarrow> CHR '';'' \<notin> set p \<Longrightarrow> p = [] \<Longrightarrow>
      (rest, q) \<in> measure length" for q x p rest using shorter by simp
  show "q \<noteq> [] \<Longrightarrow> x = str_cut (CHR ''&'') q \<Longrightarrow> (p, rest) = x \<Longrightarrow> CHR '';'' \<notin> set p \<Longrightarrow> p \<noteq> [] \<Longrightarrow>
      query_pair p = Some kv \<Longrightarrow> (rest, q) \<in> measure length" for q x p rest kv using shorter by simp
qed simp

declare parse_query.simps [simp del]

text \<open>\<^verbatim>\<open>Values.Get\<close>: the first value of a key, or the empty string.\<close>

definition query_get :: "(string \<times> string) list \<Rightarrow> string \<Rightarrow> string" where
  "query_get vals k = (case map_of vals k of None \<Rightarrow> [] | Some v \<Rightarrow> v)"

section \<open>Base64 round trip\<close>

definition good_encoding :: "base64_enc \<Rightarrow> bool" where
  "good_encoding e \<longleftrightarrow> length (b64_alphabet e) = 64 \<and> distinct (b64_alphabet e) \<and>
     CHR ''='' \<notin> set (b64_alphabet e) \<and> CHR 0x0A \<notin> set (b64_alphabet e) \<and> CHR 0x0D \<notin> set (b64_alphabet e)"

lemma good_std: "good_encoding std_encoding"
  by (simp add: good_encoding_def std_encoding_def)

lemma good_raw_url: "good_encoding raw_url_strict"
  by (simp add: good_encoding_def raw_url_strict_def)

lemma b64_digit_char: "good_encoding e \<Longrightarrow> d < 64 \<Longrightarrow> b64_digit e (b64_char e d) = Some d"
  by (simp add: b64_digit_def b64_char_def good_encoding_def map_of_zip_nth)

lemma b64_char_neq:
  assumes "good_encoding e" "d < 64"
  shows "b64_char e d \<noteq> CHR ''=''" "b64_char e d \<noteq> CHR 0x0A" "b64_char e d \<noteq> CHR 0x0D"
proof -
  have "b64_char e d \<in> set (b64_alphabet e)" using assms by (simp add: b64_char_def good_encoding_def)
  with assms(1) show "b64_char e d \<noteq> CHR ''=''" "b64_char e d \<noteq> CHR 0x0A" "b64_char e d \<noteq> CHR 0x0D"
    by (auto simp: good_encoding_def)
qed

lemma nat_byte_split:
  fixes a b c :: nat
  assumes "a < 256" "b < 256" "c < 256"
  shows "a div 4 < 64" "a mod 4 * 16 < 64" "a mod 4 * 16 + b div 16 < 64" "b mod 16 * 4 < 64"
    "b mod 16 * 4 + c div 64 < 64"
    "(a mod 4 * 16 + b div 16) div 16 = a mod 4" "(a mod 4 * 16 + b div 16) mod 16 = b div 16"
    "(b mod 16 * 4 + c div 64) div 4 = b mod 16" "(b mod 16 * 4 + c div 64) mod 4 = c div 64"
proof -
  have d: "a div 4 < 64" "b div 16 < 16" "c div 64 < 4" using assms by (simp_all add: div_less_iff_less_mult)
  moreover have "a mod 4 < 4" "b mod 16 < 16" by simp_all
  ultimately show "a div 4 < 64" "a mod 4 * 16 < 64" "a mod 4 * 16 + b div 16 < 64"
    "b mod 16 * 4 < 64" "b mod 16 * 4 + c div 64 < 64"
    by linarith+
  show "(a mod 4 * 16 + b div 16) div 16 = a mod 4" "(a mod 4 * 16 + b div 16) mod 16 = b div 16"
    "(b mod 16 * 4 + c div 64) div 4 = b mod 16" "(b mod 16 * 4 + c div 64) mod 4 = c div 64"
    using d(2,3) by (subst div_mult_self3 mod_mult_self3 | simp)+
qed

lemmas byte_split = nat_byte_split[OF nat_of_char_less_256 nat_of_char_less_256 nat_of_char_less_256]

lemma byte_join:
  "char_of ((of_char x :: nat) div 4 * 4 + of_char x mod 4) = x"
  "char_of ((of_char x :: nat) div 16 * 16 + of_char x mod 16) = x"
  "char_of ((of_char x :: nat) div 64 * 64 + of_char x mod 64) = x"
  by (simp_all only: div_mult_mod_eq char_of_char)

lemma byte_high:
  "(of_char x :: nat) div 16 mod 16 = of_char x div 16" "(of_char x :: nat) div 64 mod 4 = of_char x div 64"
  by (simp_all add: div_less_iff_less_mult)

lemma b64_encode_no_newline:
  "good_encoding e \<Longrightarrow> c \<in> set (b64_encode e s) \<Longrightarrow> c \<noteq> CHR 0x0A \<and> c \<noteq> CHR 0x0D"
  by (induction e s rule: b64_encode.induct)
     (auto simp: Let_def pad_chars_def b64_char_neq byte_split split: if_splits)

lemma b64_groups_encode: "good_encoding e \<Longrightarrow> b64_groups e (b64_encode e s) = Some s"
proof (induction e s rule: b64_encode.induct)
  case (2 e x)
  have "(of_char x :: nat) mod 4 * 16 div 16 = of_char x mod 4" by simp
  with 2 show ?case
    by (simp add: Let_def pad_chars_def b64_tail2_def b64_digit_char byte_split byte_join
                  numeral_2_eq_2 del: div_mult_mod_eq)
next
  case (3 e x y)
  then show ?case
    by (simp add: Let_def pad_chars_def b64_tail3_def b64_digit_char byte_split byte_join byte_high b64_char_neq)
next
  case (4 e x y z s)
  then show ?case
    by (simp add: Let_def b64_digit_char byte_split byte_join byte_high b64_char_neq)
qed simp

lemma b64_decode_encode: "good_encoding e \<Longrightarrow> b64_decode e (b64_encode e s) = Some s"
proof -
  assume e: "good_encoding e"
  then have "filter (\<lambda>c. c \<noteq> CHR 0x0A \<and> c \<noteq> CHR 0x0D) (b64_encode e s) = b64_encode e s"
    by (simp add: filter_id_conv b64_encode_no_newline)
  with e show ?thesis by (simp add: b64_decode_def b64_groups_encode)
qed

section \<open>Unpadded URL encoding\<close>

text \<open>The bytes that need no escaping in a URL, and the encoding that produces only such bytes.\<close>

definition url_safe :: "char \<Rightarrow> bool" where
  "url_safe c \<longleftrightarrow> byte_in 97 122 c \<or> byte_in 65 90 c \<or> byte_in 48 57 c \<or> c \<in> set ''-_.~''"

definition raw_url_encoding :: base64_enc where
  "raw_url_encoding = raw_url_strict\<lparr>b64_strict := False\<rparr>"

lemma b64_encode_Nil_iff: "b64_encode e s = [] \<longleftrightarrow> s = []"
  by (cases "(e, s)" rule: b64_encode.cases) (simp_all add: Let_def)

lemma url_safe_visible: "url_safe c \<or> c = CHR ''%'' \<Longrightarrow> \<not> digit7 c \<and> \<not> is_ascii_space c"
  by (auto simp: url_safe_def byte_in_def digit7_iff is_ascii_space_iff)

lemma b64_decode_raw_url:
  "b64_decode raw_url_strict (b64_encode raw_url_encoding s) = Some s"
proof -
  have "b64_encode raw_url_encoding s = b64_encode raw_url_strict s" for s
    by (induction raw_url_strict s rule: b64_encode.induct)
       (simp_all add: raw_url_encoding_def b64_char_def pad_chars_def)
  then show ?thesis by (simp add: b64_decode_encode good_raw_url)
qed

lemma url_safe_b64_char: "d < 64 \<Longrightarrow> url_safe (b64_char raw_url_encoding d)"
proof -
  have "list_all url_safe (b64_alphabet raw_url_encoding)" by code_simp
  moreover have "length (b64_alphabet raw_url_encoding) = 64"
    by (simp add: raw_url_encoding_def raw_url_strict_def)
  ultimately show "d < 64 \<Longrightarrow> url_safe (b64_char raw_url_encoding d)"
    by (simp add: b64_char_def list_all_length)
qed

lemma url_safe_b64_encode: "list_all url_safe (b64_encode raw_url_encoding s)"
proof -
  have "\<not> b64_padding raw_url_encoding" by (simp add: raw_url_encoding_def raw_url_strict_def)
  then show ?thesis
    by (induction raw_url_encoding s rule: b64_encode.induct)
       (simp_all add: Let_def pad_chars_def url_safe_b64_char byte_split)
qed

lemma trim_b64_encode [simp]:
  "trim_space (b64_encode raw_url_encoding s) = b64_encode raw_url_encoding s"
proof (cases "b64_encode raw_url_encoding s = []")
  case False
  with url_safe_b64_encode[of s]
  have "url_safe (hd (b64_encode raw_url_encoding s))" "url_safe (last (b64_encode raw_url_encoding s))"
    by (simp_all add: list_all_iff)
  with False url_safe_visible show ?thesis by (intro trim_space_id) blast+
qed simp

end
