(* ===== verification/Access_Keys.thy ===== *)
theory Access_Keys
  imports Encodings
begin

text \<open>
  The access-key part of the Redis control plane, \<^verbatim>\<open>pkg/controlplane/redis.go\<close>. A Redis script runs
  atomically, so each script is a function on the part of the keyspace it touches: the records by
  their Redis key, the index from secret hashes to names and the index from accounts to names.
  Administrative operations that read first and write later are two calls.

  Records are stored as JSON; a stored value is the record it decodes to, or \<open>None\<close> where it does
  not decode. The keyed hash (HMAC-SHA256) is a field of the client. A Redis call of an
  operation fails, without effect, where \<open>up\<close> says so by the call's position. Times are
  integers, \<open>None\<close> is the zero time.
\<close>

section \<open>Data\<close>

record access_key_record =
  ar_Name :: string
  ar_SecretHash :: string
  ar_Status :: string
  ar_SubjectType :: string
  ar_SubjectID :: string
  ar_AccountID :: string
  ar_Provisioning :: string
  ar_ProvisioningError :: string
  ar_BillingInitialCredit :: string
  ar_BillingCurrency :: string
  ar_RoutePolicyID :: string
  ar_AllowedProviders :: "string list"
  ar_AllowedModels :: "string list"
  ar_ProviderKeyBindings :: "(string \<times> string) list"
  ar_CreatedAt :: "int option"
  ar_ExpiresAt :: "int option"
  ar_Version :: int
  ar_Metadata :: "(string \<times> string) list"

record client =
  cl_prefix :: string
  cl_hmac :: "string \<Rightarrow> string"
  cl_billingStream :: string
  cl_billingGroup :: string
  cl_billingConsumer :: string
  cl_billingMaxAttempts :: int

record key_db =
  kd_records :: "(string \<times> access_key_record option) list"
  kd_index :: "(string \<times> string) list"
  kd_accounts :: "(string \<times> string) list"

datatype cp_error =
    RedisDown
  | ScriptFailed
  | MissingNameOrHash
  | RecordUndecodable
  | AccountHasActiveKey
  | KeyNameTaken
  | KeySecretTaken
  | KeyNotFound
  | KeyVersionConflict
  | NoRandomness

type_synonym up = "nat \<Rightarrow> bool"

section \<open>Keys and hashes\<close>

definition trim_colons :: "string \<Rightarrow> string" where
  "trim_colons s = rev (dropWhile (\<lambda>c. c = CHR '':'') (rev (dropWhile (\<lambda>c. c = CHR '':'') s)))"

definition client_key :: "client \<Rightarrow> string list \<Rightarrow> string" where
  "client_key c parts = str_join '':'' (cl_prefix c # map (\<lambda>p. trim_colons (trim_space p)) parts)"

definition accessKeyRecordKey :: "client \<Rightarrow> string \<Rightarrow> string" where
  "accessKeyRecordKey c name = client_key c [''access_key'', name]"

definition HashAccessKey :: "client \<Rightarrow> string \<Rightarrow> string" where
  "HashAccessKey c secret = b64_encode raw_url_encoding (cl_hmac c secret)"

definition normalizeAccessKeyValues :: "string list \<Rightarrow> bool \<Rightarrow> string list" where
  "normalizeAccessKeyValues values lower = normalise_values (fold_value lower) [] values"

definition normalizeAccessKeyRecord :: "access_key_record \<Rightarrow> access_key_record" where
  "normalizeAccessKeyRecord r =
     (let name = trim_space (ar_Name r);
          sid = trim_space (ar_SubjectID r);
          sid' = (if sid = [] then name else sid);
          acct = trim_space (ar_AccountID r) in
      r\<lparr>ar_Name := name,
        ar_Status := trim_space (ar_Status r),
        ar_SubjectType := trim_space (ar_SubjectType r),
        ar_SubjectID := sid',
        ar_AccountID := (if acct = [] then sid' else acct),
        ar_RoutePolicyID := trim_space (ar_RoutePolicyID r),
        ar_AllowedProviders := normalizeAccessKeyValues (ar_AllowedProviders r) True,
        ar_AllowedModels := normalizeAccessKeyValues (ar_AllowedModels r) False,
        ar_ProviderKeyBindings := normalize_bindings [] (ar_ProviderKeyBindings r)\<rparr>)"

section \<open>Reading\<close>

definition GetAccessKeyRecord :: "client \<Rightarrow> bool \<Rightarrow> string \<Rightarrow> key_db \<Rightarrow> cp_error + access_key_record option" where
  "GetAccessKeyRecord c up name db =
     (if \<not> up then Inl RedisDown
      else
        case map_of (kd_records db) (accessKeyRecordKey c name) of
          None \<Rightarrow> Inr None
        | Some None \<Rightarrow> Inl RecordUndecodable
        | Some (Some r) \<Rightarrow>
            Inr (Some (normalizeAccessKeyRecord
              (if trim_space (ar_Name r) = [] then r\<lparr>ar_Name := trim_space name\<rparr> else r))))"

text \<open>The status must be active and the expiry, if any, not passed.\<close>

definition usable_record :: "int \<Rightarrow> access_key_record \<Rightarrow> bool" where
  "usable_record now r \<longleftrightarrow> ar_Status r = ''active'' \<and>
     (case ar_ExpiresAt r of None \<Rightarrow> True | Some t \<Rightarrow> \<not> t < now)"

definition GetAccessKey ::
    "client \<Rightarrow> bool \<Rightarrow> int \<Rightarrow> string \<Rightarrow> key_db \<Rightarrow> cp_error + access_key_record option" where
  "GetAccessKey c up now name db =
     bind_res (GetAccessKeyRecord c up name db) (\<lambda>r.
       Inr (case r of None \<Rightarrow> None | Some r \<Rightarrow> if usable_record now r then Some r else None))"

definition LookupAccessKey ::
    "client \<Rightarrow> up \<Rightarrow> int \<Rightarrow> string \<Rightarrow> key_db \<Rightarrow> cp_error + access_key_record option" where
  "LookupAccessKey c up now secret db =
     (if trim_space secret = [] then Inr None
      else if \<not> up 0 then Inl RedisDown
      else
        case map_of (kd_index db) (HashAccessKey c (trim_space secret)) of
          None \<Rightarrow> Inr None
        | Some name \<Rightarrow> GetAccessKey c (up 1) now name db)"

fun collect_records ::
    "(nat \<Rightarrow> string \<Rightarrow> cp_error + access_key_record option) \<Rightarrow> nat \<Rightarrow> string list
     \<Rightarrow> cp_error + access_key_record list" where
  "collect_records get i [] = Inr []"
| "collect_records get i (n # ns) =
     bind_res (get i n) (\<lambda>r.
     bind_res (collect_records get (Suc i) ns) (\<lambda>rs.
       Inr (case r of None \<Rightarrow> rs | Some r \<Rightarrow> r # rs)))"

definition ListAccessKeyRecords :: "client \<Rightarrow> up \<Rightarrow> key_db \<Rightarrow> cp_error + access_key_record list" where
  "ListAccessKeyRecords c up db =
     (if \<not> up 0 then Inl RedisDown
      else collect_records (\<lambda>i n. GetAccessKeyRecord c (up i) n db) 1 (map snd (kd_index db)))"

definition ListAccessKeys :: "client \<Rightarrow> up \<Rightarrow> int \<Rightarrow> key_db \<Rightarrow> cp_error + access_key_record list" where
  "ListAccessKeys c up now db =
     (if \<not> up 0 then Inl RedisDown
      else collect_records (\<lambda>i n. GetAccessKey c (up i) now n db) 1 (map snd (kd_index db)))"

section \<open>Writing\<close>

text \<open>\<^verbatim>\<open>HDEL\<close> of a field, if the field holds the given value.\<close>

definition hdel_if :: "string \<Rightarrow> string \<Rightarrow> (string \<times> string) list \<Rightarrow> (string \<times> string) list" where
  "hdel_if k v m = (if map_of m k = Some v then AList.delete k m else m)"

text \<open>The clean-up of the entries that the previous record owned.\<close>

definition release_previous :: "access_key_record \<Rightarrow> access_key_record \<Rightarrow> key_db \<Rightarrow> key_db" where
  "release_previous old r db =
     db\<lparr>kd_index := (if ar_SecretHash old \<noteq> ar_SecretHash r
                     then hdel_if (ar_SecretHash old) (ar_Name r) (kd_index db) else kd_index db),
        kd_accounts := (if ar_AccountID old \<noteq> [] \<and> ar_AccountID old \<noteq> ar_AccountID r
                        then hdel_if (ar_AccountID old) (ar_Name r) (kd_accounts db) else kd_accounts db)\<rparr>"

definition store_record :: "client \<Rightarrow> access_key_record \<Rightarrow> key_db \<Rightarrow> key_db" where
  "store_record c r db =
     db\<lparr>kd_records := AList.update (accessKeyRecordKey c (ar_Name r)) (Some r) (kd_records db),
        kd_index := AList.update (ar_SecretHash r) (ar_Name r) (kd_index db),
        kd_accounts := (if ar_Status r = ''active'' then AList.update (ar_AccountID r) (ar_Name r) (kd_accounts db)
                        else hdel_if (ar_AccountID r) (ar_Name r) (kd_accounts db))\<rparr>"

definition putScript :: "client \<Rightarrow> access_key_record \<Rightarrow> key_db \<Rightarrow> (cp_error + unit) \<times> key_db" where
  "putScript c r db =
     (if ar_Status r = ''active'' \<and> map_of (kd_accounts db) (ar_AccountID r) \<notin> {None, Some (ar_Name r)}
      then (Inl AccountHasActiveKey, db)
      else
        case map_of (kd_records db) (accessKeyRecordKey c (ar_Name r)) of
          Some None \<Rightarrow> (Inl ScriptFailed, db)
        | Some (Some old) \<Rightarrow> (Inr (), store_record c r (release_previous old r db))
        | None \<Rightarrow> (Inr (), store_record c r db))"

definition fresh_record :: "int \<Rightarrow> access_key_record \<Rightarrow> access_key_record" where
  "fresh_record now record =
     (let r = normalizeAccessKeyRecord record in
      r\<lparr>ar_Status := (if ar_Status r = [] then ''active'' else ar_Status r),
        ar_CreatedAt := (if ar_CreatedAt r = None then Some now else ar_CreatedAt r)\<rparr>)"

definition PutAccessKey ::
    "client \<Rightarrow> bool \<Rightarrow> int \<Rightarrow> access_key_record \<Rightarrow> key_db \<Rightarrow> (cp_error + unit) \<times> key_db" where
  "PutAccessKey c up now record db =
     (if trim_space (ar_Name record) = [] \<or> trim_space (ar_SecretHash record) = []
      then (Inl MissingNameOrHash, db)
      else if \<not> up then (Inl RedisDown, db)
      else putScript c (fresh_record now record) db)"

definition UpdateAccessKeyRouting ::
    "client \<Rightarrow> bool \<Rightarrow> access_key_record \<Rightarrow> int \<Rightarrow> key_db \<Rightarrow> (cp_error + unit) \<times> key_db" where
  "UpdateAccessKeyRouting c up record expectedVersion db =
     (if trim_space (ar_Name record) = [] \<or> trim_space (ar_SecretHash record) = []
      then (Inl MissingNameOrHash, db)
      else if \<not> up then (Inl RedisDown, db)
      else
        let r = (normalizeAccessKeyRecord record)\<lparr>ar_Version := expectedVersion + 1\<rparr>;
            k = accessKeyRecordKey c (ar_Name r) in
        case map_of (kd_records db) k of
          None \<Rightarrow> (Inl KeyNotFound, db)
        | Some None \<Rightarrow> (Inl ScriptFailed, db)
        | Some (Some old) \<Rightarrow>
            if ar_Version old \<noteq> expectedVersion then (Inl KeyVersionConflict, db)
            else (Inr (), db\<lparr>kd_records := AList.update k (Some r) (kd_records db)\<rparr>))"

definition CreateAccessKey ::
    "client \<Rightarrow> bool \<Rightarrow> int \<Rightarrow> access_key_record \<Rightarrow> key_db \<Rightarrow> (cp_error + unit) \<times> key_db" where
  "CreateAccessKey c up now record db =
     (if trim_space (ar_Name record) = [] \<or> trim_space (ar_SecretHash record) = []
      then (Inl MissingNameOrHash, db)
      else if \<not> up then (Inl RedisDown, db)
      else
        let r = fresh_record now record; k = accessKeyRecordKey c (ar_Name r) in
        if map_of (kd_records db) k \<noteq> None then (Inl KeyNameTaken, db)
        else if map_of (kd_index db) (ar_SecretHash r) \<noteq> None then (Inl KeySecretTaken, db)
        else if ar_Status r = ''active'' \<and> map_of (kd_accounts db) (ar_AccountID r) \<noteq> None
        then (Inl AccountHasActiveKey, db)
        else
          (Inr (), db\<lparr>kd_records := AList.update k (Some r) (kd_records db),
                      kd_index := AList.update (ar_SecretHash r) (ar_Name r) (kd_index db),
                      kd_accounts := (if ar_Status r = ''active''
                        then AList.update (ar_AccountID r) (ar_Name r) (kd_accounts db)
                        else kd_accounts db)\<rparr>))"

text \<open>
  Revocation and rotation read the record and write it in a later call; \<open>revoke_commit\<close> and
  \<open>rotate_commit\<close> are the second halves, on the record read before.
\<close>

definition revoke_commit ::
    "client \<Rightarrow> bool \<Rightarrow> int \<Rightarrow> access_key_record \<Rightarrow> key_db \<Rightarrow> (cp_error + unit) \<times> key_db" where
  "revoke_commit c up now r db =
     PutAccessKey c up now (r\<lparr>ar_Status := ''revoked'', ar_Version := ar_Version r + 1\<rparr>) db"

definition RevokeAccessKey ::
    "client \<Rightarrow> up \<Rightarrow> int \<Rightarrow> string \<Rightarrow> key_db \<Rightarrow> (cp_error + unit) \<times> key_db" where
  "RevokeAccessKey c up now name db =
     (case GetAccessKeyRecord c (up 0) name db of
        Inl e \<Rightarrow> (Inl e, db)
      | Inr None \<Rightarrow> (Inr (), db)
      | Inr (Some r) \<Rightarrow> revoke_commit c (up 1) now r db)"

definition NewAccessKeySecret :: "string option \<Rightarrow> cp_error + string" where
  "NewAccessKeySecret rand =
     (case rand of
        None \<Rightarrow> Inl NoRandomness
      | Some buf \<Rightarrow> Inr (''ak_'' @ b64_encode raw_url_encoding buf))"

definition rotate_commit ::
    "client \<Rightarrow> bool \<Rightarrow> string \<Rightarrow> access_key_record \<Rightarrow> key_db \<Rightarrow> (cp_error + string) \<times> key_db" where
  "rotate_commit c up secret r0 db =
     (if \<not> up then (Inl RedisDown, db)
      else
        let r = r0\<lparr>ar_SecretHash := HashAccessKey c secret, ar_Version := ar_Version r0 + 1\<rparr> in
        (Inr secret,
         db\<lparr>kd_index := AList.update (ar_SecretHash r) (ar_Name r)
                          (AList.delete (ar_SecretHash r0) (kd_index db)),
            kd_records := AList.update (accessKeyRecordKey c (ar_Name r)) (Some r) (kd_records db)\<rparr>))"

definition RotateAccessKey ::
    "client \<Rightarrow> up \<Rightarrow> string option \<Rightarrow> string \<Rightarrow> key_db \<Rightarrow> (cp_error + string) \<times> key_db" where
  "RotateAccessKey c up rand name db =
     (case GetAccessKeyRecord c (up 0) name db of
        Inl e \<Rightarrow> (Inl e, db)
      | Inr None \<Rightarrow> (Inl KeyNotFound, db)
      | Inr (Some r) \<Rightarrow>
          (case NewAccessKeySecret rand of
             Inl e \<Rightarrow> (Inl e, db)
           | Inr secret \<Rightarrow> rotate_commit c (up 1) secret r db))"

section \<open>Normalised records\<close>

definition normal_binding :: "string \<times> string \<Rightarrow> bool" where
  "normal_binding b \<longleftrightarrow> to_lower (trim_space (fst b)) = fst b \<and> trim_space (snd b) = snd b \<and>
     fst b \<noteq> [] \<and> snd b \<noteq> []"

lemma update_fresh: "k \<notin> fst ` set m \<Longrightarrow> AList.update k v m = m @ [(k, v)]"
  by (induction m) auto

lemma normalize_bindings_fixed:
  "distinct (map fst (out @ bs)) \<Longrightarrow> list_all normal_binding bs \<Longrightarrow> normalize_bindings out bs = out @ bs"
proof (induction bs arbitrary: out)
  case (Cons b bs)
  obtain p k where b: "b = (p, k)" by force
  with Cons.prems have "normalize_bindings out (b # bs) = normalize_bindings (AList.update p k out) bs"
    by (simp add: normal_binding_def Let_def)
  also have "AList.update p k out = out @ [b]" using Cons.prems b by (simp add: update_fresh)
  also have "normalize_bindings (out @ [b]) bs = (out @ [b]) @ bs"
    by (rule Cons.IH) (use Cons.prems in auto)
  finally show ?case by simp
qed simp

lemma normalize_bindings_normal:
  "distinct (map fst out) \<Longrightarrow> list_all normal_binding out \<Longrightarrow>
   distinct (map fst (normalize_bindings out bs)) \<and> list_all normal_binding (normalize_bindings out bs)"
proof (induction bs arbitrary: out)
  case (Cons b bs)
  obtain p k where b: "b = (p, k)" by force
  let ?out = "if to_lower (trim_space p) \<noteq> [] \<and> trim_space k \<noteq> []
    then AList.update (to_lower (trim_space p)) (trim_space k) out else out"
  have "distinct (map fst ?out)" using Cons.prems by (simp add: distinct_update)
  moreover have "list_all normal_binding ?out"
    using Cons.prems(2) unfolding list_all_iff
    by (auto simp: normal_binding_def trim_space_to_lower dest!: in_set_update)
  ultimately show ?case using Cons.IH[of ?out] b by (simp only: normalize_bindings.simps Let_def)
qed simp

lemma normalize_bindings_idem: "normalize_bindings [] (normalize_bindings [] bs) = normalize_bindings [] bs"
  using normalize_bindings_normal[of "[]" bs] normalize_bindings_fixed[of "[]" "normalize_bindings [] bs"]
  by simp

interpretation key_values: value_normaliser "fold_value lower" "\<lambda>vs. normalizeAccessKeyValues vs lower" for lower
  by unfold_locales (simp_all add: normalizeAccessKeyValues_def)

lemma normalizeAccessKeyRecord_idem [simp]:
  "normalizeAccessKeyRecord (normalizeAccessKeyRecord r) = normalizeAccessKeyRecord r"
  by (simp add: normalizeAccessKeyRecord_def Let_def normalize_bindings_idem key_values.norm_idem)

lemma normalizeAccessKeyRecord_sel [simp]:
  "ar_Name (normalizeAccessKeyRecord r) = trim_space (ar_Name r)"
  "ar_SecretHash (normalizeAccessKeyRecord r) = ar_SecretHash r"
  "ar_Status (normalizeAccessKeyRecord r) = trim_space (ar_Status r)"
  "ar_ExpiresAt (normalizeAccessKeyRecord r) = ar_ExpiresAt r"
  by (simp_all add: normalizeAccessKeyRecord_def Let_def)

lemma normalizeAccessKeyRecord_update [simp]:
  "normalizeAccessKeyRecord (r\<lparr>ar_SecretHash := h\<rparr>) = (normalizeAccessKeyRecord r)\<lparr>ar_SecretHash := h\<rparr>"
  "normalizeAccessKeyRecord (r\<lparr>ar_Version := v\<rparr>) = (normalizeAccessKeyRecord r)\<lparr>ar_Version := v\<rparr>"
  "normalizeAccessKeyRecord (r\<lparr>ar_CreatedAt := t\<rparr>) = (normalizeAccessKeyRecord r)\<lparr>ar_CreatedAt := t\<rparr>"
  "normalizeAccessKeyRecord (r\<lparr>ar_Status := s\<rparr>) =
     (normalizeAccessKeyRecord r)\<lparr>ar_Status := trim_space s\<rparr>"
  by (simp_all add: normalizeAccessKeyRecord_def Let_def)

section \<open>The invariant of the access-key store\<close>

definition good_record :: "access_key_record \<Rightarrow> bool" where
  "good_record r \<longleftrightarrow> normalizeAccessKeyRecord r = r \<and> ar_Name r \<noteq> [] \<and> trim_colons (ar_Name r) = ar_Name r"

abbreviation rec_at :: "client \<Rightarrow> key_db \<Rightarrow> string \<Rightarrow> access_key_record option option" where
  "rec_at c db n \<equiv> map_of (kd_records db) (accessKeyRecordKey c n)"

text \<open>
  Every record decodes, is normalised and stands under the key of its name; an index entry leads
  to a record with that hash; an account entry leads to the active record of that account, and
  every active record has one.
\<close>

definition wf_records :: "client \<Rightarrow> key_db \<Rightarrow> bool" where
  "wf_records c db \<longleftrightarrow> (\<forall>k v. map_of (kd_records db) k = Some v \<longrightarrow>
     (\<exists>r. v = Some r \<and> good_record r \<and> k = accessKeyRecordKey c (ar_Name r)))"

definition wf_index :: "client \<Rightarrow> key_db \<Rightarrow> bool" where
  "wf_index c db \<longleftrightarrow> (\<forall>h n. map_of (kd_index db) h = Some n \<longrightarrow>
     (\<exists>r. rec_at c db n = Some (Some r) \<and> ar_Name r = n \<and> ar_SecretHash r = h))"

definition wf_accounts :: "client \<Rightarrow> key_db \<Rightarrow> bool" where
  "wf_accounts c db \<longleftrightarrow> (\<forall>a n. map_of (kd_accounts db) a = Some n \<longrightarrow>
     (\<exists>r. rec_at c db n = Some (Some r) \<and> ar_Name r = n \<and> ar_AccountID r = a \<and> ar_Status r = ''active''))"

definition wf_active :: "key_db \<Rightarrow> bool" where
  "wf_active db \<longleftrightarrow> (\<forall>k r. map_of (kd_records db) k = Some (Some r) \<longrightarrow> ar_Status r = ''active'' \<longrightarrow>
     map_of (kd_accounts db) (ar_AccountID r) = Some (ar_Name r))"

definition wf_keys :: "client \<Rightarrow> key_db \<Rightarrow> bool" where
  "wf_keys c db \<longleftrightarrow> wf_records c db \<and> wf_index c db \<and> wf_accounts c db \<and> wf_active db"

lemma good_recordD:
  assumes "good_record r"
  shows "trim_space (ar_Name r) = ar_Name r" "trim_space (ar_Status r) = ar_Status r"
    "ar_AccountID r \<noteq> []" "normalizeAccessKeyRecord r = r" "ar_Name r \<noteq> []"
proof -
  from assms have n: "normalizeAccessKeyRecord r = r" "ar_Name r \<noteq> []" by (simp_all add: good_record_def)
  show "normalizeAccessKeyRecord r = r" "ar_Name r \<noteq> []" by (rule n)+
  show "trim_space (ar_Name r) = ar_Name r" by (metis n(1) normalizeAccessKeyRecord_sel(1))
  then have "trim_space (ar_Name r) \<noteq> []" using n(2) by simp
  then have "ar_AccountID (normalizeAccessKeyRecord r) \<noteq> []"
    by (simp add: normalizeAccessKeyRecord_def Let_def)
  then show "ar_AccountID r \<noteq> []" using n(1) by simp
  show "trim_space (ar_Status r) = ar_Status r" by (metis n(1) normalizeAccessKeyRecord_sel(3))
qed

lemma accessKeyRecordKey_eq:
  "accessKeyRecordKey c n = cl_prefix c @ '':access_key:'' @ trim_colons (trim_space n)"
proof -
  have "trim_colons (trim_space ''access_key'') = ''access_key''" by code_simp
  then show ?thesis by (simp add: accessKeyRecordKey_def client_key_def)
qed

lemma record_key_inj:
  "good_record r \<Longrightarrow> good_record r' \<Longrightarrow>
     accessKeyRecordKey c (ar_Name r) = accessKeyRecordKey c (ar_Name r') \<longleftrightarrow> ar_Name r = ar_Name r'"
proof -
  have "trim_colons (trim_space (ar_Name r)) = ar_Name r" if "good_record r" for r
    using that good_recordD(1)[OF that] by (simp add: good_record_def)
  then show "good_record r \<Longrightarrow> good_record r' \<Longrightarrow>
     accessKeyRecordKey c (ar_Name r) = accessKeyRecordKey c (ar_Name r') \<longleftrightarrow> ar_Name r = ar_Name r'"
    by (simp add: accessKeyRecordKey_eq)
qed

lemma rec_atD:
  assumes "wf_keys c db" "rec_at c db n = Some v"
  obtains r where "v = Some r" "good_record r" "accessKeyRecordKey c n = accessKeyRecordKey c (ar_Name r)"
proof -
  from assms(1) have "\<forall>k v. map_of (kd_records db) k = Some v \<longrightarrow>
      (\<exists>r. v = Some r \<and> good_record r \<and> k = accessKeyRecordKey c (ar_Name r))"
    unfolding wf_keys_def wf_records_def by blast
  with assms(2) that show thesis by blast
qed

lemma map_of_hdel_if: "map_of (hdel_if k v m) = (if map_of m k = Some v then (map_of m)(k := None) else map_of m)"
  by (simp add: hdel_if_def delete_conv')

lemma store_record_maps:
  "map_of (kd_records (store_record c r db)) =
     (map_of (kd_records db))(accessKeyRecordKey c (ar_Name r) \<mapsto> Some r)"
  "map_of (kd_index (store_record c r db)) = (map_of (kd_index db))(ar_SecretHash r \<mapsto> ar_Name r)"
  "map_of (kd_accounts (store_record c r db)) =
     (if ar_Status r = ''active'' then (map_of (kd_accounts db))(ar_AccountID r \<mapsto> ar_Name r)
      else if map_of (kd_accounts db) (ar_AccountID r) = Some (ar_Name r)
      then (map_of (kd_accounts db))(ar_AccountID r := None) else map_of (kd_accounts db))"
  by (simp_all add: store_record_def update_conv' map_of_hdel_if)

lemma release_previous_maps:
  "kd_records (release_previous old r db) = kd_records db"
  "map_of (kd_index (release_previous old r db)) =
     (if ar_SecretHash old \<noteq> ar_SecretHash r \<and> map_of (kd_index db) (ar_SecretHash old) = Some (ar_Name r)
      then (map_of (kd_index db))(ar_SecretHash old := None) else map_of (kd_index db))"
  "map_of (kd_accounts (release_previous old r db)) =
     (if ar_AccountID old \<noteq> [] \<and> ar_AccountID old \<noteq> ar_AccountID r \<and>
         map_of (kd_accounts db) (ar_AccountID old) = Some (ar_Name r)
      then (map_of (kd_accounts db))(ar_AccountID old := None) else map_of (kd_accounts db))"
  by (simp_all add: release_previous_def map_of_hdel_if)

lemmas store_defs = store_record_maps release_previous_maps

text \<open>
  Storing a record over what stood under its name, when no other name holds the account.
\<close>

definition stores :: "client \<Rightarrow> access_key_record \<Rightarrow> key_db \<Rightarrow> key_db \<Rightarrow> bool" where
  "stores c r db db' \<longleftrightarrow> wf_keys c db \<and> good_record r \<and>
     (ar_Status r = ''active'' \<longrightarrow> map_of (kd_accounts db) (ar_AccountID r) \<in> {None, Some (ar_Name r)}) \<and>
     (rec_at c db (ar_Name r) = None \<and> db' = store_record c r db \<or>
      (\<exists>old. rec_at c db (ar_Name r) = Some (Some old) \<and> db' = store_record c r (release_previous old r db)))"

lemma stores_records:
  "stores c r db db' \<Longrightarrow>
     map_of (kd_records db') = (map_of (kd_records db))(accessKeyRecordKey c (ar_Name r) \<mapsto> Some r)"
  by (auto simp: stores_def store_defs)

lemma stores_old:
  assumes "stores c r db db'" "rec_at c db (ar_Name r) = Some (Some old)"
  shows "ar_Name old = ar_Name r" "good_record old" "db' = store_record c r (release_previous old r db)"
proof -
  from assms have wf: "wf_keys c db" "good_record r" by (simp_all add: stores_def)
  from rec_atD[OF wf(1) assms(2)] obtain q where q: "Some old = Some q" "good_record q"
    "accessKeyRecordKey c (ar_Name r) = accessKeyRecordKey c (ar_Name q)" by blast
  then show "good_record old" "ar_Name old = ar_Name r" using record_key_inj[OF wf(2) q(2)] by simp_all
  show "db' = store_record c r (release_previous old r db)" using assms by (auto simp: stores_def)
qed

lemma stores_other:
  assumes st: "stores c r db db'" and q: "rec_at c db n = Some (Some q)" "ar_Name q = n" "n \<noteq> ar_Name r"
  shows "rec_at c db' n = Some (Some q)"
proof -
  from st have wf: "wf_keys c db" "good_record r" by (simp_all add: stores_def)
  from rec_atD[OF wf(1) q(1)] have "good_record q" by auto
  with record_key_inj[OF wf(2)] q have "accessKeyRecordKey c n \<noteq> accessKeyRecordKey c (ar_Name r)" by metis
  then show ?thesis using q(1) by (simp add: stores_records[OF st])
qed

lemma stores_index:
  assumes st: "stores c r db db'" and h: "map_of (kd_index db') h = Some n"
  shows "h = ar_SecretHash r \<and> n = ar_Name r \<or>
         h \<noteq> ar_SecretHash r \<and> map_of (kd_index db) h = Some n \<and> n \<noteq> ar_Name r"
proof (cases "h = ar_SecretHash r")
  case True
  with h st show ?thesis by (auto simp: stores_def store_defs)
next
  case False
  then have i: "map_of (kd_index db) h = Some n"
    using h st by (auto simp: stores_def store_defs split: if_splits)
  have "n \<noteq> ar_Name r"
  proof
    assume n: "n = ar_Name r"
    from st i obtain old where old: "rec_at c db n = Some (Some old)" "ar_SecretHash old = h"
      by (auto simp: stores_def wf_keys_def wf_index_def)
    with n stores_old(3)[OF st] have "db' = store_record c r (release_previous old r db)" by simp
    with h old i n False show False by (auto simp: store_defs split: if_splits)
  qed
  with i False show ?thesis by simp
qed

lemma stores_accounts:
  assumes st: "stores c r db db'" and a: "map_of (kd_accounts db') a = Some n"
  shows "n = ar_Name r \<and> a = ar_AccountID r \<and> ar_Status r = ''active'' \<or>
    map_of (kd_accounts db) a = Some n \<and> n \<noteq> ar_Name r"
proof (cases "ar_Status r = ''active'' \<and> a = ar_AccountID r")
  case True
  with a st show ?thesis by (auto simp: stores_def store_defs)
next
  case False
  then have i: "map_of (kd_accounts db) a = Some n"
    using a st by (auto simp: stores_def store_defs split: if_splits)
  have "n \<noteq> ar_Name r"
  proof
    assume n: "n = ar_Name r"
    from st i obtain old where old: "rec_at c db n = Some (Some old)" "ar_AccountID old = a"
      by (auto simp: stores_def wf_keys_def wf_accounts_def)
    note o = stores_old[OF st old(1)[unfolded n]]
    from old o good_recordD(3) have "a \<noteq> []" by blast
    with a False o(3) old i n show False by (auto simp: store_defs split: if_splits)
  qed
  with i show ?thesis by simp
qed

lemma stores_index_wf: "stores c r db db' \<Longrightarrow> wf_index c db'"
  unfolding wf_index_def
proof (intro allI impI)
  fix h n assume st: "stores c r db db'" and h: "map_of (kd_index db') h = Some n"
  from stores_index[OF st h] show "\<exists>r. rec_at c db' n = Some (Some r) \<and> ar_Name r = n \<and> ar_SecretHash r = h"
  proof
    assume *: "h \<noteq> ar_SecretHash r \<and> map_of (kd_index db) h = Some n \<and> n \<noteq> ar_Name r"
    with st obtain q where "rec_at c db n = Some (Some q)" "ar_Name q = n" "ar_SecretHash q = h"
      unfolding stores_def wf_keys_def wf_index_def by blast
    with stores_other[OF st] * show ?thesis by blast
  qed (simp add: stores_records[OF st])
qed

lemma stores_accounts_wf: "stores c r db db' \<Longrightarrow> wf_accounts c db'"
  unfolding wf_accounts_def
proof (intro allI impI)
  fix a n assume st: "stores c r db db'" and a: "map_of (kd_accounts db') a = Some n"
  from stores_accounts[OF st a] show "\<exists>r. rec_at c db' n = Some (Some r) \<and> ar_Name r = n \<and>
      ar_AccountID r = a \<and> ar_Status r = ''active''"
  proof
    assume *: "map_of (kd_accounts db) a = Some n \<and> n \<noteq> ar_Name r"
    with st obtain q where "rec_at c db n = Some (Some q)" "ar_Name q = n" "ar_AccountID q = a"
      "ar_Status q = ''active''" unfolding stores_def wf_keys_def wf_accounts_def by blast
    with stores_other[OF st] * show ?thesis by blast
  qed (simp add: stores_records[OF st])
qed

lemma stores_active_wf: "stores c r db db' \<Longrightarrow> wf_active db'"
  unfolding wf_active_def
proof (intro allI impI)
  fix k q assume st: "stores c r db db'"
    and q: "map_of (kd_records db') k = Some (Some q)" "ar_Status q = ''active''"
  show "map_of (kd_accounts db') (ar_AccountID q) = Some (ar_Name q)"
  proof (cases "k = accessKeyRecordKey c (ar_Name r)")
    case True
    with q have "q = r" by (simp add: stores_records[OF st])
    with q(2) st show ?thesis by (auto simp: stores_def store_defs)
  next
    case False
    with q have k: "map_of (kd_records db) k = Some (Some q)" by (simp add: stores_records[OF st])
    with st have a: "map_of (kd_accounts db) (ar_AccountID q) = Some (ar_Name q)"
      and kq: "k = accessKeyRecordKey c (ar_Name q)"
      using q(2) unfolding stores_def wf_keys_def wf_active_def wf_records_def by blast+
    from kq False have n: "ar_Name q \<noteq> ar_Name r" by auto
    with a st have "\<not> (ar_Status r = ''active'' \<and> ar_AccountID q = ar_AccountID r)"
      by (auto simp: stores_def)
    with a n st show ?thesis by (auto simp: stores_def store_defs)
  qed
qed

lemma stores_wf: "stores c r db db' \<Longrightarrow> wf_keys c db'"
proof -
  assume st: "stores c r db db'"
  then have "wf_records c db'"
    by (auto simp: stores_records[OF st] wf_records_def stores_def wf_keys_def split: if_splits)
  with st show ?thesis
    by (simp add: wf_keys_def stores_index_wf stores_accounts_wf stores_active_wf)
qed

lemma replace_wf:
  assumes wf: "wf_keys c db" and r0: "rec_at c db (ar_Name r0) = Some (Some r0)" and good: "good_record r"
    and same: "ar_Name r = ar_Name r0" "ar_AccountID r = ar_AccountID r0" "ar_Status r = ar_Status r0"
    and recs: "map_of (kd_records db') = (map_of (kd_records db))(accessKeyRecordKey c (ar_Name r) \<mapsto> Some r)"
    and accs: "kd_accounts db' = kd_accounts db"
    and idx: "\<And>h n. map_of (kd_index db') h = Some n \<Longrightarrow> h = ar_SecretHash r \<and> n = ar_Name r \<or>
      map_of (kd_index db) h = Some n \<and> (n = ar_Name r \<longrightarrow> h = ar_SecretHash r)"
  shows "wf_keys c db'"
proof -
  have self: "rec_at c db' (ar_Name r) = Some (Some r)" by (simp add: recs)
  have other: "rec_at c db' n = Some (Some q)"
    if q: "rec_at c db n = Some (Some q)" "ar_Name q = n" "n \<noteq> ar_Name r" for n q
  proof -
    from rec_atD[OF wf q(1)] have "good_record q" by auto
    with record_key_inj[OF good] q have "accessKeyRecordKey c n \<noteq> accessKeyRecordKey c (ar_Name r)" by metis
    then show ?thesis using q(1) by (simp add: recs)
  qed
  have "wf_records c db'" using wf good by (auto simp: wf_keys_def wf_records_def recs)
  moreover have "wf_index c db'" unfolding wf_index_def
  proof (intro allI impI)
    fix h n assume "map_of (kd_index db') h = Some n"
    from idx[OF this] show "\<exists>q. rec_at c db' n = Some (Some q) \<and> ar_Name q = n \<and> ar_SecretHash q = h"
    proof
      assume *: "map_of (kd_index db) h = Some n \<and> (n = ar_Name r \<longrightarrow> h = ar_SecretHash r)"
      with wf obtain q where "rec_at c db n = Some (Some q)" "ar_Name q = n" "ar_SecretHash q = h"
        unfolding wf_keys_def wf_index_def by blast
      then show ?thesis
      proof (cases "n = ar_Name r")
        case True
        with self * show ?thesis by auto
      next
        case False
        with other \<open>rec_at c db n = Some (Some q)\<close> \<open>ar_Name q = n\<close> \<open>ar_SecretHash q = h\<close>
        show ?thesis by blast
      qed
    qed (use self in simp)
  qed
  moreover have "wf_accounts c db'" unfolding wf_accounts_def
  proof (intro allI impI)
    fix a n assume "map_of (kd_accounts db') a = Some n"
    with wf accs obtain q where q: "rec_at c db n = Some (Some q)" "ar_Name q = n" "ar_AccountID q = a"
      "ar_Status q = ''active''" unfolding wf_keys_def wf_accounts_def by auto
    show "\<exists>q. rec_at c db' n = Some (Some q) \<and> ar_Name q = n \<and> ar_AccountID q = a \<and> ar_Status q = ''active''"
    proof (cases "n = ar_Name r")
      case True
      with q r0 same have "q = r0" by simp
      with True q self same show ?thesis by simp
    qed (use q other in blast)
  qed
  moreover have "wf_active db'" unfolding wf_active_def
  proof (intro allI impI)
    fix k q assume q: "map_of (kd_records db') k = Some (Some q)" "ar_Status q = ''active''"
    have act: "map_of (kd_records db) k = Some (Some p) \<Longrightarrow> ar_Status p = ''active'' \<Longrightarrow>
        map_of (kd_accounts db) (ar_AccountID p) = Some (ar_Name p)" for k p
      using wf unfolding wf_keys_def wf_active_def by blast
    from q act[of _ r0, OF r0] act[of k q] same
    show "map_of (kd_accounts db') (ar_AccountID q) = Some (ar_Name q)"
      by (auto simp: recs accs split: if_splits)
  qed
  ultimately show ?thesis by (simp add: wf_keys_def)
qed

section \<open>Operations preserve the invariant\<close>

definition canonical_name :: "string \<Rightarrow> bool" where
  "canonical_name n \<longleftrightarrow> trim_colons (trim_space n) = trim_space n"

lemma trim_status [simp]: "trim_space ''active'' = ''active''" "trim_space ''revoked'' = ''revoked''"
  by code_simp+

lemma fresh_good:
  "trim_space (ar_Name record) \<noteq> [] \<Longrightarrow> canonical_name (ar_Name record) \<Longrightarrow> good_record (fresh_record now record)"
  by (simp add: good_record_def fresh_record_def canonical_name_def Let_def)

lemma good_update:
  assumes "good_record r"
  shows "good_record (r\<lparr>ar_SecretHash := h, ar_Version := v\<rparr>)"
  using assms good_recordD(4)[OF assms] by (simp add: good_record_def)

lemma putScript_stores:
  "putScript c r db = (Inr (), db') \<Longrightarrow> wf_keys c db \<Longrightarrow> good_record r \<Longrightarrow> stores c r db db'"
  by (auto simp: putScript_def stores_def split: if_splits option.splits)

lemma putScript_error: "putScript c r db = (Inl e, db') \<Longrightarrow> db' = db"
  by (auto simp: putScript_def split: if_splits option.splits)

lemma putScript_wf: "wf_keys c db \<Longrightarrow> good_record r \<Longrightarrow> wf_keys c (snd (putScript c r db))"
  by (cases "putScript c r db"; cases "fst (putScript c r db)")
     (auto dest: putScript_stores stores_wf putScript_error)

lemma PutAccessKey_wf:
  "wf_keys c db \<Longrightarrow> canonical_name (ar_Name record) \<Longrightarrow> wf_keys c (snd (PutAccessKey c up now record db))"
  by (simp add: PutAccessKey_def putScript_wf fresh_good)

lemma CreateAccessKey_wf:
  assumes wf: "wf_keys c db" and "canonical_name (ar_Name record)"
  shows "wf_keys c (snd (CreateAccessKey c up now record db))"
proof (cases "CreateAccessKey c up now record db")
  case (Pair res db')
  let ?r = "fresh_record now record"
  show ?thesis
  proof (cases res)
    case (Inr u)
    have none: "map_of (kd_accounts db) (ar_AccountID ?r) \<noteq> Some (ar_Name ?r)"
      if "rec_at c db (ar_Name ?r) = None"
      using wf that unfolding wf_keys_def wf_accounts_def by fastforce
    from Pair Inr assms have "stores c ?r db db'"
      using none by (auto simp: CreateAccessKey_def Let_def stores_def store_record_def hdel_if_def
          fresh_good split: if_splits)
    with Pair show ?thesis by (simp add: stores_wf)
  next
    case (Inl e)
    with Pair have "db' = db" by (auto simp: CreateAccessKey_def Let_def split: if_splits)
    with Pair wf show ?thesis by simp
  qed
qed

lemma GetAccessKeyRecord_iff:
  assumes "wf_keys c db"
  shows "GetAccessKeyRecord c up name db = Inr (Some r) \<longleftrightarrow> up \<and> rec_at c db name = Some (Some r)"
proof (cases "rec_at c db name")
  case (Some v)
  from rec_atD[OF assms this] obtain q where q: "v = Some q" "good_record q" by blast
  from good_recordD[OF q(2)] have "trim_space (ar_Name q) \<noteq> []" by simp
  then show ?thesis using Some q(1) good_recordD(4)[OF q(2)] by (auto simp: GetAccessKeyRecord_def)
qed (simp add: GetAccessKeyRecord_def)

lemma rec_at_canonical:
  assumes "wf_keys c db" "rec_at c db name = Some (Some r)"
  shows "good_record r" "rec_at c db (ar_Name r) = Some (Some r)"
proof -
  from rec_atD[OF assms] obtain q where "Some r = Some q" "good_record q"
    "accessKeyRecordKey c name = accessKeyRecordKey c (ar_Name q)" by blast
  with assms(2) show "good_record r" "rec_at c db (ar_Name r) = Some (Some r)" by simp_all
qed

lemma good_canonical: "good_record r \<Longrightarrow> canonical_name (ar_Name r)"
  using good_recordD(1)[of r] by (simp add: canonical_name_def good_record_def)

lemma RevokeAccessKey_wf:
  assumes wf: "wf_keys c db" shows "wf_keys c (snd (RevokeAccessKey c up now name db))"
proof (cases "GetAccessKeyRecord c (up 0) name db")
  case (Inr v)
  then show ?thesis
  proof (cases v)
    case (Some r)
    with Inr wf have "rec_at c db name = Some (Some r)" by (simp add: GetAccessKeyRecord_iff)
    from rec_at_canonical(1)[OF wf this] have "canonical_name (ar_Name r)" by (rule good_canonical)
    with Inr Some wf show ?thesis by (simp add: RevokeAccessKey_def revoke_commit_def PutAccessKey_wf)
  qed (use wf in \<open>simp add: RevokeAccessKey_def\<close>)
qed (use wf in \<open>simp add: RevokeAccessKey_def\<close>)

lemma rotate_commit_wf:
  assumes wf: "wf_keys c db" and r0: "rec_at c db (ar_Name r0) = Some (Some r0)"
  shows "wf_keys c (snd (rotate_commit c up secret r0 db))"
proof (cases up)
  case True
  let ?r = "r0\<lparr>ar_SecretHash := HashAccessKey c secret, ar_Version := ar_Version r0 + 1\<rparr>"
  show ?thesis
  proof (rule replace_wf[OF wf r0, of ?r])
    show "good_record ?r" by (rule good_update[OF rec_at_canonical(1)[OF wf r0]])
    fix h n assume "map_of (kd_index (snd (rotate_commit c up secret r0 db))) h = Some n"
    with True have h: "h = ar_SecretHash ?r \<and> n = ar_Name ?r \<or>
        map_of (kd_index db) h = Some n \<and> h \<noteq> ar_SecretHash r0"
      by (auto simp: rotate_commit_def Let_def update_conv' delete_conv' split: if_splits)
    have "n \<noteq> ar_Name r0" if i: "map_of (kd_index db) h = Some n" "h \<noteq> ar_SecretHash r0"
      using wf i r0 unfolding wf_keys_def wf_index_def by fastforce
    with h show "h = ar_SecretHash ?r \<and> n = ar_Name ?r \<or>
      map_of (kd_index db) h = Some n \<and> (n = ar_Name ?r \<longrightarrow> h = ar_SecretHash ?r)" by auto
  qed (use True in \<open>simp_all add: rotate_commit_def Let_def update_conv'\<close>)
qed (use wf in \<open>simp add: rotate_commit_def\<close>)

lemma RotateAccessKey_wf:
  assumes wf: "wf_keys c db" shows "wf_keys c (snd (RotateAccessKey c up rand name db))"
proof (cases "GetAccessKeyRecord c (up 0) name db")
  case (Inr v)
  then show ?thesis
  proof (cases v)
    case (Some r)
    with Inr wf have "rec_at c db name = Some (Some r)" by (simp add: GetAccessKeyRecord_iff)
    from rec_at_canonical(2)[OF wf this] Inr Some wf show ?thesis
      by (simp add: RotateAccessKey_def rotate_commit_wf split: sum.split)
  qed (use wf in \<open>simp add: RotateAccessKey_def\<close>)
qed (use wf in \<open>simp add: RotateAccessKey_def\<close>)

text \<open>
  The contract of a routing update: the caller copies name, secret hash, account and status from
  the stored record.
\<close>

definition keeps_identity :: "client \<Rightarrow> key_db \<Rightarrow> access_key_record \<Rightarrow> bool" where
  "keeps_identity c db record \<longleftrightarrow>
     (\<forall>old. rec_at c db (ar_Name record) = Some (Some old) \<longrightarrow>
        (let r = normalizeAccessKeyRecord record in
         ar_Name r = ar_Name old \<and> ar_SecretHash r = ar_SecretHash old \<and>
         ar_AccountID r = ar_AccountID old \<and> ar_Status r = ar_Status old))"

lemma accessKeyRecordKey_trim [simp]: "accessKeyRecordKey c (trim_space n) = accessKeyRecordKey c n"
  by (simp add: accessKeyRecordKey_eq)

lemma UpdateAccessKeyRouting_wf:
  assumes wf: "wf_keys c db" and keep: "keeps_identity c db record" and "canonical_name (ar_Name record)"
  shows "wf_keys c (snd (UpdateAccessKeyRouting c up record v db))"
proof (cases "fst (UpdateAccessKeyRouting c up record v db)")
  case (Inl e)
  then have "snd (UpdateAccessKeyRouting c up record v db) = db"
    by (auto simp: UpdateAccessKeyRouting_def Let_def split: if_splits option.splits)
  with wf show ?thesis by simp
next
  case (Inr u)
  let ?r = "(normalizeAccessKeyRecord record)\<lparr>ar_Version := v + 1\<rparr>"
  from Inr obtain old where ne: "trim_space (ar_Name record) \<noteq> []"
    and old: "rec_at c db (ar_Name record) = Some (Some old)"
    and db': "snd (UpdateAccessKeyRouting c up record v db) =
      db\<lparr>kd_records := AList.update (accessKeyRecordKey c (ar_Name ?r)) (Some ?r) (kd_records db)\<rparr>"
    by (auto simp: UpdateAccessKeyRouting_def Let_def split: if_splits option.splits)
  from keep old have same: "ar_Name ?r = ar_Name old" "ar_SecretHash ?r = ar_SecretHash old"
      "ar_AccountID ?r = ar_AccountID old" "ar_Status ?r = ar_Status old"
    by (simp_all add: keeps_identity_def Let_def)
  have old': "rec_at c db (ar_Name old) = Some (Some old)" by (rule rec_at_canonical(2)[OF wf old])
  show ?thesis unfolding db'
  proof (rule replace_wf[OF wf old', of ?r])
    show "good_record ?r" using ne assms(3) by (simp add: good_record_def canonical_name_def)
    fix h n
    assume "map_of (kd_index (db\<lparr>kd_records := AList.update (accessKeyRecordKey c (ar_Name ?r)) (Some ?r)
      (kd_records db)\<rparr>)) h = Some n"
    then have i: "map_of (kd_index db) h = Some n" by simp
    have "h = ar_SecretHash old" if "n = ar_Name old"
      using wf i that old' unfolding wf_keys_def wf_index_def by fastforce
    with i same show "h = ar_SecretHash ?r \<and> n = ar_Name ?r \<or>
      map_of (kd_index db) h = Some n \<and> (n = ar_Name ?r \<longrightarrow> h = ar_SecretHash ?r)" by simp
  qed (use same in \<open>simp_all add: update_conv'\<close>)
qed

datatype key_op =
    OpPut bool int access_key_record
  | OpCreate bool int access_key_record
  | OpRouting bool access_key_record int
  | OpRevoke up int string
  | OpRotate up "string option" string

primrec key_step :: "client \<Rightarrow> key_op \<Rightarrow> key_db \<Rightarrow> key_db" where
  "key_step c (OpPut u now r) db = snd (PutAccessKey c u now r db)"
| "key_step c (OpCreate u now r) db = snd (CreateAccessKey c u now r db)"
| "key_step c (OpRouting u r v) db = snd (UpdateAccessKeyRouting c u r v db)"
| "key_step c (OpRevoke u now n) db = snd (RevokeAccessKey c u now n db)"
| "key_step c (OpRotate u rand n) db = snd (RotateAccessKey c u rand n db)"

primrec key_op_ok :: "client \<Rightarrow> key_op \<Rightarrow> key_db \<Rightarrow> bool" where
  "key_op_ok c (OpPut u now r) db \<longleftrightarrow> canonical_name (ar_Name r)"
| "key_op_ok c (OpCreate u now r) db \<longleftrightarrow> canonical_name (ar_Name r)"
| "key_op_ok c (OpRouting u r v) db \<longleftrightarrow> canonical_name (ar_Name r) \<and> keeps_identity c db r"
| "key_op_ok c (OpRevoke u now n) db \<longleftrightarrow> True"
| "key_op_ok c (OpRotate u rand n) db \<longleftrightarrow> True"

interpretation key_ops: guarded_ops "key_op_ok c" "key_step c" "wf_keys c" for c
proof
  fix db op assume "wf_keys c db" "key_op_ok c op db"
  then show "wf_keys c (key_step c op db)"
    by (cases op) (simp_all add: PutAccessKey_wf CreateAccessKey_wf UpdateAccessKeyRouting_wf
        RevokeAccessKey_wf RotateAccessKey_wf)
qed

definition empty_db :: key_db where
  "empty_db = \<lparr>kd_records = [], kd_index = [], kd_accounts = []\<rparr>"

lemma wf_empty_db: "wf_keys c empty_db"
  by (simp add: wf_keys_def wf_records_def wf_index_def wf_accounts_def wf_active_def empty_db_def)


definition demo_client :: client where
  "demo_client = \<lparr>cl_prefix = ''onr'', cl_hmac = id, cl_billingStream = ''s'', cl_billingGroup = ''g'',
     cl_billingConsumer = ''c'', cl_billingMaxAttempts = 10\<rparr>"

definition demo_record :: "string \<Rightarrow> string \<Rightarrow> string \<Rightarrow> access_key_record" where
  "demo_record n h a = \<lparr>ar_Name = n, ar_SecretHash = h, ar_Status = [], ar_SubjectType = [],
     ar_SubjectID = [], ar_AccountID = a, ar_Provisioning = [], ar_ProvisioningError = [],
     ar_BillingInitialCredit = [], ar_BillingCurrency = [], ar_RoutePolicyID = [],
     ar_AllowedProviders = [], ar_AllowedModels = [], ar_ProviderKeyBindings = [],
     ar_CreatedAt = None, ar_ExpiresAt = None, ar_Version = 0, ar_Metadata = []\<rparr>"

definition demo_ops :: "key_op list" where
  "demo_ops = [OpCreate True 5 (demo_record ''k1'' ''h1'' ''acct''),
               OpCreate True 6 (demo_record ''k2'' ''h2'' ''acct''),
               OpCreate True 7 (demo_record ''k3'' ''h3'' [])]"


section \<open>Looking up, revoking and rotating\<close>

lemma LookupAccessKey_iff:
  assumes wf: "wf_keys c db"
  shows "LookupAccessKey c (\<lambda>_. True) now secret db = Inr (Some r) \<longleftrightarrow>
     trim_space secret \<noteq> [] \<and> usable_record now r \<and>
     map_of (kd_index db) (HashAccessKey c (trim_space secret)) = Some (ar_Name r) \<and>
     rec_at c db (ar_Name r) = Some (Some r)"
proof -
  have named: "rec_at c db n = Some (Some q) \<Longrightarrow> ar_Name q = n"
    if "map_of (kd_index db) h = Some n" for h n q
    using wf that unfolding wf_keys_def wf_index_def by fastforce
  have get: "GetAccessKey c True now n db = Inr (Some r) \<longleftrightarrow> rec_at c db n = Some (Some r) \<and> usable_record now r" for n
    using GetAccessKeyRecord_iff[OF wf, of True n]
    by (auto simp: GetAccessKey_def bind_res_eq_Inr split: option.splits if_splits)
  show ?thesis
    by (auto simp: LookupAccessKey_def get split: option.splits dest: named)
qed

text \<open>
  A presented secret resolves to a record exactly when it is not blank and the index leads from
  its hash to that record, which is stored under its name, active and not expired; the record then
  carries the hash of the presented secret.
\<close>

theorem lookup_access_key_exact:
  assumes "wf_keys c db"
  shows "(LookupAccessKey c (\<lambda>_. True) now secret db = Inr (Some r) \<longleftrightarrow>
            trim_space secret \<noteq> [] \<and> usable_record now r \<and>
            map_of (kd_index db) (HashAccessKey c (trim_space secret)) = Some (ar_Name r) \<and>
            rec_at c db (ar_Name r) = Some (Some r)) \<and>
         (LookupAccessKey c (\<lambda>_. True) now secret db = Inr (Some r) \<longrightarrow>
            ar_SecretHash r = HashAccessKey c (trim_space secret))"
proof (intro conjI impI)
  assume "LookupAccessKey c (\<lambda>_. True) now secret db = Inr (Some r)"
  with assms have "map_of (kd_index db) (HashAccessKey c (trim_space secret)) = Some (ar_Name r)"
      "rec_at c db (ar_Name r) = Some (Some r)" by (simp_all add: LookupAccessKey_iff)
  with assms show "ar_SecretHash r = HashAccessKey c (trim_space secret)"
    unfolding wf_keys_def wf_index_def by fastforce
qed (rule LookupAccessKey_iff[OF assms])

definition demo_db :: key_db where
  "demo_db = snd (CreateAccessKey demo_client True 5
     (demo_record ''k1'' (HashAccessKey demo_client ''sec'') ''acct'') empty_db)"

lemma wf_demo_db: "wf_keys demo_client demo_db"
proof -
  have "canonical_name ''k1''" by code_simp
  then show ?thesis
    unfolding demo_db_def by (intro CreateAccessKey_wf wf_empty_db) (simp add: demo_record_def)
qed

definition demo_stored :: access_key_record where
  "demo_stored = (demo_record ''k1'' (HashAccessKey demo_client ''sec'') ''acct'')\<lparr>ar_Status := ''active'',
     ar_SubjectID := ''k1'', ar_CreatedAt := Some 5\<rparr>"

lemma demo_rec: "rec_at demo_client demo_db ''k1'' = Some (Some demo_stored)"
  by code_simp

lemma demo_lookup: "LookupAccessKey demo_client (\<lambda>_. True) 9 '' sec '' demo_db = Inr (Some demo_stored)"
  by code_simp

theorem lookup_access_key_exact_witness:
  "map_of (kd_index demo_db) (HashAccessKey demo_client (trim_space '' sec '')) = Some ''k1'' \<and>
   ar_SecretHash demo_stored = HashAccessKey demo_client (trim_space '' sec '')"
proof -
  have n: "ar_Name demo_stored = ''k1''" by (simp add: demo_stored_def demo_record_def)
  from lookup_access_key_exact[OF wf_demo_db, of 9 "'' sec ''" demo_stored] demo_lookup n
  show ?thesis by simp
qed

lemma RevokeAccessKey_stores:
  assumes wf: "wf_keys c db" and r0: "rec_at c db name = Some (Some r0)"
    and run: "RevokeAccessKey c up now name db = (Inr (), db')"
  shows "\<exists>r. stores c r db db' \<and> ar_Name r = ar_Name r0 \<and> ar_Status r = ''revoked'' \<and>
    ar_SecretHash r = ar_SecretHash r0"
proof -
  from run r0 have u: "up 0" by (auto simp: RevokeAccessKey_def GetAccessKeyRecord_def split: if_splits)
  note good = rec_at_canonical(1)[OF wf r0]
  let ?q = "r0\<lparr>ar_Status := ''revoked'', ar_Version := ar_Version r0 + 1\<rparr>"
  let ?r = "fresh_record now ?q"
  have q: "trim_space (ar_Name ?q) \<noteq> []" "canonical_name (ar_Name ?q)"
    using good_recordD[OF good] good_canonical[OF good] by simp_all
  have "GetAccessKeyRecord c (up 0) name db = Inr (Some r0)" using wf r0 u by (simp add: GetAccessKeyRecord_iff)
  with run q have "putScript c ?r db = (Inr (), db')"
    by (auto simp: RevokeAccessKey_def revoke_commit_def PutAccessKey_def split: if_splits)
  from putScript_stores[OF this wf fresh_good[OF q]] good_recordD[OF good]
  show ?thesis by (intro exI[of _ ?r]) (simp add: fresh_record_def Let_def)
qed

lemma LookupAccessKey_up:
  "LookupAccessKey c up t s db = Inr (Some r) \<Longrightarrow> LookupAccessKey c (\<lambda>_. True) t s db = Inr (Some r)"
  by (auto simp: LookupAccessKey_def GetAccessKey_def GetAccessKeyRecord_def split: if_splits option.splits sum.splits)

lemma revoked_lookup:
  assumes "wf_keys c db" "rec_at c db name = Some (Some r0)" "RevokeAccessKey c up now name db = (Inr (), db')"
    and "LookupAccessKey c up' t secret db' = Inr (Some q)"
  shows "trim_space (ar_Name q) \<noteq> ar_Name r0"
proof -
  from RevokeAccessKey_stores[OF assms(1-3)] obtain r where st: "stores c r db db'"
    and r: "ar_Name r = ar_Name r0" "ar_Status r = ''revoked''" by blast
  have wf': "wf_keys c db'" by (rule stores_wf[OF st])
  from LookupAccessKey_up[OF assms(4)] have q: "usable_record t q" "rec_at c db' (ar_Name q) = Some (Some q)"
    by (simp_all add: LookupAccessKey_iff[OF wf'])
  have "rec_at c db' (ar_Name r0) = Some (Some r)" using r by (simp add: stores_records[OF st])
  with q r have "ar_Name q \<noteq> ar_Name r0" by (auto simp: usable_record_def)
  moreover have "good_record q" by (rule rec_at_canonical(1)[OF wf' q(2)])
  ultimately show ?thesis using good_recordD by metis
qed

text \<open>
  Revocation works and touches nobody else: after a successful revocation no secret resolves to
  the revoked key at any time, and, when the key's own secret hash leads to it, every other key
  resolves exactly as before.
\<close>

theorem revoke_access_key_effective:
  assumes wf: "wf_keys c db" and r0: "rec_at c db name = Some (Some r0)"
    and run: "RevokeAccessKey c up now name db = (Inr (), db')"
  shows "wf_keys c db' \<and>
    (\<forall>secret t r. LookupAccessKey c (\<lambda>_. True) t secret db' = Inr (Some r) \<longrightarrow> ar_Name r \<noteq> ar_Name r0) \<and>
    (map_of (kd_index db) (ar_SecretHash r0) = Some (ar_Name r0) \<longrightarrow>
       (\<forall>secret t r. ar_Name r \<noteq> ar_Name r0 \<longrightarrow>
          LookupAccessKey c (\<lambda>_. True) t secret db' = Inr (Some r) \<longleftrightarrow>
          LookupAccessKey c (\<lambda>_. True) t secret db = Inr (Some r)))"
proof -
  from RevokeAccessKey_stores[OF assms] obtain r where st: "stores c r db db'"
    and r: "ar_Name r = ar_Name r0" "ar_Status r = ''revoked''" "ar_SecretHash r = ar_SecretHash r0" by blast
  have wf': "wf_keys c db'" by (rule stores_wf[OF st])
  have r': "rec_at c db' (ar_Name r0) = Some (Some r)" using r by (simp add: stores_records[OF st])
  have one: "\<not> usable_record t r" for t using r by (simp add: usable_record_def)
  have recs: "rec_at c db' (ar_Name q) = Some (Some q) \<longleftrightarrow> rec_at c db (ar_Name q) = Some (Some q)"
    if n: "ar_Name q \<noteq> ar_Name r0" for q
  proof
    assume q: "rec_at c db' (ar_Name q) = Some (Some q)"
    have "good_record q" by (rule rec_at_canonical(1)[OF wf' q])
    moreover have "good_record r" using st by (simp add: stores_def)
    ultimately have "accessKeyRecordKey c (ar_Name q) \<noteq> accessKeyRecordKey c (ar_Name r)"
      using n r record_key_inj by metis
    with q show "rec_at c db (ar_Name q) = Some (Some q)" by (simp add: stores_records[OF st])
  next
    assume "rec_at c db (ar_Name q) = Some (Some q)"
    from stores_other[OF st this] n r show "rec_at c db' (ar_Name q) = Some (Some q)" by simp
  qed
  have idx: "map_of (kd_index db') h = Some n \<longleftrightarrow> map_of (kd_index db) h = Some n"
    if own: "map_of (kd_index db) (ar_SecretHash r0) = Some (ar_Name r0)" and n: "n \<noteq> ar_Name r0" for h n
    using stores_index[OF st, of h n] own n r st
    by (auto simp: stores_def store_defs split: if_splits)
  show ?thesis
    using wf' r' one recs idx by (auto simp: LookupAccessKey_iff[OF wf'] LookupAccessKey_iff[OF wf])
qed

theorem revoke_access_key_effective_witness:
  "\<exists>db'. RevokeAccessKey demo_client (\<lambda>_. True) 6 ''k1'' demo_db = (Inr (), db') \<and>
     wf_keys demo_client db' \<and>
     (\<forall>secret t r. LookupAccessKey demo_client (\<lambda>_. True) t secret db' = Inr (Some r) \<longrightarrow> ar_Name r \<noteq> ''k1'')"
proof -
  let ?db' = "snd (RevokeAccessKey demo_client (\<lambda>_. True) 6 ''k1'' demo_db)"
  have "fst (RevokeAccessKey demo_client (\<lambda>_. True) 6 ''k1'' demo_db) = Inr ()" by code_simp
  then have run: "RevokeAccessKey demo_client (\<lambda>_. True) 6 ''k1'' demo_db = (Inr (), ?db')"
    by (simp add: prod_eq_iff)
  have n: "ar_Name demo_stored = ''k1''" by (simp add: demo_stored_def demo_record_def)
  show ?thesis
    using revoke_access_key_effective[OF wf_demo_db demo_rec run] run n by auto
qed

lemma rotate_commit_lookup:
  assumes "good_record r0" "usable_record t r0" "trim_space s = s" "s \<noteq> []"
    and "rotate_commit c True s r0 db = (Inr s, db')"
  shows "LookupAccessKey c (\<lambda>_. True) t s db' =
     Inr (Some (r0\<lparr>ar_SecretHash := HashAccessKey c s, ar_Version := ar_Version r0 + 1\<rparr>))"
proof -
  let ?r = "r0\<lparr>ar_SecretHash := HashAccessKey c s, ar_Version := ar_Version r0 + 1\<rparr>"
  have "rec_at c db' (ar_Name r0) = Some (Some ?r)" "map_of (kd_index db') (HashAccessKey c s) = Some (ar_Name r0)"
    using assms(5) by (auto simp: rotate_commit_def Let_def update_conv')
  moreover have "normalizeAccessKeyRecord ?r = ?r" using good_recordD(4)[OF good_update[OF assms(1)]] .
  moreover have "trim_space (ar_Name r0) \<noteq> []" using good_recordD[OF assms(1)] by simp
  ultimately show ?thesis
    using assms by (simp add: LookupAccessKey_def GetAccessKey_def GetAccessKeyRecord_def usable_record_def)
qed

lemma new_secret_visible:
  "NewAccessKeySecret rand = Inr s \<Longrightarrow> trim_space s = s \<and> s \<noteq> []"
proof -
  assume s: "NewAccessKeySecret rand = Inr s"
  then obtain buf where buf: "s = ''ak_'' @ b64_encode raw_url_encoding buf"
    by (auto simp: NewAccessKeySecret_def split: option.splits)
  have "list_all url_safe s" using url_safe_b64_encode[of buf]
    by (simp add: buf url_safe_def[of "CHR ''a''"] url_safe_def[of "CHR ''k''"] url_safe_def[of "CHR ''_''"] byte_in_def)
  then have "url_safe (hd s)" "url_safe (last s)" using buf by (auto simp: list_all_iff)
  then have "trim_space s = s" using url_safe_visible buf by (intro trim_space_id) blast+
  then show ?thesis using buf by simp
qed

text \<open>
  Rotation hands over: the secret that rotation returns resolves to the same key, with a new
  hash and the next version, while a secret with the old hash no longer resolves at all.
\<close>

theorem rotate_access_key_effective:
  assumes wf: "wf_keys c db" and r0: "rec_at c db name = Some (Some r0)" and t: "usable_record t r0"
    and run: "RotateAccessKey c up rand name db = (Inr s, db')"
  shows "wf_keys c db' \<and>
    LookupAccessKey c (\<lambda>_. True) t s db' =
      Inr (Some (r0\<lparr>ar_SecretHash := HashAccessKey c s, ar_Version := ar_Version r0 + 1\<rparr>)) \<and>
    (\<forall>old. HashAccessKey c (trim_space old) = ar_SecretHash r0 \<longrightarrow>
       HashAccessKey c (trim_space old) \<noteq> HashAccessKey c s \<longrightarrow>
       LookupAccessKey c (\<lambda>_. True) t old db' = Inr None)"
proof (intro conjI allI impI)
  note good = rec_at_canonical[OF wf r0]
  from run r0 have u: "up 0" by (auto simp: RotateAccessKey_def GetAccessKeyRecord_def split: if_splits)
  with wf r0 have g: "GetAccessKeyRecord c (up 0) name db = Inr (Some r0)" by (simp add: GetAccessKeyRecord_iff)
  with run obtain s' where s': "NewAccessKeySecret rand = Inr s'"
      "rotate_commit c (up 1) s' r0 db = (Inr s, db')"
    by (auto simp: RotateAccessKey_def split: sum.splits)
  then have "up 1" "s' = s" by (auto simp: rotate_commit_def Let_def split: if_splits)
  with s' have s: "NewAccessKeySecret rand = Inr s" and commit: "rotate_commit c True s r0 db = (Inr s, db')"
    by auto
  show "wf_keys c db'" using rotate_commit_wf[OF wf good(2), of True s] commit by simp
  show "LookupAccessKey c (\<lambda>_. True) t s db' =
      Inr (Some (r0\<lparr>ar_SecretHash := HashAccessKey c s, ar_Version := ar_Version r0 + 1\<rparr>))"
    using rotate_commit_lookup[OF good(1) t _ _ commit] new_secret_visible[OF s] by simp
  fix old assume "HashAccessKey c (trim_space old) = ar_SecretHash r0"
      "HashAccessKey c (trim_space old) \<noteq> HashAccessKey c s"
  with commit have "map_of (kd_index db') (HashAccessKey c (trim_space old)) = None"
    by (auto simp: rotate_commit_def Let_def update_conv' delete_conv')
  then show "LookupAccessKey c (\<lambda>_. True) t old db' = Inr None" by (simp add: LookupAccessKey_def)
qed

theorem rotate_access_key_effective_witness:
  "\<exists>s db'. RotateAccessKey demo_client (\<lambda>_. True) (Some ''xyz'') ''k1'' demo_db = (Inr s, db') \<and>
     (\<exists>r. LookupAccessKey demo_client (\<lambda>_. True) 9 s db' = Inr (Some r) \<and> ar_Name r = ''k1'') \<and>
     LookupAccessKey demo_client (\<lambda>_. True) 9 ''sec'' db' = Inr None"
proof -
  let ?s = "''ak_eHl6''" and ?db' = "snd (RotateAccessKey demo_client (\<lambda>_. True) (Some ''xyz'') ''k1'' demo_db)"
  have "fst (RotateAccessKey demo_client (\<lambda>_. True) (Some ''xyz'') ''k1'' demo_db) = Inr ?s" by code_simp
  then have run: "RotateAccessKey demo_client (\<lambda>_. True) (Some ''xyz'') ''k1'' demo_db = (Inr ?s, ?db')"
    by (simp add: prod_eq_iff)
  have h: "HashAccessKey demo_client (trim_space ''sec'') = ar_SecretHash demo_stored"
    "HashAccessKey demo_client (trim_space ''sec'') \<noteq> HashAccessKey demo_client ?s" by code_simp+
  have u: "usable_record 9 demo_stored" and n: "ar_Name demo_stored = ''k1''" by code_simp+
  note ex = rotate_access_key_effective[OF wf_demo_db demo_rec u run]
  from ex h have "LookupAccessKey demo_client (\<lambda>_. True) 9 ''sec'' ?db' = Inr None" by blast
  moreover from ex n have "\<exists>r. LookupAccessKey demo_client (\<lambda>_. True) 9 ?s ?db' = Inr (Some r) \<and> ar_Name r = ''k1''"
    by simp
  ultimately show ?thesis using run by blast
qed

text \<open>
  Rotation is not atomic: it writes back the record it read. When a revocation runs between
  the two, it is undone: the rotated secret resolves to the revoked key, which is active again but
  missing from the account index, so the store is no longer consistent.
\<close>

theorem rotation_undoes_revocation:
  assumes wf: "wf_keys c db" and r0: "rec_at c db name = Some (Some r0)" and t: "usable_record t r0"
    and revoke: "RevokeAccessKey c up now name db = (Inr (), db1)"
    and s: "NewAccessKeySecret rand = Inr s"
    and rotate: "rotate_commit c True s r0 db1 = (Inr s, db2)"
  shows "(\<exists>r. LookupAccessKey c (\<lambda>_. True) t s db2 = Inr (Some r) \<and> ar_Name r = ar_Name r0) \<and>
         \<not> wf_keys c db2"
proof
  note good = rec_at_canonical(1)[OF wf r0]
  let ?r = "r0\<lparr>ar_SecretHash := HashAccessKey c s, ar_Version := ar_Version r0 + 1\<rparr>"
  show "\<exists>r. LookupAccessKey c (\<lambda>_. True) t s db2 = Inr (Some r) \<and> ar_Name r = ar_Name r0"
    using rotate_commit_lookup[OF good t _ _ rotate] new_secret_visible[OF s] by simp
  from RevokeAccessKey_stores[OF wf r0 revoke] obtain r where st: "stores c r db db1"
    and r: "ar_Name r = ar_Name r0" "ar_Status r = ''revoked''" by blast
  have "map_of (kd_accounts db1) (ar_AccountID r0) \<noteq> Some (ar_Name r0)"
    using stores_accounts[OF st, of "ar_AccountID r0" "ar_Name r0"] r by auto
  moreover have "kd_accounts db2 = kd_accounts db1" "rec_at c db2 (ar_Name r0) = Some (Some ?r)"
    using rotate by (auto simp: rotate_commit_def Let_def update_conv')
  moreover have "ar_Status r0 = ''active''" using t by (simp add: usable_record_def)
  moreover have "map_of (kd_accounts db2) (ar_AccountID ?r) = Some (ar_Name ?r)"
    if "wf_active db2" "ar_Status ?r = ''active''" "rec_at c db2 (ar_Name r0) = Some (Some ?r)"
    using that unfolding wf_active_def by blast
  ultimately show "\<not> wf_keys c db2" by (auto simp: wf_keys_def)
qed

theorem rotation_undoes_revocation_witness:
  "\<exists>db1 db2. RevokeAccessKey demo_client (\<lambda>_. True) 6 ''k1'' demo_db = (Inr (), db1) \<and>
     rotate_commit demo_client True ''ak_eHl6'' demo_stored db1 = (Inr ''ak_eHl6'', db2) \<and>
     (\<exists>r. LookupAccessKey demo_client (\<lambda>_. True) 9 ''ak_eHl6'' db2 = Inr (Some r) \<and> ar_Name r = ''k1'') \<and>
     \<not> wf_keys demo_client db2"
proof -
  let ?db1 = "snd (RevokeAccessKey demo_client (\<lambda>_. True) 6 ''k1'' demo_db)"
  let ?db2 = "snd (rotate_commit demo_client True ''ak_eHl6'' demo_stored ?db1)"
  have "fst (RevokeAccessKey demo_client (\<lambda>_. True) 6 ''k1'' demo_db) = Inr ()" by code_simp
  then have rev: "RevokeAccessKey demo_client (\<lambda>_. True) 6 ''k1'' demo_db = (Inr (), ?db1)"
    by (simp add: prod_eq_iff)
  have rot: "rotate_commit demo_client True ''ak_eHl6'' demo_stored ?db1 = (Inr ''ak_eHl6'', ?db2)"
    by (simp add: rotate_commit_def Let_def)
  have u: "usable_record 9 demo_stored" and n: "ar_Name demo_stored = ''k1''"
    and s: "NewAccessKeySecret (Some ''xyz'') = Inr ''ak_eHl6''" by code_simp+
  from rotation_undoes_revocation[OF wf_demo_db demo_rec u rev s rot] rev rot n show ?thesis by auto
qed

end
