(* ===== verification/Billing_Store.thy ===== *)
theory Billing_Store
  imports Access_Keys "HOL-Library.Product_Lexorder" "HOL-Library.List_Lexorder" "HOL-Library.Char_ord"
begin

text \<open>
  The billing part of the Redis control plane, \<^verbatim>\<open>pkg/controlplane/redis.go\<close>: the local ledger (account
  totals, usage events, idempotent adjustments), the stream of billing events with its consumer
  group and per-access-key counters, and the keys with a time to live (balance cache, refresh lock,
  webhook marks). Scripts are atomic with respect to other clients, but Redis does not roll back:
  a script that fails in the middle keeps what it wrote, and the model keeps it too.

  Counters are Redis integers of 64 bits; \<open>hincrby\<close> fails on overflow.
\<close>

section \<open>The ledger\<close>

record local_billing_event =
  ev_ID :: string
  ev_RequestID :: string
  ev_AccessKeyID :: string
  ev_AccountID :: string
  ev_SubjectType :: string
  ev_SubjectID :: string
  ev_Provider :: string
  ev_Model :: string
  ev_API :: string
  ev_Status :: int
  ev_Stream :: bool
  ev_OccurredAt :: int
  ev_InputTokens :: int
  ev_OutputTokens :: int
  ev_CachedTokens :: int
  ev_TotalTokens :: int
  ev_AmountMicros :: int
  ev_Currency :: string
  ev_PricingModel :: string
  ev_Metadata :: string

record local_billing_account =
  la_AccountID :: string
  la_Currency :: string
  la_CreditMicros :: int
  la_SpentMicros :: int
  la_BalanceMicros :: int

record ledger_db =
  lg_currency :: "(string \<times> string) list"
  lg_counters :: "((string \<times> string) \<times> int) list"
  lg_events :: "(string \<times> local_billing_event) list"
  lg_adjustments :: "string list"
  lg_timeline :: "(string \<times> (string \<times> int) list) list"

datatype ledger_error =
    LedgerDown
  | LedgerScriptFailed
  | InvalidAccount
  | InvalidCredit
  | InvalidEvent
  | InvalidAdjustment
  | DuplicateEvent
  | EventMissing

definition localBillingKey :: "client \<Rightarrow> string list \<Rightarrow> string" where
  "localBillingKey c parts = client_key c (''billing'' # parts)"

definition localBillingAccountKey :: "client \<Rightarrow> string \<Rightarrow> string" where
  "localBillingAccountKey c accountID = localBillingKey c [''account'', accountID]"

definition localBillingEventKey :: "client \<Rightarrow> string \<Rightarrow> string" where
  "localBillingEventKey c eventID = localBillingKey c [''event'', eventID]"

text \<open>The counters of an account hash; an absent field counts as zero.\<close>

definition counter :: "ledger_db \<Rightarrow> string \<Rightarrow> string \<Rightarrow> int" where
  "counter db k f = (case map_of (lg_counters db) (k, f) of None \<Rightarrow> 0 | Some i \<Rightarrow> i)"

text \<open>\<^verbatim>\<open>HINCRBY\<close> on several fields in turn; the flag is false when one overflows and stops the script.\<close>

fun hincrby_all :: "string \<Rightarrow> (string \<times> int) list \<Rightarrow> ledger_db \<Rightarrow> bool \<times> ledger_db" where
  "hincrby_all k [] db = (True, db)"
| "hincrby_all k ((f, n) # fs) db =
     (if in_int64 (counter db k f + n)
      then hincrby_all k fs (db\<lparr>lg_counters := AList.update (k, f) (counter db k f + n) (lg_counters db)\<rparr>)
      else (False, db))"

definition hsetnx_currency :: "string \<Rightarrow> string \<Rightarrow> ledger_db \<Rightarrow> ledger_db" where
  "hsetnx_currency k v db =
     (if map_of (lg_currency db) k = None then db\<lparr>lg_currency := AList.update k v (lg_currency db)\<rparr> else db)"

definition InitializeLocalBillingAccount ::
    "client \<Rightarrow> bool \<Rightarrow> string \<Rightarrow> string \<Rightarrow> int \<Rightarrow> ledger_db \<Rightarrow> (ledger_error + unit) \<times> ledger_db" where
  "InitializeLocalBillingAccount c up account currency creditMicros db =
     (let accountID = trim_space account in
      if accountID = [] \<or> trim_space currency = [] \<or> creditMicros < 0 then (Inl InvalidAccount, db)
      else if \<not> up then (Inl LedgerDown, db)
      else (Inr (), hsetnx_currency (localBillingAccountKey c accountID) (to_upper (trim_space currency)) db))"

text \<open>The body shared by the credit and adjustment scripts, behind the idempotency key \<open>ik\<close>.\<close>

definition adjust_once ::
    "string \<Rightarrow> string \<Rightarrow> string \<Rightarrow> string \<Rightarrow> int \<Rightarrow> ledger_db \<Rightarrow> (ledger_error + unit) \<times> ledger_db" where
  "adjust_once ik k currency field amount db =
     (if ik \<in> set (lg_adjustments db) then (Inr (), db)
      else
        let (ok, db') = hincrby_all k [(field, amount)]
                          (hsetnx_currency k currency (db\<lparr>lg_adjustments := ik # lg_adjustments db\<rparr>)) in
        (if ok then Inr () else Inl LedgerScriptFailed, db'))"

definition SetInitialLocalBillingCredit ::
    "client \<Rightarrow> bool \<Rightarrow> string \<Rightarrow> string \<Rightarrow> string \<Rightarrow> int \<Rightarrow> ledger_db \<Rightarrow> (ledger_error + unit) \<times> ledger_db" where
  "SetInitialLocalBillingCredit c up accountID idempotencyKey currency creditMicros db =
     (if trim_space accountID = [] \<or> trim_space idempotencyKey = [] \<or> creditMicros < 0
      then (Inl InvalidCredit, db)
      else if \<not> up then (Inl LedgerDown, db)
      else adjust_once (localBillingKey c [''adjustment'', idempotencyKey])
             (localBillingAccountKey c accountID) (to_upper (trim_space currency))
             ''credit_micros'' creditMicros db)"

definition AdjustLocalBillingAccount ::
    "client \<Rightarrow> bool \<Rightarrow> string \<Rightarrow> string \<Rightarrow> int \<Rightarrow> string \<Rightarrow> ledger_db \<Rightarrow> (ledger_error + unit) \<times> ledger_db" where
  "AdjustLocalBillingAccount c up accountID idempotencyKey deltaMicros currency db =
     (if trim_space accountID = [] \<or> trim_space idempotencyKey = [] \<or> deltaMicros = 0
      then (Inl InvalidAdjustment, db)
      else if \<not> up then (Inl LedgerDown, db)
      else adjust_once (localBillingKey c [''adjustment'', idempotencyKey])
             (localBillingAccountKey c accountID) (to_upper (trim_space currency))
             (if deltaMicros > 0 then ''credit_micros'' else ''spent_micros'')
             (if deltaMicros > 0 then deltaMicros else wrap64 (- deltaMicros)) db)"

definition event_increments :: "local_billing_event \<Rightarrow> (string \<times> int) list" where
  "event_increments ev =
     [(''spent_micros'', ev_AmountMicros ev), (''input_tokens'', ev_InputTokens ev),
      (''output_tokens'', ev_OutputTokens ev), (''cached_tokens'', ev_CachedTokens ev),
      (''total_tokens'', ev_TotalTokens ev)]"

definition zadd :: "string \<Rightarrow> int \<Rightarrow> string \<Rightarrow> (string \<times> (string \<times> int) list) list
    \<Rightarrow> (string \<times> (string \<times> int) list) list" where
  "zadd k score member zs =
     AList.update k (AList.update member score (case map_of zs k of None \<Rightarrow> [] | Some z \<Rightarrow> z)) zs"

definition record_script :: "client \<Rightarrow> local_billing_event \<Rightarrow> ledger_db \<Rightarrow> (ledger_error + unit) \<times> ledger_db" where
  "record_script c ev db =
     (let ek = localBillingEventKey c (ev_ID ev) in
      if map_of (lg_events db) ek \<noteq> None then (Inl DuplicateEvent, db)
      else
        let (ok, db') = hincrby_all (localBillingAccountKey c (ev_AccountID ev)) (event_increments ev)
              (db\<lparr>lg_events := AList.update ek ev (lg_events db),
                  lg_timeline := zadd (localBillingKey c [''events'', ev_AccountID ev])
                    (ev_OccurredAt ev) (ev_ID ev) (lg_timeline db)\<rparr>) in
        (if ok then Inr () else Inl LedgerScriptFailed, db'))"

definition RecordLocalBillingEvent ::
    "client \<Rightarrow> bool \<Rightarrow> int \<Rightarrow> local_billing_event \<Rightarrow> ledger_db \<Rightarrow> (ledger_error + unit) \<times> ledger_db" where
  "RecordLocalBillingEvent c up now ev db =
     (if trim_space (ev_ID ev) = [] \<or> trim_space (ev_AccountID ev) = [] \<or> ev_AmountMicros ev < 0
      then (Inl InvalidEvent, db)
      else if \<not> up then (Inl LedgerDown, db)
      else record_script c (if ev_OccurredAt ev \<le> 0 then ev\<lparr>ev_OccurredAt := now\<rparr> else ev) db)"

definition ReadLocalBillingAccount ::
    "client \<Rightarrow> bool \<Rightarrow> string \<Rightarrow> ledger_db \<Rightarrow> ledger_error + local_billing_account" where
  "ReadLocalBillingAccount c up accountID db =
     (if \<not> up then Inl LedgerDown
      else
        let k = localBillingAccountKey c accountID;
            credit = counter db k ''credit_micros''; spent = counter db k ''spent_micros'' in
        Inr \<lparr>la_AccountID = accountID,
             la_Currency = (case map_of (lg_currency db) k of None \<Rightarrow> [] | Some v \<Rightarrow> v),
             la_CreditMicros = credit, la_SpentMicros = spent,
             la_BalanceMicros = wrap64 (credit - spent)\<rparr>)"

text \<open>
  \<^verbatim>\<open>ZREVRANGEBYSCORE\<close>: the members with a score in the range, from the highest score down, equal
  scores from the lexicographically largest member down, at most \<open>cnt\<close> of them if it is positive.
\<close>

definition zrevrangebyscore :: "int \<Rightarrow> int \<Rightarrow> nat \<Rightarrow> (string \<times> int) list \<Rightarrow> string list" where
  "zrevrangebyscore hi lo cnt z =
     (let ms = rev (map snd (sort (map (\<lambda>(m, s). (s, m)) (filter (\<lambda>(m, s). lo \<le> s \<and> s \<le> hi) z)))) in
      if cnt > 0 then take cnt ms else ms)"

definition clamp_limit :: "int \<Rightarrow> nat" where
  "clamp_limit limit = (if limit < 0 then 0 else if limit > 10000 then 10000 else nat limit)"

definition fetch_event :: "client \<Rightarrow> ledger_db \<Rightarrow> string \<Rightarrow> ledger_error + local_billing_event" where
  "fetch_event c db i =
     (case map_of (lg_events db) (localBillingEventKey c i) of None \<Rightarrow> Inl EventMissing | Some ev \<Rightarrow> Inr ev)"

definition ReadLocalBillingEvents ::
    "client \<Rightarrow> bool \<Rightarrow> string \<Rightarrow> int \<Rightarrow> int \<Rightarrow> int \<Rightarrow> ledger_db \<Rightarrow> ledger_error + local_billing_event list" where
  "ReadLocalBillingEvents c up accountID start finish limit db =
     (if \<not> up then Inl LedgerDown
      else
        let z = (case map_of (lg_timeline db) (localBillingKey c [''events'', accountID]) of
                   None \<Rightarrow> [] | Some z \<Rightarrow> z) in
        map_res (fetch_event c db) (rev (zrevrangebyscore finish start (clamp_limit limit) z)))"

section \<open>The billing stream\<close>

text \<open>
  A stream holds entries by increasing identifier. The consumer group remembers the last
  identifier it delivered and the entries delivered but not acknowledged, each with its consumer
  and delivery time. The identifier that \<^verbatim>\<open>XADD\<close> assigns is larger than every earlier one; by how
  much is up to Redis and an argument here.
\<close>

record stream_db =
  sd_entries :: "(nat \<times> string) list"
  sd_last :: nat
  sd_delivered :: nat
  sd_pel :: "(nat \<times> (string \<times> int)) list"
  sd_owner :: "(nat \<times> string) list"
  sd_pending :: "(string \<times> int) list"
  sd_attempts :: "(nat \<times> int) list"
  sd_dead :: "(nat \<times> string) list"

definition pending_count :: "stream_db \<Rightarrow> string \<Rightarrow> int" where
  "pending_count db ak = (case map_of (sd_pending db) ak of None \<Rightarrow> 0 | Some n \<Rightarrow> n)"

definition EnqueueBillingEventForAccessKey ::
    "nat \<Rightarrow> string \<Rightarrow> string \<Rightarrow> stream_db \<Rightarrow> nat \<times> stream_db" where
  "EnqueueBillingEventForAccessKey gap payload accessKeyID db =
     (let i = sd_last db + 1 + gap; ak = trim_space accessKeyID;
          db1 = db\<lparr>sd_entries := sd_entries db @ [(i, payload)], sd_last := i\<rparr> in
      (i, if ak \<noteq> [] then db1\<lparr>sd_owner := AList.update i ak (sd_owner db1),
                              sd_pending := AList.update ak (pending_count db1 ak + 1) (sd_pending db1)\<rparr>
          else db1))"

definition EnqueueBillingEvent :: "nat \<Rightarrow> string \<Rightarrow> stream_db \<Rightarrow> nat \<times> stream_db" where
  "EnqueueBillingEvent gap payload db = EnqueueBillingEventForAccessKey gap payload [] db"

text \<open>New entries (\<^verbatim>\<open>>\<close>), and the consumer's own unacknowledged ones (\<^verbatim>\<open>0\<close>).\<close>

definition limit_count :: "int \<Rightarrow> 'a list \<Rightarrow> 'a list" where
  "limit_count cnt xs = (if cnt > 0 then take (nat cnt) xs else xs)"

definition ReadBilling :: "client \<Rightarrow> int \<Rightarrow> int \<Rightarrow> stream_db \<Rightarrow> (nat \<times> string) list \<times> stream_db" where
  "ReadBilling c now cnt db =
     (let new = limit_count cnt (filter (\<lambda>(i, _). sd_delivered db < i) (sd_entries db)) in
      (new, db\<lparr>sd_delivered := (if new = [] then sd_delivered db else fst (last new)),
               sd_pel := sd_pel db @ map (\<lambda>(i, _). (i, (cl_billingConsumer c, now))) new\<rparr>))"

definition ReadPendingBilling :: "client \<Rightarrow> int \<Rightarrow> stream_db \<Rightarrow> (nat \<times> string) list" where
  "ReadPendingBilling c cnt db =
     limit_count cnt
       (List.map_filter (\<lambda>(i, (consumer, _)).
          if consumer = cl_billingConsumer c then Some (i, case map_of (sd_entries db) i of None \<Rightarrow> [] | Some p \<Rightarrow> p)
          else None) (sd_pel db))"

text \<open>Taking over entries whose consumer left them idle.\<close>

definition claim_entries :: "client \<Rightarrow> int \<Rightarrow> nat list \<Rightarrow> stream_db \<Rightarrow> (nat \<times> string) list \<times> stream_db" where
  "claim_entries c now ids db =
     (List.map_filter (\<lambda>i. map_option (Pair i) (map_of (sd_entries db) i)) ids,
      db\<lparr>sd_pel := map (\<lambda>(i, e). if i \<in> set ids then (i, (cl_billingConsumer c, now)) else (i, e)) (sd_pel db)\<rparr>)"

definition autoClaimBillingLegacy ::
    "client \<Rightarrow> int \<Rightarrow> int \<Rightarrow> int \<Rightarrow> stream_db \<Rightarrow> (nat \<times> string) list \<times> stream_db" where
  "autoClaimBillingLegacy c now minIdle count0 db =
     (let cnt = (if count0 \<le> 0 then 1 else count0);
          scanCount = (if cnt * 10 < 100 then 100 else cnt * 10);
          idle = filter (\<lambda>(i, (_, t)). \<not> now - t < minIdle) (take (nat scanCount) (sd_pel db));
          ids = take (nat cnt) (map fst idle) in
      if ids = [] then ([], db) else claim_entries c now ids db)"

text \<open>One round of the acknowledgement loop.\<close>

definition drop_owner :: "nat \<Rightarrow> stream_db \<Rightarrow> stream_db" where
  "drop_owner i db =
     (case map_of (sd_owner db) i of
        None \<Rightarrow> db
      | Some ak \<Rightarrow>
          let pending = pending_count db ak - 1 in
          db\<lparr>sd_pending := (if pending \<le> 0 then AList.delete ak (sd_pending db)
                            else AList.update ak pending (sd_pending db)),
             sd_owner := AList.delete i (sd_owner db)\<rparr>)"

definition ack_one :: "nat \<Rightarrow> stream_db \<Rightarrow> stream_db" where
  "ack_one i db =
     (if i \<in> fst ` set (sd_pel db) then drop_owner i (db\<lparr>sd_pel := AList.delete i (sd_pel db)\<rparr>) else db)"

definition AckBilling :: "nat list \<Rightarrow> stream_db \<Rightarrow> stream_db" where
  "AckBilling ids db = fold ack_one ids db"

definition BillingPendingForAccessKey :: "string \<Rightarrow> stream_db \<Rightarrow> int" where
  "BillingPendingForAccessKey accessKeyID db = pending_count db (trim_space accessKeyID)"

definition BillingMaxAttempts :: "client \<Rightarrow> int" where
  "BillingMaxAttempts c = (if cl_billingMaxAttempts c \<le> 0 then 10 else cl_billingMaxAttempts c)"

definition BillingStats :: "stream_db \<Rightarrow> nat \<times> nat" where
  "BillingStats db = (length (sd_pel db), length (sd_dead db))"

definition IncrementBillingAttempt :: "nat \<Rightarrow> stream_db \<Rightarrow> int \<times> stream_db" where
  "IncrementBillingAttempt i db =
     (let n = (case map_of (sd_attempts db) i of None \<Rightarrow> 0 | Some n \<Rightarrow> n) + 1 in
      (n, db\<lparr>sd_attempts := AList.update i n (sd_attempts db)\<rparr>))"

definition DeadLetterBilling :: "nat \<Rightarrow> string \<Rightarrow> stream_db \<Rightarrow> stream_db" where
  "DeadLetterBilling i payload db =
     drop_owner i
       (db\<lparr>sd_dead := sd_dead db @ [(i, payload)],
           sd_pel := AList.delete i (sd_pel db),
           sd_entries := AList.delete i (sd_entries db),
           sd_attempts := AList.delete i (sd_attempts db)\<rparr>)"

section \<open>Keys with a time to live\<close>

text \<open>A value and the time it expires; a time to live of zero means never.\<close>

type_synonym ttl_db = "(string \<times> (string \<times> int option)) list"

definition ttl_get :: "int \<Rightarrow> string \<Rightarrow> ttl_db \<Rightarrow> string option" where
  "ttl_get now k db =
     (case map_of db k of
        None \<Rightarrow> None
      | Some (v, e) \<Rightarrow> (case e of None \<Rightarrow> Some v | Some t \<Rightarrow> if now < t then Some v else None))"

definition ttl_set :: "int \<Rightarrow> int \<Rightarrow> string \<Rightarrow> string \<Rightarrow> ttl_db \<Rightarrow> ttl_db" where
  "ttl_set now ttl k v db = AList.update k (v, if ttl = 0 then None else Some (now + ttl)) db"

definition set_nx :: "int \<Rightarrow> int \<Rightarrow> string \<Rightarrow> string \<Rightarrow> ttl_db \<Rightarrow> bool \<times> ttl_db" where
  "set_nx now ttl k v db = (if ttl_get now k db = None then (True, ttl_set now ttl k v db) else (False, db))"

definition MarkWebhook :: "client \<Rightarrow> int \<Rightarrow> string \<Rightarrow> int \<Rightarrow> ttl_db \<Rightarrow> (ledger_error + bool) \<times> ttl_db" where
  "MarkWebhook c now event retention db =
     (let eventID = trim_space event in
      if eventID = [] then (Inl InvalidEvent, db)
      else
        let (marked, db') = set_nx now retention (client_key c [''webhook'', eventID]) ''1'' db in
        (Inr marked, db'))"

definition lockKey :: "client \<Rightarrow> string \<Rightarrow> string \<Rightarrow> string \<Rightarrow> string" where
  "lockKey c subjectType subjectID currency =
     client_key c [''balance'', ''lock'', subjectType, subjectID, currency]"

definition AcquireBalanceRefreshLock ::
    "client \<Rightarrow> int \<Rightarrow> string \<Rightarrow> string \<Rightarrow> string \<Rightarrow> string \<Rightarrow> int \<Rightarrow> ttl_db \<Rightarrow> (ledger_error + bool) \<times> ttl_db" where
  "AcquireBalanceRefreshLock c now subjectType subjectID currency token ttl db =
     (if trim_space token = [] then (Inl InvalidEvent, db)
      else
        let (acquired, db') = set_nx now ttl (lockKey c subjectType subjectID currency) token db in
        (Inr acquired, db'))"

definition ReleaseBalanceRefreshLock ::
    "client \<Rightarrow> int \<Rightarrow> string \<Rightarrow> string \<Rightarrow> string \<Rightarrow> string \<Rightarrow> ttl_db \<Rightarrow> ttl_db" where
  "ReleaseBalanceRefreshLock c now subjectType subjectID currency token db =
     (let k = lockKey c subjectType subjectID currency in
      if ttl_get now k db = Some token then AList.delete k db else db)"

definition balanceKey :: "client \<Rightarrow> string \<Rightarrow> string \<Rightarrow> string \<Rightarrow> string" where
  "balanceKey c subjectType subjectID currency = client_key c [''balance'', subjectType, subjectID, currency]"

definition GetBalanceCache :: "client \<Rightarrow> int \<Rightarrow> string \<Rightarrow> string \<Rightarrow> string \<Rightarrow> ttl_db \<Rightarrow> string option" where
  "GetBalanceCache c now subjectType subjectID currency db =
     ttl_get now (balanceKey c subjectType subjectID currency) db"

definition SetBalanceCache ::
    "client \<Rightarrow> int \<Rightarrow> string \<Rightarrow> string \<Rightarrow> string \<Rightarrow> string \<Rightarrow> int \<Rightarrow> ttl_db \<Rightarrow> ttl_db" where
  "SetBalanceCache c now subjectType subjectID currency value ttl db =
     ttl_set now ttl (balanceKey c subjectType subjectID currency) value db"

definition InvalidateBalanceCache :: "client \<Rightarrow> string \<Rightarrow> string \<Rightarrow> string \<Rightarrow> ttl_db \<Rightarrow> ttl_db" where
  "InvalidateBalanceCache c subjectType subjectID currency db =
     AList.delete (balanceKey c subjectType subjectID currency) db"

section \<open>Exactly-once accounting\<close>

datatype ledger_op =
    LInit bool string string int
  | LCredit bool string string string int
  | LAdjust bool string string int string
  | LRecord bool int local_billing_event

datatype ledger_mark = MarkCurrency string | MarkAdjustment string | MarkEvent string

primrec ledger_run :: "client \<Rightarrow> ledger_op \<Rightarrow> ledger_db \<Rightarrow> (ledger_error + unit) \<times> ledger_db" where
  "ledger_run c (LInit u a cur n) db = InitializeLocalBillingAccount c u a cur n db"
| "ledger_run c (LCredit u a ik cur n) db = SetInitialLocalBillingCredit c u a ik cur n db"
| "ledger_run c (LAdjust u a ik d cur) db = AdjustLocalBillingAccount c u a ik d cur db"
| "ledger_run c (LRecord u now ev) db = RecordLocalBillingEvent c u now ev db"

definition ledger_step :: "client \<Rightarrow> ledger_op \<Rightarrow> ledger_db \<Rightarrow> ledger_db" where
  "ledger_step c op db = snd (ledger_run c op db)"

primrec ledger_key :: "client \<Rightarrow> ledger_op \<Rightarrow> ledger_mark" where
  "ledger_key c (LInit u a cur n) = MarkCurrency (localBillingAccountKey c (trim_space a))"
| "ledger_key c (LCredit u a ik cur n) = MarkAdjustment (localBillingKey c [''adjustment'', ik])"
| "ledger_key c (LAdjust u a ik d cur) = MarkAdjustment (localBillingKey c [''adjustment'', ik])"
| "ledger_key c (LRecord u now ev) = MarkEvent (localBillingEventKey c (ev_ID ev))"

definition ledger_seen :: "ledger_db \<Rightarrow> ledger_mark set" where
  "ledger_seen db = MarkCurrency ` dom (map_of (lg_currency db)) \<union>
     MarkAdjustment ` set (lg_adjustments db) \<union> MarkEvent ` dom (map_of (lg_events db))"

text \<open>What an operation is worth to the account with Redis key \<open>k\<close>: credit minus spending.\<close>

primrec ledger_delta :: "client \<Rightarrow> string \<Rightarrow> ledger_op \<Rightarrow> int" where
  "ledger_delta c k (LInit u a cur n) = 0"
| "ledger_delta c k (LCredit u a ik cur n) = (if localBillingAccountKey c a = k then n else 0)"
| "ledger_delta c k (LAdjust u a ik d cur) =
     (if localBillingAccountKey c a = k then (if d > 0 then d else - wrap64 (- d)) else 0)"
| "ledger_delta c k (LRecord u now ev) =
     (if localBillingAccountKey c (ev_AccountID ev) = k then - ev_AmountMicros ev else 0)"

lemma counter_update [simp]:
  "counter (db\<lparr>lg_counters := AList.update (k, f) v (lg_counters db)\<rparr>) k' f' =
     (if k' = k \<and> f' = f then v else counter db k' f')"
  by (simp add: counter_def update_conv')

lemma hincrby_all_frame:
  "lg_currency (snd (hincrby_all k fs db)) = lg_currency db"
  "lg_events (snd (hincrby_all k fs db)) = lg_events db"
  "lg_adjustments (snd (hincrby_all k fs db)) = lg_adjustments db"
  "lg_timeline (snd (hincrby_all k fs db)) = lg_timeline db"
  by (induction k fs db rule: hincrby_all.induct) simp_all

lemma hincrby_all_counter:
  "fst (hincrby_all k fs db) \<Longrightarrow> counter (snd (hincrby_all k fs db)) k' f' =
     counter db k' f' + (if k' = k then (\<Sum>x \<leftarrow> filter (\<lambda>(f, n). f = f') fs. snd x) else 0)"
  by (induction k fs db rule: hincrby_all.induct) (auto split: if_splits)

lemma counter_frame [simp]:
  "counter (db\<lparr>lg_adjustments := x\<rparr>) = counter db"
  "counter (db\<lparr>lg_events := y, lg_timeline := z\<rparr>) = counter db"
  "counter (hsetnx_currency k v db) = counter db"
  by (simp_all add: counter_def fun_eq_iff hsetnx_currency_def)

lemma hsetnx_currency_frame [simp]:
  "lg_events (hsetnx_currency k v db) = lg_events db"
  "lg_adjustments (hsetnx_currency k v db) = lg_adjustments db"
  "dom (map_of (lg_currency (hsetnx_currency k v db))) = insert k (dom (map_of (lg_currency db)))"
  by (auto simp: hsetnx_currency_def update_conv')

lemma adjust_once_seen:
  "snd (adjust_once ik k cur f n db) \<noteq> db \<Longrightarrow>
     MarkAdjustment ik \<notin> ledger_seen db \<and> MarkAdjustment ik \<in> ledger_seen (snd (adjust_once ik k cur f n db))"
  by (auto simp: adjust_once_def ledger_seen_def hincrby_all_frame case_prod_beta Let_def split: if_splits)

lemma adjust_once_replay:
  "MarkAdjustment ik \<in> ledger_seen db \<Longrightarrow> adjust_once ik k cur f n db = (Inr (), db)"
  by (auto simp: adjust_once_def ledger_seen_def)

lemma adjust_once_mono: "ledger_seen db \<subseteq> ledger_seen (snd (adjust_once ik k cur f n db))"
  by (auto simp: adjust_once_def ledger_seen_def hincrby_all_frame case_prod_beta Let_def update_conv'
      hsetnx_currency_def)

lemma record_script_seen:
  "snd (record_script c ev db) \<noteq> db \<Longrightarrow>
     MarkEvent (localBillingEventKey c (ev_ID ev)) \<in> ledger_seen (snd (record_script c ev db))"
  by (auto simp: record_script_def ledger_seen_def hincrby_all_frame case_prod_beta Let_def update_conv'
           split: if_splits)

lemma record_script_replay:
  "MarkEvent (localBillingEventKey c (ev_ID ev)) \<in> ledger_seen db \<Longrightarrow>
     record_script c ev db = (Inl DuplicateEvent, db)"
  by (auto simp: record_script_def ledger_seen_def Let_def)

lemma record_script_mono: "ledger_seen db \<subseteq> ledger_seen (snd (record_script c ev db))"
  by (auto simp: record_script_def ledger_seen_def hincrby_all_frame case_prod_beta Let_def update_conv')

lemmas ledger_op_defs = ledger_step_def InitializeLocalBillingAccount_def SetInitialLocalBillingCredit_def
  AdjustLocalBillingAccount_def RecordLocalBillingEvent_def Let_def

interpretation ledger_once: once_only "ledger_key c" ledger_seen "ledger_step c" for c
proof
  fix op db
  show "ledger_key c op \<in> ledger_seen db \<Longrightarrow> ledger_step c op db = db"
    by (cases op) (auto simp: ledger_op_defs adjust_once_replay record_script_replay hsetnx_currency_def
        ledger_seen_def[of db])
  show "ledger_step c op db \<noteq> db \<Longrightarrow> ledger_key c op \<in> ledger_seen (ledger_step c op db)"
  proof (cases op)
    case (LInit u a cur n)
    then show "ledger_step c op db \<noteq> db \<Longrightarrow> ?thesis"
      by (auto simp: ledger_op_defs ledger_seen_def split: if_splits)
  next
    case (LRecord u now ev)
    then show "ledger_step c op db \<noteq> db \<Longrightarrow> ?thesis"
      using record_script_seen[of c "if ev_OccurredAt ev \<le> 0 then ev\<lparr>ev_OccurredAt := now\<rparr> else ev" db]
      by (auto simp: ledger_op_defs split: if_splits)
  qed (auto simp: ledger_op_defs dest: adjust_once_seen split: if_splits)
  show "ledger_seen db \<subseteq> ledger_seen (ledger_step c op db)"
  proof (cases op)
    case (LInit u a cur n)
    then show ?thesis
      by (auto simp: ledger_op_defs ledger_seen_def hsetnx_currency_def update_conv')
  qed (auto simp: ledger_op_defs dest: subsetD[OF adjust_once_mono] subsetD[OF record_script_mono])
qed

definition ledger_balance :: "ledger_db \<Rightarrow> string \<Rightarrow> int" where
  "ledger_balance db k = counter db k ''credit_micros'' - counter db k ''spent_micros''"

definition ledger_fits :: "client \<Rightarrow> ledger_op \<Rightarrow> ledger_db \<Rightarrow> bool" where
  "ledger_fits c op db \<longleftrightarrow> fst (ledger_run c op db) \<noteq> Inl LedgerScriptFailed"

lemma adjust_once_balance:
  assumes "fst (adjust_once ik j cur f n db) \<noteq> Inl LedgerScriptFailed" "ik \<notin> set (lg_adjustments db)"
    and "f = ''credit_micros'' \<or> f = ''spent_micros''"
  shows "ledger_balance (snd (adjust_once ik j cur f n db)) k =
    ledger_balance db k + (if j = k then (if f = ''credit_micros'' then n else - n) else 0)"
proof -
  let ?db = "hsetnx_currency j cur (db\<lparr>lg_adjustments := ik # lg_adjustments db\<rparr>)"
  have "fst (hincrby_all j [(f, n)] ?db)"
    using assms(1,2) by (auto simp: adjust_once_def case_prod_beta Let_def split: if_splits)
  from hincrby_all_counter[OF this, of k] assms show ?thesis
    by (auto simp: adjust_once_def case_prod_beta Let_def ledger_balance_def)
qed

lemma record_script_balance:
  assumes "fst (record_script c ev db) \<noteq> Inl LedgerScriptFailed"
    and "map_of (lg_events db) (localBillingEventKey c (ev_ID ev)) = None"
  shows "ledger_balance (snd (record_script c ev db)) k =
    ledger_balance db k - (if localBillingAccountKey c (ev_AccountID ev) = k then ev_AmountMicros ev else 0)"
proof -
  let ?db = "db\<lparr>lg_events := AList.update (localBillingEventKey c (ev_ID ev)) ev (lg_events db),
    lg_timeline := zadd (localBillingKey c [''events'', ev_AccountID ev])
      (ev_OccurredAt ev) (ev_ID ev) (lg_timeline db)\<rparr>"
  have "fst (hincrby_all (localBillingAccountKey c (ev_AccountID ev)) (event_increments ev) ?db)"
    using assms by (auto simp: record_script_def case_prod_beta Let_def split: if_splits)
  from hincrby_all_counter[OF this, of k] assms show ?thesis
    by (auto simp: record_script_def case_prod_beta Let_def ledger_balance_def event_increments_def)
qed

lemma ledger_step_balance:
  assumes fits: "ledger_fits c op db"
    and app: "ledger_key c op \<notin> ledger_seen db" "ledger_key c op \<in> ledger_seen (ledger_step c op db)"
  shows "ledger_balance (ledger_step c op db) k = ledger_balance db k + ledger_delta c k op"
proof -
  have ch: "ledger_step c op db \<noteq> db" using app by auto
  show ?thesis
  proof (cases op)
    case (LInit u a cur n)
    then show ?thesis by (simp add: ledger_op_defs ledger_balance_def)
  next
    case (LCredit u a ik cur n)
    with app(1) have "localBillingKey c [''adjustment'', ik] \<notin> set (lg_adjustments db)"
      by (auto simp: ledger_seen_def)
    with LCredit ch fits show ?thesis
      by (auto simp: ledger_op_defs ledger_fits_def adjust_once_balance split: if_splits)
  next
    case (LAdjust u a ik d cur)
    with app(1) have "localBillingKey c [''adjustment'', ik] \<notin> set (lg_adjustments db)"
      by (auto simp: ledger_seen_def)
    with LAdjust ch fits show ?thesis
      by (auto simp: ledger_op_defs ledger_fits_def adjust_once_balance split: if_splits)
  next
    case (LRecord u now ev)
    with app(1) have "map_of (lg_events db) (localBillingEventKey c (ev_ID ev)) = None"
      by (auto simp: ledger_seen_def)
    with LRecord ch fits show ?thesis
      by (auto simp: ledger_op_defs ledger_fits_def record_script_balance split: if_splits)
  qed
qed

lemma ledger_run_balance:
  "run_within (ledger_fits c) (ledger_step c) ops db \<Longrightarrow>
   ledger_balance (fold (ledger_step c) ops db) k =
     ledger_balance db k +
     (\<Sum>op \<leftarrow> applied_ops (ledger_key c) ledger_seen (ledger_step c) ops db. ledger_delta c k op)"
proof (induction ops arbitrary: db)
  case (Cons op ops)
  let ?app = "ledger_key c op \<notin> ledger_seen db \<and> ledger_key c op \<in> ledger_seen (ledger_step c op db)"
  have "ledger_balance (ledger_step c op db) k = ledger_balance db k + (if ?app then ledger_delta c k op else 0)"
    using Cons.prems ledger_step_balance[of c op db k] ledger_once.not_applied[of c op db] by auto
  with Cons show ?case by simp
qed simp

text \<open>
  C10. Exactly-once accounting: after any sequence of account initialisations, credits, adjustments
  and usage events, with retries, duplicates and failing calls anywhere, an account's credit minus
  its spending has changed by the sum of the operations that took effect, and no two of those share
  an idempotency key. Only an overflow of a 64-bit counter is excluded.
\<close>

theorem ledger_exactly_once:
  assumes "run_within (ledger_fits c) (ledger_step c) ops db"
  defines "applied \<equiv> applied_ops (ledger_key c) ledger_seen (ledger_step c) ops db"
  shows "ledger_balance (fold (ledger_step c) ops db) k =
           ledger_balance db k + (\<Sum>op \<leftarrow> applied. ledger_delta c k op) \<and>
         distinct (map (ledger_key c) applied) \<and>
         (\<forall>op \<in> set applied. ledger_key c op \<notin> ledger_seen db)"
  unfolding applied_def
  using assms(1) ledger_run_balance ledger_once.applied_distinct ledger_once.applied_fresh by blast

definition empty_ledger :: ledger_db where
  "empty_ledger = \<lparr>lg_currency = [], lg_counters = [], lg_events = [], lg_adjustments = [], lg_timeline = []\<rparr>"

definition demo_event :: "string \<Rightarrow> string \<Rightarrow> int \<Rightarrow> local_billing_event" where
  "demo_event i a n = \<lparr>ev_ID = i, ev_RequestID = i, ev_AccessKeyID = [], ev_AccountID = a,
     ev_SubjectType = [], ev_SubjectID = [], ev_Provider = [], ev_Model = [], ev_API = [], ev_Status = 200,
     ev_Stream = False, ev_OccurredAt = 7, ev_InputTokens = 1, ev_OutputTokens = 1, ev_CachedTokens = 0,
     ev_TotalTokens = 2, ev_AmountMicros = n, ev_Currency = [], ev_PricingModel = [], ev_Metadata = []\<rparr>"

definition demo_ledger_ops :: "ledger_op list" where
  "demo_ledger_ops = [LCredit True ''a'' ''c1'' ''cny'' 100, LRecord False 1 (demo_event ''r'' ''a'' 30),
     LRecord True 1 (demo_event ''r'' ''a'' 30), LRecord True 2 (demo_event ''r'' ''a'' 30),
     LCredit True ''a'' ''c1'' ''cny'' 100]"

theorem ledger_exactly_once_witness:
  "ledger_balance (fold (ledger_step demo_client) demo_ledger_ops empty_ledger) ''onr:billing:account:a'' = 70"
proof -
  have fits: "run_within (ledger_fits demo_client) (ledger_step demo_client) demo_ledger_ops empty_ledger"
    by code_simp
  have k: "localBillingAccountKey demo_client ''a'' = ''onr:billing:account:a''"
    "localBillingKey demo_client [''adjustment'', ''c1''] = ''onr:billing:adjustment:c1''"
    "localBillingEventKey demo_client ''r'' = ''onr:billing:event:r''" by code_simp+
  have t: "trim_space ''a'' = ''a''" "trim_space ''c1'' = ''c1''" "trim_space ''r'' = ''r''" by code_simp+
  have app: "applied_ops (ledger_key demo_client) ledger_seen (ledger_step demo_client) demo_ledger_ops empty_ledger =
      [LCredit True ''a'' ''c1'' ''cny'' 100, LRecord True 1 (demo_event ''r'' ''a'' 30)]"
    by (simp add: demo_ledger_ops_def empty_ledger_def ledger_seen_def ledger_op_defs k t demo_event_def
          adjust_once_def record_script_def event_increments_def in_int64_def counter_def hsetnx_currency_def
          zadd_def)
  have "ledger_balance empty_ledger ''onr:billing:account:a'' = 0"
    by (simp add: ledger_balance_def counter_def empty_ledger_def)
  with ledger_exactly_once[OF fits, of "''onr:billing:account:a''"] show ?thesis
    by (simp add: app k demo_event_def)
qed

text \<open>
  Idempotency keys of credits and adjustments are shared by all accounts: once a key has been
  used, a credit or adjustment under the same key for any account reports success and changes
  nothing, although its amount was never booked for that account.
\<close>

theorem adjustment_key_shared_by_accounts:
  assumes first: "AdjustLocalBillingAccount c True a ik d cur db = (Inr (), db1)"
    and valid: "trim_space b \<noteq> []" "d' \<noteq> 0" "0 \<le> n"
  shows "AdjustLocalBillingAccount c True b ik d' cur' db1 = (Inr (), db1) \<and>
         SetInitialLocalBillingCredit c True b ik cur' n db1 = (Inr (), db1)"
proof -
  let ?ik = "localBillingKey c [''adjustment'', ik]"
  from first have ne: "trim_space ik \<noteq> []"
    by (auto simp: AdjustLocalBillingAccount_def split: if_splits)
  from first have "?ik \<in> set (lg_adjustments db1)"
    by (auto simp: AdjustLocalBillingAccount_def adjust_once_def Let_def case_prod_beta
        hincrby_all_frame[THEN arg_cong[where f = set]] split: if_splits dest!: arg_cong[where f = snd])
  with valid ne show ?thesis
    by (simp add: AdjustLocalBillingAccount_def SetInitialLocalBillingCredit_def adjust_once_def)
qed

theorem adjustment_key_shared_by_accounts_witness:
  "\<exists>db1. AdjustLocalBillingAccount demo_client True ''a'' ''k'' 5 ''cny'' empty_ledger = (Inr (), db1) \<and>
     AdjustLocalBillingAccount demo_client True ''b'' ''k'' 9 ''cny'' db1 = (Inr (), db1) \<and>
     ledger_balance db1 (localBillingAccountKey demo_client ''b'') = 0"
proof -
  let ?db1 = "snd (AdjustLocalBillingAccount demo_client True ''a'' ''k'' 5 ''cny'' empty_ledger)"
  have "fst (AdjustLocalBillingAccount demo_client True ''a'' ''k'' 5 ''cny'' empty_ledger) = Inr ()" by code_simp
  then have first: "AdjustLocalBillingAccount demo_client True ''a'' ''k'' 5 ''cny'' empty_ledger = (Inr (), ?db1)"
    by (simp add: prod_eq_iff)
  have b: "trim_space ''b'' \<noteq> []" by code_simp
  have "ledger_balance ?db1 (localBillingAccountKey demo_client ''b'') = 0" by code_simp
  with adjustment_key_shared_by_accounts[OF first b, of 9 0 "''cny''"] first show ?thesis by auto
qed

section \<open>Outstanding billing events\<close>

definition keys :: "('k \<times> 'v) list \<Rightarrow> 'k set" where
  "keys m = fst ` set m"

definition owned :: "stream_db \<Rightarrow> string \<Rightarrow> nat" where
  "owned db ak = length (filter (\<lambda>(i, a). a = ak) (sd_owner db))"

definition wf_counters :: "stream_db \<Rightarrow> bool" where
  "wf_counters db \<longleftrightarrow> distinct (map fst (sd_owner db)) \<and>
     (\<forall>ak. map_of (sd_pending db) ak = (if owned db ak = 0 then None else Some (int (owned db ak))))"

text \<open>
  Identifiers increase, every outstanding event is still in the stream, and one that was delivered
  is still in the list of unacknowledged deliveries.
\<close>

definition wf_entries :: "stream_db \<Rightarrow> bool" where
  "wf_entries db \<longleftrightarrow> sorted_wrt (<) (map fst (sd_entries db)) \<and>
     (\<forall>i \<in> keys (sd_entries db). i \<le> sd_last db) \<and> sd_delivered db \<le> sd_last db \<and>
     (\<forall>i \<in> keys (sd_owner db). i \<in> keys (sd_entries db) \<and>
        (sd_delivered db < i \<or> i \<in> keys (sd_pel db)))"

definition wf_stream :: "stream_db \<Rightarrow> bool" where
  "wf_stream db \<longleftrightarrow> wf_counters db \<and> wf_entries db"

lemma keys_simps [simp]:
  "keys [] = {}" "keys (AList.delete i m) = keys m - {i}" "keys (AList.update i v m) = insert i (keys m)"
  "keys (m @ m') = keys m \<union> keys m'" "keys (x # m) = insert (fst x) (keys m)"
proof -
  show "keys (AList.delete i m) = keys m - {i}" by (induction m) (auto simp: keys_def)
  show "keys (AList.update i v m) = insert i (keys m)" by (induction m) (auto simp: keys_def)
qed (auto simp: keys_def)

lemma length_filter_delete:
  "distinct (map fst m) \<Longrightarrow> map_of m i = Some ak \<Longrightarrow>
   length (filter P m) = length (filter P (AList.delete i m)) + (if P (i, ak) then 1 else 0)"
proof (induction m)
  case (Cons x m)
  show ?case
  proof (cases "fst x = i")
    case True
    with Cons.prems have "x = (i, ak)" "AList.delete i m = m"
      by (auto intro!: delete_idem)
    with True show ?thesis by simp
  qed (use Cons in auto)
qed simp

lemma owned_pos: "map_of (sd_owner db) i = Some ak \<Longrightarrow> 0 < owned db ak"
  unfolding owned_def by (rule length_pos_if_in_set[of "(i, ak)"]) (simp add: map_of_SomeD)

lemma drop_owner_frame [simp]:
  "sd_entries (drop_owner i db) = sd_entries db" "sd_last (drop_owner i db) = sd_last db"
  "sd_delivered (drop_owner i db) = sd_delivered db" "sd_pel (drop_owner i db) = sd_pel db"
  by (simp_all add: drop_owner_def Let_def split: option.split)

lemma drop_owner_owner [simp]: "keys (sd_owner (drop_owner i db)) = keys (sd_owner db) - {i}"
proof (cases "map_of (sd_owner db) i")
  case None
  then have "i \<notin> keys (sd_owner db)" by (simp add: keys_def map_of_eq_None_iff)
  with None show ?thesis by (simp add: drop_owner_def)
qed (simp add: drop_owner_def Let_def)

lemma drop_owner_counters:
  assumes wf: "wf_counters db" shows "wf_counters (drop_owner i db)"
proof (cases "map_of (sd_owner db) i")
  case (Some ak)
  let ?db = "drop_owner i db"
  from wf have d: "distinct (map fst (sd_owner db))" by (simp add: wf_counters_def)
  have o: "owned ?db b = owned db b - (if b = ak then 1 else 0)" for b
    using length_filter_delete[OF d Some, of "\<lambda>(i, a). a = b"]
    by (simp add: drop_owner_def Some Let_def owned_def)
  have p: "map_of (sd_pending db) b = (if owned db b = 0 then None else Some (int (owned db b)))" for b
    using wf by (simp add: wf_counters_def)
  have "pending_count db ak = int (owned db ak)" using p[of ak] by (simp add: pending_count_def)
  then have q: "map_of (sd_pending ?db) = (if owned db ak \<le> 1 then (map_of (sd_pending db))(ak := None)
      else (map_of (sd_pending db))(ak \<mapsto> int (owned db ak) - 1))"
    by (simp add: drop_owner_def Some Let_def update_conv' delete_conv')
  have "map_of (sd_pending ?db) b = (if owned ?db b = 0 then None else Some (int (owned ?db b)))" for b
    using owned_pos[OF Some] p[of b] p[of ak] by (auto simp: o q of_nat_diff)
  moreover have "distinct (map fst (sd_owner ?db))"
    using d by (simp add: drop_owner_def Some Let_def distinct_delete)
  ultimately show ?thesis by (simp add: wf_counters_def)
qed (use wf in \<open>simp add: drop_owner_def\<close>)

lemma wf_counters_cong:
  "sd_owner db' = sd_owner db \<Longrightarrow> sd_pending db' = sd_pending db \<Longrightarrow> wf_counters db' = wf_counters db"
  by (simp add: wf_counters_def owned_def)

lemma ack_one_wf: "wf_stream db \<Longrightarrow> wf_stream (ack_one i db)"
  unfolding wf_stream_def ack_one_def keys_def[symmetric]
  using wf_counters_cong[of "db\<lparr>sd_pel := AList.delete i (sd_pel db)\<rparr>" db]
  by (auto simp: wf_entries_def intro!: drop_owner_counters)

lemma AckBilling_wf: "wf_stream db \<Longrightarrow> wf_stream (AckBilling ids db)"
  unfolding AckBilling_def by (induction ids arbitrary: db) (simp_all add: ack_one_wf)

lemma sorted_wrt_delete_fst: "sorted_wrt (<) (map fst m) \<Longrightarrow> sorted_wrt (<) (map fst (AList.delete i m))"
  by (simp add: delete_keys removeAll_filter_not_eq sorted_wrt_filter)

lemma DeadLetterBilling_wf: "wf_stream db \<Longrightarrow> wf_stream (DeadLetterBilling i payload db)"
  unfolding wf_stream_def DeadLetterBilling_def
  using wf_counters_cong[of "db\<lparr>sd_dead := sd_dead db @ [(i, payload)], sd_pel := AList.delete i (sd_pel db),
    sd_entries := AList.delete i (sd_entries db), sd_attempts := AList.delete i (sd_attempts db)\<rparr>" db]
  by (auto simp: wf_entries_def sorted_wrt_delete_fst intro!: drop_owner_counters)

lemma take_up_to_last:
  fixes xs :: "(nat \<times> 'a) list"
  assumes "sorted_wrt (<) (map fst xs)" "x \<in> set xs" "take n xs \<noteq> []" "fst x \<le> fst (last (take n xs))"
  shows "x \<in> set (take n xs)"
proof (rule ccontr)
  assume "x \<notin> set (take n xs)"
  moreover have "xs = take n xs @ drop n xs" by simp
  ultimately have "x \<in> set (drop n xs)" using assms(2) by (metis Un_iff set_append)
  moreover from assms(1) have "sorted_wrt (<) (map fst (take n xs) @ map fst (drop n xs))"
    by (simp flip: map_append)
  ultimately have "fst (last (take n xs)) < fst x"
    using assms(3) by (auto simp: sorted_wrt_append)
  with assms(4) show False by simp
qed

lemma limit_count_take: "\<exists>n. limit_count cnt xs = take n xs"
  by (cases "cnt > 0") (auto simp: limit_count_def intro: exI[of _ "length xs"])

lemma ReadBilling_wf: "wf_stream db \<Longrightarrow> wf_stream (snd (ReadBilling c now cnt db))"
proof -
  assume wf: "wf_stream db"
  let ?avail = "filter (\<lambda>(i, _). sd_delivered db < i) (sd_entries db)"
  obtain n where n: "limit_count cnt ?avail = take n ?avail" using limit_count_take by blast
  let ?new = "take n ?avail" and ?db = "snd (ReadBilling c now cnt db)"
  have db': "?db = db\<lparr>sd_delivered := (if ?new = [] then sd_delivered db else fst (last ?new)),
      sd_pel := sd_pel db @ map (\<lambda>(i, _). (i, (cl_billingConsumer c, now))) ?new\<rparr>"
    by (simp add: ReadBilling_def n Let_def)
  have pel: "keys (sd_pel ?db) = keys (sd_pel db) \<union> keys ?new" unfolding db' keys_def by force
  have sub: "x \<in> set (sd_entries db) \<and> sd_delivered db < fst x" if "x \<in> set ?new" for x
    using in_set_takeD[OF that] by auto
  have e: "sorted_wrt (<) (map fst (sd_entries db))" "\<forall>i \<in> keys (sd_entries db). i \<le> sd_last db"
      "sd_delivered db \<le> sd_last db" using wf by (simp_all add: wf_stream_def wf_entries_def)
  have s: "sorted_wrt (<) (map fst ?avail)"
    using e(1) by (simp add: sorted_wrt_map sorted_wrt_filter)
  have last: "sd_delivered ?db \<le> sd_last db"
    using e(2,3) sub[of "last ?new"] by (auto simp: db' keys_def)
  have "sd_delivered ?db < i \<or> i \<in> keys (sd_pel ?db)" if o: "i \<in> keys (sd_owner db)" for i
  proof (cases "i \<in> keys (sd_pel db)")
    case False
    with wf o have d: "sd_delivered db < i" and "i \<in> keys (sd_entries db)"
      by (auto simp: wf_stream_def wf_entries_def)
    then obtain x where x: "x \<in> set ?avail" "fst x = i" by (auto simp: keys_def)
    show ?thesis
    proof (cases "?new \<noteq> [] \<and> i \<le> fst (last ?new)")
      case True
      with take_up_to_last[OF s x(1), of n] x(2) have "i \<in> keys ?new" by (auto simp: keys_def)
      then show ?thesis by (simp add: pel)
    qed (use d in \<open>auto simp: db'\<close>)
  qed (simp add: pel)
  moreover have "sd_entries ?db = sd_entries db" "sd_owner ?db = sd_owner db" "sd_last ?db = sd_last db"
    "sd_pending ?db = sd_pending db" by (simp_all add: ReadBilling_def Let_def)
  ultimately show ?thesis
    using wf last wf_counters_cong[of ?db db] by (simp add: wf_stream_def wf_entries_def)
qed

lemma keys_map_same: "keys (map (\<lambda>(i, e). if P i then (i, f i) else (i, e)) m) = keys m"
  unfolding keys_def by (force split: if_splits)

lemma autoClaim_wf: "wf_stream db \<Longrightarrow> wf_stream (snd (autoClaimBillingLegacy c now idle cnt db))"
  using wf_counters_cong[of "snd (autoClaimBillingLegacy c now idle cnt db)" db]
  by (auto simp: autoClaimBillingLegacy_def claim_entries_def Let_def wf_stream_def wf_entries_def keys_map_same)

lemma Increment_wf: "wf_stream db \<Longrightarrow> wf_stream (snd (IncrementBillingAttempt i db))"
  using wf_counters_cong[of "snd (IncrementBillingAttempt i db)" db]
  by (simp add: IncrementBillingAttempt_def Let_def wf_stream_def wf_entries_def)

lemma Enqueue_wf:
  assumes wf: "wf_stream db" shows "wf_stream (snd (EnqueueBillingEventForAccessKey gap payload a db))"
proof -
  let ?i = "sd_last db + 1 + gap" and ?ak = "trim_space a"
  let ?db = "snd (EnqueueBillingEventForAccessKey gap payload a db)"
  have e: "\<forall>i \<in> keys (sd_entries db). i \<le> sd_last db" "keys (sd_owner db) \<subseteq> keys (sd_entries db)"
      "sd_delivered db \<le> sd_last db" using wf by (auto simp: wf_stream_def wf_entries_def)
  then have new: "?i \<notin> keys (sd_owner db)" by fastforce
  then have upd: "AList.update ?i ?ak (sd_owner db) = sd_owner db @ [(?i, ?ak)]"
    by (simp add: update_fresh keys_def)
  have own: "owned ?db b = owned db b + (if ?ak \<noteq> [] \<and> b = ?ak then 1 else 0)" for b
    using upd by (simp add: EnqueueBillingEventForAccessKey_def Let_def owned_def)
  have "wf_counters ?db"
  proof (cases "?ak = []")
    case True
    with wf wf_counters_cong[of ?db db] show ?thesis
      by (simp add: EnqueueBillingEventForAccessKey_def Let_def wf_stream_def)
  next
    case False
    have p: "map_of (sd_pending db) b = (if owned db b = 0 then None else Some (int (owned db b)))" for b
      using wf by (simp add: wf_stream_def wf_counters_def)
    then have "pending_count db ?ak = int (owned db ?ak)" by (simp add: pending_count_def)
    with False have q: "map_of (sd_pending ?db) = (map_of (sd_pending db))(?ak \<mapsto> int (owned db ?ak) + 1)"
      by (simp add: EnqueueBillingEventForAccessKey_def Let_def update_conv' pending_count_def)
    moreover have "distinct (map fst (sd_owner ?db))"
      using wf False by (simp add: EnqueueBillingEventForAccessKey_def Let_def distinct_update wf_stream_def
          wf_counters_def)
    ultimately show ?thesis using p False by (simp add: wf_counters_def own q)
  qed
  moreover have "wf_entries ?db"
  proof -
    have "sd_entries ?db = sd_entries db @ [(?i, payload)]" "sd_last ?db = ?i" "sd_pel ?db = sd_pel db"
        "sd_delivered ?db = sd_delivered db" "keys (sd_owner ?db) \<subseteq> insert ?i (keys (sd_owner db))"
      by (auto simp: EnqueueBillingEventForAccessKey_def Let_def)
    moreover have "sorted_wrt (<) (map fst (sd_entries db @ [(?i, payload)]))"
      using wf e(1) by (auto simp: wf_stream_def wf_entries_def sorted_wrt_append keys_def)
    moreover have "\<forall>i \<in> keys (sd_owner db). sd_delivered db < i \<or> i \<in> keys (sd_pel db)"
      using wf by (simp add: wf_stream_def wf_entries_def)
    ultimately show ?thesis using e unfolding wf_entries_def
      by (intro conjI ballI) (auto simp: le_Suc_eq trans_le_add1 dest!: subsetD)
  qed
  ultimately show ?thesis by (simp add: wf_stream_def)
qed

datatype stream_op =
    SEnqueue nat string string
  | SRead client int int
  | SClaim client int int int
  | SAck "nat list"
  | SAttempt nat
  | SDead nat string

primrec stream_step :: "stream_op \<Rightarrow> stream_db \<Rightarrow> stream_db" where
  "stream_step (SEnqueue gap payload ak) db = snd (EnqueueBillingEventForAccessKey gap payload ak db)"
| "stream_step (SRead c now cnt) db = snd (ReadBilling c now cnt db)"
| "stream_step (SClaim c now idle cnt) db = snd (autoClaimBillingLegacy c now idle cnt db)"
| "stream_step (SAck ids) db = AckBilling ids db"
| "stream_step (SAttempt i) db = snd (IncrementBillingAttempt i db)"
| "stream_step (SDead i payload) db = DeadLetterBilling i payload db"

interpretation stream_ops: guarded_ops "\<lambda>_ _. True" stream_step wf_stream
proof
  fix db op assume "wf_stream db"
  then show "wf_stream (stream_step op db)"
    by (cases op) (simp_all add: Enqueue_wf ReadBilling_wf autoClaim_wf AckBilling_wf Increment_wf
        DeadLetterBilling_wf)
qed

definition empty_stream :: stream_db where
  "empty_stream = \<lparr>sd_entries = [], sd_last = 0, sd_delivered = 0, sd_pel = [], sd_owner = [],
     sd_pending = [], sd_attempts = [], sd_dead = []\<rparr>"

lemma run_within_True [simp]: "run_within (\<lambda>_ _. True) step ops s"
  by (induction ops arbitrary: s) simp_all



section \<open>The refresh lock\<close>

datatype lock_op =
    LockAcquire int string string string string int
  | LockRelease int string string string string

primrec lock_step :: "client \<Rightarrow> lock_op \<Rightarrow> ttl_db \<Rightarrow> ttl_db" where
  "lock_step c (LockAcquire now st sid cur token ttl) db =
     snd (AcquireBalanceRefreshLock c now st sid cur token ttl db)"
| "lock_step c (LockRelease now st sid cur token) db = ReleaseBalanceRefreshLock c now st sid cur token db"

text \<open>Calls before the lock expires that do not release it with the holder's token.\<close>

primrec lock_op_by_others :: "int \<Rightarrow> string \<Rightarrow> lock_op \<Rightarrow> bool" where
  "lock_op_by_others until a (LockAcquire now st sid cur token ttl) \<longleftrightarrow> now < until"
| "lock_op_by_others until a (LockRelease now st sid cur token) \<longleftrightarrow> token \<noteq> a"

definition holds_lock :: "string \<Rightarrow> string \<Rightarrow> int \<Rightarrow> ttl_db \<Rightarrow> bool" where
  "holds_lock k a until db \<longleftrightarrow> map_of db k = Some (a, Some until)"

lemma holds_lock_get: "holds_lock k a until db \<Longrightarrow> now < until \<Longrightarrow> ttl_get now k db = Some a"
  by (simp add: holds_lock_def ttl_get_def)

interpretation lock_ops: guarded_ops "\<lambda>op _. lock_op_by_others until a op" "lock_step c" "holds_lock k a until"
  for until a c k
proof
  fix db op assume h: "holds_lock k a until db" and ok: "lock_op_by_others until a op"
  show "holds_lock k a until (lock_step c op db)"
  proof (cases op)
    case (LockAcquire now st sid cur token ttl)
    with h ok holds_lock_get[OF h, of now] show ?thesis
      by (auto simp: AcquireBalanceRefreshLock_def set_nx_def ttl_set_def holds_lock_def update_conv' Let_def)
  next
    case (LockRelease now st sid cur token)
    moreover have "ttl_get now k db \<noteq> Some token"
      using h ok LockRelease by (auto simp: holds_lock_def ttl_get_def)
    ultimately show ?thesis
      using h by (auto simp: ReleaseBalanceRefreshLock_def holds_lock_def delete_conv' Let_def)
  qed
qed

text \<open>
  The balance refresh lock excludes others: after a successful acquisition, whatever locks
  others acquire or release under their own tokens before the expiry, a further acquisition for
  the same subject and currency fails until then, and succeeds once the holder has released it.
\<close>

theorem refresh_lock_exclusive:
  assumes acq: "AcquireBalanceRefreshLock c t st sid cur a ttl db = (Inr True, db1)" and ttl: "ttl \<noteq> 0"
    and others: "run_within (\<lambda>op _. lock_op_by_others (t + ttl) a op) (lock_step c) ops db1"
    and t': "t' < t + ttl" and b: "trim_space b \<noteq> []"
  shows "fst (AcquireBalanceRefreshLock c t' st sid cur b ttl' (fold (lock_step c) ops db1)) = Inr False \<and>
         fst (AcquireBalanceRefreshLock c t' st sid cur b ttl'
               (ReleaseBalanceRefreshLock c t' st sid cur a (fold (lock_step c) ops db1))) = Inr True"
proof -
  let ?k = "lockKey c st sid cur" and ?db = "fold (lock_step c) ops db1"
  have "holds_lock ?k a (t + ttl) db1"
    using acq ttl by (auto simp: AcquireBalanceRefreshLock_def set_nx_def ttl_set_def holds_lock_def
        update_conv' Let_def split: if_splits)
  from lock_ops.run_inv[OF this others] have "ttl_get t' ?k ?db = Some a" by (rule holds_lock_get) (rule t')
  then show ?thesis
    using b by (simp add: AcquireBalanceRefreshLock_def ReleaseBalanceRefreshLock_def set_nx_def Let_def
        ttl_get_def delete_conv')
qed

theorem refresh_lock_exclusive_witness:
  "\<exists>db1. AcquireBalanceRefreshLock demo_client 10 ''user'' ''u'' ''CNY'' ''A'' 5 [] = (Inr True, db1) \<and>
     fst (AcquireBalanceRefreshLock demo_client 14 ''user'' ''u'' ''CNY'' ''B'' 5
       (fold (lock_step demo_client) [LockRelease 12 ''user'' ''u'' ''CNY'' ''B''] db1)) = Inr False"
proof -
  let ?r = "AcquireBalanceRefreshLock demo_client 10 ''user'' ''u'' ''CNY'' ''A'' 5 []"
  have "fst ?r = Inr True" by code_simp
  then have acq: "?r = (Inr True, snd ?r)" by (simp add: prod_eq_iff)
  have b: "trim_space ''B'' \<noteq> []" by code_simp
  from refresh_lock_exclusive[OF acq, of "[LockRelease 12 ''user'' ''u'' ''CNY'' ''B'']" 14 "''B''" 5] acq b
  show ?thesis by auto
qed

end
