(* ===== verification/Reconciliation.thy ===== *)
theory Reconciliation
  imports Billing_Store
begin

text \<open>
  The queue of usage records to be reconciled with a provider,
  \<^verbatim>\<open>pkg/controlplane/reconciliation.go\<close>: candidates are enqueued once, leased by a worker for a
  limited time, then acknowledged or rescheduled by the holder of the current lease. The queue is a
  small state machine over the stored candidates and a sorted set of due times, in milliseconds.

  The digest (SHA-256 in hexadecimal) is an argument. Scripts run atomically; a candidate without a
  lease has an empty lease token, which no caller can present.
\<close>

section \<open>Data\<close>

record candidate =
  cd_ID :: string
  cd_Provider :: string
  cd_InternalKeyID :: string
  cd_ProviderRequestID :: string
  cd_ONRRequestID :: string
  cd_AccessKeyID :: string
  cd_AccountID :: string
  cd_SubjectType :: string
  cd_SubjectID :: string
  cd_RoutePolicyID :: string
  cd_API :: string
  cd_Model :: string
  cd_Stream :: bool
  cd_OccurredAt :: "int option"
  cd_CreatedAt :: "int option"
  cd_UpdatedAt :: "int option"
  cd_Attempts :: int
  cd_LastErrorCode :: string
  cd_LeaseOwner :: string
  cd_LeaseToken :: string
  cd_LeaseUntil :: "int option"
  cd_NextAttemptAt :: "int option"

record recon_db =
  rc_items :: "(string \<times> candidate) list"
  rc_due :: "(string \<times> int) list"

datatype recon_error =
    ReconDown
  | MissingIdentity
  | MissingScope
  | MissingOccurredAt
  | IdentityMismatch
  | BadClaim
  | NoLeaseToken
  | BadErrorCode
  | MissingNextAttempt

section \<open>Identity and normalisation\<close>

definition reconciliationCandidateID :: "(string \<Rightarrow> string) \<Rightarrow> string \<Rightarrow> string \<Rightarrow> string \<Rightarrow> string" where
  "reconciliationCandidateID sha provider internalKeyID providerRequestID =
     sha (to_lower (trim_space provider) @ [CHR 0x00] @ trim_space internalKeyID @ [CHR 0x00] @
          trim_space providerRequestID)"

definition trim_candidate :: "candidate \<Rightarrow> candidate" where
  "trim_candidate x =
     x\<lparr>cd_Provider := to_lower (trim_space (cd_Provider x)),
       cd_InternalKeyID := trim_space (cd_InternalKeyID x),
       cd_ProviderRequestID := trim_space (cd_ProviderRequestID x),
       cd_ONRRequestID := trim_space (cd_ONRRequestID x),
       cd_AccessKeyID := trim_space (cd_AccessKeyID x),
       cd_AccountID := trim_space (cd_AccountID x),
       cd_SubjectType := trim_space (cd_SubjectType x),
       cd_SubjectID := trim_space (cd_SubjectID x),
       cd_RoutePolicyID := trim_space (cd_RoutePolicyID x),
       cd_API := trim_space (cd_API x),
       cd_Model := trim_space (cd_Model x)\<rparr>"

definition normalize_candidate :: "(string \<Rightarrow> string) \<Rightarrow> int \<Rightarrow> candidate \<Rightarrow> recon_error + candidate" where
  "normalize_candidate sha now cand =
     (let x = trim_candidate cand;
          expectedID = reconciliationCandidateID sha (cd_Provider x) (cd_InternalKeyID x) (cd_ProviderRequestID x) in
      if cd_Provider x = [] \<or> cd_InternalKeyID x = [] \<or> cd_ProviderRequestID x = [] \<or> cd_ONRRequestID x = []
      then Inl MissingIdentity
      else if cd_AccessKeyID x = [] \<or> cd_AccountID x = [] \<or> cd_SubjectType x = [] \<or> cd_SubjectID x = []
      then Inl MissingScope
      else if cd_OccurredAt x = None then Inl MissingOccurredAt
      else if cd_ID x \<noteq> [] \<and> cd_ID x \<noteq> expectedID then Inl IdentityMismatch
      else Inr (x\<lparr>cd_ID := expectedID,
                  cd_CreatedAt := (if cd_CreatedAt x = None then Some now else cd_CreatedAt x),
                  cd_UpdatedAt := Some now,
                  cd_NextAttemptAt := (if cd_NextAttemptAt x = None then Some now else cd_NextAttemptAt x)\<rparr>))"

definition code_byte :: "char \<Rightarrow> bool" where
  "code_byte c \<longleftrightarrow> byte_in 97 122 c \<or> byte_in 48 57 c \<or> c \<in> set ''_-.''"

definition validateCandidateErrorCode :: "string \<Rightarrow> recon_error + string" where
  "validateCandidateErrorCode value =
     (let v = trim_space value in
      if v = [] \<or> length v > 64 \<or> \<not> list_all code_byte v then Inl BadErrorCode else Inr v)"

definition newReconciliationLeaseToken :: "string option \<Rightarrow> recon_error + string" where
  "newReconciliationLeaseToken rand =
     (case rand of None \<Rightarrow> Inl NoLeaseToken | Some buf \<Rightarrow> Inr (b64_encode raw_url_encoding buf))"

definition reconciliationCandidateKey :: "client \<Rightarrow> string \<Rightarrow> string" where
  "reconciliationCandidateKey c i = client_key c [''reconciliation'', ''candidate'', i]"

section \<open>Operations\<close>

definition EnqueueReconciliationCandidate ::
    "client \<Rightarrow> (string \<Rightarrow> string) \<Rightarrow> bool \<Rightarrow> int \<Rightarrow> candidate \<Rightarrow> recon_db
     \<Rightarrow> (recon_error + string \<times> bool) \<times> recon_db" where
  "EnqueueReconciliationCandidate c sha up now cand db =
     (case normalize_candidate sha now cand of
        Inl e \<Rightarrow> (Inl e, db)
      | Inr x \<Rightarrow>
          if \<not> up then (Inl ReconDown, db)
          else
            let k = reconciliationCandidateKey c (cd_ID x) in
            if map_of (rc_items db) k \<noteq> None then (Inr (cd_ID x, False), db)
            else (Inr (cd_ID x, True),
                  db\<lparr>rc_items := AList.update k x (rc_items db),
                     rc_due := AList.update (cd_ID x)
                       (case cd_NextAttemptAt x of None \<Rightarrow> 0 | Some t \<Rightarrow> t) (rc_due db)\<rparr>))"

text \<open>The identifiers due at \<open>now\<close>, by due time and identifier, at most \<open>limit\<close> of them.\<close>

definition due_ids :: "int \<Rightarrow> nat \<Rightarrow> (string \<times> int) list \<Rightarrow> string list" where
  "due_ids now limit z =
     take limit (map snd (sort (map (\<lambda>(m, s). (s, m)) (filter (\<lambda>(m, s). s \<le> now) z))))"

definition lease_candidate :: "string \<Rightarrow> string \<Rightarrow> int \<Rightarrow> int \<Rightarrow> candidate \<Rightarrow> candidate" where
  "lease_candidate owner token until now x =
     x\<lparr>cd_LeaseOwner := owner, cd_LeaseToken := token, cd_LeaseUntil := Some until, cd_UpdatedAt := Some now\<rparr>"

definition claim_one ::
    "client \<Rightarrow> string \<Rightarrow> string \<Rightarrow> int \<Rightarrow> int \<Rightarrow> string \<Rightarrow> candidate list \<times> recon_db \<Rightarrow> candidate list \<times> recon_db" where
  "claim_one c owner token until now i = (\<lambda>(out, db).
     let k = client_key c [''reconciliation'', ''candidate''] @ '':'' @ i in
     case map_of (rc_items db) k of
       Some item \<Rightarrow>
         let x = lease_candidate owner token until now item in
         (out @ [x], db\<lparr>rc_items := AList.update k x (rc_items db), rc_due := AList.update i until (rc_due db)\<rparr>)
     | None \<Rightarrow> (out, db\<lparr>rc_due := AList.delete i (rc_due db)\<rparr>))"

definition ClaimReconciliationCandidates ::
    "client \<Rightarrow> bool \<Rightarrow> string option \<Rightarrow> string \<Rightarrow> int \<Rightarrow> int \<Rightarrow> int \<Rightarrow> recon_db
     \<Rightarrow> (recon_error + candidate list) \<times> recon_db" where
  "ClaimReconciliationCandidates c up rand owner now lease limit db =
     (if trim_space owner = [] \<or> lease \<le> 0 \<or> limit \<le> 0 then (Inl BadClaim, db)
      else
        case newReconciliationLeaseToken rand of
          Inl e \<Rightarrow> (Inl e, db)
        | Inr token \<Rightarrow>
            if \<not> up then (Inl ReconDown, db)
            else
              let n = (if limit > 100 then 100 else nat limit);
                  (out, db') = fold (claim_one c (trim_space owner) token (now + lease) now)
                                 (due_ids now n (rc_due db)) ([], db) in
              (Inr out, db'))"

text \<open>The caller must present the token of the current lease.\<close>

definition owns_lease :: "candidate \<Rightarrow> string \<Rightarrow> bool" where
  "owns_lease item token \<longleftrightarrow> cd_LeaseToken item \<noteq> [] \<and> cd_LeaseToken item = trim_space token"

definition AckReconciliationCandidate ::
    "client \<Rightarrow> bool \<Rightarrow> string \<Rightarrow> string \<Rightarrow> recon_db \<Rightarrow> (recon_error + bool) \<times> recon_db" where
  "AckReconciliationCandidate c up i token db =
     (if \<not> up then (Inl ReconDown, db)
      else
        let k = reconciliationCandidateKey c i in
        case map_of (rc_items db) k of
          None \<Rightarrow> (Inr False, db)
        | Some item \<Rightarrow>
            if \<not> owns_lease item token then (Inr False, db)
            else (Inr True, db\<lparr>rc_items := AList.delete k (rc_items db),
                               rc_due := AList.delete (trim_space i) (rc_due db)\<rparr>))"

definition retry_item :: "string \<Rightarrow> int \<Rightarrow> int \<Rightarrow> candidate \<Rightarrow> candidate" where
  "retry_item errorCode nextAttempt now x =
     x\<lparr>cd_Attempts := cd_Attempts x + 1, cd_LastErrorCode := errorCode, cd_LeaseOwner := [],
       cd_LeaseToken := [], cd_LeaseUntil := None, cd_NextAttemptAt := Some nextAttempt,
       cd_UpdatedAt := Some now\<rparr>"

definition RetryReconciliationCandidate ::
    "client \<Rightarrow> bool \<Rightarrow> int \<Rightarrow> string \<Rightarrow> string \<Rightarrow> string \<Rightarrow> int option \<Rightarrow> recon_db \<Rightarrow> (recon_error + bool) \<times> recon_db" where
  "RetryReconciliationCandidate c up now i token code next db =
     (case validateCandidateErrorCode code of
        Inl e \<Rightarrow> (Inl e, db)
      | Inr errorCode \<Rightarrow>
          (case next of
             None \<Rightarrow> (Inl MissingNextAttempt, db)
           | Some t \<Rightarrow>
               if \<not> up then (Inl ReconDown, db)
               else
                 let k = reconciliationCandidateKey c i in
                 case map_of (rc_items db) k of
                   None \<Rightarrow> (Inr False, db)
                 | Some item \<Rightarrow>
                     if \<not> owns_lease item token then (Inr False, db)
                     else (Inr True, db\<lparr>rc_items := AList.update k (retry_item errorCode t now item) (rc_items db),
                                        rc_due := AList.update (trim_space i) t (rc_due db)\<rparr>)))"

definition GetReconciliationCandidate :: "client \<Rightarrow> bool \<Rightarrow> string \<Rightarrow> recon_db \<Rightarrow> recon_error + candidate option" where
  "GetReconciliationCandidate c up i db =
     (if \<not> up then Inl ReconDown else Inr (map_of (rc_items db) (reconciliationCandidateKey c i)))"

definition ReconciliationPending :: "bool \<Rightarrow> recon_db \<Rightarrow> recon_error + nat" where
  "ReconciliationPending up db = (if \<not> up then Inl ReconDown else Inr (length (rc_due db)))"

section \<open>The invariant of the queue\<close>

definition canonical_id :: "string \<Rightarrow> bool" where
  "canonical_id i \<longleftrightarrow> trim_space i = i \<and> trim_colons i = i"

definition wf_recon :: "client \<Rightarrow> recon_db \<Rightarrow> bool" where
  "wf_recon c db \<longleftrightarrow> distinct (map fst (rc_due db)) \<and> (\<forall>i \<in> keys (rc_due db). canonical_id i) \<and>
     (\<forall>k x. map_of (rc_items db) k = Some x \<longrightarrow>
        canonical_id (cd_ID x) \<and> k = reconciliationCandidateKey c (cd_ID x) \<and> cd_ID x \<in> keys (rc_due db))"

lemma candidate_key_eq:
  "reconciliationCandidateKey c i = cl_prefix c @ '':reconciliation:candidate:'' @ trim_colons (trim_space i)"
  "client_key c [''reconciliation'', ''candidate''] @ '':'' @ i = cl_prefix c @ '':reconciliation:candidate:'' @ i"
proof -
  have "trim_colons (trim_space ''reconciliation'') = ''reconciliation''"
    "trim_colons (trim_space ''candidate'') = ''candidate''" by code_simp+
  then show "reconciliationCandidateKey c i = cl_prefix c @ '':reconciliation:candidate:'' @ trim_colons (trim_space i)"
    "client_key c [''reconciliation'', ''candidate''] @ '':'' @ i = cl_prefix c @ '':reconciliation:candidate:'' @ i"
    by (simp_all add: reconciliationCandidateKey_def client_key_def)
qed

lemma claim_key: "canonical_id i \<Longrightarrow>
    client_key c [''reconciliation'', ''candidate''] @ CHR '':'' # i = reconciliationCandidateKey c i"
  using candidate_key_eq[of c i] by (simp add: canonical_id_def)

lemma candidate_key_inj:
  "canonical_id i \<Longrightarrow> canonical_id j \<Longrightarrow>
     reconciliationCandidateKey c i = reconciliationCandidateKey c j \<longleftrightarrow> i = j"
  by (simp add: candidate_key_eq canonical_id_def)

lemma wf_recon_item:
  assumes "wf_recon c db" "map_of (rc_items db) (reconciliationCandidateKey c i) = Some x" "canonical_id i"
  shows "cd_ID x = i" "i \<in> keys (rc_due db)"
proof -
  from assms(1,2) have "canonical_id (cd_ID x)"
      "reconciliationCandidateKey c i = reconciliationCandidateKey c (cd_ID x)" "cd_ID x \<in> keys (rc_due db)"
    unfolding wf_recon_def by blast+
  with candidate_key_inj[OF assms(3)] show "cd_ID x = i" "i \<in> keys (rc_due db)" by metis+
qed

text \<open>Storing a candidate under its own key together with a due time, and removing one.\<close>

lemma wf_recon_put:
  assumes wf: "wf_recon c db" and x: "canonical_id (cd_ID x)"
  shows "wf_recon c (db\<lparr>rc_items := AList.update (reconciliationCandidateKey c (cd_ID x)) x (rc_items db),
     rc_due := AList.update (cd_ID x) t (rc_due db)\<rparr>)"
  unfolding wf_recon_def
proof (intro conjI ballI allI impI)
  fix k y
  assume "map_of (rc_items (db\<lparr>rc_items := AList.update (reconciliationCandidateKey c (cd_ID x)) x (rc_items db),
     rc_due := AList.update (cd_ID x) t (rc_due db)\<rparr>)) k = Some y"
  then have "k = reconciliationCandidateKey c (cd_ID x) \<and> y = x \<or> map_of (rc_items db) k = Some y"
    by (auto simp: update_conv' split: if_splits)
  with wf x show "canonical_id (cd_ID y)" "k = reconciliationCandidateKey c (cd_ID y)"
    "cd_ID y \<in> keys (rc_due (db\<lparr>rc_items := AList.update (reconciliationCandidateKey c (cd_ID x)) x (rc_items db),
     rc_due := AList.update (cd_ID x) t (rc_due db)\<rparr>))"
    unfolding wf_recon_def by auto
qed (use wf x in \<open>auto simp: wf_recon_def distinct_update\<close>)

lemma wf_recon_remove:
  assumes wf: "wf_recon c db" and i: "canonical_id i"
    and none: "map_of items (reconciliationCandidateKey c i) = None"
      "\<And>k x. map_of items k = Some x \<Longrightarrow> map_of (rc_items db) k = Some x"
  shows "wf_recon c (db\<lparr>rc_items := items, rc_due := AList.delete i (rc_due db)\<rparr>)"
proof -
  have "cd_ID x \<noteq> i" if "map_of items k = Some x" for k x
    using wf none that unfolding wf_recon_def by fastforce
  moreover have "canonical_id (cd_ID x) \<and> k = reconciliationCandidateKey c (cd_ID x) \<and> cd_ID x \<in> keys (rc_due db)"
    if "map_of items k = Some x" for k x
    using wf none(2)[OF that] unfolding wf_recon_def by blast
  ultimately show ?thesis using wf unfolding wf_recon_def by (simp add: distinct_delete)
qed

lemma claim_one_wf:
  assumes "wf_recon c (snd s)" "canonical_id i"
  shows "wf_recon c (snd (claim_one c owner token until now i s))"
proof (cases "map_of (rc_items (snd s)) (reconciliationCandidateKey c i)")
  case None
  with wf_recon_remove[OF assms, of "rc_items (snd s)"] show ?thesis
    by (simp add: claim_one_def claim_key[OF assms(2)] case_prod_beta)
next
  case (Some x)
  let ?x = "lease_candidate owner token until now x"
  have i: "cd_ID ?x = i" using wf_recon_item(1)[OF assms(1) Some assms(2)] by (simp add: lease_candidate_def)
  with wf_recon_put[OF assms(1), of ?x until] assms(2) Some show ?thesis
    by (simp add: claim_one_def claim_key[OF assms(2)] case_prod_beta Let_def)
qed

lemma due_ids_sub: "i \<in> set (due_ids now n z) \<Longrightarrow> \<exists>s. (i, s) \<in> set z \<and> s \<le> now"
  unfolding due_ids_def by (drule in_set_takeD) auto

lemma claim_fold_wf:
  "\<forall>i \<in> set ids. canonical_id i \<Longrightarrow> wf_recon c (snd s) \<Longrightarrow>
     wf_recon c (snd (fold (claim_one c owner token until now) ids s))"
  by (induction ids arbitrary: s) (simp_all add: claim_one_wf)

lemma Claim_wf:
  assumes "wf_recon c db"
  shows "wf_recon c (snd (ClaimReconciliationCandidates c up rand owner now lease limit db))"
proof -
  have "\<forall>i \<in> set (due_ids now n (rc_due db)). canonical_id i" for n
    using assms by (force simp: wf_recon_def keys_def dest!: due_ids_sub)
  with assms show ?thesis
    by (simp add: ClaimReconciliationCandidates_def Let_def case_prod_beta claim_fold_wf split: sum.split)
qed

lemma Enqueue_recon_wf:
  assumes wf: "wf_recon c db" and ok: "\<forall>x. normalize_candidate sha now cand = Inr x \<longrightarrow> canonical_id (cd_ID x)"
  shows "wf_recon c (snd (EnqueueReconciliationCandidate c sha up now cand db))"
  using assms by (auto simp: EnqueueReconciliationCandidate_def Let_def wf_recon_put split: sum.split)

lemma Ack_recon_wf:
  assumes wf: "wf_recon c db" and i: "canonical_id i"
  shows "wf_recon c (snd (AckReconciliationCandidate c up i token db))"
proof -
  have "trim_space i = i" using i by (simp add: canonical_id_def)
  moreover have "wf_recon c (db\<lparr>rc_items := AList.delete (reconciliationCandidateKey c i) (rc_items db),
      rc_due := AList.delete i (rc_due db)\<rparr>)"
    by (rule wf_recon_remove[OF wf i]) (auto simp: delete_conv' split: if_splits)
  ultimately show ?thesis
    using wf by (simp add: AckReconciliationCandidate_def Let_def split: option.split)
qed

lemma Retry_recon_wf:
  assumes wf: "wf_recon c db" and i: "canonical_id i"
  shows "wf_recon c (snd (RetryReconciliationCandidate c up now i token code next db))"
proof -
  have t: "trim_space i = i" using i by (simp add: canonical_id_def)
  have "wf_recon c (db\<lparr>rc_items := AList.update (reconciliationCandidateKey c i) (retry_item code' t' now x) (rc_items db),
      rc_due := AList.update i t' (rc_due db)\<rparr>)"
    if x: "map_of (rc_items db) (reconciliationCandidateKey c i) = Some x" for x code' t'
  proof -
    have "cd_ID (retry_item code' t' now x) = i"
      using wf_recon_item(1)[OF wf x i] by (simp add: retry_item_def)
    with wf_recon_put[OF wf, of "retry_item code' t' now x" t'] i show ?thesis by simp
  qed
  with wf t show ?thesis
    by (simp add: RetryReconciliationCandidate_def Let_def split: sum.split option.split)
qed

datatype recon_op =
    REnqueue bool int candidate
  | RClaim bool "string option" string int int int
  | RAck bool string string
  | RRetry bool int string string string "int option"

primrec recon_step :: "client \<Rightarrow> (string \<Rightarrow> string) \<Rightarrow> recon_op \<Rightarrow> recon_db \<Rightarrow> recon_db" where
  "recon_step c sha (REnqueue u now x) db = snd (EnqueueReconciliationCandidate c sha u now x db)"
| "recon_step c sha (RClaim u rand owner now lease limit) db =
     snd (ClaimReconciliationCandidates c u rand owner now lease limit db)"
| "recon_step c sha (RAck u i token) db = snd (AckReconciliationCandidate c u i token db)"
| "recon_step c sha (RRetry u now i token code next) db =
     snd (RetryReconciliationCandidate c u now i token code next db)"

primrec recon_ok :: "(string \<Rightarrow> string) \<Rightarrow> recon_op \<Rightarrow> bool" where
  "recon_ok sha (REnqueue u now x) \<longleftrightarrow> (\<forall>y. normalize_candidate sha now x = Inr y \<longrightarrow> canonical_id (cd_ID y))"
| "recon_ok sha (RClaim u rand owner now lease limit) \<longleftrightarrow> True"
| "recon_ok sha (RAck u i token) \<longleftrightarrow> canonical_id i"
| "recon_ok sha (RRetry u now i token code next) \<longleftrightarrow> canonical_id i"

interpretation recon_ops: guarded_ops "\<lambda>op _. recon_ok sha op" "recon_step c sha" "wf_recon c" for sha c
proof
  fix db op assume "wf_recon c db" "recon_ok sha op"
  then show "wf_recon c (recon_step c sha op db)"
    by (cases op) (simp_all add: Enqueue_recon_wf Claim_wf Ack_recon_wf Retry_recon_wf)
qed

section \<open>Leases\<close>

definition leased :: "client \<Rightarrow> string \<Rightarrow> string \<Rightarrow> int \<Rightarrow> recon_db \<Rightarrow> bool" where
  "leased c i token until db \<longleftrightarrow>
     (\<exists>x. map_of (rc_items db) (reconciliationCandidateKey c i) = Some x \<and> cd_LeaseToken x = token) \<and>
     map_of (rc_due db) i = Some until"

lemma claim_one_other:
  assumes "canonical_id i" "canonical_id j" "i \<noteq> j" "leased c i token until db"
  shows "leased c i token until (snd (claim_one c owner token' until' now j (out, db)))"
  using assms candidate_key_inj[OF assms(1,2), of c]
  by (auto simp: claim_one_def claim_key leased_def Let_def update_conv' delete_conv' split: option.split)

lemma claim_fold_other:
  "canonical_id i \<Longrightarrow> \<forall>j \<in> set ids. canonical_id j \<Longrightarrow> i \<notin> set ids \<Longrightarrow> leased c i token until (snd s) \<Longrightarrow>
     leased c i token until (snd (fold (claim_one c owner token' until' now) ids s))"
proof (induction ids arbitrary: s)
  case (Cons j ids)
  have "leased c i token until (snd (claim_one c owner token' until' now j s))"
    using claim_one_other[of i j c token until "snd s" owner token' until' now "fst s"] Cons.prems by simp
  with Cons show ?case by simp
qed simp

lemma claim_fold_out:
  "distinct ids \<Longrightarrow> \<forall>j \<in> set ids. canonical_id j \<Longrightarrow> wf_recon c (snd s) \<Longrightarrow>
   x \<in> set (fst (fold (claim_one c owner token until now) ids s)) \<Longrightarrow>
   x \<in> set (fst s) \<or>
   cd_ID x \<in> set ids \<and> leased c (cd_ID x) token until (snd (fold (claim_one c owner token until now) ids s))"
proof (induction ids arbitrary: s)
  case (Cons j ids)
  let ?s = "claim_one c owner token until now j s"
  have j: "canonical_id j" using Cons.prems by simp
  have wf: "wf_recon c (snd ?s)" by (rule claim_one_wf) (use Cons.prems j in simp_all)
  from Cons.IH[OF _ _ wf] Cons.prems have
    "x \<in> set (fst ?s) \<or> cd_ID x \<in> set ids \<and>
      leased c (cd_ID x) token until (snd (fold (claim_one c owner token until now) ids ?s))" by simp
  moreover have "cd_ID x = j \<and> leased c j token until (snd ?s)" if "x \<in> set (fst ?s)" "x \<notin> set (fst s)"
  proof (cases "map_of (rc_items (snd s)) (reconciliationCandidateKey c j)")
    case (Some y)
    with that have x: "x = lease_candidate owner token until now y"
      by (auto simp: claim_one_def claim_key[OF j] case_prod_beta Let_def)
    with wf_recon_item(1)[OF Cons.prems(3) Some j] have "cd_ID x = j" by (simp add: lease_candidate_def)
    with x Some show ?thesis
      by (simp add: claim_one_def claim_key[OF j] case_prod_beta Let_def leased_def update_conv' lease_candidate_def)
  qed (use that in \<open>simp add: claim_one_def claim_key[OF j] case_prod_beta\<close>)
  moreover have "leased c j token until (snd ?s) \<Longrightarrow>
      leased c j token until (snd (fold (claim_one c owner token until now) ids ?s))"
    by (rule claim_fold_other[OF j]) (use Cons.prems in simp_all)
  ultimately show ?case by auto
qed simp

lemma due_ids_distinct:
  assumes "distinct (map fst z)" shows "distinct (due_ids now n z)"
proof -
  let ?f = "filter (\<lambda>(m, s). s \<le> now) z"
  have "distinct (map fst ?f)" using assms by (metis distinct_map_filter)
  then have "distinct (map snd (map (\<lambda>(m, s). (s, m)) ?f))" by (simp add: case_prod_beta o_def)
  then have "distinct (map snd (sort (map (\<lambda>(m, s). (s, m)) ?f)))"
    by (metis mset_map mset_eq_imp_distinct_iff mset_sort)
  then show ?thesis by (simp add: due_ids_def)
qed

lemma due_ids_canonical: "wf_recon c db \<Longrightarrow> \<forall>i \<in> set (due_ids now n (rc_due db)). canonical_id i"
  by (force simp: wf_recon_def keys_def dest!: due_ids_sub)

lemma due_ids_not_before:
  assumes "distinct (map fst z)" "map_of z i = Some until" "now < until"
  shows "i \<notin> set (due_ids now n z)"
proof
  assume "i \<in> set (due_ids now n z)"
  then obtain s where "(i, s) \<in> set z" "s \<le> now" using due_ids_sub by blast
  with assms show False by (simp add: map_of_eq_Some_iff)
qed

text \<open>Calls that others make while the lease runs.\<close>

primrec lease_respected :: "(string \<Rightarrow> string) \<Rightarrow> string \<Rightarrow> int \<Rightarrow> recon_op \<Rightarrow> bool" where
  "lease_respected sha token until (REnqueue u now x) \<longleftrightarrow> recon_ok sha (REnqueue u now x)"
| "lease_respected sha token until (RClaim u rand owner now lease limit) \<longleftrightarrow> now < until"
| "lease_respected sha token until (RAck u i token') \<longleftrightarrow> canonical_id i \<and> trim_space token' \<noteq> token"
| "lease_respected sha token until (RRetry u now i token' code next) \<longleftrightarrow> canonical_id i \<and> trim_space token' \<noteq> token"

lemma leased_Claim:
  assumes wf: "wf_recon c db" and i: "canonical_id i" and l: "leased c i token until db" and now: "now < until"
  shows "leased c i token until (snd (ClaimReconciliationCandidates c up rand owner now lease limit db))"
proof -
  have "i \<notin> set (due_ids now n (rc_due db))" for n
    by (rule due_ids_not_before[of _ _ until]) (use wf l now in \<open>simp_all add: wf_recon_def leased_def\<close>)
  with i l due_ids_canonical[OF wf] show ?thesis
    by (simp add: ClaimReconciliationCandidates_def Let_def case_prod_beta claim_fold_other split: sum.split)
qed

interpretation lease_ops: guarded_ops "\<lambda>op _. lease_respected sha token until op" "recon_step c sha"
    "\<lambda>db. wf_recon c db \<and> canonical_id i \<and> leased c i token until db" for sha token until c i
proof
  fix db op
  assume inv: "wf_recon c db \<and> canonical_id i \<and> leased c i token until db" and ok: "lease_respected sha token until op"
  then have i: "canonical_id i" and l: "leased c i token until db" and wf: "wf_recon c db" by simp_all
  from ok have "recon_ok sha op" by (cases op) simp_all
  with wf have wf': "wf_recon c (recon_step c sha op db)" by (rule recon_ops.step_inv)
  have "leased c i token until (recon_step c sha op db)"
  proof (cases op)
    case (REnqueue u now x)
    have "cd_ID y \<noteq> i" if "map_of (rc_items db) (reconciliationCandidateKey c (cd_ID y)) = None" for y :: candidate
      using l that by (auto simp: leased_def)
    with l REnqueue show ?thesis
      by (auto simp: EnqueueReconciliationCandidate_def Let_def leased_def update_conv' split: sum.split)
  next
    case (RClaim u rand owner now lease limit)
    with leased_Claim[OF wf i l] ok show ?thesis by simp
  next
    case (RAck u j token')
    moreover have "trim_space j = j" using RAck ok by (simp add: canonical_id_def)
    ultimately show ?thesis
      using l ok candidate_key_inj[OF i, of j c]
      by (auto simp: AckReconciliationCandidate_def Let_def leased_def delete_conv' owns_lease_def split: option.split)
  next
    case (RRetry u now j token' code nxt)
    moreover have "trim_space j = j" using RRetry ok by (simp add: canonical_id_def)
    ultimately show ?thesis
      using l ok candidate_key_inj[OF i, of j c]
      by (auto simp: RetryReconciliationCandidate_def Let_def leased_def update_conv' owns_lease_def
               split: option.split sum.split)
  qed
  with wf' i show "wf_recon c (recon_step c sha op db) \<and> canonical_id i \<and> leased c i token until (recon_step c sha op db)"
    by simp
qed

lemma Claim_leased:
  assumes wf: "wf_recon c db"
    and claim: "ClaimReconciliationCandidates c True (Some buf) owner t lease limit db = (Inr out, db1)"
    and x: "x \<in> set out"
  shows "wf_recon c db1 \<and> canonical_id (cd_ID x) \<and> leased c (cd_ID x) (b64_encode raw_url_encoding buf) (t + lease) db1"
proof -
  obtain n where run: "fold (claim_one c (trim_space owner) (b64_encode raw_url_encoding buf) (t + lease) t)
      (due_ids t n (rc_due db)) ([], db) = (out, db1)"
    using claim by (auto simp: ClaimReconciliationCandidates_def newReconciliationLeaseToken_def Let_def
        case_prod_beta prod_eq_iff split: if_splits)
  have d: "distinct (due_ids t n (rc_due db))" using wf by (simp add: due_ids_distinct wf_recon_def)
  from claim_fold_out[OF d due_ids_canonical[OF wf], of c "([], db)" x "trim_space owner"
      "b64_encode raw_url_encoding buf" "t + lease" t] run x wf
  have "cd_ID x \<in> set (due_ids t n (rc_due db))" "leased c (cd_ID x) (b64_encode raw_url_encoding buf) (t + lease) db1"
    by simp_all
  moreover have "wf_recon c db1" using Claim_wf[OF wf, of True "Some buf" owner t lease limit] claim by simp
  ultimately show ?thesis using due_ids_canonical[OF wf] by blast
qed

text \<open>
  C12. A lease is exclusive while it runs: after a worker has claimed a candidate, others may
  enqueue, claim, acknowledge and reschedule as they like under their own tokens until the lease
  expires; no claim in that time returns the candidate, and the worker's own acknowledgement still
  succeeds.
\<close>

theorem reconciliation_lease_exclusive:
  assumes wf: "wf_recon c db" and buf: "buf \<noteq> []"
    and claim: "ClaimReconciliationCandidates c True (Some buf) owner t lease limit db = (Inr out, db1)"
    and x: "x \<in> set out"
    and others: "run_within (\<lambda>op _. lease_respected sha (b64_encode raw_url_encoding buf) (t + lease) op)
      (recon_step c sha) ops db1"
    and t': "t' < t + lease"
  shows "(\<forall>rand owner' lease' limit' out' db3.
            ClaimReconciliationCandidates c True rand owner' t' lease' limit' (fold (recon_step c sha) ops db1) =
              (Inr out', db3) \<longrightarrow> cd_ID x \<notin> cd_ID ` set out') \<and>
         fst (AckReconciliationCandidate c True (cd_ID x) (b64_encode raw_url_encoding buf)
               (fold (recon_step c sha) ops db1)) = Inr True"
proof (intro conjI allI impI)
  let ?db = "fold (recon_step c sha) ops db1" and ?tok = "b64_encode raw_url_encoding buf"
  from lease_ops.run_inv[OF Claim_leased[OF wf claim x] others]
  have wf': "wf_recon c ?db" and i: "canonical_id (cd_ID x)" and l: "leased c (cd_ID x) ?tok (t + lease) ?db"
    by simp_all
  show "fst (AckReconciliationCandidate c True (cd_ID x) ?tok ?db) = Inr True"
    using l buf by (auto simp: leased_def AckReconciliationCandidate_def owns_lease_def b64_encode_Nil_iff Let_def)
  fix rand owner' lease' limit' out' db3
  assume c': "ClaimReconciliationCandidates c True rand owner' t' lease' limit' ?db = (Inr out', db3)"
  show "cd_ID x \<notin> cd_ID ` set out'"
  proof
    assume "cd_ID x \<in> cd_ID ` set out'"
    then obtain y where y: "y \<in> set out'" "cd_ID y = cd_ID x" by auto
    from c' obtain n tok' where run: "fold (claim_one c (trim_space owner') tok' (t' + lease') t')
        (due_ids t' n (rc_due ?db)) ([], ?db) = (out', db3)"
      by (auto simp: ClaimReconciliationCandidates_def Let_def case_prod_beta prod_eq_iff
          split: if_splits sum.splits)
    have d: "distinct (due_ids t' n (rc_due ?db))" using wf' by (simp add: due_ids_distinct wf_recon_def)
    from claim_fold_out[OF d due_ids_canonical[OF wf'], of c "([], ?db)" y "trim_space owner'" tok' "t' + lease'" t']
      run y wf' have "cd_ID x \<in> set (due_ids t' n (rc_due ?db))" by simp
    moreover have "cd_ID x \<notin> set (due_ids t' n (rc_due ?db))"
      by (rule due_ids_not_before[OF _ _ t']) (use wf' l in \<open>simp_all add: wf_recon_def leased_def\<close>)
    ultimately show False by simp
  qed
qed

definition demo_candidate :: candidate where
  "demo_candidate = \<lparr>cd_ID = [], cd_Provider = ''P'', cd_InternalKeyID = ''k'', cd_ProviderRequestID = ''r'',
     cd_ONRRequestID = ''o'', cd_AccessKeyID = ''a'', cd_AccountID = ''acct'', cd_SubjectType = ''user'',
     cd_SubjectID = ''s'', cd_RoutePolicyID = [], cd_API = [], cd_Model = [], cd_Stream = False,
     cd_OccurredAt = Some 1, cd_CreatedAt = None, cd_UpdatedAt = None, cd_Attempts = 0,
     cd_LastErrorCode = [], cd_LeaseOwner = [], cd_LeaseToken = [], cd_LeaseUntil = None,
     cd_NextAttemptAt = None\<rparr>"

definition demo_queue :: recon_db where
  "demo_queue = snd (EnqueueReconciliationCandidate demo_client (\<lambda>_. ''c0ffee'') True 5 demo_candidate
     \<lparr>rc_items = [], rc_due = []\<rparr>)"

lemma wf_demo_queue: "wf_recon demo_client demo_queue"
proof -
  have "canonical_id ''c0ffee''" by code_simp
  then show ?thesis
    unfolding demo_queue_def
    by (intro Enqueue_recon_wf) (auto simp: wf_recon_def normalize_candidate_def reconciliationCandidateID_def
        Let_def split: if_splits)
qed

theorem reconciliation_lease_exclusive_witness:
  "\<exists>out db1. ClaimReconciliationCandidates demo_client True (Some ''tok'') ''w1'' 10 30 5 demo_queue = (Inr out, db1) \<and>
     map cd_ID out = [''c0ffee''] \<and>
     fst (AckReconciliationCandidate demo_client True ''c0ffee'' (b64_encode raw_url_encoding ''tok'')
       (fold (recon_step demo_client id) [RClaim True (Some ''zzz'') ''w2'' 20 30 5] db1)) = Inr True"
proof -
  let ?r = "ClaimReconciliationCandidates demo_client True (Some ''tok'') ''w1'' 10 30 5 demo_queue"
  obtain out where out: "fst ?r = Inr out" "map cd_ID out = [''c0ffee'']"
  proof -
    have "(case fst ?r of Inr out \<Rightarrow> map cd_ID out | Inl _ \<Rightarrow> []) = [''c0ffee'']" by code_simp
    then show thesis using that by (auto split: sum.splits)
  qed
  then have claim: "?r = (Inr out, snd ?r)" by (simp add: prod_eq_iff)
  from out(2) obtain x where x: "x \<in> set out" "cd_ID x = ''c0ffee''" by auto
  from reconciliation_lease_exclusive[OF wf_demo_queue _ claim x(1), of id
      "[RClaim True (Some ''zzz'') ''w2'' 20 30 5]" 25, unfolded x(2)]
  have "fst (AckReconciliationCandidate demo_client True ''c0ffee'' (b64_encode raw_url_encoding ''tok'')
       (fold (recon_step demo_client id) [RClaim True (Some ''zzz'') ''w2'' 20 30 5] (snd ?r))) = Inr True"
    by (simp del: b64_encode.simps fold.simps)
  then show ?thesis by (intro exI conjI) (rule claim, rule out(2))
qed

section \<open>Persistence\<close>

lemma claim_one_keeps:
  assumes "canonical_id i" "canonical_id j" "wf_recon c (snd s)"
    "map_of (rc_items (snd s)) (reconciliationCandidateKey c i) = Some x"
  shows "\<exists>y. map_of (rc_items (snd (claim_one c owner token until now j s))) (reconciliationCandidateKey c i) = Some y"
  using assms by (auto simp: claim_one_def claim_key case_prod_beta Let_def update_conv' split: option.split)

lemma claim_fold_keeps:
  "canonical_id i \<Longrightarrow> \<forall>j \<in> set ids. canonical_id j \<Longrightarrow> wf_recon c (snd s) \<Longrightarrow>
   map_of (rc_items (snd s)) (reconciliationCandidateKey c i) = Some x \<Longrightarrow>
   \<exists>y. map_of (rc_items (snd (fold (claim_one c owner token until now) ids s))) (reconciliationCandidateKey c i) = Some y"
proof (induction ids arbitrary: s x)
  case (Cons j ids)
  from claim_one_keeps[OF Cons.prems(1) _ Cons.prems(3,4), of j owner token until now] Cons.prems(2)
  obtain y where "map_of (rc_items (snd (claim_one c owner token until now j s))) (reconciliationCandidateKey c i) = Some y"
    by auto
  moreover have "wf_recon c (snd (claim_one c owner token until now j s))"
    by (rule claim_one_wf) (use Cons.prems in simp_all)
  ultimately show ?case using Cons by simp
qed simp

lemma claim_fold_mono: "set (fst s) \<subseteq> set (fst (fold (claim_one c owner token until now) ids s))"
proof (induction ids arbitrary: s)
  case (Cons j ids)
  have "set (fst s) \<subseteq> set (fst (claim_one c owner token until now j s))"
    by (auto simp: claim_one_def case_prod_beta Let_def split: option.split)
  with Cons[of "claim_one c owner token until now j s"] show ?case by simp
qed simp

lemma claim_fold_returns:
  "distinct ids \<Longrightarrow> \<forall>j \<in> set ids. canonical_id j \<Longrightarrow> wf_recon c (snd s) \<Longrightarrow> i \<in> set ids \<Longrightarrow>
   map_of (rc_items (snd s)) (reconciliationCandidateKey c i) = Some x \<Longrightarrow>
   i \<in> cd_ID ` set (fst (fold (claim_one c owner token until now) ids s))"
proof (induction ids arbitrary: s x)
  case (Cons j ids)
  let ?s = "claim_one c owner token until now j s"
  have j: "canonical_id j" and i: "canonical_id i" using Cons.prems by auto
  have wf: "wf_recon c (snd ?s)" by (rule claim_one_wf) (use Cons.prems j in simp_all)
  note mono = claim_fold_mono[of _ c owner token until now]
  show ?case
  proof (cases "i = j")
    case True
    with Cons.prems(5) have "lease_candidate owner token until now x \<in> set (fst ?s)"
      by (simp add: claim_one_def claim_key[OF j] case_prod_beta Let_def)
    moreover have "cd_ID (lease_candidate owner token until now x) = i"
      using wf_recon_item(1)[OF Cons.prems(3,5) i] by (simp add: lease_candidate_def)
    ultimately show ?thesis using mono[of ?s ids] by force
  next
    case False
    from claim_one_keeps[OF i j Cons.prems(3,5)] obtain y where
      "map_of (rc_items (snd ?s)) (reconciliationCandidateKey c i) = Some y" by blast
    with Cons.IH[OF _ _ wf] Cons.prems False show ?thesis by simp
  qed
qed simp

text \<open>
  C13. A candidate is never lost: the only operation that removes it is an acknowledgement under the
  token of its current lease, and as soon as its due time has come (at first, after a retry or
  after a lease expired), a claim with room for all due candidates returns it.
\<close>

theorem reconciliation_candidate_persists:
  assumes wf: "wf_recon c db" and i: "canonical_id i"
    and x: "map_of (rc_items db) (reconciliationCandidateKey c i) = Some x"
  shows "(recon_ok sha op \<longrightarrow>
            map_of (rc_items (recon_step c sha op db)) (reconciliationCandidateKey c i) = None \<longrightarrow>
            (\<exists>token. op = RAck True i token \<and> owns_lease x token)) \<and>
         (map_of (rc_due db) i = Some s \<longrightarrow> s \<le> now \<longrightarrow>
            length (filter (\<lambda>(m, s). s \<le> now) (rc_due db)) \<le> min 100 (nat limit) \<longrightarrow>
            trim_space owner \<noteq> [] \<longrightarrow> 0 < lease \<longrightarrow>
            (\<exists>out db1. ClaimReconciliationCandidates c True (Some buf) owner now lease limit db = (Inr out, db1) \<and>
               i \<in> cd_ID ` set out))"
proof (intro conjI impI)
  assume ok: "recon_ok sha op"
    and none: "map_of (rc_items (recon_step c sha op db)) (reconciliationCandidateKey c i) = None"
  show "\<exists>token. op = RAck True i token \<and> owns_lease x token"
  proof (cases op)
    case (REnqueue u now' y)
    with none x show ?thesis
      by (auto simp: EnqueueReconciliationCandidate_def Let_def update_conv' split: sum.splits if_splits)
  next
    case (RClaim u rand owner' now' lease' limit')
    have "\<exists>y. map_of (rc_items (recon_step c sha op db)) (reconciliationCandidateKey c i) = Some y"
      using claim_fold_keeps[OF i due_ids_canonical[OF wf], of c "([], db)" x] wf x RClaim
      by (auto simp: ClaimReconciliationCandidates_def Let_def case_prod_beta split: sum.split)
    with none show ?thesis by simp
  next
    case (RAck u j token)
    with none x ok candidate_key_inj[OF i, of j c] show ?thesis
      by (auto simp: AckReconciliationCandidate_def Let_def delete_conv' split: option.splits if_splits)
  next
    case (RRetry u now' j token code nxt)
    with none x show ?thesis
      by (auto simp: RetryReconciliationCandidate_def Let_def update_conv' split: sum.splits option.splits if_splits)
  qed
next
  assume due: "map_of (rc_due db) i = Some s" "s \<le> now"
    and room: "length (filter (\<lambda>(m, s). s \<le> now) (rc_due db)) \<le> min 100 (nat limit)"
    and args: "trim_space owner \<noteq> []" "0 < lease"
  let ?n = "if limit > 100 then 100 else nat limit"
  have "(i, s) \<in> set (filter (\<lambda>(m, s). s \<le> now) (rc_due db))" using due by (auto dest: map_of_SomeD)
  then have pos: "0 < length (filter (\<lambda>(m, s). s \<le> now) (rc_due db))" by (rule length_pos_if_in_set)
  with room have "0 < nat limit" by linarith
  then have lim: "0 < limit" by simp
  have "due_ids now ?n (rc_due db) = map snd (sort (map (\<lambda>(m, s). (s, m)) (filter (\<lambda>(m, s). s \<le> now) (rc_due db))))"
    using room by (simp add: due_ids_def split: if_splits)
  with \<open>(i, s) \<in> _\<close> have mem: "i \<in> set (due_ids now ?n (rc_due db))" by force
  have "distinct (due_ids now ?n (rc_due db))" using wf by (simp add: due_ids_distinct wf_recon_def)
  from claim_fold_returns[OF this due_ids_canonical[OF wf], of c "([], db)" i x "trim_space owner"
      "b64_encode raw_url_encoding buf" "now + lease" now] mem wf x args lim
  show "\<exists>out db1. ClaimReconciliationCandidates c True (Some buf) owner now lease limit db = (Inr out, db1) \<and>
      i \<in> cd_ID ` set out"
    by (simp add: ClaimReconciliationCandidates_def newReconciliationLeaseToken_def Let_def case_prod_beta)
qed

theorem reconciliation_candidate_persists_witness:
  "\<exists>out db1. ClaimReconciliationCandidates demo_client True (Some ''b'') ''w'' 9 30 5 demo_queue = (Inr out, db1) \<and>
     ''c0ffee'' \<in> cd_ID ` set out"
proof -
  have i: "canonical_id ''c0ffee''" by code_simp
  obtain x where x: "map_of (rc_items demo_queue) (reconciliationCandidateKey demo_client ''c0ffee'') = Some x"
  proof -
    have "map_of (rc_items demo_queue) (reconciliationCandidateKey demo_client ''c0ffee'') \<noteq> None" by code_simp
    then show thesis using that by blast
  qed
  have due: "rc_due demo_queue = [(''c0ffee'', 5)]" by code_simp
  have w: "trim_space ''w'' \<noteq> []" by code_simp
  from reconciliation_candidate_persists[OF wf_demo_queue i x, of id _ 5 9 5 "''w''" 30 "''b''"] w
  show ?thesis by (simp add: due)
qed

end
