(* ===== verification/Keystore.thy ===== *)
theory Keystore
  imports Encodings "HOL-Library.List_Lexorder" "HOL-Library.Char_ord"
begin

text \<open>
  The key store, \<^verbatim>\<open>onr-core/pkg/keystore/keystore.go\<close>: upstream keys per provider, handed out in
  round-robin order, and the access keys of the gateway's clients. \<open>keystore_Load\<close> reads both from
  a file, with overrides from the environment and values encrypted under a master key.

  YAML decoding is a parameter. So are the sealing and opening functions of AES-GCM; the theorems
  name the law of an authenticated cipher where they use it. A nil \<^verbatim>\<open>*Store\<close> answers every query
  like the store without keys, so stores are values of \<open>store\<close>.
\<close>

section \<open>Data\<close>

record key =
  key_Name :: string
  key_Value :: string
  key_BaseURLOverride :: string
  key_CredentialFile :: string
  key_Location :: string
  key_AWSAccessKeyID :: string
  key_AWSSecretAccessKey :: string
  key_AWSSessionToken :: string
  key_AWSRegion :: string
  key_CtyunAccessKey :: string
  key_CtyunSecureKey :: string
  key_CtyunUserID :: string

record access_key =
  ak_Name :: string
  ak_Value :: string
  ak_Disabled :: bool
  ak_Comment :: string
  ak_ProviderKeyBindings :: "(string \<times> string) list"

record file_format =
  ff_Providers :: "(string \<times> key list) list"
  ff_AccessKeys :: "access_key list"

record store =
  st_byProv :: "(string \<times> key list) list"
  st_nextIdx :: "(string \<times> nat) list"
  st_accessKeys :: "access_key list"

datatype key_error =
    KeysUnreadable
  | KeysUnparsable
  | InvalidKeyValue
  | InvalidAccessKeyValue
  | NothingConfigured
  | NotEncFormat
  | MasterKeyRequired
  | MasterKeyNotBase64
  | MasterKeyWrongLength
  | CiphertextNotBase64
  | CiphertextTooShort
  | CipherKeySize
  | DecryptFailed
  | NonceUnavailable

type_synonym env = "string \<Rightarrow> string"

section \<open>Names of environment variables\<close>

definition normalizeProvider :: "string \<Rightarrow> string" where
  "normalizeProvider s = to_lower (trim_space s)"

definition normalizeLocation :: "string \<Rightarrow> string" where
  "normalizeLocation s = to_lower (trim_space s)"

definition env_byte :: "char \<Rightarrow> bool" where
  "env_byte c \<longleftrightarrow> byte_in 65 90 c \<or> byte_in 48 57 c"

function sanitizeEnvToken :: "string \<Rightarrow> string" where
  "sanitizeEnvToken s =
     (if s = [] then []
      else (if env_byte (hd s) then hd s else CHR ''_'') # sanitizeEnvToken (drop (rune_width s) s))"
  by pat_completeness auto
termination
  by (relation "measure length") (auto simp: rune_width_pos)

declare sanitizeEnvToken.simps [simp del]

definition envVarForUpstreamKey :: "string \<Rightarrow> string \<Rightarrow> nat \<Rightarrow> string" where
  "envVarForUpstreamKey provider name index =
     (let p = to_upper (trim_space provider); n = to_upper (trim_space name) in
      if n = [] then ''ONR_UPSTREAM_KEY_'' @ sanitizeEnvToken p @ ''_'' @ itoa (index + 1)
      else ''ONR_UPSTREAM_KEY_'' @ sanitizeEnvToken p @ ''_'' @ sanitizeEnvToken n)"

definition envVarForAccessKey :: "string \<Rightarrow> nat \<Rightarrow> string" where
  "envVarForAccessKey name index =
     (let n = to_upper (trim_space name) in
      if n = [] then ''ONR_ACCESS_KEY_'' @ itoa (index + 1)
      else ''ONR_ACCESS_KEY_'' @ sanitizeEnvToken n)"

definition envVarForCtyunField :: "string \<Rightarrow> string \<Rightarrow> string" where
  "envVarForCtyunField name field =
     ''ONR_CTYUN_'' @ sanitizeEnvToken (to_upper name) @ ''_'' @ sanitizeEnvToken (to_upper field)"

section \<open>Encrypted values\<close>

text \<open>The pattern of an encrypted value; the result is the text of its only group.\<close>

definition enc_byte :: "char \<Rightarrow> bool" where
  "enc_byte c \<longleftrightarrow> byte_in 65 90 c \<or> byte_in 97 122 c \<or> byte_in 48 57 c \<or> c \<in> set ''+/=''"

definition enc_prefix :: string where
  "enc_prefix = ''ENC[v1:aesgcm:''"

definition encValuePattern :: "string \<Rightarrow> string option" where
  "encValuePattern s =
     (if has_prefix s enc_prefix then
        let r = drop (length enc_prefix) s in
        if r \<noteq> [] \<and> last r = CHR '']'' \<and> butlast r \<noteq> [] \<and> list_all enc_byte (butlast r)
        then Some (butlast r) else None
      else None)"

definition loadMasterKey :: "env \<Rightarrow> key_error + string" where
  "loadMasterKey env =
     (let raw = trim_space (env ''ONR_MASTER_KEY'') in
      if raw = [] then Inl MasterKeyRequired
      else if length raw = 32 then Inr raw
      else
        case b64_decode std_encoding raw of
          None \<Rightarrow> Inl MasterKeyNotBase64
        | Some b \<Rightarrow> if length b \<noteq> 32 then Inl MasterKeyWrongLength else Inr b)"

text \<open>\<^verbatim>\<open>aes.NewCipher\<close> accepts keys of 16, 24 and 32 bytes; GCM's nonces have 12 bytes.\<close>

definition newCipher :: "string \<Rightarrow> key_error + string" where
  "newCipher k = (if length k \<in> {16, 24, 32} then Inr k else Inl CipherKeySize)"

type_synonym aead_open = "string \<Rightarrow> string \<Rightarrow> string \<Rightarrow> string option"
type_synonym aead_seal = "string \<Rightarrow> string \<Rightarrow> string \<Rightarrow> string"

definition Decrypt :: "env \<Rightarrow> aead_open \<Rightarrow> string \<Rightarrow> key_error + string" where
  "Decrypt env gcm_open raw =
     (case encValuePattern (trim_space raw) of
        None \<Rightarrow> Inl NotEncFormat
      | Some m \<Rightarrow>
          bind_res (loadMasterKey env) (\<lambda>k.
            case b64_decode std_encoding m of
              None \<Rightarrow> Inl CiphertextNotBase64
            | Some data \<Rightarrow>
                if length data < 12 then Inl CiphertextTooShort
                else
                  bind_res (newCipher k) (\<lambda>block.
                    case gcm_open block (take 12 data) (drop 12 data) of
                      None \<Rightarrow> Inl DecryptFailed
                    | Some pt \<Rightarrow> Inr pt)))"

definition decryptIfNeeded :: "env \<Rightarrow> aead_open \<Rightarrow> string \<Rightarrow> key_error + string" where
  "decryptIfNeeded env gcm_open raw =
     (case encValuePattern raw of None \<Rightarrow> Inr raw | Some m \<Rightarrow> Decrypt env gcm_open raw)"

text \<open>The random source gives a nonce or fails.\<close>

definition Encrypt :: "env \<Rightarrow> aead_seal \<Rightarrow> string option \<Rightarrow> string \<Rightarrow> key_error + string" where
  "Encrypt env gcm_seal rand plain =
     bind_res (loadMasterKey env) (\<lambda>k.
     bind_res (newCipher k) (\<lambda>block.
       case rand of
         None \<Rightarrow> Inl NonceUnavailable
       | Some nonce \<Rightarrow>
           Inr (enc_prefix @ b64_encode std_encoding (nonce @ gcm_seal block nonce plain) @ '']'')))"

section \<open>Loading\<close>

definition trim_key :: "key \<Rightarrow> key" where
  "trim_key k =
     k\<lparr>key_Name := trim_space (key_Name k),
       key_BaseURLOverride := trim_space (key_BaseURLOverride k),
       key_CredentialFile := trim_space (key_CredentialFile k),
       key_Location := normalizeLocation (key_Location k),
       key_AWSAccessKeyID := trim_space (key_AWSAccessKeyID k),
       key_AWSSecretAccessKey := trim_space (key_AWSSecretAccessKey k),
       key_AWSSessionToken := trim_space (key_AWSSessionToken k),
       key_AWSRegion := normalizeLocation (key_AWSRegion k),
       key_CtyunAccessKey := trim_space (key_CtyunAccessKey k),
       key_CtyunSecureKey := trim_space (key_CtyunSecureKey k),
       key_CtyunUserID := trim_space (key_CtyunUserID k)\<rparr>"

text \<open>A set, non-blank environment variable replaces the value from the file.\<close>

definition env_override :: "env \<Rightarrow> string \<Rightarrow> string \<Rightarrow> string" where
  "env_override env var v = (let e = trim_space (env var) in if e \<noteq> [] then e else v)"

definition ctyun_overrides :: "env \<Rightarrow> key \<Rightarrow> key" where
  "ctyun_overrides env k =
     k\<lparr>key_CtyunAccessKey :=
         env_override env (envVarForCtyunField (key_Name k) ''ACCESS_KEY'') (key_CtyunAccessKey k),
       key_CtyunSecureKey :=
         env_override env (envVarForCtyunField (key_Name k) ''SECURE_KEY'') (key_CtyunSecureKey k),
       key_CtyunUserID :=
         env_override env (envVarForCtyunField (key_Name k) ''USER_ID'') (key_CtyunUserID k)\<rparr>"

text \<open>One round of the loop over a provider's keys: the key is skipped, kept or in error.\<close>

definition load_key :: "env \<Rightarrow> aead_open \<Rightarrow> string \<Rightarrow> nat \<Rightarrow> key \<Rightarrow> key_error + key option" where
  "load_key env gcm_open p i k0 =
     (let k = ctyun_overrides env (trim_key k0);
          raw = env_override env (envVarForUpstreamKey p (key_Name k) i) (trim_space (key_Value k)) in
      if raw = [] \<and> key_CredentialFile k = [] \<and> key_AWSAccessKeyID k = [] \<and> key_AWSSecretAccessKey k = []
      then Inr None
      else if raw \<noteq> [] then
        (case decryptIfNeeded env gcm_open raw of
           Inl e \<Rightarrow> Inl InvalidKeyValue
         | Inr val \<Rightarrow> Inr (Some (k\<lparr>key_Value := val\<rparr>)))
      else Inr (Some (k\<lparr>key_Value := []\<rparr>)))"

fun load_keys :: "env \<Rightarrow> aead_open \<Rightarrow> string \<Rightarrow> nat \<Rightarrow> key list \<Rightarrow> key_error + key list" where
  "load_keys env gcm_open p i [] = Inr []"
| "load_keys env gcm_open p i (k # ks) =
     bind_res (load_key env gcm_open p i k) (\<lambda>r.
     bind_res (load_keys env gcm_open p (Suc i) ks) (\<lambda>rs.
       Inr (case r of None \<Rightarrow> rs | Some k' \<Rightarrow> k' # rs)))"

fun load_providers ::
    "env \<Rightarrow> aead_open \<Rightarrow> (string \<times> key list) list \<Rightarrow> store \<Rightarrow> key_error + store" where
  "load_providers env gcm_open [] out = Inr out"
| "load_providers env gcm_open ((prov, v) # provs) out =
     (let p = normalizeProvider prov in
      if p = [] then load_providers env gcm_open provs out
      else
        bind_res (load_keys env gcm_open p 0 v) (\<lambda>keys.
          load_providers env gcm_open provs
            (if keys \<noteq> [] then out\<lparr>st_byProv := AList.update p keys (st_byProv out)\<rparr> else out)))"

definition access_key_raw :: "env \<Rightarrow> nat \<Rightarrow> access_key \<Rightarrow> string" where
  "access_key_raw env i ak =
     env_override env (envVarForAccessKey (trim_space (ak_Name ak)) i) (trim_space (ak_Value ak))"

definition load_access_key ::
    "env \<Rightarrow> aead_open \<Rightarrow> nat \<Rightarrow> access_key \<Rightarrow> key_error + access_key option" where
  "load_access_key env gcm_open i ak =
     (if ak_Disabled ak then Inr None
      else if access_key_raw env i ak = [] then Inr None
      else
        case decryptIfNeeded env gcm_open (access_key_raw env i ak) of
          Inl e \<Rightarrow> Inl InvalidAccessKeyValue
        | Inr val \<Rightarrow>
            Inr (Some (ak\<lparr>ak_Name := trim_space (ak_Name ak), ak_Comment := trim_space (ak_Comment ak),
                          ak_Value := val\<rparr>)))"

fun load_access_keys ::
    "env \<Rightarrow> aead_open \<Rightarrow> nat \<Rightarrow> access_key list \<Rightarrow> key_error + access_key list" where
  "load_access_keys env gcm_open i [] = Inr []"
| "load_access_keys env gcm_open i (ak # aks) =
     bind_res (load_access_key env gcm_open i ak) (\<lambda>r.
     bind_res (load_access_keys env gcm_open (Suc i) aks) (\<lambda>rs.
       Inr (case r of None \<Rightarrow> rs | Some a \<Rightarrow> a # rs)))"

definition keystore_Load ::
    "(string \<Rightarrow> string option) \<Rightarrow> (string \<Rightarrow> file_format option) \<Rightarrow> env \<Rightarrow> aead_open \<Rightarrow> string
     \<Rightarrow> key_error + store" where
  "keystore_Load readFile unmarshal env gcm_open path =
     (case readFile path of
        None \<Rightarrow> Inl KeysUnreadable
      | Some b \<Rightarrow>
          (case unmarshal b of
             None \<Rightarrow> Inl KeysUnparsable
           | Some ff \<Rightarrow>
               bind_res (load_providers env gcm_open (ff_Providers ff)
                           \<lparr>st_byProv = [], st_nextIdx = [], st_accessKeys = []\<rparr>) (\<lambda>out.
               bind_res (load_access_keys env gcm_open 0 (ff_AccessKeys ff)) (\<lambda>aks.
                 if st_byProv out = [] \<and> aks = [] then Inl NothingConfigured
                 else Inr (out\<lparr>st_accessKeys := aks\<rparr>)))))"

section \<open>Queries\<close>

definition provider_keys :: "store \<Rightarrow> string \<Rightarrow> key list" where
  "provider_keys s p = (case map_of (st_byProv s) p of None \<Rightarrow> [] | Some ks \<Rightarrow> ks)"

definition KeyByName :: "string \<Rightarrow> string \<Rightarrow> store \<Rightarrow> key option" where
  "KeyByName provider name s =
     List.find (\<lambda>k. trim_space (key_Name k) = trim_space name)
       (provider_keys s (normalizeProvider provider))"

definition ProviderKeyNames :: "string \<Rightarrow> store \<Rightarrow> string list" where
  "ProviderKeyNames provider s =
     filter (\<lambda>n. n \<noteq> []) (map (\<lambda>k. trim_space (key_Name k))
       (provider_keys s (normalizeProvider provider)))"

definition ProviderNames :: "store \<Rightarrow> string list" where
  "ProviderNames s = sort (map fst (filter (\<lambda>(p, ks). ks \<noteq> []) (st_byProv s)))"

definition NextKey :: "string \<Rightarrow> store \<Rightarrow> key option \<times> store" where
  "NextKey provider s =
     (let p = normalizeProvider provider; keys = provider_keys s p in
      if keys = [] then (None, s)
      else
        let i = lookup_nat (st_nextIdx s) p mod length keys in
        (Some (keys ! i), s\<lparr>st_nextIdx := AList.update p ((i + 1) mod length keys) (st_nextIdx s)\<rparr>))"

definition MatchAccessKey :: "string \<Rightarrow> store \<Rightarrow> access_key option" where
  "MatchAccessKey value s =
     (let v = trim_space value in
      if v = [] then None else List.find (\<lambda>ak. v = ak_Value ak) (st_accessKeys s))"

definition AccessKeys :: "store \<Rightarrow> access_key list" where
  "AccessKeys s = st_accessKeys s"

definition HasProvider :: "string \<Rightarrow> store \<Rightarrow> bool" where
  "HasProvider provider s \<longleftrightarrow> provider_keys s (normalizeProvider provider) \<noteq> []"

section \<open>Encryption\<close>

lemma enc_byte_b64_char: "d < 64 \<Longrightarrow> enc_byte (b64_char std_encoding d)"
proof -
  have "list_all enc_byte (b64_alphabet std_encoding)" by code_simp
  moreover have "length (b64_alphabet std_encoding) = 64" by (simp add: std_encoding_def)
  ultimately show "d < 64 \<Longrightarrow> enc_byte (b64_char std_encoding d)"
    by (simp add: b64_char_def list_all_length)
qed

lemma enc_byte_b64_encode: "list_all enc_byte (b64_encode std_encoding s)"
  by (induction std_encoding s rule: b64_encode.induct)
     (auto simp: Let_def pad_chars_def enc_byte_b64_char byte_split enc_byte_def[of "CHR ''=''"] numeral_2_eq_2)

lemma encValuePattern_enc:
  "s \<noteq> [] \<Longrightarrow> encValuePattern (enc_prefix @ b64_encode std_encoding s @ '']'') =
     Some (b64_encode std_encoding s)"
  by (simp add: encValuePattern_def enc_byte_b64_encode b64_encode_Nil_iff butlast_append)

lemma trim_space_enc: "trim_space (enc_prefix @ s @ '']'') = enc_prefix @ s @ '']''"
  by (rule trim_space_id) (simp_all add: enc_prefix_def is_ascii_space_def)

lemma loadMasterKey_length: "loadMasterKey env = Inr k \<Longrightarrow> length k = 32"
  by (auto simp: loadMasterKey_def Let_def split: if_splits option.splits)

text \<open>
  Encryption round trip: under a cipher whose opening inverts its sealing, a value that
  \<open>Encrypt\<close> produces decrypts to the plaintext, both directly and when it is met in a key file;
  and encryption succeeds exactly when a master key and a nonce are available.
\<close>

theorem encrypt_decrypt_roundtrip:
  assumes aead: "\<forall>k n p. gcm_open k n (gcm_seal k n p) = Some p"
    and nonce: "length nonce = 12"
  shows "(\<forall>c. Encrypt env gcm_seal (Some nonce) plain = Inr c \<longrightarrow>
            Decrypt env gcm_open c = Inr plain \<and> decryptIfNeeded env gcm_open c = Inr plain) \<and>
         ((\<exists>c. Encrypt env gcm_seal (Some nonce) plain = Inr c) \<longleftrightarrow> (\<exists>k. loadMasterKey env = Inr k))"
proof (cases "loadMasterKey env")
  case (Inr k)
  let ?data = "nonce @ gcm_seal k nonce plain"
  have n: "?data \<noteq> []" using nonce by auto
  have "newCipher k = Inr k" using loadMasterKey_length[OF Inr] by (simp add: newCipher_def)
  then show ?thesis
    using n by (simp add: Encrypt_def Decrypt_def decryptIfNeeded_def Inr trim_space_enc
        encValuePattern_enc b64_decode_encode good_std nonce aead)
qed (simp add: Encrypt_def)

text \<open>A cipher without secrecy that satisfies the law: the text followed by its nonce as a tag.\<close>

definition tag_seal :: aead_seal where
  "tag_seal k n p = n @ p"

definition tag_open :: aead_open where
  "tag_open k n c = (if prefix n c then Some (drop (length n) c) else None)"

definition demo_env :: env where
  "demo_env v = (if v = ''ONR_MASTER_KEY'' then ''0123456789abcdef0123456789abcdef'' else [])"

lemma demo_master_key: "loadMasterKey demo_env = Inr ''0123456789abcdef0123456789abcdef''"
proof -
  have "trim_space ''0123456789abcdef0123456789abcdef'' = ''0123456789abcdef0123456789abcdef''"
    by (rule trim_space_id) (simp_all add: is_ascii_space_def)
  then show ?thesis by (simp add: loadMasterKey_def demo_env_def)
qed

theorem encrypt_decrypt_roundtrip_witness:
  "\<exists>c. Encrypt demo_env tag_seal (Some ''abcdefghijkl'') ''secret'' = Inr c \<and>
       decryptIfNeeded demo_env tag_open c = Inr ''secret''"
proof -
  have "\<forall>k n p. tag_open k n (tag_seal k n p) = Some p" by (simp add: tag_seal_def tag_open_def)
  with encrypt_decrypt_roundtrip[of tag_open tag_seal "''abcdefghijkl''" demo_env "''secret''"]
  show ?thesis by (auto simp: demo_master_key)
qed

section \<open>Round robin over upstream keys\<close>

lemma NextKey_frame [simp]: "st_byProv (snd (NextKey provider s)) = st_byProv s"
  by (simp add: NextKey_def Let_def)

lemma provider_keys_frame [simp]: "provider_keys (snd (NextKey provider s)) p = provider_keys s p"
  by (simp add: provider_keys_def)

interpretation key_rotor: rotor NextKey "\<lambda>q. normalizeProvider q = p" "\<lambda>s. provider_keys s p"
    "\<lambda>s. lookup_nat (st_nextIdx s) p" "\<lambda>s. provider_keys s p \<noteq> []" for p
  by unfold_locales (simp_all, simp_all add: NextKey_def Let_def)

text \<open>
  Upstream keys rotate fairly: in any run of requests, among them as many for one provider as
  it has keys, those requests get the provider's keys in cyclic order from the stored cursor, each
  exactly once, whatever keys other providers hand out in between; and no run changes the keys.
\<close>

theorem next_key_fair:
  assumes "provider_keys s p \<noteq> []"
    and "length (filter (\<lambda>q. normalizeProvider q = p) qs) = length (provider_keys s p)"
  shows "run_results NextKey (\<lambda>q. normalizeProvider q = p) qs s =
           map Some (rotate (lookup_nat (st_nextIdx s) p) (provider_keys s p)) \<and>
         mset (run_results NextKey (\<lambda>q. normalizeProvider q = p) qs s) =
           mset (map Some (provider_keys s p))"
  using key_rotor.full_cycle key_rotor.full_cycle_mset assms by blast

definition demo_key :: "string \<Rightarrow> key" where
  "demo_key v = \<lparr>key_Name = v, key_Value = v, key_BaseURLOverride = [], key_CredentialFile = [],
     key_Location = [], key_AWSAccessKeyID = [], key_AWSSecretAccessKey = [], key_AWSSessionToken = [],
     key_AWSRegion = [], key_CtyunAccessKey = [], key_CtyunSecureKey = [], key_CtyunUserID = []\<rparr>"

theorem next_key_fair_witness:
  "run_results NextKey (\<lambda>q. normalizeProvider q = ''a'') [''A'', ''b'', '' a '']
     \<lparr>st_byProv = [(''a'', [demo_key ''x'', demo_key ''y'']), (''b'', [demo_key ''z''])],
      st_nextIdx = [(''a'', 1)], st_accessKeys = []\<rparr> = [Some (demo_key ''y''), Some (demo_key ''x'')]"
proof -
  let ?s = "\<lparr>st_byProv = [(''a'', [demo_key ''x'', demo_key ''y'']), (''b'', [demo_key ''z''])],
      st_nextIdx = [(''a'', 1)], st_accessKeys = []\<rparr>"
  have n: "filter (\<lambda>q. normalizeProvider q = ''a'') [''A'', ''b'', '' a ''] = [''A'', '' a '']"
    by code_simp
  show ?thesis
    using next_key_fair[of ?s "''a''" "[''A'', ''b'', '' a '']"] unfolding n
    by (simp add: provider_keys_def lookup_nat_def)
qed

section \<open>Access keys\<close>

lemma find_Some_mem: "List.find P xs = Some x \<Longrightarrow> x \<in> set xs \<and> P x"
  by (auto simp: find_Some_iff)

lemma load_access_keys_mem:
  "load_access_keys env gcm_open i aks = Inr out \<Longrightarrow> a \<in> set out \<longleftrightarrow>
     (\<exists>j < length aks. load_access_key env gcm_open (i + j) (aks ! j) = Inr (Some a))"
proof (induction aks arbitrary: i out)
  case (Cons ak aks)
  from Cons.prems obtain r rs where r: "load_access_key env gcm_open i ak = Inr r"
      and rs: "load_access_keys env gcm_open (Suc i) aks = Inr rs"
      and out: "out = (case r of None \<Rightarrow> rs | Some a \<Rightarrow> a # rs)"
    by (auto simp: bind_res_eq_Inr)
  have "(\<exists>j < length (ak # aks). load_access_key env gcm_open (i + j) ((ak # aks) ! j) = Inr (Some a)) \<longleftrightarrow>
      r = Some a \<or> (\<exists>j < length aks. load_access_key env gcm_open (Suc i + j) (aks ! j) = Inr (Some a))"
    using r by (auto simp: less_Suc_eq_0_disj)
  with Cons.IH[OF rs] out show ?case by (auto split: option.splits)
qed simp

lemma load_access_key_Some:
  "load_access_key env gcm_open i ak = Inr (Some a) \<longleftrightarrow>
     \<not> ak_Disabled ak \<and> access_key_raw env i ak \<noteq> [] \<and>
     (\<exists>val. decryptIfNeeded env gcm_open (access_key_raw env i ak) = Inr val \<and>
        a = ak\<lparr>ak_Name := trim_space (ak_Name ak), ak_Comment := trim_space (ak_Comment ak),
               ak_Value := val\<rparr>)"
  by (auto simp: load_access_key_def split: sum.splits)

lemma keystore_LoadE:
  assumes "keystore_Load readFile unmarshal env gcm_open path = Inr st"
  obtains b ff out where "readFile path = Some b" "unmarshal b = Some ff"
    "load_providers env gcm_open (ff_Providers ff)
       \<lparr>st_byProv = [], st_nextIdx = [], st_accessKeys = []\<rparr> = Inr out"
    "load_access_keys env gcm_open 0 (ff_AccessKeys ff) = Inr (st_accessKeys st)"
    "st = out\<lparr>st_accessKeys := st_accessKeys st\<rparr>" "st_byProv st \<noteq> [] \<or> st_accessKeys st \<noteq> []"
  using assms that
  by (auto simp: keystore_Load_def bind_res_eq_Inr split: option.splits if_splits)

text \<open>
  A client value is accepted exactly when it is not blank and some entry of the key file that
  is not disabled has, after the environment override and decryption, that value; disabled and
  blank entries never authenticate anyone.
\<close>

theorem match_access_key_exact:
  assumes load: "keystore_Load readFile unmarshal env gcm_open path = Inr st"
    and ff: "readFile path = Some b" "unmarshal b = Some ff"
  shows "(\<exists>ak. MatchAccessKey v st = Some ak) \<longleftrightarrow>
     trim_space v \<noteq> [] \<and>
     (\<exists>i < length (ff_AccessKeys ff). \<not> ak_Disabled (ff_AccessKeys ff ! i) \<and>
        access_key_raw env i (ff_AccessKeys ff ! i) \<noteq> [] \<and>
        decryptIfNeeded env gcm_open (access_key_raw env i (ff_AccessKeys ff ! i)) = Inr (trim_space v))"
proof -
  from load ff have "load_access_keys env gcm_open 0 (ff_AccessKeys ff) = Inr (st_accessKeys st)"
    by (auto elim: keystore_LoadE)
  note mem = load_access_keys_mem[OF this, simplified load_access_key_Some]
  have "(\<exists>ak. MatchAccessKey v st = Some ak) \<longleftrightarrow>
      trim_space v \<noteq> [] \<and> (\<exists>ak \<in> set (st_accessKeys st). ak_Value ak = trim_space v)"
    by (auto simp: MatchAccessKey_def Let_def find_None_iff dest: find_Some_mem
             simp flip: not_None_eq)
  also have "(\<exists>ak \<in> set (st_accessKeys st). ak_Value ak = trim_space v) \<longleftrightarrow>
     (\<exists>i < length (ff_AccessKeys ff). \<not> ak_Disabled (ff_AccessKeys ff ! i) \<and>
        access_key_raw env i (ff_AccessKeys ff ! i) \<noteq> [] \<and>
        decryptIfNeeded env gcm_open (access_key_raw env i (ff_AccessKeys ff ! i)) = Inr (trim_space v))"
    unfolding Bex_def mem by force
  finally show ?thesis .
qed

definition demo_access_key :: "string \<Rightarrow> bool \<Rightarrow> access_key" where
  "demo_access_key v d = \<lparr>ak_Name = [], ak_Value = v, ak_Disabled = d, ak_Comment = [],
     ak_ProviderKeyBindings = []\<rparr>"

theorem match_access_key_exact_witness:
  "\<exists>st. keystore_Load (\<lambda>_. Some []) (\<lambda>_. Some \<lparr>ff_Providers = [], ff_AccessKeys =
           [demo_access_key ''off'' True, demo_access_key '' on'' False]\<rparr>) (\<lambda>_. []) tag_open ''k'' = Inr st \<and>
        (\<exists>ak. MatchAccessKey ''on '' st = Some ak) \<and> \<not> (\<exists>ak. MatchAccessKey ''off'' st = Some ak)"
proof -
  let ?ff = "\<lparr>ff_Providers = [], ff_AccessKeys =
      [demo_access_key ''off'' True, demo_access_key '' on'' False]\<rparr>"
  let ?st = "\<lparr>st_byProv = [], st_nextIdx = [], st_accessKeys = [demo_access_key ''on'' False]\<rparr>"
  have load: "keystore_Load (\<lambda>_. Some []) (\<lambda>_. Some ?ff) (\<lambda>_. []) tag_open ''k'' = Inr ?st"
    by code_simp
  have t: "trim_space ''on '' = ''on''" "trim_space ''off'' = ''off''" by code_simp+
  have r: "access_key_raw (\<lambda>_. []) (Suc 0) (demo_access_key '' on'' False) = ''on''"
      "decryptIfNeeded (\<lambda>_. []) tag_open ''on'' = Inr ''on''" by code_simp+
  have d: "ak_Disabled (demo_access_key v b) = b" for v b by (simp add: demo_access_key_def)
  note ex = match_access_key_exact[OF load refl refl]
  show ?thesis
    by (intro exI[of _ ?st] conjI load)
       (simp_all add: ex t r d Ex_less_Suc2 All_less_Suc2)
qed

section \<open>The loaded store\<close>

definition usable_key :: "key \<Rightarrow> bool" where
  "usable_key k \<longleftrightarrow> key_Name k = trim_space (key_Name k) \<and>
     key_Location k = normalizeLocation (key_Location k)"

definition wf_store :: "store \<Rightarrow> bool" where
  "wf_store s \<longleftrightarrow> distinct (map fst (st_byProv s)) \<and>
     (\<forall>(p, ks) \<in> set (st_byProv s). p \<noteq> [] \<and> normalizeProvider p = p \<and> ks \<noteq> [] \<and>
        list_all usable_key ks) \<and>
     (\<forall>ak \<in> set (st_accessKeys s). \<not> ak_Disabled ak)"

lemma normalizeProvider_idem [simp]: "normalizeProvider (normalizeProvider s) = normalizeProvider s"
  by (simp add: normalizeProvider_def trim_space_to_lower)

lemma normalizeLocation_idem [simp]: "normalizeLocation (normalizeLocation s) = normalizeLocation s"
  by (simp add: normalizeLocation_def trim_space_to_lower)

lemma load_key_usable: "load_key env gcm_open p i k = Inr (Some k') \<Longrightarrow> usable_key k'"
  by (auto simp: load_key_def Let_def usable_key_def ctyun_overrides_def trim_key_def
           split: if_splits sum.splits)

lemma load_keys_usable: "load_keys env gcm_open p i ks = Inr out \<Longrightarrow> list_all usable_key out"
  by (induction env gcm_open p i ks arbitrary: out rule: load_keys.induct)
     (auto simp: bind_res_eq_Inr dest: load_key_usable split: option.splits)

lemma load_providers_wf:
  "load_providers env gcm_open ps out = Inr st \<Longrightarrow> wf_store out \<Longrightarrow> wf_store st"
proof (induction env gcm_open ps out arbitrary: st rule: load_providers.induct)
  case (2 env gcm_open prov v ps out)
  show ?case
  proof (cases "normalizeProvider prov = []")
    case False
    let ?p = "normalizeProvider prov"
    from 2(3) False obtain keys where k: "load_keys env gcm_open ?p 0 v = Inr keys"
      and l: "load_providers env gcm_open ps
        (if keys \<noteq> [] then out\<lparr>st_byProv := AList.update ?p keys (st_byProv out)\<rparr> else out) = Inr st"
      by (auto simp: Let_def bind_res_eq_Inr)
    have "wf_store (if keys \<noteq> [] then out\<lparr>st_byProv := AList.update ?p keys (st_byProv out)\<rparr> else out)"
      using 2(4) False load_keys_usable[OF k]
      by (auto simp: wf_store_def distinct_update dest!: in_set_update)
    with 2(2)[OF refl False] l show ?thesis by blast
  qed (use 2 in \<open>simp add: Let_def\<close>)
qed simp

text \<open>
  A store that loads is well formed: provider names are normalised, non-empty and unique, every
  listed provider has a key, key names and locations are normalised, no access key is disabled, and
  at least one provider or access key is configured. Handing out keys preserves this.
\<close>

theorem keystore_load_wf:
  "(keystore_Load readFile unmarshal env gcm_open path = Inr st \<longrightarrow>
      wf_store st \<and> (st_byProv st \<noteq> [] \<or> st_accessKeys st \<noteq> [])) \<and>
   (wf_store s \<longrightarrow> wf_store (snd (NextKey provider s)))"
proof (intro conjI impI)
  assume load: "keystore_Load readFile unmarshal env gcm_open path = Inr st"
  then obtain ff :: file_format and out where out: "load_providers env gcm_open (ff_Providers ff)
       \<lparr>st_byProv = [], st_nextIdx = [], st_accessKeys = []\<rparr> = Inr out"
    and aks: "load_access_keys env gcm_open 0 (ff_AccessKeys ff) = Inr (st_accessKeys st)"
    and st: "st = out\<lparr>st_accessKeys := st_accessKeys st\<rparr>"
    and ne: "st_byProv st \<noteq> [] \<or> st_accessKeys st \<noteq> []" by (elim keystore_LoadE) blast
  show "st_byProv st \<noteq> [] \<or> st_accessKeys st \<noteq> []" by (rule ne)
  have "wf_store out" by (rule load_providers_wf[OF out]) (simp add: wf_store_def)
  moreover have "\<forall>ak \<in> set (st_accessKeys st). \<not> ak_Disabled ak"
    using load_access_keys_mem[OF aks] by (auto simp: load_access_key_Some)
  ultimately show "wf_store st" by (subst st) (simp add: wf_store_def)
next
  assume "wf_store s"
  then show "wf_store (snd (NextKey provider s))" by (simp add: wf_store_def NextKey_def Let_def)
qed

theorem keystore_load_wf_witness:
  "\<exists>st. keystore_Load (\<lambda>_. Some []) (\<lambda>_. Some \<lparr>ff_Providers = [('' OpenAI'', [demo_key ''v''])],
          ff_AccessKeys = []\<rparr>) (\<lambda>_. []) tag_open ''k'' = Inr st \<and>
        wf_store st \<and> wf_store (snd (NextKey ''openai'' st))"
proof -
  let ?ff = "\<lparr>ff_Providers = [('' OpenAI'', [demo_key ''v''])], ff_AccessKeys = []\<rparr>"
  let ?st = "\<lparr>st_byProv = [(''openai'', [demo_key ''v''])], st_nextIdx = [], st_accessKeys = []\<rparr>"
  have "keystore_Load (\<lambda>_. Some []) (\<lambda>_. Some ?ff) (\<lambda>_. []) tag_open ''k'' = Inr ?st"
    by code_simp
  with keystore_load_wf[of "\<lambda>_. Some []" "\<lambda>_. Some ?ff" "\<lambda>_. []" tag_open "''k''" ?st ?st "''openai''"]
  show ?thesis by blast
qed

end
