(* ===== verification/Auth.thy ===== *)
theory Auth
  imports Keystore
begin

text \<open>
  Client authentication: token keys (\<^verbatim>\<open>onr/internal/auth/token.go\<close>), the authentication
  middleware (\<^verbatim>\<open>onr/internal/auth/middleware.go\<close>) and the command that builds token keys
  (\<^verbatim>\<open>onr-admin/internal/cli/token.go\<close>).

  A gin context is the record \<open>gin_ctx\<close>: the request headers, the principal and the string values
  that the middleware stores under its context keys. The resolver of access keys is an argument;
  it fails, accepts with a principal or rejects.
\<close>

section \<open>Token keys\<close>

datatype token_mode = TokenModeONR | TokenModeBYOK

record token_claims =
  tc_Provider :: string
  tc_ModelOverride :: string
  tc_UpstreamKey :: string
  tc_Mode :: token_mode

datatype token_error = NotTokenKey | InvalidTokenQuery | InvalidUk64 | InvalidK64 | MissingAccessKey

definition token_prefix :: string where
  "token_prefix = ''onr:v1?''"

definition IsTokenKey :: "string \<Rightarrow> bool" where
  "IsTokenKey raw \<longleftrightarrow> has_prefix (trim_space raw) token_prefix"

text \<open>A value given in base64 or, failing that, in plain text.\<close>

definition token_upstream_key :: "(string \<times> string) list \<Rightarrow> token_error + string" where
  "token_upstream_key vals =
     (let uk64 = trim_space (query_get vals ''uk64'') in
      if uk64 \<noteq> [] then
        (case b64_decode raw_url_strict uk64 of
           None \<Rightarrow> Inl InvalidUk64
         | Some b \<Rightarrow> Inr (trim_space b))
      else Inr (trim_space (query_get vals ''uk'')))"

definition token_access_key ::
    "bool \<Rightarrow> string \<Rightarrow> (string \<times> string) list \<Rightarrow> token_error + string" where
  "token_access_key allowBYOKWithoutK upstreamKey vals =
     (let k64 = trim_space (query_get vals ''k64''); k = trim_space (query_get vals ''k'') in
      if k64 \<noteq> [] then
        (case b64_decode raw_url_strict k64 of
           None \<Rightarrow> Inl InvalidK64
         | Some b \<Rightarrow> Inr (trim_space b))
      else if k \<noteq> [] then Inr k
      else if \<not> allowBYOKWithoutK \<or> upstreamKey = [] then Inl MissingAccessKey
      else Inr [])"

definition ParseTokenKeyV1WithOptions ::
    "bool \<Rightarrow> string \<Rightarrow> token_error + (token_claims \<times> string)" where
  "ParseTokenKeyV1WithOptions allowBYOKWithoutK raw =
     (let s = trim_space raw in
      if \<not> has_prefix s token_prefix then Inl NotTokenKey
      else
        case parse_query (trim_prefix s token_prefix) of
          None \<Rightarrow> Inl InvalidTokenQuery
        | Some vals \<Rightarrow>
            bind_res (token_upstream_key vals) (\<lambda>upstreamKey.
            bind_res (token_access_key allowBYOKWithoutK upstreamKey vals) (\<lambda>accessKey.
              Inr (\<lparr>tc_Provider = to_lower (trim_space (query_get vals ''p'')),
                    tc_ModelOverride = trim_space (query_get vals ''m''),
                    tc_UpstreamKey = upstreamKey,
                    tc_Mode = (if upstreamKey \<noteq> [] then TokenModeBYOK else TokenModeONR)\<rparr>,
                   accessKey))))"

definition ParseTokenKeyV1 :: "string \<Rightarrow> token_error + (token_claims \<times> string)" where
  "ParseTokenKeyV1 raw = ParseTokenKeyV1WithOptions False raw"

section \<open>Building token keys\<close>

definition hex_digit :: "nat \<Rightarrow> char" where
  "hex_digit d = ''0123456789ABCDEF'' ! d"

definition escape_byte :: "char \<Rightarrow> string" where
  "escape_byte c =
     (if url_safe c then [c]
      else let n = (of_char c :: nat) in [CHR ''%'', hex_digit (n div 16), hex_digit (n mod 16)])"

definition urlEscape :: "string \<Rightarrow> string" where
  "urlEscape s = concat (map escape_byte s)"

definition tokenQueryValues :: "string \<Rightarrow> string \<Rightarrow> string \<Rightarrow> string \<Rightarrow> bool \<Rightarrow> string" where
  "tokenQueryValues accessKey provider modelOverride upstreamKey plain =
     str_join ''&''
       ((if plain then [''k='' @ urlEscape accessKey]
         else [''k64='' @ urlEscape (b64_encode raw_url_encoding accessKey)]) @
        (if provider \<noteq> [] then [''p='' @ urlEscape provider] else []) @
        (if modelOverride \<noteq> [] then [''m='' @ urlEscape modelOverride] else []) @
        (if upstreamKey \<noteq> [] then [''uk='' @ urlEscape upstreamKey] else []))"

record token_create_options =
  to_accessKey :: string
  to_accessKeyName :: string
  to_provider :: string
  to_modelOverride :: string
  to_upstreamKey :: string
  to_plainKey :: bool

datatype build_error = KeysNotLoaded key_error | AccessKeyNameNotFound | MissingBuildKey

definition accessKeyByName :: "(key_error + store) \<Rightarrow> string \<Rightarrow> build_error + string" where
  "accessKeyByName loaded name =
     (case loaded of
        Inl e \<Rightarrow> Inl (KeysNotLoaded e)
      | Inr ks \<Rightarrow>
          (case List.find (\<lambda>ak. trim_space (ak_Name ak) = trim_space name) (AccessKeys ks) of
             None \<Rightarrow> Inl AccessKeyNameNotFound
           | Some ak \<Rightarrow>
               if trim_space (ak_Value ak) \<noteq> [] then Inr (trim_space (ak_Value ak))
               else Inl AccessKeyNameNotFound))"

text \<open>The key file as loaded and the configured master key are arguments.\<close>

definition buildToken ::
    "(key_error + store) \<Rightarrow> string \<Rightarrow> token_create_options \<Rightarrow> build_error + string" where
  "buildToken loaded masterKey opts =
     bind_res
       (if trim_space (to_accessKey opts) \<noteq> [] then Inr (trim_space (to_accessKey opts))
        else if trim_space (to_accessKeyName opts) \<noteq> [] then accessKeyByName loaded (to_accessKeyName opts)
        else Inr masterKey)
       (\<lambda>ak. let accessKey = trim_space ak in
         if accessKey = [] then Inl MissingBuildKey
         else Inr (tokenQueryValues accessKey (to_lower (trim_space (to_provider opts)))
                     (trim_space (to_modelOverride opts)) (trim_space (to_upstreamKey opts))
                     (to_plainKey opts)))"

section \<open>Principals\<close>

record auth_principal =
  ap_AccessKeyID :: string
  ap_AccountID :: string
  ap_SubjectType :: string
  ap_SubjectID :: string
  ap_RoutePolicyID :: string
  ap_AllowedProviders :: "string list"
  ap_AllowedModels :: "string list"
  ap_ProviderKeyBindings :: "(string \<times> string) list"

definition no_principal :: auth_principal where
  "no_principal = \<lparr>ap_AccessKeyID = [], ap_AccountID = [], ap_SubjectType = [], ap_SubjectID = [],
     ap_RoutePolicyID = [], ap_AllowedProviders = [], ap_AllowedModels = [],
     ap_ProviderKeyBindings = []\<rparr>"

definition normalizeAllowedValues :: "string list \<Rightarrow> bool \<Rightarrow> string list" where
  "normalizeAllowedValues values lower = normalise_values (fold_value lower) [] values"

definition allowsAccessKeyValue :: "string list \<Rightarrow> string \<Rightarrow> bool \<Rightarrow> bool" where
  "allowsAccessKeyValue values value lower \<longleftrightarrow>
     (if values = [] then True
      else if trim_space value = [] then False
      else list_ex (\<lambda>allowed. fold_value lower allowed = fold_value lower value) values)"

definition AllowsProvider :: "auth_principal \<Rightarrow> string \<Rightarrow> bool" where
  "AllowsProvider p provider \<longleftrightarrow> allowsAccessKeyValue (ap_AllowedProviders p) provider True"

definition AllowsModel :: "auth_principal \<Rightarrow> string \<Rightarrow> bool" where
  "AllowsModel p model \<longleftrightarrow> allowsAccessKeyValue (ap_AllowedModels p) model False"

definition HasAnyData :: "auth_principal \<Rightarrow> bool" where
  "HasAnyData p \<longleftrightarrow>
     trim_space (ap_AccessKeyID p) \<noteq> [] \<or> trim_space (ap_AccountID p) \<noteq> [] \<or>
     trim_space (ap_SubjectType p) \<noteq> [] \<or> trim_space (ap_SubjectID p) \<noteq> [] \<or>
     trim_space (ap_RoutePolicyID p) \<noteq> [] \<or>
     ap_AllowedProviders p \<noteq> [] \<or> ap_AllowedModels p \<noteq> []"

section \<open>The request context\<close>

record gin_ctx =
  gc_Header :: "string \<Rightarrow> string"
  gc_Principal :: "auth_principal option"
  gc_Strings :: "(string \<times> string) list"

definition GetString :: "gin_ctx \<Rightarrow> string \<Rightarrow> string" where
  "GetString c k = (case map_of (gc_Strings c) k of None \<Rightarrow> [] | Some v \<Rightarrow> v)"

text \<open>Storing a value under a context key unless the value is empty.\<close>

definition set_nonempty :: "string \<Rightarrow> string \<Rightarrow> gin_ctx \<Rightarrow> gin_ctx" where
  "set_nonempty k v c = (if v \<noteq> [] then c\<lparr>gc_Strings := AList.update k v (gc_Strings c)\<rparr> else c)"

definition normalize_principal :: "auth_principal \<Rightarrow> auth_principal" where
  "normalize_principal p =
     \<lparr>ap_AccessKeyID = trim_space (ap_AccessKeyID p),
      ap_AccountID = trim_space (ap_AccountID p),
      ap_SubjectType = trim_space (ap_SubjectType p),
      ap_SubjectID = trim_space (ap_SubjectID p),
      ap_RoutePolicyID = trim_space (ap_RoutePolicyID p),
      ap_AllowedProviders = normalizeAllowedValues (ap_AllowedProviders p) True,
      ap_AllowedModels = normalizeAllowedValues (ap_AllowedModels p) False,
      ap_ProviderKeyBindings = normalize_bindings [] (ap_ProviderKeyBindings p)\<rparr>"

definition setPrincipal :: "auth_principal \<Rightarrow> gin_ctx \<Rightarrow> gin_ctx" where
  "setPrincipal princ c =
     (let p = normalize_principal princ in
      set_nonempty ''onr.auth_route_policy_id'' (ap_RoutePolicyID p)
       (set_nonempty ''onr.auth_subject_id'' (ap_SubjectID p)
        (set_nonempty ''onr.auth_subject_type'' (ap_SubjectType p)
         (set_nonempty ''onr.auth_account_id'' (ap_AccountID p)
          (set_nonempty ''onr.auth_access_key_id'' (ap_AccessKeyID p)
            (c\<lparr>gc_Principal := Some p\<rparr>))))))"

definition PrincipalFromContext :: "gin_ctx \<Rightarrow> auth_principal option" where
  "PrincipalFromContext c = gc_Principal c"

definition AccessKeyID :: "gin_ctx \<Rightarrow> string" where
  "AccessKeyID c = trim_space (GetString c ''onr.auth_access_key_id'')"

definition AccountID :: "gin_ctx \<Rightarrow> string" where
  "AccountID c = trim_space (GetString c ''onr.auth_account_id'')"

definition SubjectType :: "gin_ctx \<Rightarrow> string" where
  "SubjectType c = trim_space (GetString c ''onr.auth_subject_type'')"

definition SubjectID :: "gin_ctx \<Rightarrow> string" where
  "SubjectID c = trim_space (GetString c ''onr.auth_subject_id'')"

definition RoutePolicyID :: "gin_ctx \<Rightarrow> string" where
  "RoutePolicyID c = trim_space (GetString c ''onr.auth_route_policy_id'')"

definition TokenProvider :: "gin_ctx \<Rightarrow> string" where
  "TokenProvider c = to_lower (trim_space (GetString c ''onr.token_provider''))"

definition TokenModelOverride :: "gin_ctx \<Rightarrow> string" where
  "TokenModelOverride c = trim_space (GetString c ''onr.token_model_override'')"

definition TokenUpstreamKey :: "gin_ctx \<Rightarrow> string" where
  "TokenUpstreamKey c = trim_space (GetString c ''onr.token_upstream_key'')"

definition mode_string :: "token_mode \<Rightarrow> string" where
  "mode_string m = (case m of TokenModeONR \<Rightarrow> ''onr'' | TokenModeBYOK \<Rightarrow> ''byok'')"

definition TokenModeFromContext :: "gin_ctx \<Rightarrow> token_mode" where
  "TokenModeFromContext c =
     (if to_lower (trim_space (GetString c ''onr.token_mode'')) = mode_string TokenModeBYOK
      then TokenModeBYOK else TokenModeONR)"

section \<open>The middleware\<close>

datatype resolve_outcome = ResolveError | Accepted auth_principal | Rejected

type_synonym resolver = "string \<Rightarrow> resolve_outcome"

datatype auth_outcome = AuthNext gin_ctx | AuthUnavailable | AuthUnauthorized

datatype token_outcome = TokenError | TokenOk gin_ctx | TokenNo

definition set_claims :: "token_claims \<Rightarrow> gin_ctx \<Rightarrow> gin_ctx" where
  "set_claims claims c =
     set_nonempty ''onr.token_mode'' (mode_string (tc_Mode claims))
       (set_nonempty ''onr.token_upstream_key'' (tc_UpstreamKey claims)
         (set_nonempty ''onr.token_model_override'' (tc_ModelOverride claims)
           (set_nonempty ''onr.token_provider'' (tc_Provider claims) c)))"

definition token_success :: "auth_principal \<Rightarrow> token_claims \<Rightarrow> gin_ctx \<Rightarrow> token_outcome" where
  "token_success princ claims c =
     TokenOk (set_claims claims (if HasAnyData princ then setPrincipal princ c else c))"

definition parseToken :: "string \<Rightarrow> bool \<Rightarrow> (token_claims \<times> string) option" where
  "parseToken got allowBYOKWithoutK =
     (case ParseTokenKeyV1WithOptions allowBYOKWithoutK got of Inl e \<Rightarrow> None | Inr r \<Rightarrow> Some r)"

definition authenticateToken ::
    "gin_ctx \<Rightarrow> string \<Rightarrow> string \<Rightarrow> resolver option \<Rightarrow> bool \<Rightarrow> token_outcome" where
  "authenticateToken c got expected resolver allowBYOKWithoutK =
     (if \<not> IsTokenKey got then TokenNo
      else
        case parseToken got allowBYOKWithoutK of
          None \<Rightarrow> TokenNo
        | Some (claims, accessKey) \<Rightarrow>
            if trim_space accessKey \<noteq> [] then
              (if expected \<noteq> [] \<and> accessKey = expected then token_success no_principal claims c
               else
                 case resolver of
                   None \<Rightarrow> TokenNo
                 | Some resolve \<Rightarrow>
                     (case resolve accessKey of
                        ResolveError \<Rightarrow> TokenError
                      | Rejected \<Rightarrow> TokenNo
                      | Accepted princ \<Rightarrow> token_success princ claims c))
            else if allowBYOKWithoutK \<and> tc_Mode claims = TokenModeBYOK \<and>
                    trim_space (tc_UpstreamKey claims) \<noteq> []
            then token_success no_principal claims c
            else TokenNo)"

definition credential :: "gin_ctx \<Rightarrow> string" where
  "credential c =
     (let v = trim_space (gc_Header c ''Authorization'');
          got1 = (if has_prefix v ''Bearer '' then trim_space (trim_prefix v ''Bearer '') else []);
          got2 = (if got1 = [] then trim_space (gc_Header c ''x-api-key'') else got1) in
      if got2 = [] then trim_space (gc_Header c ''x-goog-api-key'') else got2)"

definition MiddlewareWithResolver ::
    "string \<Rightarrow> resolver option \<Rightarrow> bool \<Rightarrow> gin_ctx \<Rightarrow> auth_outcome" where
  "MiddlewareWithResolver masterKey resolveAccessKey allowBYOKWithoutK c =
     (let expected = trim_space masterKey; got = credential c in
      if expected \<noteq> [] \<and> got = expected then AuthNext c
      else
        case (case resolveAccessKey of None \<Rightarrow> Rejected | Some resolve \<Rightarrow> resolve got) of
          ResolveError \<Rightarrow> AuthUnavailable
        | Accepted princ \<Rightarrow> AuthNext (setPrincipal princ c)
        | Rejected \<Rightarrow>
            (case authenticateToken c got expected resolveAccessKey allowBYOKWithoutK of
               TokenError \<Rightarrow> AuthUnavailable
             | TokenOk c' \<Rightarrow> AuthNext c'
             | TokenNo \<Rightarrow> AuthUnauthorized))"

definition Middleware ::
    "string \<Rightarrow> (string \<Rightarrow> string option) option \<Rightarrow> bool \<Rightarrow> gin_ctx \<Rightarrow> auth_outcome" where
  "Middleware masterKey matchAccessKey allowBYOKWithoutK c =
     MiddlewareWithResolver masterKey
       (map_option (\<lambda>match accessKey.
          case match accessKey of
            None \<Rightarrow> Rejected
          | Some name \<Rightarrow> Accepted (no_principal\<lparr>ap_AccessKeyID := trim_space name,
              ap_AccountID := trim_space name, ap_SubjectID := trim_space name\<rparr>)) matchAccessKey)
       allowBYOKWithoutK c"

section \<open>Escaping\<close>

lemma hex_value_digit: "d < 16 \<Longrightarrow> hex_value (hex_digit d) = Some d"
proof -
  have "\<forall>d \<in> set [0..<16]. hex_value (hex_digit d) = Some d" by code_simp
  then show "d < 16 \<Longrightarrow> hex_value (hex_digit d) = Some d" by simp
qed

lemma url_safe_neq: "url_safe c \<Longrightarrow> c \<notin> set ''%+&=;''"
  by (auto simp: url_safe_def byte_in_def)

lemma url_unsafe [simp]:
  "\<not> url_safe (CHR ''&'')" "\<not> url_safe (CHR ''='')" "\<not> url_safe (CHR '';'')"
  by (simp_all add: url_safe_def byte_in_def)

lemma hex_digit_safe: "d < 16 \<Longrightarrow> url_safe (hex_digit d)"
proof -
  have "\<forall>d \<in> set [0..<16]. url_safe (hex_digit d)" by code_simp
  then show "d < 16 \<Longrightarrow> url_safe (hex_digit d)" by simp
qed

lemma byte_nibbles: "(of_char c :: nat) div 16 < 16" "(of_char c :: nat) mod 16 < 16"
  by (simp_all add: div_less_iff_less_mult)

lemma query_unescape_escape: "query_unescape (escape_byte c @ s) = map_option (Cons c) (query_unescape s)"
proof -
  have "char_of (16 * ((of_char c :: nat) div 16) + of_char c mod 16) = c"
    by (simp only: mult_div_mod_eq char_of_char)
  then show ?thesis
    using url_safe_neq[of c] byte_nibbles[of c]
    by (auto simp: escape_byte_def Let_def hex_value_digit)
qed

lemma query_unescape_safe: "list_all url_safe s \<Longrightarrow> query_unescape s = Some s"
  by (induction s) (auto dest: url_safe_neq)

lemma query_unescape_urlEscape: "query_unescape (urlEscape s) = Some s"
  by (induction s) (simp_all add: urlEscape_def query_unescape_escape)

lemma urlEscape_bytes: "c \<in> set (urlEscape s) \<Longrightarrow> url_safe c \<or> c = CHR ''%''"
  by (auto simp: urlEscape_def escape_byte_def Let_def hex_digit_safe byte_nibbles split: if_splits)

lemma urlEscape_Nil_iff: "urlEscape s = [] \<longleftrightarrow> s = []"
  by (cases s) (auto simp: urlEscape_def escape_byte_def Let_def)

definition query_field :: "string \<times> string \<Rightarrow> string" where
  "query_field kv = fst kv @ ''='' @ urlEscape (snd kv)"

lemma query_field_bytes:
  "list_all url_safe (fst kv) \<Longrightarrow> CHR ''&'' \<notin> set (query_field kv) \<and> CHR '';'' \<notin> set (query_field kv)"
  by (auto simp: query_field_def list_all_iff dest!: urlEscape_bytes)

lemma str_cut_append: "c \<notin> set p \<Longrightarrow> str_cut c (p @ c # rest) = (p, rest)"
  by (induction p) (auto simp: str_cut_def)

lemma str_cut_none: "c \<notin> set p \<Longrightarrow> str_cut c p = (p, [])"
  by (induction p) (auto simp: str_cut_def)

lemma query_pair_field: "list_all url_safe (fst kv) \<Longrightarrow> query_pair (query_field kv) = Some kv"
proof -
  assume k: "list_all url_safe (fst kv)"
  then have "CHR ''='' \<notin> set (fst kv)" by (auto simp: list_all_iff)
  from str_cut_append[OF this] k show ?thesis
    by (simp add: query_pair_def query_field_def query_unescape_safe query_unescape_urlEscape)
qed

lemma parse_query_field:
  assumes "list_all url_safe (fst kv)"
  shows "parse_query (query_field kv) = Some [kv]"
    and "parse_query (query_field kv @ CHR ''&'' # rest) = map_option (Cons kv) (parse_query rest)"
proof -
  have ne: "query_field kv \<noteq> []" by (simp add: query_field_def)
  note b = query_field_bytes[OF assms] query_pair_field[OF assms]
  show "parse_query (query_field kv) = Some [kv]"
    using ne b by (subst parse_query.simps) (simp add: str_cut_none parse_query.simps[of "[]"])
  show "parse_query (query_field kv @ CHR ''&'' # rest) = map_option (Cons kv) (parse_query rest)"
    using ne b by (subst parse_query.simps) (simp add: str_cut_append)
qed

lemma parse_query_fields:
  "list_all (\<lambda>kv. list_all url_safe (fst kv)) kvs \<Longrightarrow>
     parse_query (str_join ''&'' (map query_field kvs)) = Some kvs"
  by (induction kvs rule: induct_list012)
     (simp_all add: parse_query_field parse_query.simps[of "[]"])

section \<open>Token keys built by the command line\<close>

definition token_fields :: "string \<Rightarrow> string \<Rightarrow> string \<Rightarrow> string \<Rightarrow> bool \<Rightarrow> (string \<times> string) list" where
  "token_fields accessKey provider modelOverride upstreamKey plain =
     (if plain then [(''k'', accessKey)] else [(''k64'', b64_encode raw_url_encoding accessKey)]) @
     (if provider \<noteq> [] then [(''p'', provider)] else []) @
     (if modelOverride \<noteq> [] then [(''m'', modelOverride)] else []) @
     (if upstreamKey \<noteq> [] then [(''uk'', upstreamKey)] else [])"

lemma tokenQueryValues_fields:
  "tokenQueryValues ak p m uk plain = str_join ''&'' (map query_field (token_fields ak p m uk plain))"
  by (simp add: tokenQueryValues_def token_fields_def query_field_def)

lemma token_fields_safe: "list_all (\<lambda>kv. list_all url_safe (fst kv)) (token_fields ak p m uk plain)"
  by (simp add: token_fields_def url_safe_def byte_in_def)

lemma str_join_last:
  "xs \<noteq> [] \<Longrightarrow> last xs \<noteq> [] \<Longrightarrow> str_join sep xs \<noteq> [] \<and> last (str_join sep xs) = last (last xs)"
  by (induction sep xs rule: str_join.induct) auto

lemma last_query_field:
  "snd kv \<noteq> [] \<Longrightarrow> url_safe (last (query_field kv)) \<or> last (query_field kv) = CHR ''%''"
  using urlEscape_bytes[of "last (urlEscape (snd kv))" "snd kv"]
  by (simp add: query_field_def urlEscape_Nil_iff)

lemma trim_token:
  assumes "ak \<noteq> []"
  shows "trim_space (token_prefix @ tokenQueryValues ak p m uk plain) =
           token_prefix @ tokenQueryValues ak p m uk plain"
proof -
  let ?fs = "token_fields ak p m uk plain"
  have ne: "?fs \<noteq> []" by (simp add: token_fields_def)
  have "snd kv \<noteq> []" if "kv \<in> set ?fs" for kv
    using that assms by (auto simp: token_fields_def b64_encode_Nil_iff split: if_splits)
  with ne have "snd (last ?fs) \<noteq> []" by simp
  from last_query_field[OF this] url_safe_visible
  have v: "\<not> digit7 (last (query_field (last ?fs))) \<and> \<not> is_ascii_space (last (query_field (last ?fs)))"
    by blast
  have "last (map query_field ?fs) \<noteq> []" using ne by (simp add: last_map query_field_def)
  from str_join_last[OF _ this] ne have
    "tokenQueryValues ak p m uk plain \<noteq> []"
    "last (tokenQueryValues ak p m uk plain) = last (query_field (last ?fs))"
    unfolding tokenQueryValues_fields by (simp_all add: last_map)
  with v show ?thesis
    by (intro trim_space_id) (simp_all add: token_prefix_def is_ascii_space_def)
qed

text \<open>
  C8. The gateway reads back what the command line wrote: parsing the token key built from
  normalised values returns exactly the access key, provider, model override and upstream key, in
  BYOK mode exactly when an upstream key is present, whether the access key is embedded in plain
  text or in base64.
\<close>

theorem token_key_roundtrip:
  assumes "ak \<noteq> []" "trim_space ak = ak"
    and "trim_space p = p" "to_lower p = p" "trim_space m = m" "trim_space uk = uk"
  shows "ParseTokenKeyV1WithOptions allow (token_prefix @ tokenQueryValues ak p m uk plain) =
     Inr (\<lparr>tc_Provider = p, tc_ModelOverride = m, tc_UpstreamKey = uk,
           tc_Mode = (if uk \<noteq> [] then TokenModeBYOK else TokenModeONR)\<rparr>, ak)"
proof -
  let ?fs = "token_fields ak p m uk plain"
  have parse: "parse_query (tokenQueryValues ak p m uk plain) = Some ?fs"
    by (simp add: tokenQueryValues_fields parse_query_fields token_fields_safe)
  have get: "query_get ?fs ''uk64'' = []" "query_get ?fs ''uk'' = uk" "query_get ?fs ''p'' = p"
      "query_get ?fs ''m'' = m" "query_get ?fs ''k'' = (if plain then ak else [])"
      "query_get ?fs ''k64'' = (if plain then [] else b64_encode raw_url_encoding ak)"
    by (simp_all add: query_get_def token_fields_def)
  then have "token_upstream_key ?fs = Inr uk" "token_access_key allow uk ?fs = Inr ak"
    using assms by (simp_all add: token_upstream_key_def token_access_key_def Let_def
        b64_encode_Nil_iff b64_decode_raw_url)
  then show ?thesis
    using assms by (simp add: ParseTokenKeyV1WithOptions_def trim_token trim_prefix_def parse get)
qed

theorem token_key_roundtrip_witness:
  "ParseTokenKeyV1WithOptions False (token_prefix @ tokenQueryValues ''a&b=c%'' ''openai'' ''gpt'' ''u k'' False) =
     Inr (\<lparr>tc_Provider = ''openai'', tc_ModelOverride = ''gpt'', tc_UpstreamKey = ''u k'',
           tc_Mode = TokenModeBYOK\<rparr>, ''a&b=c%'')"
proof -
  have "trim_space ''a&b=c%'' = ''a&b=c%''" "trim_space ''openai'' = ''openai''"
    "to_lower ''openai'' = ''openai''" "trim_space ''gpt'' = ''gpt''" "trim_space ''u k'' = ''u k''"
    by code_simp+
  from token_key_roundtrip[OF _ this] show ?thesis by simp
qed

section \<open>Who is let in\<close>

text \<open>
  The specification of the middleware: whether a request may pass, as a function of the
  credential, the master key and the answers of the resolver alone.
\<close>

datatype verdict = Pass | Unavailable | Deny

definition key_verdict :: "string \<Rightarrow> resolver option \<Rightarrow> string \<Rightarrow> verdict" where
  "key_verdict expected resolver k =
     (if expected \<noteq> [] \<and> k = expected then Pass
      else
        case resolver of
          None \<Rightarrow> Deny
        | Some resolve \<Rightarrow>
            (case resolve k of ResolveError \<Rightarrow> Unavailable | Accepted _ \<Rightarrow> Pass | Rejected \<Rightarrow> Deny))"

definition token_verdict :: "string \<Rightarrow> resolver option \<Rightarrow> bool \<Rightarrow> string \<Rightarrow> verdict" where
  "token_verdict expected resolver allowBYOK got =
     (case ParseTokenKeyV1WithOptions allowBYOK got of
        Inl _ \<Rightarrow> Deny
      | Inr (claims, k) \<Rightarrow>
          if k \<noteq> [] then key_verdict expected resolver k
          else if allowBYOK \<and> tc_UpstreamKey claims \<noteq> [] then Pass else Deny)"

definition auth_spec :: "string \<Rightarrow> resolver option \<Rightarrow> bool \<Rightarrow> string \<Rightarrow> verdict" where
  "auth_spec expected resolver allowBYOK got =
     (case key_verdict expected resolver got of
        Deny \<Rightarrow> token_verdict expected resolver allowBYOK got
      | v \<Rightarrow> v)"

definition verdict_of :: "auth_outcome \<Rightarrow> verdict" where
  "verdict_of r = (case r of AuthNext _ \<Rightarrow> Pass | AuthUnavailable \<Rightarrow> Unavailable | AuthUnauthorized \<Rightarrow> Deny)"

lemma token_access_key_trim: "token_access_key allow uk vals = Inr k \<Longrightarrow> trim_space k = k"
  by (auto simp: token_access_key_def Let_def split: if_splits option.splits)

lemma token_upstream_key_trim: "token_upstream_key vals = Inr uk \<Longrightarrow> trim_space uk = uk"
  by (auto simp: token_upstream_key_def Let_def split: if_splits option.splits)

lemma ParseTokenKey_Inr:
  assumes "ParseTokenKeyV1WithOptions allow got = Inr (claims, k)"
  shows "IsTokenKey got" "trim_space k = k" "trim_space (tc_UpstreamKey claims) = tc_UpstreamKey claims"
    "trim_space (tc_ModelOverride claims) = tc_ModelOverride claims"
    "to_lower (trim_space (tc_Provider claims)) = tc_Provider claims"
    "tc_Mode claims = TokenModeBYOK \<longleftrightarrow> tc_UpstreamKey claims \<noteq> []"
  using assms
  by (auto simp: ParseTokenKeyV1WithOptions_def IsTokenKey_def Let_def bind_res_eq_Inr trim_space_to_lower
           dest: token_access_key_trim token_upstream_key_trim split: if_splits option.splits)

definition token_outcome_verdict :: "token_outcome \<Rightarrow> verdict" where
  "token_outcome_verdict r = (case r of TokenOk _ \<Rightarrow> Pass | TokenError \<Rightarrow> Unavailable | TokenNo \<Rightarrow> Deny)"

lemma authenticateToken_verdict:
  "token_outcome_verdict (authenticateToken c got expected resolver allow) =
     token_verdict expected resolver allow got"
proof (cases "ParseTokenKeyV1WithOptions allow got")
  case (Inr r)
  obtain claims k where r: "r = (claims, k)" by force
  note facts = ParseTokenKey_Inr[OF Inr[unfolded r]]
  show ?thesis
    using facts
    by (auto simp: authenticateToken_def token_verdict_def parseToken_def Inr r key_verdict_def
                   token_outcome_verdict_def token_success_def
             split: option.split resolve_outcome.split)
qed (simp add: authenticateToken_def token_verdict_def parseToken_def token_outcome_verdict_def)

text \<open>
  C7. The middleware refines its specification: a request passes exactly when its credential (or
  the access key inside its token key) is the non-empty master key or is accepted by the resolver,
  or when tokens without access key are allowed and it carries an upstream key; it is answered
  with 503 exactly when a resolver call that decides fails, and with 401 otherwise.
\<close>

theorem middleware_refines_spec:
  "verdict_of (MiddlewareWithResolver masterKey resolver allowBYOK c) =
     auth_spec (trim_space masterKey) resolver allowBYOK (credential c)"
  using authenticateToken_verdict[of c "credential c" "trim_space masterKey" resolver allowBYOK]
  by (auto simp: MiddlewareWithResolver_def auth_spec_def key_verdict_def verdict_of_def Let_def
                 token_outcome_verdict_def
           split: option.splits resolve_outcome.splits token_outcome.splits)

section \<open>Principals and allowlists\<close>

interpretation allowed: value_normaliser "fold_value lower" "\<lambda>vs. normalizeAllowedValues vs lower" for lower
  by unfold_locales (simp_all add: normalizeAllowedValues_def)

lemma list_ex_normalized:
  assumes "fold_value lower v \<noteq> []"
  shows "list_ex (\<lambda>a. fold_value lower a = fold_value lower v) (normalizeAllowedValues vs lower) \<longleftrightarrow>
      list_ex (\<lambda>a. fold_value lower a = fold_value lower v) vs"
  unfolding list_ex_iff by (rule allowed.ex_norm_iff[OF assms])

lemma allows_normalized:
  "allowsAccessKeyValue (normalizeAllowedValues vs lower) v lower \<longleftrightarrow>
     (\<forall>x \<in> set vs. trim_space x = []) \<or> allowsAccessKeyValue vs v lower"
proof (cases "\<forall>x \<in> set vs. trim_space x = []")
  case True
  then have "normalizeAllowedValues vs lower = []"
    using allowed.norm_Nil_iff[of vs lower] by (simp add: fold_value_Nil_iff)
  with True show ?thesis by (simp add: allowsAccessKeyValue_def)
next
  case False
  then have "normalizeAllowedValues vs lower \<noteq> []" "vs \<noteq> []"
    using allowed.norm_Nil_iff[of vs lower] by (auto simp: fold_value_Nil_iff)
  moreover have "list_ex (\<lambda>a. fold_value lower a = fold_value lower v) (normalizeAllowedValues vs lower) \<longleftrightarrow>
      list_ex (\<lambda>a. fold_value lower a = fold_value lower v) vs" if "trim_space v \<noteq> []"
    by (rule list_ex_normalized) (use that in \<open>simp add: fold_value_Nil_iff\<close>)
  ultimately show ?thesis using False by (auto simp: allowsAccessKeyValue_def)
qed

lemma gc_Principal_set_nonempty [simp]: "gc_Principal (set_nonempty k v c) = gc_Principal c"
  by (simp add: set_nonempty_def)

lemma PrincipalFromContext_setPrincipal [simp]:
  "PrincipalFromContext (setPrincipal p c) = Some (normalize_principal p)"
  by (simp add: PrincipalFromContext_def setPrincipal_def Let_def)

text \<open>
  What storing a principal does to its allowlists: the stored principal allows a provider (a
  model) exactly when the resolved one does, with one exception that the code makes: a list that
  is not empty but holds only blank entries denies everything before it is stored and allows
  everything afterwards.
\<close>

theorem stored_allowlists:
  "\<exists>q. PrincipalFromContext (setPrincipal p c) = Some q \<and>
     (AllowsProvider q v \<longleftrightarrow>
        (\<forall>x \<in> set (ap_AllowedProviders p). trim_space x = []) \<or> AllowsProvider p v) \<and>
     (AllowsModel q v \<longleftrightarrow>
        (\<forall>x \<in> set (ap_AllowedModels p). trim_space x = []) \<or> AllowsModel p v)"
  by (simp add: AllowsProvider_def AllowsModel_def normalize_principal_def allows_normalized)

theorem stored_allowlists_witness:
  "let p = no_principal\<lparr>ap_AllowedProviders := ['' '']\<rparr>;
       q = normalize_principal p in
   \<not> AllowsProvider p ''openai'' \<and> AllowsProvider q ''openai''"
proof -
  let ?p = "no_principal\<lparr>ap_AllowedProviders := ['' '']\<rparr>"
  have "trim_space '' '' = []" by code_simp
  moreover have "\<not> AllowsProvider ?p ''openai''" by code_simp
  ultimately show ?thesis
    using stored_allowlists[of ?p "\<lparr>gc_Header = \<lambda>_. [], gc_Principal = None, gc_Strings = []\<rparr>" "''openai''"]
    by (auto simp: no_principal_def Let_def)
qed

end
