(* ===== verification/Models_Router.thy ===== *)
theory Models_Router
  imports Prelude "HOL-Library.List_Lexorder" "HOL-Library.Char_ord"
begin

text \<open>
  The model router, \<^verbatim>\<open>onr-core/pkg/models/models.go\<close>: which providers serve a model and which one
  serves the next request. A router holds the normalised routes, the per-model round-robin cursors
  and the global provider priority. \<open>NextProviderAllowed\<close> is the operation the request handlers
  call; it is interpreted as a \<open>rotor\<close>, so that fairness holds under any interleaving of requests
  for other models. \<open>UpdateProviderPriority\<close> rewrites the routing file through a temporary file;
  each file-system call may fail.
\<close>

section \<open>Data\<close>

record route =
  route_Providers :: "string list"
  route_Strategy :: string
  route_OwnedBy :: string

record models_file =
  file_ProviderPriority :: "string list"
  file_Models :: "(string \<times> route) list"

record router =
  rt_routes :: "(string \<times> route) list"
  rt_nextIdx :: "(string \<times> nat) list"
  rt_providerPriority :: "string list"

definition StrategyRoundRobin :: string where
  "StrategyRoundRobin = ''round_robin''"

definition StrategyPriority :: string where
  "StrategyPriority = ''priority''"

section \<open>Normalisation\<close>

definition normalizeModelID :: "string \<Rightarrow> string" where
  "normalizeModelID s = trim_space s"

definition normalize_name :: "string \<Rightarrow> string" where
  "normalize_name s = to_lower (trim_space s)"

definition normalizeRoute :: "route \<Rightarrow> route" where
  "normalizeRoute r =
     r\<lparr>route_OwnedBy := trim_space (route_OwnedBy r),
       route_Strategy := (if route_Strategy r = [] then StrategyRoundRobin else route_Strategy r),
       route_Providers := filter (\<lambda>p. p \<noteq> []) (map normalize_name (route_Providers r))\<rparr>"

definition normalizeProviders :: "string list \<Rightarrow> string list" where
  "normalizeProviders values = normalise_values normalize_name [] values"

section \<open>Provider order\<close>

fun rank_of :: "nat \<Rightarrow> (string \<times> nat) list \<Rightarrow> string list \<Rightarrow> (string \<times> nat) list" where
  "rank_of i rank [] = rank"
| "rank_of i rank (p # ps) = rank_of (Suc i) (AList.update p i rank) ps"

definition provider_less :: "(string \<times> nat) list \<Rightarrow> string \<Rightarrow> string \<Rightarrow> bool" where
  "provider_less rank a b =
     (case map_of rank a of
        None \<Rightarrow> False
      | Some ri \<Rightarrow> (case map_of rank b of None \<Rightarrow> True | Some rj \<Rightarrow> ri < rj))"

definition orderProviders :: "string list \<Rightarrow> string list \<Rightarrow> string list" where
  "orderProviders providers priority = slice_stable (provider_less (rank_of 0 [] priority)) providers"

definition filterAllowedProviders :: "string list \<Rightarrow> string list \<Rightarrow> string list" where
  "filterAllowedProviders providers allowed =
     (if allowed = [] then providers
      else filter (\<lambda>p. p \<in> set (normalizeProviders allowed)) providers)"

section \<open>The router\<close>

definition place_route :: "string list \<Rightarrow> route \<Rightarrow> route" where
  "place_route providerPriority r =
     (let route = normalizeRoute r in
      if providerPriority \<noteq> []
      then route\<lparr>route_Providers := orderProviders (route_Providers route) providerPriority,
                 route_Strategy := StrategyPriority\<rparr>
      else route)"

fun add_routes :: "(string \<times> route) list \<Rightarrow> router \<Rightarrow> router" where
  "add_routes [] out = out"
| "add_routes ((i, r) # rs) out =
     (let mid = normalizeModelID i in
      if mid = [] then add_routes rs out
      else add_routes rs
             (out\<lparr>rt_routes :=
                AList.update mid (place_route (rt_providerPriority out) r) (rt_routes out)\<rparr>))"

definition NewRouterWithPriority :: "(string \<times> route) list \<Rightarrow> string list \<Rightarrow> router" where
  "NewRouterWithPriority routes providerPriority =
     add_routes routes
       \<lparr>rt_routes = [], rt_nextIdx = [], rt_providerPriority = normalizeProviders providerPriority\<rparr>"

definition NewRouter :: "(string \<times> route) list \<Rightarrow> router" where
  "NewRouter routes = NewRouterWithPriority routes []"

definition ProviderPriority :: "router \<Rightarrow> string list" where
  "ProviderPriority r = rt_providerPriority r"

definition Models :: "router \<Rightarrow> string list" where
  "Models r = sort (map fst (rt_routes r))"

definition RouteForModel :: "string \<Rightarrow> router \<Rightarrow> route option" where
  "RouteForModel modelID r =
     (let mid = normalizeModelID modelID in
      if mid = [] then None else map_option normalizeRoute (map_of (rt_routes r) mid))"

definition rotate_provider :: "string \<Rightarrow> string list \<Rightarrow> router \<Rightarrow> string option \<times> router" where
  "rotate_provider mid providers r =
     (let i = lookup_nat (rt_nextIdx r) mid mod length providers in
      (Some (providers ! i),
       r\<lparr>rt_nextIdx := AList.update mid ((i + 1) mod length providers) (rt_nextIdx r)\<rparr>))"

definition NextProviderAllowed :: "string \<Rightarrow> string list \<Rightarrow> router \<Rightarrow> string option \<times> router" where
  "NextProviderAllowed modelID allowed r =
     (let mid = normalizeModelID modelID in
      if mid = [] then (None, r)
      else
        case map_of (rt_routes r) mid of
          None \<Rightarrow> (None, r)
        | Some rt \<Rightarrow>
            if route_Providers rt = [] then (None, r)
            else
              let providers = filterAllowedProviders (route_Providers rt) allowed in
              if providers = [] then (None, r)
              else
                let strategy = (if route_Strategy rt = [] then StrategyRoundRobin
                                else route_Strategy rt) in
                if strategy = StrategyPriority then (Some (providers ! 0), r)
                else rotate_provider mid providers r)"

definition NextProvider :: "string \<Rightarrow> router \<Rightarrow> string option \<times> router" where
  "NextProvider modelID r = NextProviderAllowed modelID [] r"

text \<open>An entry of the OpenAI-style model list: id, creation time and owner.\<close>

definition ToOpenAIListAt :: "int \<Rightarrow> router \<Rightarrow> (string \<times> int \<times> string) list" where
  "ToOpenAIListAt createdAtUnix r =
     (let created = (if createdAtUnix \<le> 0 then 0 else createdAtUnix) in
      map (\<lambda>i. (i, created, ''custom'')) (Models r))"

definition ToOpenAIList :: "router \<Rightarrow> (string \<times> int \<times> string) list" where
  "ToOpenAIList r = ToOpenAIListAt 0 r"

section \<open>The routing file\<close>

text \<open>
  The file system is a map from paths to contents. YAML decoding and encoding belong to a
  third-party package and are parameters. A file-system call of \<open>UpdateProviderPriority\<close> fails when
  \<open>fails\<close> says so; a failing write may leave any contents in the temporary file.
\<close>

datatype models_error = ReadFailed | ParseFailed | EmptyPath | MarshalFailed | StepFailed

datatype read_outcome = ReadOk string | ReadNotExist | ReadError

datatype fs_step = CreateTemp | ChmodStep | WriteStep | SyncStep | CloseStep | RenameStep

type_synonym fs = "string \<Rightarrow> string option"

definition parseFile :: "(string \<Rightarrow> models_file option) \<Rightarrow> string \<Rightarrow> models_error + models_file" where
  "parseFile unmarshal b =
     (case unmarshal b of
        None \<Rightarrow> Inl ParseFailed
      | Some f \<Rightarrow> Inr (f\<lparr>file_ProviderPriority := normalizeProviders (file_ProviderPriority f)\<rparr>))"

definition models_Load ::
    "(string \<Rightarrow> read_outcome) \<Rightarrow> (string \<Rightarrow> models_file option) \<Rightarrow> string \<Rightarrow> models_error + router" where
  "models_Load readFile unmarshal path =
     (let p = trim_space path in
      if p = [] then Inr (NewRouter [])
      else
        case readFile p of
          ReadNotExist \<Rightarrow> Inr (NewRouter [])
        | ReadError \<Rightarrow> Inl ReadFailed
        | ReadOk b \<Rightarrow>
            bind_res (parseFile unmarshal b)
              (\<lambda>f. Inr (NewRouterWithPriority (file_Models f) (file_ProviderPriority f))))"

definition LoadFile :: "(string \<Rightarrow> models_file option) \<Rightarrow> fs \<Rightarrow> string \<Rightarrow> models_error + models_file" where
  "LoadFile unmarshal fs path =
     (case fs (trim_space path) of
        None \<Rightarrow> Inl ReadFailed
      | Some b \<Rightarrow> parseFile unmarshal b)"

definition UpdateProviderPriority ::
    "(string \<Rightarrow> models_file option) \<Rightarrow> (models_file \<Rightarrow> string option) \<Rightarrow> (fs_step \<Rightarrow> bool) \<Rightarrow> string
     \<Rightarrow> string \<Rightarrow> string \<Rightarrow> string list \<Rightarrow> fs \<Rightarrow> (models_error + unit) \<times> fs" where
  "UpdateProviderPriority unmarshal marshal fails partial tmp path priority fs =
     (let p = trim_space path in
      if p = [] then (Inl EmptyPath, fs)
      else
        case LoadFile unmarshal fs p of
          Inl e \<Rightarrow> (Inl e, fs)
        | Inr f \<Rightarrow>
            (case marshal (f\<lparr>file_ProviderPriority := normalizeProviders priority\<rparr>) of
               None \<Rightarrow> (Inl MarshalFailed, fs)
             | Some b \<Rightarrow>
                 if fails CreateTemp then (Inl StepFailed, fs)
                 else if fails ChmodStep then (Inl StepFailed, (fs(tmp \<mapsto> []))(tmp := None))
                 else if fails WriteStep then (Inl StepFailed, (fs(tmp \<mapsto> partial))(tmp := None))
                 else if fails SyncStep \<or> fails CloseStep \<or> fails RenameStep
                 then (Inl StepFailed, (fs(tmp \<mapsto> b))(tmp := None))
                 else (Inr (), (fs(p \<mapsto> b))(tmp := None))))"

section \<open>Lemmas on normalisation and order\<close>

lemma normalize_name_idem [simp]: "normalize_name (normalize_name s) = normalize_name s"
  by (simp add: normalize_name_def trim_space_to_lower)

interpretation prov: value_normaliser normalize_name normalizeProviders
  by unfold_locales (simp_all add: normalizeProviders_def)

lemma map_of_rank_of_notin: "p \<notin> set ps \<Longrightarrow> map_of (rank_of i m ps) p = map_of m p"
  by (induction i m ps rule: rank_of.induct) (auto simp: update_conv')

lemma map_of_rank_of_in:
  "p \<in> set ps \<Longrightarrow> \<exists>k. i \<le> k \<and> k < i + length ps \<and> map_of (rank_of i m ps) p = Some k"
proof (induction i m ps rule: rank_of.induct)
  case (2 i m q ps)
  show ?case
  proof (cases "p \<in> set ps")
    case True
    with 2 obtain k where "Suc i \<le> k" "k < Suc i + length ps"
      "map_of (rank_of (Suc i) (AList.update q i m) ps) p = Some k" by blast
    then show ?thesis by (intro exI[of _ k]) simp
  next
    case False
    with 2 show ?thesis by (auto simp: map_of_rank_of_notin update_conv')
  qed
qed simp

lemma rank_of_append: "rank_of i m (xs @ ys) = rank_of (i + length xs) (rank_of i m xs) ys"
  by (induction i m xs rule: rank_of.induct) auto

lemma provider_less_split:
  assumes d: "distinct (pre @ x # post)"
  defines "rank \<equiv> rank_of 0 [] (pre @ x # post)"
  shows "y \<in> set pre \<Longrightarrow> provider_less rank y x"
    and "y \<notin> set pre \<Longrightarrow> \<not> provider_less rank y x"
proof -
  have split: "rank = rank_of (Suc (length pre)) (AList.update x (length pre) (rank_of 0 [] pre)) post"
    by (simp add: rank_def rank_of_append)
  have x: "map_of rank x = Some (length pre)"
    using d by (simp add: split map_of_rank_of_notin update_conv')
  show "provider_less rank y x" if y: "y \<in> set pre"
  proof -
    from map_of_rank_of_in[OF y, of 0 "[]"] obtain k
      where "k < length pre" "map_of (rank_of 0 [] pre) y = Some k" by auto
    moreover have "map_of rank y = map_of (rank_of 0 [] pre) y"
    proof -
      from d y have "y \<notin> set post" "y \<noteq> x" by auto
      then show ?thesis by (simp add: split map_of_rank_of_notin update_conv')
    qed
    ultimately show ?thesis by (simp add: provider_less_def x)
  qed
  show "\<not> provider_less rank y x" if y: "y \<notin> set pre"
  proof (cases "y \<in> set post")
    case True
    from map_of_rank_of_in[OF this, of "Suc (length pre)"] obtain k
      where "Suc (length pre) \<le> k" "map_of rank y = Some k" unfolding split by blast
    then show ?thesis by (simp add: provider_less_def x)
  next
    case False
    then have "map_of rank y = (if y = x then Some (length pre) else None)"
      using y by (simp add: split map_of_rank_of_notin update_conv')
    then show ?thesis by (simp add: provider_less_def x)
  qed
qed

lemma provider_less_unranked:
  "x \<notin> set prio \<Longrightarrow> provider_less (rank_of 0 [] prio) y x \<longleftrightarrow> y \<in> set prio"
  using map_of_rank_of_in[of y prio 0 "[]"] map_of_rank_of_notin[of y prio 0 "[]"]
  by (cases "y \<in> set prio") (auto simp: provider_less_def map_of_rank_of_notin)

lemma orderProviders_distinct:
  assumes "distinct prio"
  shows "orderProviders ps prio =
     concat (map (\<lambda>q. filter ((=) q) ps) prio) @ filter (\<lambda>p. p \<notin> set prio) ps"
proof (induction ps)
  case (Cons x ps)
  let ?lt = "provider_less (rank_of 0 [] prio)"
  let ?grp = "\<lambda>ps prio. concat (map (\<lambda>q. filter ((=) q) ps) prio)"
  have "orderProviders (x # ps) prio = stable_insert ?lt x (orderProviders ps prio)"
    by (simp add: orderProviders_def slice_stable_def)
  then have *: "orderProviders (x # ps) prio =
      stable_insert ?lt x (?grp ps prio @ filter (\<lambda>p. p \<notin> set prio) ps)"
    using Cons.IH by simp
  show ?case
  proof (cases "x \<in> set prio")
    case False
    then have "?grp (x # ps) prio = ?grp ps prio"
      by (intro arg_cong[where f = concat] map_cong) auto
    with False show ?thesis
      by (simp add: * stable_insert_append stable_insert_front provider_less_unranked)
  next
    case True
    then obtain pre post where split: "prio = pre @ x # post" by (auto simp: in_set_conv_decomp)
    with assms have d: "distinct (pre @ x # post)" by simp
    have g: "?grp (x # ps) pre = ?grp ps pre" "?grp (x # ps) post = ?grp ps post"
      using d by (auto intro!: arg_cong[where f = concat] map_cong)
    note lt = provider_less_split[OF d]
    have "stable_insert ?lt x (?grp ps pre @ filter ((=) x) ps @ ?grp ps post @
             filter (\<lambda>p. p \<notin> set prio) ps) =
          ?grp ps pre @ x # filter ((=) x) ps @ ?grp ps post @ filter (\<lambda>p. p \<notin> set prio) ps"
      unfolding split
    proof (subst stable_insert_append)
      have "\<forall>y \<in> set post. y \<notin> set pre" "x \<notin> set pre" using d by auto
      then show "?grp ps pre @ stable_insert (provider_less (rank_of 0 [] (pre @ x # post))) x
          (filter ((=) x) ps @ ?grp ps post @ filter (\<lambda>p. p \<notin> set (pre @ x # post)) ps) =
        ?grp ps pre @ x # filter ((=) x) ps @ ?grp ps post @
          filter (\<lambda>p. p \<notin> set (pre @ x # post)) ps"
        by (subst stable_insert_front) (auto dest: lt(2)[rotated])
    qed (auto dest: lt(1))
    with * g show ?thesis by (simp add: split)
  qed
qed (simp add: orderProviders_def slice_stable_def)

section \<open>The well-formed router\<close>

definition wf_route :: "route \<Rightarrow> bool" where
  "wf_route rt \<longleftrightarrow> route_Strategy rt \<noteq> [] \<and>
     (\<forall>p \<in> set (route_Providers rt). p \<noteq> [] \<and> normalize_name p = p)"

definition wf_router :: "router \<Rightarrow> bool" where
  "wf_router r \<longleftrightarrow>
     distinct (map fst (rt_routes r)) \<and>
     distinct (rt_providerPriority r) \<and>
     (\<forall>(mid, rt) \<in> set (rt_routes r).
        mid \<noteq> [] \<and> normalizeModelID mid = mid \<and> wf_route rt \<and>
        (rt_providerPriority r \<noteq> [] \<longrightarrow>
           route_Strategy rt = StrategyPriority \<and>
           (\<exists>ps. route_Providers rt = orderProviders ps (rt_providerPriority r))))"

lemma set_orderProviders [simp]: "set (orderProviders ps prio) = set ps"
  by (simp add: orderProviders_def)

lemma wf_route_normalizeRoute: "wf_route (normalizeRoute r)"
  by (auto simp: wf_route_def normalizeRoute_def StrategyRoundRobin_def)

lemma wf_place_route:
  "wf_route (place_route prio r)"
  "prio \<noteq> [] \<Longrightarrow> route_Strategy (place_route prio r) = StrategyPriority"
  "prio \<noteq> [] \<Longrightarrow> \<exists>ps. route_Providers (place_route prio r) = orderProviders ps prio"
  using wf_route_normalizeRoute[of r]
  by (auto simp: place_route_def wf_route_def StrategyPriority_def Let_def)

lemma wf_router_add_routes: "wf_router out \<Longrightarrow> wf_router (add_routes rs out)"
proof (induction rs out rule: add_routes.induct)
  case (2 i r rs out)
  show ?case
  proof (cases "normalizeModelID i = []")
    case False
    have "normalizeModelID (normalizeModelID i) = normalizeModelID i"
      by (simp add: normalizeModelID_def)
    then have "wf_router (out\<lparr>rt_routes :=
        AList.update (normalizeModelID i) (place_route (rt_providerPriority out) r) (rt_routes out)\<rparr>)"
      using 2(3) False
      by (auto simp: wf_router_def distinct_update wf_place_route dest!: in_set_update)
    with 2 False show ?thesis by (simp add: Let_def)
  qed (use 2 in \<open>simp add: Let_def\<close>)
qed simp

lemma NextProviderAllowed_frame:
  "rt_routes (snd (NextProviderAllowed m al r)) = rt_routes r"
  "rt_providerPriority (snd (NextProviderAllowed m al r)) = rt_providerPriority r"
  by (simp_all add: NextProviderAllowed_def rotate_provider_def Let_def split: option.split)

text \<open>
  Construction establishes and selection preserves the router's invariant: model identifiers
  are trimmed, non-empty and unique, every provider name is normalised and non-empty, and under a
  global priority every route is ordered by it and uses the priority strategy.
\<close>

theorem router_invariant:
  "wf_router (NewRouterWithPriority routes prio) \<and>
   (wf_router r \<longrightarrow> wf_router (snd (NextProviderAllowed m allowed r)))"
proof
  show "wf_router (NewRouterWithPriority routes prio)"
    unfolding NewRouterWithPriority_def
    by (rule wf_router_add_routes) (simp add: wf_router_def prov.distinct_norm)
  show "wf_router r \<longrightarrow> wf_router (snd (NextProviderAllowed m allowed r))"
    by (simp add: wf_router_def NextProviderAllowed_frame)
qed

theorem router_invariant_witness:
  "wf_router (snd (NextProviderAllowed ''m'' [] (NewRouter [(''m'', \<lparr>route_Providers = ['' A ''],
     route_Strategy = [], route_OwnedBy = []\<rparr>)])))"
  using router_invariant unfolding NewRouter_def by blast

section \<open>Selection\<close>

definition next_act :: "(string \<Rightarrow> string list) \<Rightarrow> string \<Rightarrow> router \<Rightarrow> string option \<times> router" where
  "next_act al m r = NextProviderAllowed m (al (normalizeModelID m)) r"

definition candidates :: "(string \<Rightarrow> string list) \<Rightarrow> string \<Rightarrow> router \<Rightarrow> string list" where
  "candidates al mid r =
     (case map_of (rt_routes r) mid of
        None \<Rightarrow> []
      | Some rt \<Rightarrow> filterAllowedProviders (route_Providers rt) (al mid))"

definition rotating :: "(string \<Rightarrow> string list) \<Rightarrow> string \<Rightarrow> router \<Rightarrow> bool" where
  "rotating al mid r \<longleftrightarrow> mid \<noteq> [] \<and> candidates al mid r \<noteq> [] \<and>
     (\<forall>rt. map_of (rt_routes r) mid = Some rt \<longrightarrow> route_Strategy rt \<noteq> StrategyPriority)"

lemma filterAllowedProviders_Nil [simp]: "filterAllowedProviders [] al = []"
  by (simp add: filterAllowedProviders_def)

lemma next_act_rotating:
  assumes "rotating al mid r" "normalizeModelID m = mid"
  shows "next_act al m r = rotate_provider mid (candidates al mid r) r"
  using assms
  by (auto simp: next_act_def NextProviderAllowed_def rotating_def candidates_def Let_def
                 StrategyRoundRobin_def StrategyPriority_def split: option.splits)

lemma next_act_other:
  "normalizeModelID m \<noteq> mid \<Longrightarrow>
     lookup_nat (rt_nextIdx (snd (next_act al m r))) mid = lookup_nat (rt_nextIdx r) mid"
  by (auto simp: next_act_def NextProviderAllowed_def rotate_provider_def Let_def split: option.split)

lemma candidates_frame: "candidates al mid (snd (next_act al' m r)) = candidates al mid r"
  by (simp add: candidates_def next_act_def NextProviderAllowed_frame)

interpretation next_rotor: rotor "next_act al" "\<lambda>m. normalizeModelID m = mid" "candidates al mid"
    "\<lambda>r. lookup_nat (rt_nextIdx r) mid" "rotating al mid" for al mid
proof
  fix r m
  assume inv: "rotating al mid r"
  show "normalizeModelID m = mid \<Longrightarrow> fst (next_act al m r) =
      Some (candidates al mid r ! (lookup_nat (rt_nextIdx r) mid mod length (candidates al mid r)))"
    by (simp add: next_act_rotating[OF inv] rotate_provider_def Let_def)
  show "normalizeModelID m = mid \<Longrightarrow> lookup_nat (rt_nextIdx (snd (next_act al m r))) mid =
      Suc (lookup_nat (rt_nextIdx r) mid mod length (candidates al mid r)) mod length (candidates al mid r)"
    by (simp add: next_act_rotating[OF inv] rotate_provider_def Let_def)
  show "normalizeModelID m \<noteq> mid \<Longrightarrow>
      lookup_nat (rt_nextIdx (snd (next_act al m r))) mid = lookup_nat (rt_nextIdx r) mid"
    by (rule next_act_other)
  show "candidates al mid (snd (next_act al m r)) = candidates al mid r" by (rule candidates_frame)
  then show "rotating al mid (snd (next_act al m r))"
    using inv by (simp add: rotating_def next_act_def NextProviderAllowed_frame)
  show "candidates al mid r \<noteq> []" using inv by (simp add: rotating_def)
qed

text \<open>
  C6. Round robin is fair under interleaving: when requests for a model use one allowlist and the
  route rotates, then in any run that holds as many requests for the model as it has candidate
  providers (requests for other models may come in between), the providers chosen are the
  candidates in cyclic order from the stored cursor, each exactly once.
\<close>

theorem next_provider_fair:
  assumes "mid \<noteq> []" and "map_of (rt_routes r) mid = Some rt"
    and "route_Strategy rt \<noteq> StrategyPriority"
    and "filterAllowedProviders (route_Providers rt) (al mid) \<noteq> []"
    and "length (filter (\<lambda>m. normalizeModelID m = mid) ms) =
           length (filterAllowedProviders (route_Providers rt) (al mid))"
  shows "run_results (\<lambda>m. NextProviderAllowed m (al (normalizeModelID m)))
           (\<lambda>m. normalizeModelID m = mid) ms r =
         map Some (rotate (lookup_nat (rt_nextIdx r) mid)
                     (filterAllowedProviders (route_Providers rt) (al mid)))"
proof -
  have "candidates al mid r = filterAllowedProviders (route_Providers rt) (al mid)"
    using assms(2) by (simp add: candidates_def)
  moreover have "rotating al mid r"
    using assms calculation by (simp add: rotating_def)
  moreover have "next_act al = (\<lambda>m. NextProviderAllowed m (al (normalizeModelID m)))"
    by (simp add: next_act_def fun_eq_iff)
  ultimately show ?thesis using next_rotor.full_cycle assms(5) by metis
qed

definition demo_router :: router where
  "demo_router = NewRouter
     [(''m'', \<lparr>route_Providers = ['' A'', ''b'', ''c''], route_Strategy = [], route_OwnedBy = []\<rparr>),
      (''n'', \<lparr>route_Providers = [''b''], route_Strategy = [], route_OwnedBy = []\<rparr>)]"

theorem next_provider_fair_witness:
  "run_results (\<lambda>m. NextProviderAllowed m []) (\<lambda>m. normalizeModelID m = ''m'')
     [''m'', ''n'', '' m'', ''m ''] demo_router = [Some ''a'', Some ''b'', Some ''c'']"
proof -
  let ?rt = "\<lparr>route_Providers = [''a'', ''b'', ''c''], route_Strategy = ''round_robin'',
    route_OwnedBy = []\<rparr>"
  have rt: "map_of (rt_routes demo_router) ''m'' = Some ?rt" by code_simp
  have n: "filter (\<lambda>m. normalizeModelID m = ''m'') [''m'', ''n'', '' m'', ''m ''] =
      [''m'', '' m'', ''m '']" by code_simp
  have i: "lookup_nat (rt_nextIdx demo_router) ''m'' = 0" by code_simp
  show ?thesis
    using next_provider_fair[of "''m''" demo_router ?rt "\<lambda>_. []" "[''m'', ''n'', '' m'', ''m '']"]
    unfolding n by (simp add: rt i filterAllowedProviders_def StrategyPriority_def)
qed

lemma NextProviderAllowed_SomeD:
  assumes "NextProviderAllowed m allowed r = (Some p, r')"
  obtains rt where "normalizeModelID m \<noteq> []" "map_of (rt_routes r) (normalizeModelID m) = Some rt"
    "p \<in> set (filterAllowedProviders (route_Providers rt) allowed)"
    "route_Strategy rt = StrategyPriority \<Longrightarrow>
       r' = r \<and> p = filterAllowedProviders (route_Providers rt) allowed ! 0"
proof -
  from assms obtain rt where rt: "normalizeModelID m \<noteq> []"
      "map_of (rt_routes r) (normalizeModelID m) = Some rt"
      "filterAllowedProviders (route_Providers rt) allowed \<noteq> []"
    by (auto simp: NextProviderAllowed_def Let_def split: option.splits if_splits)
  with assms show ?thesis
    by (intro that[of rt])
       (auto simp: NextProviderAllowed_def Let_def rotate_provider_def StrategyPriority_def
             split: if_splits)
qed

text \<open>
  Selection respects the access key's allowlist and the route: a provider that is returned is one
  of the model's providers and, when the allowlist is not empty, one of the normalised allowed
  names; and selection fails only when no provider of the model is allowed.
\<close>

theorem next_provider_allowed_exact:
  assumes "normalizeModelID m \<noteq> []" and "map_of (rt_routes r) (normalizeModelID m) = Some rt"
  shows "(\<forall>p. fst (NextProviderAllowed m allowed r) = Some p \<longrightarrow>
            p \<in> set (route_Providers rt) \<and> (allowed \<noteq> [] \<longrightarrow> p \<in> set (normalizeProviders allowed))) \<and>
         (fst (NextProviderAllowed m allowed r) = None \<longleftrightarrow>
            (\<forall>p \<in> set (route_Providers rt). allowed \<noteq> [] \<and> p \<notin> set (normalizeProviders allowed)))"
proof
  show "\<forall>p. fst (NextProviderAllowed m allowed r) = Some p \<longrightarrow>
            p \<in> set (route_Providers rt) \<and> (allowed \<noteq> [] \<longrightarrow> p \<in> set (normalizeProviders allowed))"
  proof (intro allI impI)
    fix p assume "fst (NextProviderAllowed m allowed r) = Some p"
    then have "NextProviderAllowed m allowed r = (Some p, snd (NextProviderAllowed m allowed r))"
      by (simp add: prod_eq_iff)
    then have "p \<in> set (filterAllowedProviders (route_Providers rt) allowed)"
      by (rule NextProviderAllowed_SomeD) (use assms in simp)
    then show "p \<in> set (route_Providers rt) \<and> (allowed \<noteq> [] \<longrightarrow> p \<in> set (normalizeProviders allowed))"
      by (auto simp: filterAllowedProviders_def split: if_splits)
  qed
  have "fst (NextProviderAllowed m allowed r) = None \<longleftrightarrow>
      filterAllowedProviders (route_Providers rt) allowed = []"
    using assms by (auto simp: NextProviderAllowed_def rotate_provider_def Let_def)
  then show "fst (NextProviderAllowed m allowed r) = None \<longleftrightarrow>
      (\<forall>p \<in> set (route_Providers rt). allowed \<noteq> [] \<and> p \<notin> set (normalizeProviders allowed))"
    by (auto simp: filterAllowedProviders_def filter_empty_conv)
qed

theorem next_provider_allowed_exact_witness:
  "fst (NextProviderAllowed ''m'' ['' B ''] demo_router) = Some ''b'' \<and>
   fst (NextProviderAllowed ''m'' [''zz''] demo_router) = None"
proof -
  let ?rt = "\<lparr>route_Providers = [''a'', ''b'', ''c''], route_Strategy = ''round_robin'',
    route_OwnedBy = []\<rparr>"
  have m: "normalizeModelID ''m'' = ''m''" by code_simp
  have rt: "map_of (rt_routes demo_router) ''m'' = Some ?rt" by code_simp
  have n: "normalizeProviders ['' B ''] = [''b'']" "normalizeProviders [''zz''] = [''zz'']"
    by code_simp+
  note ex = next_provider_allowed_exact[of "''m''" demo_router ?rt, unfolded m, OF _ rt]
  from ex[of "['' B '']"] ex[of "[''zz'']"] show ?thesis
    by (cases "fst (NextProviderAllowed ''m'' ['' B ''] demo_router)") (auto simp: n)
qed

text \<open>
  The priority order is a stable partition: providers named by the normalised priority list
  come first, grouped in the order of that list, the remaining ones follow in their original
  order, and nothing is lost or duplicated.
\<close>

theorem order_providers_spec:
  "orderProviders ps (normalizeProviders prio) =
     concat (map (\<lambda>q. filter ((=) q) ps) (normalizeProviders prio)) @
       filter (\<lambda>p. p \<notin> set (normalizeProviders prio)) ps \<and>
   mset (orderProviders ps (normalizeProviders prio)) = mset ps"
  by (intro conjI) (simp add: orderProviders_distinct prov.distinct_norm, simp add: orderProviders_def)

lemma hd_filter_grouped:
  assumes d: "distinct prio" and q: "q \<in> set (filter P ps)" "q \<in> set prio"
    and h: "p = filter P (concat (map (\<lambda>q. filter ((=) q) ps) prio) @ filter (\<lambda>p. p \<notin> set prio) ps) ! 0"
  shows "\<exists>i j. i \<le> j \<and> j < length prio \<and> prio ! i = p \<and> prio ! j = q"
  using d q h
proof (induction prio)
  case (Cons a prio)
  show ?case
  proof (cases "a \<in> set (filter P ps)")
    case True
    then have "filter P (filter ((=) a) ps) \<noteq> []" by (auto simp: filter_empty_conv)
    moreover have "set (filter P (filter ((=) a) ps)) \<subseteq> {a}" by auto
    ultimately have "filter P (filter ((=) a) ps) ! 0 = a" by (metis insertE list_nonempty_induct
          nth_mem length_greater_0_conv singletonD subsetD)
    with Cons.prems(4) \<open>filter P (filter ((=) a) ps) \<noteq> []\<close> have "p = a"
      by (simp add: nth_append)
    moreover from Cons.prems(3) obtain j where "j < length (a # prio)" "(a # prio) ! j = q"
      by (metis in_set_conv_nth)
    ultimately show ?thesis by (intro exI[of _ 0] exI[of _ j]) simp
  next
    case False
    then have e: "filter P (filter ((=) a) ps) = []" by (auto simp: filter_empty_conv)
    from False Cons.prems(2,3) have q': "q \<in> set prio" by auto
    have "filter P (filter (\<lambda>p. p \<notin> set (a # prio)) ps) = filter P (filter (\<lambda>p. p \<notin> set prio) ps)"
      using False by (simp, intro filter_cong) auto
    with Cons.prems(4) e have
      "p = filter P (concat (map (\<lambda>q. filter ((=) q) ps) prio) @ filter (\<lambda>p. p \<notin> set prio) ps) ! 0"
      by simp
    from Cons.IH[OF _ Cons.prems(2) q' this] Cons.prems(1) obtain i j
      where "i \<le> j" "j < length prio" "prio ! i = p" "prio ! j = q" by auto
    then show ?thesis by (intro exI[of _ "Suc i"] exI[of _ "Suc j"]) simp
  qed
qed simp

text \<open>
  Under a global provider priority, selection returns a provider such that no allowed
  provider of the model is named earlier in the priority list, and it changes no state.
\<close>

theorem next_provider_highest_priority:
  assumes wf: "wf_router r" and prio: "rt_providerPriority r \<noteq> []"
    and sel: "NextProviderAllowed m allowed r = (Some p, r')"
    and rt: "map_of (rt_routes r) (normalizeModelID m) = Some rt"
    and q: "q \<in> set (filterAllowedProviders (route_Providers rt) allowed)"
      "q \<in> set (rt_providerPriority r)"
  shows "r' = r \<and> (\<exists>i j. i \<le> j \<and> j < length (rt_providerPriority r) \<and>
           rt_providerPriority r ! i = p \<and> rt_providerPriority r ! j = q)"
proof -
  let ?prio = "rt_providerPriority r"
  let ?P = "\<lambda>p. allowed = [] \<or> p \<in> set (normalizeProviders allowed)"
  from wf prio map_of_SomeD[OF rt] obtain ps
    where ps: "route_Providers rt = orderProviders ps ?prio"
      and strat: "route_Strategy rt = StrategyPriority" and d: "distinct ?prio"
    by (auto simp: wf_router_def)
  from sel rt strat have same: "r' = r"
    and p: "p = filterAllowedProviders (route_Providers rt) allowed ! 0"
    by (auto elim: NextProviderAllowed_SomeD)
  have f: "filterAllowedProviders xs allowed = filter ?P xs" for xs
    by (simp add: filterAllowedProviders_def)
  have "q \<in> set (filter ?P ps)" using q(1) ps by (simp add: f)
  from hd_filter_grouped[OF d this q(2)] p show ?thesis
    by (simp add: same f ps orderProviders_distinct[OF d])
qed

theorem next_provider_highest_priority_witness:
  "let r = NewRouterWithPriority [(''m'', \<lparr>route_Providers = [''b'', ''a''], route_Strategy = [],
        route_OwnedBy = []\<rparr>)] [''a'', ''b''] in
   NextProviderAllowed ''m'' [] r = (Some ''a'', r) \<and>
   (\<exists>i j. i \<le> j \<and> j < length (rt_providerPriority r) \<and>
        rt_providerPriority r ! i = ''a'' \<and> rt_providerPriority r ! j = ''b'')"
proof -
  let ?r = "NewRouterWithPriority [(''m'', \<lparr>route_Providers = [''b'', ''a''], route_Strategy = [],
        route_OwnedBy = []\<rparr>)] [''a'', ''b'']"
  let ?rt = "\<lparr>route_Providers = [''a'', ''b''], route_Strategy = ''priority'', route_OwnedBy = []\<rparr>"
  have wf: "wf_router ?r"
    unfolding NewRouterWithPriority_def
    by (rule wf_router_add_routes) (simp add: wf_router_def prov.distinct_norm)
  have r: "?r = \<lparr>rt_routes = [(''m'', ?rt)], rt_nextIdx = [], rt_providerPriority = [''a'', ''b'']\<rparr>"
    by code_simp
  have sel: "NextProviderAllowed ''m'' [] ?r = (Some ''a'', ?r)"
    unfolding r by code_simp
  have m: "normalizeModelID ''m'' = ''m''" by code_simp
  from next_provider_highest_priority[OF wf _ sel, of ?rt "''b''"] sel
  show ?thesis by (simp add: r m filterAllowedProviders_def Let_def)
qed

section \<open>Updating the routing file\<close>

text \<open>
  Updating the provider priority is atomic: no other file changes, an error leaves the routing
  file as it was, and success stores the same model routes with the normalised priority, given that
  decoding inverts encoding and the temporary file's name is new.
\<close>

theorem update_provider_priority_atomic:
  assumes yaml: "\<forall>f b. marshal f = Some b \<longrightarrow> unmarshal b = Some f"
    and fresh: "fs tmp = None"
    and run: "UpdateProviderPriority unmarshal marshal fails partial tmp path priority fs = (res, fs')"
  shows "(\<forall>q. q \<noteq> trim_space path \<longrightarrow> fs' q = fs q) \<and>
         (\<forall>e. res = Inl e \<longrightarrow> fs' = fs) \<and>
         (res = Inr () \<longrightarrow> (\<exists>f. LoadFile unmarshal fs path = Inr f \<and>
            LoadFile unmarshal fs' path =
              Inr (f\<lparr>file_ProviderPriority := normalizeProviders priority\<rparr>)))"
proof (cases res)
  case (Inl e)
  have "fs(tmp := None) = fs" using fresh by auto
  with run Inl have "fs' = fs"
    by (auto simp: UpdateProviderPriority_def Let_def split: sum.splits option.splits if_splits)
  with Inl show ?thesis by simp
next
  case (Inr u)
  with run obtain f b where ne: "trim_space path \<noteq> []"
      and f: "LoadFile unmarshal fs (trim_space path) = Inr f"
      and b: "marshal (f\<lparr>file_ProviderPriority := normalizeProviders priority\<rparr>) = Some b"
      and fs': "fs' = (fs(trim_space path \<mapsto> b))(tmp := None)"
    by (auto simp: UpdateProviderPriority_def Let_def split: sum.splits option.splits if_splits)
  from f fresh have "tmp \<noteq> trim_space path" by (auto simp: LoadFile_def)
  with fs' have "fs' (trim_space path) = Some b" by simp
  moreover from yaml b have "unmarshal b = Some (f\<lparr>file_ProviderPriority := normalizeProviders priority\<rparr>)"
    by blast
  ultimately have "LoadFile unmarshal fs' path =
      Inr (f\<lparr>file_ProviderPriority := normalizeProviders priority\<rparr>)"
    by (simp add: LoadFile_def parseFile_def prov.norm_idem)
  moreover have "LoadFile unmarshal fs path = Inr f" using f by (simp add: LoadFile_def)
  ultimately show ?thesis using fs' fresh Inr by auto
qed

text \<open>A one-line encoding of a routing file without models, enough to run the update.\<close>

definition toy_marshal :: "models_file \<Rightarrow> string option" where
  "toy_marshal f =
     (case file_ProviderPriority f of
        [] \<Rightarrow> (if file_Models f = [] then Some [] else None)
      | [p] \<Rightarrow> (if file_Models f = [] \<and> p \<noteq> [] then Some p else None)
      | _ \<Rightarrow> None)"

definition toy_unmarshal :: "string \<Rightarrow> models_file option" where
  "toy_unmarshal b =
     Some \<lparr>file_ProviderPriority = (if b = [] then [] else [b]), file_Models = []\<rparr>"

theorem update_provider_priority_atomic_witness:
  "\<exists>fs'. UpdateProviderPriority toy_unmarshal toy_marshal (\<lambda>_. False) [] ''t'' ''f'' ['' X'']
           [''f'' \<mapsto> ''y''] = (Inr (), fs') \<and>
     (\<forall>q. q \<noteq> trim_space ''f'' \<longrightarrow> fs' q = [''f'' \<mapsto> ''y''] q) \<and>
     (\<exists>f. LoadFile toy_unmarshal fs' ''f'' = Inr (f\<lparr>file_ProviderPriority := [''x'']\<rparr>))"
proof -
  have yaml: "\<forall>f b. toy_marshal f = Some b \<longrightarrow> toy_unmarshal b = Some f"
    by (auto simp: toy_marshal_def toy_unmarshal_def split: list.splits if_splits)
  have n: "normalizeProviders ['' X''] = [''x'']" "normalizeProviders [''y''] = [''y'']"
      "trim_space ''f'' = ''f''" by code_simp+
  have run: "UpdateProviderPriority toy_unmarshal toy_marshal (\<lambda>_. False) [] ''t'' ''f'' ['' X'']
      [''f'' \<mapsto> ''y''] = (Inr (), ([''f'' \<mapsto> ''y''](''f'' \<mapsto> ''x''))(''t'' := None))"
    by (simp add: UpdateProviderPriority_def LoadFile_def parseFile_def toy_unmarshal_def
                  toy_marshal_def n)
  from update_provider_priority_atomic[OF yaml _ run] run show ?thesis by (auto simp: n)
qed

end
