(* ===== verification/Billing_Ledger.thy ===== *)
theory Billing_Ledger
  imports Billing_Store Complex_Main
begin

text \<open>
  The self-hosted usage ledger, \<^verbatim>\<open>pkg/billing/ledger.go\<close>: amounts are decimal strings on the
  outside and millionths of the currency, as 64-bit integers, on the inside; the account operations
  are those of the control plane. Decimal arithmetic belongs to a third-party package; its functions
  are the fields of \<open>decimal_ops\<close>, and the theorem on amounts states the documented laws it needs.
\<close>

section \<open>Data\<close>

record 'd decimal_ops =
  dec_NewFromString :: "string \<Rightarrow> 'd option"
  dec_IsNegative :: "'d \<Rightarrow> bool"
  dec_NewFromInt :: "int \<Rightarrow> 'd"
  dec_Mul :: "'d \<Rightarrow> 'd \<Rightarrow> 'd"
  dec_IntPart :: "'d \<Rightarrow> int"
  dec_Equal :: "'d \<Rightarrow> 'd \<Rightarrow> bool"
  dec_StringFixed6 :: "int \<Rightarrow> string"

record ledger_config =
  lc_Enabled :: bool
  lc_Currency :: string
  lc_InitialCredit :: string

record usage_event =
  ue_RequestID :: string
  ue_AccessKeyID :: string
  ue_AccountID :: string
  ue_SubjectType :: string
  ue_SubjectID :: string
  ue_Provider :: string
  ue_Model :: string
  ue_API :: string
  ue_Status :: int
  ue_Stream :: bool
  ue_OccurredAt :: "int option"
  ue_InputTokens :: int
  ue_OutputTokens :: int
  ue_CachedTokens :: int
  ue_TotalTokens :: int
  ue_Amount :: string
  ue_Currency :: string
  ue_PricingModel :: string

record account =
  ac_AccountID :: string
  ac_Currency :: string
  ac_Credit :: string
  ac_Spent :: string
  ac_Balance :: string
  ac_CreditMicros :: int
  ac_SpentMicros :: int
  ac_BalanceMicros :: int

datatype billing_error =
    AmountNotDecimal
  | AmountTooPrecise
  | AmountNotPositive
  | MissingRequestOrAccount
  | RedisRequired
  | StoreError ledger_error

definition amountScale :: int where
  "amountScale = 1000000"

section \<open>Operations\<close>

text \<open>Construction: an enabled ledger needs a control plane and has a currency.\<close>

definition billing_New :: "bool \<Rightarrow> ledger_config \<Rightarrow> billing_error + ledger_config" where
  "billing_New hasControlPlane cfg =
     (if \<not> lc_Enabled cfg then Inr cfg
      else if \<not> hasControlPlane then Inl RedisRequired
      else Inr (if trim_space (lc_Currency cfg) = [] then cfg\<lparr>lc_Currency := ''CNY''\<rparr> else cfg))"

definition ledger_Currency :: "ledger_config \<Rightarrow> string" where
  "ledger_Currency cfg =
     (if trim_space (lc_Currency cfg) = [] then ''CNY'' else to_upper (trim_space (lc_Currency cfg)))"

definition amountMicros :: "'d decimal_ops \<Rightarrow> string \<Rightarrow> billing_error + int" where
  "amountMicros d value =
     (case dec_NewFromString d (trim_space value) of
        None \<Rightarrow> Inl AmountNotDecimal
      | Some amount \<Rightarrow>
          if dec_IsNegative d amount then Inl AmountNotDecimal
          else
            let product = dec_Mul d amount (dec_NewFromInt d amountScale); scaled = dec_IntPart d product in
            if \<not> dec_Equal d (dec_NewFromInt d scaled) product then Inl AmountTooPrecise else Inr scaled)"

definition formatMicros :: "'d decimal_ops \<Rightarrow> int \<Rightarrow> string" where
  "formatMicros d value = dec_StringFixed6 d value"

definition lift_store :: "(ledger_error + unit) \<times> ledger_db \<Rightarrow> (billing_error + unit) \<times> ledger_db" where
  "lift_store r = (case fst r of Inl e \<Rightarrow> Inl (StoreError e) | Inr u \<Rightarrow> Inr u, snd r)"

text \<open>The two Redis calls may fail independently (\<open>up 0\<close>, \<open>up 1\<close>).\<close>

definition ProvisionAccountWithCredit ::
    "'d decimal_ops \<Rightarrow> client \<Rightarrow> ledger_config \<Rightarrow> up \<Rightarrow> string \<Rightarrow> string \<Rightarrow> ledger_db
     \<Rightarrow> (billing_error + unit) \<times> ledger_db" where
  "ProvisionAccountWithCredit d c cfg up accountID initialCredit db =
     (if \<not> lc_Enabled cfg then (Inr (), db)
      else
        case amountMicros d initialCredit of
          Inl e \<Rightarrow> (Inl e, db)
        | Inr credit \<Rightarrow>
            (case InitializeLocalBillingAccount c (up 0) accountID (ledger_Currency cfg) credit db of
               (Inl e, db1) \<Rightarrow> (Inl (StoreError e), db1)
             | (Inr _, db1) \<Rightarrow>
                 lift_store (SetInitialLocalBillingCredit c (up 1) accountID
                   (''onr:initial-credit:'' @ trim_space accountID) (ledger_Currency cfg) credit db1)))"

definition ProvisionAccount ::
    "'d decimal_ops \<Rightarrow> client \<Rightarrow> ledger_config \<Rightarrow> up \<Rightarrow> string \<Rightarrow> ledger_db \<Rightarrow> (billing_error + unit) \<times> ledger_db" where
  "ProvisionAccount d c cfg up accountID db =
     ProvisionAccountWithCredit d c cfg up accountID (lc_InitialCredit cfg) db"

definition usage_record :: "ledger_config \<Rightarrow> int \<Rightarrow> int \<Rightarrow> usage_event \<Rightarrow> local_billing_event" where
  "usage_record cfg now amount e =
     \<lparr>ev_ID = ue_RequestID e, ev_RequestID = ue_RequestID e, ev_AccessKeyID = ue_AccessKeyID e,
      ev_AccountID = ue_AccountID e, ev_SubjectType = ue_SubjectType e, ev_SubjectID = ue_SubjectID e,
      ev_Provider = ue_Provider e, ev_Model = ue_Model e, ev_API = ue_API e, ev_Status = ue_Status e,
      ev_Stream = ue_Stream e,
      ev_OccurredAt = (case ue_OccurredAt e of None \<Rightarrow> now | Some t \<Rightarrow> t),
      ev_InputTokens = ue_InputTokens e, ev_OutputTokens = ue_OutputTokens e,
      ev_CachedTokens = ue_CachedTokens e, ev_TotalTokens = ue_TotalTokens e, ev_AmountMicros = amount,
      ev_Currency = to_upper (if trim_space (ue_Currency e) = [] then ledger_Currency cfg
                              else trim_space (ue_Currency e)),
      ev_PricingModel = ue_PricingModel e, ev_Metadata = []\<rparr>"

definition Record ::
    "'d decimal_ops \<Rightarrow> client \<Rightarrow> ledger_config \<Rightarrow> bool \<Rightarrow> int \<Rightarrow> usage_event \<Rightarrow> ledger_db
     \<Rightarrow> (billing_error + unit) \<times> ledger_db" where
  "Record d c cfg up now e db =
     (if \<not> lc_Enabled cfg then (Inr (), db)
      else if trim_space (ue_RequestID e) = [] \<or> trim_space (ue_AccountID e) = []
      then (Inl MissingRequestOrAccount, db)
      else
        case amountMicros d (ue_Amount e) of
          Inl err \<Rightarrow> (Inl err, db)
        | Inr amount \<Rightarrow> lift_store (RecordLocalBillingEvent c up now (usage_record cfg now amount e) db))"

definition ReadAccount ::
    "'d decimal_ops \<Rightarrow> client \<Rightarrow> bool \<Rightarrow> string \<Rightarrow> ledger_db \<Rightarrow> billing_error + account" where
  "ReadAccount d c up accountID db =
     (case ReadLocalBillingAccount c up accountID db of
        Inl e \<Rightarrow> Inl (StoreError e)
      | Inr v \<Rightarrow>
          Inr \<lparr>ac_AccountID = la_AccountID v, ac_Currency = la_Currency v,
               ac_Credit = formatMicros d (la_CreditMicros v), ac_Spent = formatMicros d (la_SpentMicros v),
               ac_Balance = formatMicros d (la_BalanceMicros v), ac_CreditMicros = la_CreditMicros v,
               ac_SpentMicros = la_SpentMicros v, ac_BalanceMicros = la_BalanceMicros v\<rparr>)"

definition ReadEvents ::
    "client \<Rightarrow> bool \<Rightarrow> string \<Rightarrow> int \<Rightarrow> int \<Rightarrow> int \<Rightarrow> ledger_db \<Rightarrow> ledger_error + local_billing_event list" where
  "ReadEvents c up accountID start finish limit db =
     ReadLocalBillingEvents c up accountID start finish limit db"

definition Adjust ::
    "'d decimal_ops \<Rightarrow> client \<Rightarrow> ledger_config \<Rightarrow> bool \<Rightarrow> string \<Rightarrow> string \<Rightarrow> string \<Rightarrow> bool \<Rightarrow> ledger_db
     \<Rightarrow> (billing_error + unit) \<times> ledger_db" where
  "Adjust d c cfg up accountID idempotencyKey amount credit db =
     (case amountMicros d amount of
        Inl e \<Rightarrow> (Inl AmountNotPositive, db)
      | Inr micros \<Rightarrow>
          if micros = 0 then (Inl AmountNotPositive, db)
          else lift_store (AdjustLocalBillingAccount c up accountID idempotencyKey
                 (if credit then micros else wrap64 (- micros)) (ledger_Currency cfg) db))"

section \<open>Amounts\<close>

text \<open>
  The laws of the decimal package, for a reading of its numbers as rationals: construction,
  multiplication, sign and comparison are exact, and the integer part of an integral number in
  the 64-bit range is that number.
\<close>

definition decimal_laws :: "'d decimal_ops \<Rightarrow> ('d \<Rightarrow> rat) \<Rightarrow> bool" where
  "decimal_laws d val \<longleftrightarrow>
     (\<forall>i. val (dec_NewFromInt d i) = of_int i) \<and>
     (\<forall>x y. val (dec_Mul d x y) = val x * val y) \<and>
     (\<forall>x. dec_IsNegative d x \<longleftrightarrow> val x < 0) \<and>
     (\<forall>x y. dec_Equal d x y \<longleftrightarrow> val x = val y) \<and>
     (\<forall>x. in_int64 (dec_IntPart d x)) \<and>
     (\<forall>x n. val x = of_int n \<longrightarrow> in_int64 n \<longrightarrow> dec_IntPart d x = n)"

text \<open>
  C14. Amounts are converted exactly or refused: a string is accepted precisely when it denotes a
  non-negative number with at most six decimal places whose millionths fit 64 bits, and the result
  is that number of millionths; nothing is rounded, truncated or wrapped around.
\<close>

theorem amount_micros_exact:
  assumes laws: "decimal_laws d val"
  shows "amountMicros d s = Inr n \<longleftrightarrow>
     (\<exists>x. dec_NewFromString d (trim_space s) = Some x \<and> 0 \<le> val x \<and>
        val x * 1000000 = of_int n \<and> in_int64 n)"
proof (cases "dec_NewFromString d (trim_space s)")
  case (Some x)
  let ?p = "dec_Mul d x (dec_NewFromInt d amountScale)"
  have p: "val ?p = val x * 1000000" using laws by (simp add: decimal_laws_def amountScale_def)
  have neg: "dec_IsNegative d x \<longleftrightarrow> val x < 0" using laws by (simp add: decimal_laws_def)
  have eq: "dec_Equal d (dec_NewFromInt d (dec_IntPart d ?p)) ?p \<longleftrightarrow> of_int (dec_IntPart d ?p) = val x * 1000000"
    using laws p by (auto simp: decimal_laws_def)
  have range: "in_int64 (dec_IntPart d ?p)" using laws by (simp add: decimal_laws_def)
  have part: "val x * 1000000 = of_int n \<Longrightarrow> in_int64 n \<Longrightarrow> dec_IntPart d ?p = n"
    using laws p by (simp add: decimal_laws_def)
  show ?thesis
    using eq range part by (auto simp: amountMicros_def Some neg Let_def)
qed (simp add: amountMicros_def)

text \<open>A decimal package on rationals, reading plain natural numbers.\<close>

definition rat_decimals :: "rat decimal_ops" where
  "rat_decimals = \<lparr>dec_NewFromString = (\<lambda>s. if s \<noteq> [] \<and> list_all is_digit s
       then Some (of_nat (foldl (\<lambda>n c. 10 * n + (of_char c - 48)) 0 s)) else None),
     dec_IsNegative = (\<lambda>x. x < 0), dec_NewFromInt = of_int, dec_Mul = (*),
     dec_IntPart = (\<lambda>x. wrap64 (floor x)), dec_Equal = (=), dec_StringFixed6 = (\<lambda>_. [])\<rparr>"

lemma rat_decimals_laws: "decimal_laws rat_decimals id"
proof -
  have "in_int64 (wrap64 i)" for i
  proof -
    have "0 \<le> (i + 2 ^ 63) mod 2 ^ 64" "(i + 2 ^ 63) mod 2 ^ 64 < (2 :: int) ^ 64" by simp_all
    then show ?thesis by (simp add: in_int64_def wrap64_def)
  qed
  then show ?thesis by (simp add: decimal_laws_def rat_decimals_def wrap64_id)
qed

theorem amount_micros_exact_witness: "amountMicros rat_decimals '' 7 '' = Inr 7000000"
proof -
  have "trim_space '' 7 '' = ''7''" by code_simp
  then have "dec_NewFromString rat_decimals (trim_space '' 7 '') = Some 7"
    by (simp add: rat_decimals_def is_digit_def)
  with amount_micros_exact[OF rat_decimals_laws, of "'' 7 ''" 7000000] show ?thesis
    by (simp add: in_int64_def)
qed

section \<open>Provisioning\<close>

text \<open>
  Provisioning an account is idempotent: once it has succeeded, repeating it later with any
  amount, after any number of other ledger operations, leaves the ledger as it is, so the initial
  credit is granted once.
\<close>

theorem provision_grants_credit_once:
  assumes first: "ProvisionAccountWithCredit d c cfg (\<lambda>_. True) a credit db = (Inr (), db1)"
    and enabled: "lc_Enabled cfg"
  shows "snd (ProvisionAccountWithCredit d c cfg up a credit' (fold (ledger_step c) ops db1)) =
           fold (ledger_step c) ops db1"
proof -
  let ?ik = "''onr:initial-credit:'' @ trim_space a" and ?cur = "ledger_Currency cfg"
  let ?db = "fold (ledger_step c) ops db1"
  obtain n where n: "amountMicros d credit = Inr n"
    using first enabled by (auto simp: ProvisionAccountWithCredit_def split: sum.splits)
  let ?ini = "snd (InitializeLocalBillingAccount c True a ?cur n db)"
  have two: "fst (InitializeLocalBillingAccount c True a ?cur n db) = Inr ()"
      "SetInitialLocalBillingCredit c True a ?ik ?cur n ?ini = (Inr (), db1)"
    using first enabled n
    by (auto simp: ProvisionAccountWithCredit_def lift_store_def prod_eq_iff split: sum.splits prod.splits)
  have init: "ledger_key c (LInit u a ?cur m) \<in> ledger_seen db1" for u m
  proof -
    from two(1) have "ledger_key c (LInit u a ?cur m) \<in> ledger_seen ?ini"
      by (auto simp: InitializeLocalBillingAccount_def Let_def ledger_seen_def split: if_splits)
    moreover have "ledger_step c (LCredit True a ?ik ?cur n) ?ini = db1" using two(2) by (simp add: ledger_step_def)
    ultimately show ?thesis using ledger_once.seen_mono[of ?ini c "LCredit True a ?ik ?cur n"] by auto
  qed
  have cred: "ledger_key c (LCredit u a ?ik ?cur m) \<in> ledger_seen db1" for u m
  proof -
    from two(2) have "localBillingKey c [''adjustment'', ?ik] \<in> set (lg_adjustments db1)"
      by (auto simp: SetInitialLocalBillingCredit_def adjust_once_def Let_def case_prod_beta
          hincrby_all_frame[THEN arg_cong[where f = set]] split: if_splits dest!: arg_cong[where f = snd])
    then show ?thesis by (simp add: ledger_seen_def)
  qed
  have s: "snd (InitializeLocalBillingAccount c u a ?cur m ?db) = ?db"
    "snd (SetInitialLocalBillingCredit c u a ?ik ?cur m ?db) = ?db" for u m
    using ledger_once.late_retry[OF init[of u m], of ops] ledger_once.late_retry[OF cred[of u m], of ops]
    by (simp_all add: ledger_step_def)
  show ?thesis
  proof (cases "amountMicros d credit'")
    case (Inr m)
    then show ?thesis
      using s(1)[of "up 0" m] s(2)[of "up 1" m] enabled
      by (auto simp: ProvisionAccountWithCredit_def lift_store_def split: prod.splits sum.splits)
  qed (simp add: ProvisionAccountWithCredit_def)
qed

definition demo_config :: ledger_config where
  "demo_config = \<lparr>lc_Enabled = True, lc_Currency = [], lc_InitialCredit = ''5''\<rparr>"

theorem provision_grants_credit_once_witness:
  "\<exists>db1. ProvisionAccountWithCredit rat_decimals demo_client demo_config (\<lambda>_. True) ''a'' '' 7 '' empty_ledger = (Inr (), db1) \<and>
     snd (ProvisionAccountWithCredit rat_decimals demo_client demo_config (\<lambda>_. True) ''a'' ''9'' db1) = db1"
proof -
  let ?r = "ProvisionAccountWithCredit rat_decimals demo_client demo_config (\<lambda>_. True) ''a'' '' 7 '' empty_ledger"
  have "trim_space '' 7 '' = ''7''" by code_simp
  then have amt: "amountMicros rat_decimals '' 7 '' = Inr 7000000"
    by (simp add: amountMicros_def rat_decimals_def is_digit_def amountScale_def wrap64_def)
  have cur: "ledger_Currency demo_config = ''CNY''" by code_simp
  let ?i = "InitializeLocalBillingAccount demo_client True ''a'' ''CNY'' 7000000 empty_ledger"
  have i: "fst ?i = Inr ()" by code_simp
  have t: "trim_space ''a'' = ''a''" by code_simp
  have s: "fst (SetInitialLocalBillingCredit demo_client True ''a'' ''onr:initial-credit:a'' ''CNY'' 7000000 (snd ?i)) = Inr ()"
    by code_simp
  have "fst ?r = Inr ()"
    using i s by (cases ?i) (simp add: ProvisionAccountWithCredit_def demo_config_def[THEN arg_cong[where f = lc_Enabled]]
        amt cur t lift_store_def)
  then have first: "?r = (Inr (), snd ?r)" by (simp add: prod_eq_iff)
  have "lc_Enabled demo_config" by (simp add: demo_config_def)
  from provision_grants_credit_once[OF first this, of "\<lambda>_. True" "''9''" "[]"] first show ?thesis by auto
qed

end
