(* ===== verification/Gateway.thy ===== *)
theory Gateway
  imports Auth Models_Router Billing_Ledger
begin

text \<open>
  The request path of the gateway, \<^verbatim>\<open>onr/internal/onrserver\<close>: the resolver of access keys that the
  router installs (\<^verbatim>\<open>router.go\<close>), the request-id middleware, provider selection, the access-key, route
  policy and balance checks, the choice of the upstream key and the recording of usage
  (\<^verbatim>\<open>handlers.go\<close>, \<^verbatim>\<open>gemini.go\<close>, \<^verbatim>\<open>billing.go\<close>), over the models of the key store, the model
  router, the control plane and the ledger.

  The inspection of the request body and the upstream call are arguments: the inspection gives an
  error or the stream flag and the model named in the body; the upstream call, from the match of the
  provider's routing rules on, gives an error or a result. What the proxy decides before that call,
  the model of the request and the rewriting of a Gemini path (\<^verbatim>\<open>onr/internal/proxy\<close>,
  \<^verbatim>\<open>context.go\<close> and \<^verbatim>\<open>gemini_path.go\<close>), is modelled. Traffic dumps and the values set for the
  access log do not influence a request and are left out. Numbers of the usage report are \<open>any\<close> values: a float carries its truncation and its
  rendering with six decimals, the two uses the code makes of it.
\<close>

section \<open>Data\<close>

record server_config =
  sc_APIKey :: string
  sc_AllowBYOKWithoutK :: bool
  sc_AccessKeyMode :: string
  sc_BillingEnabled :: bool

record server_state =
  ss_keys :: store
  ss_router :: router
  ss_redis :: bool
  ss_keydb :: key_db
  ss_ledger :: ledger_db

text \<open>The Redis client, the ledger with its decimal package, if configured, and the clock.\<close>

record 'd services =
  sv_client :: client
  sv_sink :: "ledger_config option"
  sv_decimals :: "'d decimal_ops"
  sv_up :: up
  sv_now :: int

datatype any = VInt int | VFloat int string | VStr string | VOther

record proxy_result =
  pr_Provider :: string
  pr_API :: string
  pr_Stream :: bool
  pr_Model :: string
  pr_Status :: int
  pr_Usage :: "(string \<times> any) list"
  pr_Cost :: "(string \<times> any) list"

record provider_key =
  pk_Name :: string
  pk_Value :: string
  pk_BaseURLOverride :: string
  pk_CredentialFile :: string
  pk_Location :: string
  pk_AWSAccessKeyID :: string
  pk_AWSSecretAccessKey :: string
  pk_AWSSessionToken :: string
  pk_AWSRegion :: string

datatype http_error = HttpError int string string

text \<open>
  What the handlers read of a request: the wildcard part of a Gemini path, the request URI with its
  query as the proxy sees it, and the outcome of inspecting the body, an error or the stream flag
  and the model.
\<close>

record request =
  rq_Path :: string
  rq_URI :: string
  rq_Body :: "unit + bool \<times> string"

text \<open>The upstream call the proxy prepares: provider, key, API, stream flag, model and URI.\<close>

record upstream_request =
  ur_Provider :: string
  ur_Key :: provider_key
  ur_API :: string
  ur_Stream :: bool
  ur_Model :: string
  ur_URI :: string

section \<open>Resolving access keys\<close>

definition record_principal :: "access_key_record \<Rightarrow> auth_principal" where
  "record_principal r =
     (let subjectType = trim_space (ar_SubjectType r);
          sid = trim_space (ar_SubjectID r);
          subjectID = (if sid = [] then trim_space (ar_Name r) else sid);
          acct = trim_space (ar_AccountID r) in
      \<lparr>ap_AccessKeyID = trim_space (ar_Name r),
       ap_AccountID = (if acct = [] then subjectID else acct),
       ap_SubjectType = (if subjectType = [] then ''api_key'' else subjectType),
       ap_SubjectID = subjectID,
       ap_RoutePolicyID = trim_space (ar_RoutePolicyID r),
       ap_AllowedProviders = ar_AllowedProviders r,
       ap_AllowedModels = [],
       ap_ProviderKeyBindings = ar_ProviderKeyBindings r\<rparr>)"

definition file_principal :: "access_key \<Rightarrow> auth_principal" where
  "file_principal ak =
     no_principal\<lparr>ap_AccessKeyID := trim_space (ak_Name ak), ap_AccountID := trim_space (ak_Name ak),
       ap_SubjectID := trim_space (ak_Name ak), ap_ProviderKeyBindings := ak_ProviderKeyBindings ak\<rparr>"

definition resolveFileKey :: "store \<Rightarrow> resolver" where
  "resolveFileKey ks k =
     (case MatchAccessKey k ks of None \<Rightarrow> Rejected | Some ak \<Rightarrow> Accepted (file_principal ak))"

definition resolveAccessKey :: "server_config \<Rightarrow> 'd services \<Rightarrow> server_state \<Rightarrow> resolver" where
  "resolveAccessKey cfg sv st k =
     (if ss_redis st \<and> sc_AccessKeyMode cfg \<noteq> ''file_only'' then
        (case LookupAccessKey (sv_client sv) (sv_up sv) (sv_now sv) k (ss_keydb st) of
           Inl e \<Rightarrow> ResolveError
         | Inr (Some r) \<Rightarrow> Accepted (record_principal r)
         | Inr None \<Rightarrow>
             if sc_AccessKeyMode cfg = ''redis_only'' then Rejected else resolveFileKey (ss_keys st) k)
      else resolveFileKey (ss_keys st) k)"

definition authenticate :: "server_config \<Rightarrow> 'd services \<Rightarrow> server_state \<Rightarrow> gin_ctx \<Rightarrow> auth_outcome" where
  "authenticate cfg sv st c =
     MiddlewareWithResolver (sc_APIKey cfg) (Some (resolveAccessKey cfg sv st)) (sc_AllowBYOKWithoutK cfg) c"

section \<open>Request identifiers\<close>

definition ResolveHeaderKey :: "string \<Rightarrow> string" where
  "ResolveHeaderKey headerKey = (let v = trim_space headerKey in if v \<noteq> [] then v else ''X-Request-Id'')"

text \<open>A fresh identifier is generated only where the client sends none.\<close>

definition requestIDMiddleware :: "string \<Rightarrow> string \<Rightarrow> gin_ctx \<Rightarrow> gin_ctx" where
  "requestIDMiddleware headerKey generated c =
     (let k = ResolveHeaderKey headerKey;
          i = trim_space (gc_Header c k);
          i' = (if i = [] then generated else i) in
      c\<lparr>gc_Strings := AList.update k i' (gc_Strings c)\<rparr>)"

section \<open>Selecting a provider\<close>

definition selectProvider ::
    "router \<Rightarrow> string \<Rightarrow> string \<Rightarrow> string \<Rightarrow> string list \<Rightarrow> (string \<times> string) \<times> router" where
  "selectProvider mr tokenProvider headerProvider model allowedProviders =
     (let p1 = to_lower (trim_space tokenProvider); p2 = to_lower (trim_space headerProvider);
          m = trim_space model in
      if p1 \<noteq> [] then ((p1, ''token''), mr)
      else if p2 \<noteq> [] then ((p2, ''header''), mr)
      else if m \<noteq> [] then
        (case NextProviderAllowed m allowedProviders mr of
           (Some p, mr') \<Rightarrow> if p \<noteq> [] then ((p, ''model''), mr') else (([], []), mr')
         | (None, mr') \<Rightarrow> (([], []), mr'))
      else (([], []), mr))"

section \<open>Authorisation\<close>

definition authorizeAccessKeyRequest :: "auth_principal \<Rightarrow> string \<Rightarrow> string \<Rightarrow> http_error option" where
  "authorizeAccessKeyRequest p provider model =
     (if \<not> AllowsProvider p provider
      then Some (HttpError 403 ''invalid_request_error'' ''provider_not_allowed'')
      else if \<not> AllowsModel p model
      then Some (HttpError 403 ''invalid_request_error'' ''model_not_allowed'')
      else None)"

definition providerInRoute :: "string list \<Rightarrow> string \<Rightarrow> bool" where
  "providerInRoute allowed provider \<longleftrightarrow>
     (let p = to_lower (trim_space provider) in
      p \<noteq> [] \<and> list_ex (\<lambda>q. to_lower (trim_space q) = p) allowed)"

definition authorizeRoutePolicyRequest ::
    "router \<Rightarrow> auth_principal \<Rightarrow> string \<Rightarrow> string \<Rightarrow> http_error option" where
  "authorizeRoutePolicyRequest mr p model provider =
     (let policyID = trim_space (ap_RoutePolicyID p) in
      if policyID = [] then None
      else
        case RouteForModel model mr of
          None \<Rightarrow> None
        | Some route \<Rightarrow>
            if route_OwnedBy route \<noteq> [] \<and> \<not> equal_fold (route_OwnedBy route) policyID
            then Some (HttpError 403 ''invalid_request_error'' ''route_policy_not_allowed'')
            else if route_Providers route \<noteq> [] \<and> \<not> providerInRoute (route_Providers route) provider
            then Some (HttpError 403 ''invalid_request_error'' ''route_policy_provider_not_allowed'')
            else None)"

section \<open>Billing\<close>

definition enforceBillingBalance ::
    "server_config \<Rightarrow> 'd services \<Rightarrow> server_state \<Rightarrow> gin_ctx \<Rightarrow> http_error option" where
  "enforceBillingBalance cfg sv st c =
     (case sv_sink sv of
        None \<Rightarrow> None
      | Some sink \<Rightarrow>
          if \<not> lc_Enabled sink \<or> \<not> sc_BillingEnabled cfg then None
          else
            case PrincipalFromContext c of
              None \<Rightarrow> None
            | Some p \<Rightarrow>
                let acct = trim_space (ap_AccountID p);
                    accountID = (if acct = [] then trim_space (ap_AccessKeyID p) else acct) in
                if accountID = [] then Some (HttpError 503 ''billing_error'' ''billing_account_missing'')
                else
                  case ReadAccount (sv_decimals sv) (sv_client sv) (sv_up sv 2) accountID (ss_ledger st) of
                    Inl e \<Rightarrow> Some (HttpError 503 ''billing_error'' ''billing_unavailable'')
                  | Inr a \<Rightarrow>
                      if ac_BalanceMicros a \<le> 0
                      then Some (HttpError 402 ''billing_error'' ''insufficient_balance'') else None)"

fun numberInt64 :: "(string \<times> any) list \<Rightarrow> string list \<Rightarrow> int" where
  "numberInt64 usage [] = 0"
| "numberInt64 usage (n # ns) =
     (case map_of usage n of
        Some (VInt i) \<Rightarrow> i
      | Some (VFloat i _) \<Rightarrow> i
      | _ \<Rightarrow> numberInt64 usage ns)"

definition costString :: "(string \<times> any) list \<Rightarrow> string \<Rightarrow> string \<Rightarrow> string" where
  "costString cost name fallback =
     (case map_of cost name of
        Some (VStr v) \<Rightarrow> if trim_space v \<noteq> [] then v else fallback
      | _ \<Rightarrow> fallback)"

definition cost_amount :: "(string \<times> any) list \<Rightarrow> string" where
  "cost_amount cost = (case map_of cost ''cost_total'' of Some (VFloat _ s) \<Rightarrow> s | _ \<Rightarrow> ''0'')"

definition billing_request_id :: "gin_ctx \<Rightarrow> string" where
  "billing_request_id c =
     (let rid = trim_space (GetString c ''X-Onr-Request-Id'') in
      if rid = [] then trim_space (GetString c ''X-Request-Id'') else rid)"

definition context_principal :: "gin_ctx \<Rightarrow> auth_principal" where
  "context_principal c = (case PrincipalFromContext c of None \<Rightarrow> no_principal | Some p \<Rightarrow> p)"

definition billing_subject :: "gin_ctx \<Rightarrow> string" where
  "billing_subject c =
     (let p = context_principal c;
          s1 = trim_space (ap_SubjectID p);
          s2 = (if s1 = [] then trim_space (GetString c ''onr.auth_subject_id'') else s1) in
      if s2 = [] then trim_space (ap_AccessKeyID p) else s2)"

definition billing_usage :: "ledger_config \<Rightarrow> gin_ctx \<Rightarrow> proxy_result \<Rightarrow> usage_event" where
  "billing_usage sink c res =
     (let p = context_principal c; subjectType = trim_space (ap_SubjectType p); usage = pr_Usage res in
      \<lparr>ue_RequestID = billing_request_id c, ue_AccessKeyID = trim_space (ap_AccessKeyID p),
       ue_AccountID = trim_space (ap_AccountID p),
       ue_SubjectType = (if subjectType = [] then ''api_key'' else subjectType),
       ue_SubjectID = billing_subject c, ue_Provider = pr_Provider res, ue_Model = pr_Model res,
       ue_API = pr_API res, ue_Status = pr_Status res, ue_Stream = pr_Stream res, ue_OccurredAt = None,
       ue_InputTokens = numberInt64 usage [''prompt_tokens'', ''input_tokens''],
       ue_OutputTokens = numberInt64 usage [''completion_tokens'', ''output_tokens''],
       ue_CachedTokens = numberInt64 usage [''cached_tokens'', ''cache_read_tokens''],
       ue_TotalTokens = numberInt64 usage [''total_tokens''], ue_Amount = cost_amount (pr_Cost res),
       ue_Currency = costString (pr_Cost res) ''cost_unit'' (ledger_Currency sink),
       ue_PricingModel = costString (pr_Cost res) ''cost_model'' (pr_Model res)\<rparr>)"

definition enqueueBillingEvent :: "'d services \<Rightarrow> gin_ctx \<Rightarrow> proxy_result \<Rightarrow> ledger_db \<Rightarrow> ledger_db" where
  "enqueueBillingEvent sv c res db =
     (case sv_sink sv of
        None \<Rightarrow> db
      | Some sink \<Rightarrow>
          if \<not> lc_Enabled sink \<or> pr_Status res < 200 \<or> pr_Status res \<ge> 300 then db
          else if billing_subject c = [] then db
          else snd (Record (sv_decimals sv) (sv_client sv) sink (sv_up sv 3) (sv_now sv) (billing_usage sink c res) db))"

section \<open>The handlers\<close>

definition key_fields :: "key \<Rightarrow> provider_key" where
  "key_fields k =
     \<lparr>pk_Name = key_Name k, pk_Value = key_Value k, pk_BaseURLOverride = key_BaseURLOverride k,
      pk_CredentialFile = key_CredentialFile k, pk_Location = key_Location k,
      pk_AWSAccessKeyID = key_AWSAccessKeyID k, pk_AWSSecretAccessKey = key_AWSSecretAccessKey k,
      pk_AWSSessionToken = key_AWSSessionToken k, pk_AWSRegion = key_AWSRegion k\<rparr>"

definition byok_key :: "string \<Rightarrow> provider_key" where
  "byok_key uk =
     \<lparr>pk_Name = ''byok'', pk_Value = uk, pk_BaseURLOverride = [], pk_CredentialFile = [], pk_Location = [],
      pk_AWSAccessKeyID = [], pk_AWSSecretAccessKey = [], pk_AWSSessionToken = [], pk_AWSRegion = []\<rparr>"

text \<open>The upstream key of a request; Gemini requests do not look at the bindings.\<close>

definition upstream_key :: "bool \<Rightarrow> gin_ctx \<Rightarrow> string \<Rightarrow> store \<Rightarrow> provider_key option \<times> store" where
  "upstream_key bound c provider ks =
     (let uk = TokenUpstreamKey c;
          keyName = trim_space (case map_of (ap_ProviderKeyBindings (context_principal c)) (to_lower provider) of
                                  None \<Rightarrow> [] | Some n \<Rightarrow> n) in
      if uk \<noteq> [] then (Some (byok_key uk), ks)
      else if bound \<and> keyName \<noteq> [] then (map_option key_fields (KeyByName provider keyName ks), ks)
      else (let (k, ks') = NextKey provider ks in (map_option key_fields k, ks')))"

section \<open>The model of a request in the proxy\<close>

definition gemini_prefix :: string where
  "gemini_prefix = ''/v1beta/models/''"

definition parseGeminiModelFromPath :: "string \<Rightarrow> string option" where
  "parseGeminiModelFromPath path =
     (let p = trim_space path in
      if \<not> has_prefix p gemini_prefix then None
      else
        let rest = trim_prefix p gemini_prefix in
        if CHR '':'' \<notin> set rest then None
        else
          let model = trim_space (fst (str_cut (CHR '':'') rest)) in
          if model = [] then None else Some model)"

definition replaceGeminiModelInPath :: "string \<Rightarrow> string \<Rightarrow> string option" where
  "replaceGeminiModelInPath pathWithQuery newModel =
     (let p = trim_space pathWithQuery in
      if \<not> has_prefix p gemini_prefix then None
      else
        let rest = trim_prefix p gemini_prefix; (m, a) = str_cut (CHR '':'') rest in
        if CHR '':'' \<notin> set rest \<or> trim_space m = [] then None
        else Some (gemini_prefix @ trim_space newModel @ '':'' @ a))"

text \<open>The model of the body comes first, then the one the handler stored; a token overrides both.\<close>

definition proxy_model :: "string \<Rightarrow> string \<Rightarrow> gin_ctx \<Rightarrow> string" where
  "proxy_model bodyModel handlerModel c =
     (let cached = trim_space bodyModel;
          model = (if cached = [] then trim_space handlerModel else cached) in
      if TokenModelOverride c \<noteq> [] then TokenModelOverride c else model)"

definition proxy_uri :: "string \<Rightarrow> string \<Rightarrow> string" where
  "proxy_uri uri model =
     (if trim_space model \<noteq> [] then
        (case replaceGeminiModelInPath uri (trim_space model) of None \<Rightarrow> uri | Some p \<Rightarrow> p)
      else uri)"

text \<open>A request ends with an error or with the upstream call that was made and its outcome.\<close>

type_synonym upstream = "upstream_request \<Rightarrow> http_error + proxy_result"

datatype outcome =
    Refused http_error
  | Forwarded upstream_request "http_error + proxy_result"

text \<open>
  The part the two handlers share, from the selection of the provider on: \<open>model\<close> is the model they
  check, \<open>bodyModel\<close> the one found in the body.
\<close>

definition forward_request ::
    "bool \<Rightarrow> server_config \<Rightarrow> 'd services \<Rightarrow> upstream \<Rightarrow> string \<Rightarrow> bool \<Rightarrow> string \<Rightarrow> string \<Rightarrow> string \<Rightarrow> gin_ctx
     \<Rightarrow> server_state \<Rightarrow> outcome \<times> server_state" where
  "forward_request bound cfg sv proxy api stream model bodyModel uri c st =
     (let p = context_principal c;
          ((provider, source), mr) = selectProvider (ss_router st) (TokenProvider c)
             (gc_Header c ''x-onr-provider'') model (ap_AllowedProviders p);
          st1 = st\<lparr>ss_router := mr\<rparr> in
      if provider = [] then (Refused (HttpError 400 ''invalid_request_error'' ''provider_not_selected''), st1)
      else
        case authorizeAccessKeyRequest p provider model of
          Some e \<Rightarrow> (Refused e, st1)
        | None \<Rightarrow>
            (case authorizeRoutePolicyRequest mr p model provider of
               Some e \<Rightarrow> (Refused e, st1)
             | None \<Rightarrow>
                 (case enforceBillingBalance cfg sv st1 c of
                    Some e \<Rightarrow> (Refused e, st1)
                  | None \<Rightarrow>
                      (case upstream_key bound c provider (ss_keys st1) of
                         (None, ks) \<Rightarrow>
                           (Refused (HttpError 400 ''invalid_request_error'' ''missing_upstream_key''), st1\<lparr>ss_keys := ks\<rparr>)
                       | (Some k, ks) \<Rightarrow>
                           let pm = proxy_model bodyModel model c;
                               u = \<lparr>ur_Provider = provider, ur_Key = k, ur_API = api, ur_Stream = stream,
                                    ur_Model = pm, ur_URI = proxy_uri uri pm\<rparr>;
                               res = proxy u; st2 = st1\<lparr>ss_keys := ks\<rparr> in
                           (Forwarded u res,
                            case res of
                              Inl e \<Rightarrow> st2
                            | Inr r \<Rightarrow> st2\<lparr>ss_ledger := enqueueBillingEvent sv c r (ss_ledger st2)\<rparr>)))))"

definition makeHandler ::
    "server_config \<Rightarrow> 'd services \<Rightarrow> upstream \<Rightarrow> string \<Rightarrow> request \<Rightarrow> gin_ctx \<Rightarrow> server_state
     \<Rightarrow> outcome \<times> server_state" where
  "makeHandler cfg sv proxy api rq c st =
     (case rq_Body rq of
        Inl _ \<Rightarrow> (Refused (HttpError 400 ''invalid_request_error'' ''invalid_json''), st)
      | Inr (stream, model) \<Rightarrow>
          forward_request True cfg sv proxy api stream
            (if TokenModelOverride c \<noteq> [] then TokenModelOverride c else trim_space model)
            (trim_space model) (rq_URI rq) c st)"

definition parseGeminiModelAction :: "string \<Rightarrow> (string \<times> string) option" where
  "parseGeminiModelAction path =
     (let p = trim_prefix (trim_space path) ''/'' in
      if p = [] then None
      else if CHR '':'' \<notin> set p then None
      else
        let (m, a) = str_cut (CHR '':'') p; model = trim_space m; action = trim_space a in
        if model = [] \<or> action = [] then None else Some (model, action))"

definition geminiAPIFromAction :: "string \<Rightarrow> (string \<times> bool) option" where
  "geminiAPIFromAction action =
     (let a = to_lower (trim_space action) in
      if has_prefix a ''generatecontent'' then Some (''gemini.generateContent'', False)
      else if has_prefix a ''streamgeneratecontent'' then Some (''gemini.streamGenerateContent'', True)
      else None)"

definition makeGeminiHandler ::
    "server_config \<Rightarrow> 'd services \<Rightarrow> upstream \<Rightarrow> request \<Rightarrow> gin_ctx \<Rightarrow> server_state
     \<Rightarrow> outcome \<times> server_state" where
  "makeGeminiHandler cfg sv proxy rq c st =
     (case parseGeminiModelAction (rq_Path rq) of
        None \<Rightarrow> (Refused (HttpError 400 ''invalid_request_error'' ''invalid_path''), st)
      | Some (m, action) \<Rightarrow>
          (case geminiAPIFromAction action of
             None \<Rightarrow> (Refused (HttpError 400 ''invalid_request_error'' ''unsupported_gemini_action''), st)
           | Some (api, stream) \<Rightarrow>
               (case rq_Body rq of
                  Inl _ \<Rightarrow> (Refused (HttpError 400 ''invalid_request_error'' ''invalid_json''), st)
                | Inr (_, bodyModel) \<Rightarrow>
                    forward_request False cfg sv proxy api stream
                      (if TokenModelOverride c \<noteq> [] then TokenModelOverride c else m)
                      (trim_space bodyModel) (rq_URI rq) c st)))"

section \<open>What is forwarded\<close>

lemma NextKey_SomeD:
  "NextKey provider ks = (Some k, ks') \<Longrightarrow> k \<in> set (provider_keys ks (normalizeProvider provider))"
  by (auto simp: NextKey_def Let_def split: if_splits)

lemma NextKey_NoneD: "NextKey provider ks = (None, ks') \<Longrightarrow> ks' = ks"
  by (auto simp: NextKey_def Let_def split: if_splits)

lemma upstream_key_SomeD:
  assumes "upstream_key bound c provider ks = (Some k, ks')"
  shows "TokenUpstreamKey c \<noteq> [] \<and> k = byok_key (TokenUpstreamKey c) \<or>
     (\<exists>kk \<in> set (provider_keys ks (normalizeProvider provider)). k = key_fields kk)"
proof (cases "TokenUpstreamKey c \<noteq> []")
  case True
  with assms show ?thesis by (simp add: upstream_key_def)
next
  case False
  with assms show ?thesis
    by (auto simp: upstream_key_def KeyByName_def Let_def split: if_splits prod.splits option.splits
             dest: find_Some_mem dest!: NextKey_SomeD)
qed

lemma upstream_key_NoneD: "upstream_key bound c provider ks = (None, ks') \<Longrightarrow> ks' = ks"
  by (auto simp: upstream_key_def Let_def split: if_splits prod.splits dest: NextKey_NoneD)

definition route_policy_ok :: "router \<Rightarrow> auth_principal \<Rightarrow> string \<Rightarrow> string \<Rightarrow> bool" where
  "route_policy_ok mr p model provider \<longleftrightarrow>
     (\<forall>route. trim_space (ap_RoutePolicyID p) \<noteq> [] \<longrightarrow> RouteForModel model mr = Some route \<longrightarrow>
        (route_OwnedBy route = [] \<or> equal_fold (route_OwnedBy route) (trim_space (ap_RoutePolicyID p))) \<and>
        (route_Providers route = [] \<or> providerInRoute (route_Providers route) provider))"

lemma authorizeRoutePolicy_None:
  "authorizeRoutePolicyRequest mr p model provider = None \<longleftrightarrow> route_policy_ok mr p model provider"
  by (auto simp: authorizeRoutePolicyRequest_def route_policy_ok_def Let_def split: option.splits)

lemma RouteForModel_cong: "rt_routes r = rt_routes r' \<Longrightarrow> RouteForModel m r = RouteForModel m r'"
  by (simp add: RouteForModel_def Let_def)

lemma selectProvider_routes: "rt_routes (snd (selectProvider mr tp hp m al)) = rt_routes mr"
  using NextProviderAllowed_frame(1)[of "trim_space m" al mr]
  by (auto simp: selectProvider_def Let_def split: prod.splits option.splits)

definition balance_ok :: "server_config \<Rightarrow> 'd services \<Rightarrow> ledger_db \<Rightarrow> gin_ctx \<Rightarrow> bool" where
  "balance_ok cfg sv db c \<longleftrightarrow>
     (\<forall>sink p. sv_sink sv = Some sink \<longrightarrow> lc_Enabled sink \<longrightarrow> sc_BillingEnabled cfg \<longrightarrow>
        PrincipalFromContext c = Some p \<longrightarrow>
        (\<exists>id a. id = (if trim_space (ap_AccountID p) = [] then trim_space (ap_AccessKeyID p)
                      else trim_space (ap_AccountID p)) \<and> id \<noteq> [] \<and>
           ReadAccount (sv_decimals sv) (sv_client sv) (sv_up sv 2) id db = Inr a \<and> 0 < ac_BalanceMicros a))"

lemma enforceBillingBalance_None:
  "enforceBillingBalance cfg sv st c = None \<longleftrightarrow> balance_ok cfg sv (ss_ledger st) c"
  by (auto simp: enforceBillingBalance_def balance_ok_def Let_def split: option.splits sum.splits if_splits)

definition body_model :: "request \<Rightarrow> string" where
  "body_model rq = (case rq_Body rq of Inl _ \<Rightarrow> [] | Inr (_, m) \<Rightarrow> trim_space m)"

lemma forward_request_Forwarded:
  assumes "forward_request bound cfg sv proxy api stream model bm uri c st = (Forwarded u res, st')"
  shows "ur_Provider u \<noteq> [] \<and> AllowsProvider (context_principal c) (ur_Provider u) \<and>
    AllowsModel (context_principal c) model \<and>
    route_policy_ok (ss_router st) (context_principal c) model (ur_Provider u) \<and>
    balance_ok cfg sv (ss_ledger st) c \<and> res = proxy u \<and> ur_Model u = proxy_model bm model c \<and>
    ur_URI u = proxy_uri uri (ur_Model u) \<and>
    upstream_key bound c (ur_Provider u) (ss_keys st) = (Some (ur_Key u), ss_keys st') \<and>
    ss_ledger st' = (case res of Inl _ \<Rightarrow> ss_ledger st | Inr r \<Rightarrow> enqueueBillingEvent sv c r (ss_ledger st))"
proof -
  let ?p = "context_principal c"
  obtain pr src mr where sel: "selectProvider (ss_router st) (TokenProvider c)
      (gc_Header c ''x-onr-provider'') model (ap_AllowedProviders ?p) = ((pr, src), mr)" by (metis surj_pair)
  have routes: "rt_routes mr = rt_routes (ss_router st)" using selectProvider_routes sel by (metis snd_conv)
  from assms sel have
    "ur_Provider u = pr \<and> pr \<noteq> [] \<and> authorizeAccessKeyRequest ?p pr model = None \<and>
     authorizeRoutePolicyRequest mr ?p model pr = None \<and>
     enforceBillingBalance cfg sv (st\<lparr>ss_router := mr\<rparr>) c = None \<and> res = proxy u \<and>
     ur_Model u = proxy_model bm model c \<and> ur_URI u = proxy_uri uri (ur_Model u) \<and>
     upstream_key bound c pr (ss_keys st) = (Some (ur_Key u), ss_keys st') \<and>
     ss_ledger st' = (case res of Inl _ \<Rightarrow> ss_ledger st | Inr r \<Rightarrow> enqueueBillingEvent sv c r (ss_ledger st))"
    by (auto simp: forward_request_def Let_def split: if_splits option.splits prod.splits sum.splits)
  moreover have "route_policy_ok mr ?p model pr = route_policy_ok (ss_router st) ?p model pr"
    by (simp add: route_policy_ok_def RouteForModel_cong[OF routes])
  ultimately show ?thesis
    by (auto simp: authorizeAccessKeyRequest_def authorizeRoutePolicy_None enforceBillingBalance_None split: if_splits)
qed

lemma proxy_model_Nil:
  "proxy_model bm [] c = (if TokenModelOverride c \<noteq> [] then TokenModelOverride c else trim_space bm)"
  by (cases "trim_space bm = []") (simp_all add: proxy_model_def Let_def)

lemma makeHandler_Forwarded:
  assumes "makeHandler cfg sv proxy api rq c st = (Forwarded u res, st')"
  obtains stream where "forward_request True cfg sv proxy api stream
    (proxy_model (body_model rq) [] c) (body_model rq) (rq_URI rq) c st = (Forwarded u res, st')"
proof (cases "rq_Body rq")
  case (Inr b)
  with assms that show ?thesis
    by (cases b) (auto simp: makeHandler_def body_model_def proxy_model_Nil split: if_splits)
qed (use assms in \<open>simp add: makeHandler_def\<close>)

lemma makeGeminiHandler_Forwarded:
  assumes "makeGeminiHandler cfg sv proxy rq c st = (Forwarded u res, st')"
  obtains api stream m where "m \<noteq> []" "trim_space m = m" "forward_request False cfg sv proxy api stream
    (if TokenModelOverride c \<noteq> [] then TokenModelOverride c else m) (body_model rq) (rq_URI rq) c st = (Forwarded u res, st')"
  using assms
  by (auto simp: makeGeminiHandler_def body_model_def parseGeminiModelAction_def Let_def
           split: option.splits sum.splits prod.splits if_splits)

lemma proxy_model_idem: "proxy_model bm (proxy_model bm [] c) c = proxy_model bm [] c"
  by (simp add: proxy_model_def Let_def)


text \<open>
  C2. A refused request costs nothing: it leaves the ledger, the upstream key rotation and the
  access-key records as they were; only the provider rotation of the model may have moved.
\<close>

theorem refused_request_no_effect:
  assumes "makeHandler cfg sv proxy api rq c st = (Refused e, st') \<or>
           makeGeminiHandler cfg sv proxy rq c st = (Refused e, st')"
  shows "ss_ledger st' = ss_ledger st \<and> ss_keys st' = ss_keys st \<and> ss_keydb st' = ss_keydb st \<and>
         rt_routes (ss_router st') = rt_routes (ss_router st)"
proof -
  have "ss_ledger st' = ss_ledger st \<and> ss_keys st' = ss_keys st \<and> ss_keydb st' = ss_keydb st \<and>
      rt_routes (ss_router st') = rt_routes (ss_router st)"
    if fwd: "forward_request bound cfg sv proxy api' stream model bm uri c st = (Refused e, st')"
    for bound api' stream model bm uri
  proof -
    obtain pr src mr where sel: "selectProvider (ss_router st) (TokenProvider c) (gc_Header c ''x-onr-provider'')
        model (ap_AllowedProviders (context_principal c)) = ((pr, src), mr)" by (metis surj_pair)
    have "rt_routes mr = rt_routes (ss_router st)" using selectProvider_routes sel by (metis snd_conv)
    moreover from fwd sel have "st' = st\<lparr>ss_router := mr\<rparr> \<or>
        (\<exists>ks. upstream_key bound c pr (ss_keys st) = (None, ks) \<and> st' = st\<lparr>ss_router := mr, ss_keys := ks\<rparr>)"
      by (auto simp: forward_request_def Let_def split: if_splits option.splits prod.splits)
    ultimately show ?thesis by (auto dest: upstream_key_NoneD)
  qed
  with assms show ?thesis
    by (auto simp: makeHandler_def makeGeminiHandler_def split: sum.splits option.splits prod.splits)
qed

section \<open>The model of a Gemini request\<close>

text \<open>
  C5. A Gemini request is checked for the model of its path and sent for the model of its body: if a
  request without a model in its body is forwarded, the same request with any model in its body is
  forwarded too, for that model, with the same provider and key, whatever the caller is allowed.
\<close>

theorem gemini_body_model_unchecked:
  assumes "makeGeminiHandler cfg sv proxy (rq\<lparr>rq_Body := Inr (s, [])\<rparr>) c st = (Forwarded u res, st')"
    and "trim_space bm \<noteq> []" "TokenModelOverride c = []"
  shows "\<exists>res'' st''. makeGeminiHandler cfg sv proxy (rq\<lparr>rq_Body := Inr (s, bm)\<rparr>) c st =
    (Forwarded (u\<lparr>ur_Model := trim_space bm, ur_URI := proxy_uri (rq_URI rq) (trim_space bm)\<rparr>) res'', st'')"
  using assms
  by (auto simp: makeGeminiHandler_def forward_request_def proxy_model_def Let_def
           split: option.splits prod.splits if_splits)

section \<open>Bound upstream keys\<close>

definition bound_key_name :: "gin_ctx \<Rightarrow> string \<Rightarrow> string" where
  "bound_key_name c provider = trim_space (case map_of (ap_ProviderKeyBindings (context_principal c)) (to_lower provider) of
     None \<Rightarrow> [] | Some n \<Rightarrow> n)"

text \<open>
  A provider key binding is honoured: a forwarded request of a caller that binds a key name for
  the provider, and brings no key of its own, carries the upstream key of that name, and the key
  rotation other callers see does not move.
\<close>

theorem bound_key_honoured:
  assumes "makeHandler cfg sv proxy api rq c st = (Forwarded u res, st')"
    and "TokenUpstreamKey c = []" "bound_key_name c (ur_Provider u) \<noteq> []"
  shows "ss_keys st' = ss_keys st \<and>
    (\<exists>k. KeyByName (ur_Provider u) (bound_key_name c (ur_Provider u)) (ss_keys st) = Some k \<and> ur_Key u = key_fields k)"
proof -
  from assms(1) obtain stream where "forward_request True cfg sv proxy api stream
    (proxy_model (body_model rq) [] c) (body_model rq) (rq_URI rq) c st = (Forwarded u res, st')"
    by (rule makeHandler_Forwarded)
  from forward_request_Forwarded[OF this] assms(2,3) show ?thesis
    by (auto simp: upstream_key_def bound_key_name_def Let_def)
qed

text \<open>
  The Gemini handler does not honour bindings: a forwarded request without a key of its own
  carries whatever key the rotation gives, bound or not.
\<close>

theorem gemini_ignores_bound_key:
  assumes "makeGeminiHandler cfg sv proxy rq c st = (Forwarded u res, st')" and "TokenUpstreamKey c = []"
  shows "\<exists>k. NextKey (ur_Provider u) (ss_keys st) = (Some k, ss_keys st') \<and> ur_Key u = key_fields k"
proof -
  from assms(1) obtain api stream m where "forward_request False cfg sv proxy api stream
    (if TokenModelOverride c \<noteq> [] then TokenModelOverride c else m) (body_model rq) (rq_URI rq) c st = (Forwarded u res, st')"
    by (blast elim: makeGeminiHandler_Forwarded)
  from forward_request_Forwarded[OF this] assms(2) show ?thesis
    by (auto simp: upstream_key_def Let_def split: prod.splits)
qed

section \<open>Authenticated principals\<close>

lemma set_nonempty_principal [simp]: "gc_Principal (set_nonempty k v c) = gc_Principal c"
  by (simp add: set_nonempty_def)

lemma setPrincipal_principal [simp]: "gc_Principal (setPrincipal p c) = Some (normalize_principal p)"
  by (simp add: setPrincipal_def Let_def)

lemma HasAnyData_no_principal [simp]: "\<not> HasAnyData no_principal"
  by (simp add: HasAnyData_def no_principal_def)

lemma token_success_principal:
  "token_success p claims c = TokenOk c' \<Longrightarrow>
     gc_Principal c' = (if HasAnyData p then Some (normalize_principal p) else gc_Principal c)"
  by (auto simp: token_success_def set_claims_def)

lemma middleware_principal:
  assumes "MiddlewareWithResolver mk (Some resolve) allow c = AuthNext c'"
    and "gc_Principal c = None" "PrincipalFromContext c' = Some q"
  shows "\<exists>k p. resolve k = Accepted p \<and> q = normalize_principal p"
  using assms
  by (auto simp: MiddlewareWithResolver_def authenticateToken_def PrincipalFromContext_def Let_def
           split: if_splits resolve_outcome.splits token_outcome.splits option.splits prod.splits
           dest!: token_success_principal) blast+

lemma resolveAccessKey_cases:
  assumes "resolveAccessKey cfg sv st k = Accepted p"
  obtains r where "ss_redis st" "LookupAccessKey (sv_client sv) (sv_up sv) (sv_now sv) k (ss_keydb st) = Inr (Some r)"
      "p = record_principal r"
    | ak where "\<not> (ss_redis st \<and> sc_AccessKeyMode cfg = ''redis_only'')"
      "MatchAccessKey k (ss_keys st) = Some ak" "p = file_principal ak"
  using assms
  by (auto simp: resolveAccessKey_def resolveFileKey_def split: if_splits sum.splits option.splits)

text \<open>
  No model allowlist is ever in force: whatever allowlist the record of an access key carries, the
  principal of an authenticated request is allowed every model.
\<close>

theorem model_allowlist_dropped:
  assumes "authenticate cfg sv st c = AuthNext c'" and "PrincipalFromContext c = None"
    and "PrincipalFromContext c' = Some p"
  shows "AllowsModel p model"
proof -
  from middleware_principal[OF assms(1)[unfolded authenticate_def]] assms(2,3)
  obtain k q where q: "resolveAccessKey cfg sv st k = Accepted q" "p = normalize_principal q"
    by (auto simp: PrincipalFromContext_def)
  from q(1) have "ap_AllowedModels q = []"
    by (rule resolveAccessKey_cases) (simp_all add: record_principal_def file_principal_def no_principal_def Let_def)
  with q(2) show ?thesis
    by (simp add: AllowsModel_def allowsAccessKeyValue_def normalize_principal_def normalizeAllowedValues_def)
qed


section \<open>Request identifiers and billing\<close>

lemma enqueueBillingEvent_step:
  obtains "enqueueBillingEvent sv c r db = db"
  | ev where "ev_ID ev = billing_request_id c"
      "enqueueBillingEvent sv c r db = ledger_step (sv_client sv) (LRecord (sv_up sv 3) (sv_now sv) ev) db"
proof (cases "enqueueBillingEvent sv c r db = db")
  case False
  then obtain sink where "sv_sink sv = Some sink"
    by (auto simp: enqueueBillingEvent_def split: option.splits)
  moreover from this False obtain m where "amountMicros (sv_decimals sv) (ue_Amount (billing_usage sink c r)) = Inr m"
    by (auto simp: enqueueBillingEvent_def Record_def split: if_splits sum.splits)
  ultimately have "enqueueBillingEvent sv c r db = ledger_step (sv_client sv)
     (LRecord (sv_up sv 3) (sv_now sv) (usage_record sink (sv_now sv) m (billing_usage sink c r))) db"
    using False
    by (auto simp: enqueueBillingEvent_def Record_def ledger_step_def lift_store_def
             split: if_splits prod.splits)
  then show ?thesis by (rule that(2)[rotated]) (simp add: usage_record_def billing_usage_def Let_def)
qed (rule that(1))

lemma handler_ledger:
  assumes "makeHandler cfg sv proxy api rq c st = (out, st') \<or> makeGeminiHandler cfg sv proxy rq c st = (out, st')"
  shows "ss_ledger st' = ss_ledger st \<or> (\<exists>r. ss_ledger st' = enqueueBillingEvent sv c r (ss_ledger st))"
proof -
  have "ss_ledger st' = ss_ledger st \<or> (\<exists>r. ss_ledger st' = enqueueBillingEvent sv c r (ss_ledger st))"
    if "forward_request bound cfg sv proxy api' stream model bm uri c st = (out, st')"
    for bound api' stream model bm uri
    using that by (auto simp: forward_request_def Let_def split: if_splits option.splits prod.splits sum.splits)
  with assms show ?thesis
    by (auto simp: makeHandler_def makeGeminiHandler_def split: sum.splits option.splits prod.splits)
qed


text \<open>
  The identifier a request is billed under is chosen by the client: with the default header, a
  request that carries one keeps it, and a new one is generated only where it carries none.
\<close>

lemma client_chooses_request_id:
  assumes "trim_space headerKey = [] \<or> trim_space headerKey = ''X-Request-Id''"
    and "GetString c ''X-Onr-Request-Id'' = []"
  shows "billing_request_id (requestIDMiddleware headerKey generated c) =
    (let i = trim_space (gc_Header c ''X-Request-Id'') in if i \<noteq> [] then i else trim_space generated)"
  using assms
  by (auto simp: requestIDMiddleware_def ResolveHeaderKey_def billing_request_id_def GetString_def Let_def
                 update_conv')

section \<open>Witnesses\<close>

text \<open>
  A small deployment: one provider with two upstream keys, one route, one access key in Redis and an
  account with credit. The decimal package reads whole numbers.
\<close>

definition int_decimals :: "int decimal_ops" where
  "int_decimals = \<lparr>dec_NewFromString = (\<lambda>s. if s \<noteq> [] \<and> list_all is_digit s
       then Some (foldl (\<lambda>n c. 10 * n + (of_char c - 48)) 0 s) else None),
     dec_IsNegative = (\<lambda>x. x < 0), dec_NewFromInt = id, dec_Mul = (*), dec_IntPart = wrap64,
     dec_Equal = (=), dec_StringFixed6 = (\<lambda>_. [])\<rparr>"

definition gw_config :: server_config where
  "gw_config = \<lparr>sc_APIKey = ''master'', sc_AllowBYOKWithoutK = False, sc_AccessKeyMode = ''redis_only'', sc_BillingEnabled = True\<rparr>"

definition gw_services :: "int services" where
  "gw_services = \<lparr>sv_client = demo_client, sv_sink = Some demo_config, sv_decimals = int_decimals, sv_up = (\<lambda>_. True), sv_now = 9\<rparr>"

definition gw_state :: server_state where
  "gw_state = \<lparr>ss_keys = \<lparr>st_byProv = [(''a'', [demo_key ''x'', demo_key ''y''])], st_nextIdx = [], st_accessKeys = []\<rparr>,
     ss_router = demo_router, ss_redis = True, ss_keydb = demo_db,
     ss_ledger = snd (SetInitialLocalBillingCredit demo_client True ''acct'' ''i'' ''CNY'' 500
       (snd (SetInitialLocalBillingCredit demo_client True ''acct2'' ''j'' ''CNY'' 500 empty_ledger)))\<rparr>"

definition gw_principal :: "string \<Rightarrow> auth_principal" where
  "gw_principal acct = no_principal\<lparr>ap_AccessKeyID := ''k1'', ap_AccountID := acct, ap_SubjectID := ''k1'',
     ap_AllowedModels := [''m''], ap_ProviderKeyBindings := [(''a'', ''y'')]\<rparr>"

definition gw_ctx :: "string \<Rightarrow> gin_ctx" where
  "gw_ctx acct = requestIDMiddleware [] ''fresh''
     \<lparr>gc_Header = (\<lambda>h. if h = ''X-Request-Id'' then ''r1'' else if h = ''x-onr-provider'' then ''A'' else []),
      gc_Principal = Some (gw_principal acct), gc_Strings = []\<rparr>"

definition gw_request :: "string \<Rightarrow> string \<Rightarrow> request" where
  "gw_request pathModel bodyModel = \<lparr>rq_Path = ''/'' @ pathModel @ '':generateContent'',
     rq_URI = ''/v1beta/models/'' @ pathModel @ '':generateContent'', rq_Body = Inr (False, bodyModel)\<rparr>"

definition gw_result :: proxy_result where
  "gw_result = \<lparr>pr_Provider = ''a'', pr_API = ''chat.completions'', pr_Stream = False, pr_Model = ''m'', pr_Status = 200,
     pr_Usage = [(''total_tokens'', VInt 5)], pr_Cost = [(''cost_total'', VFloat 3 ''3'')]\<rparr>"

abbreviation gw_proxy :: upstream where
  "gw_proxy \<equiv> \<lambda>_. Inr gw_result"

definition gw_call :: "string \<Rightarrow> string \<Rightarrow> string \<Rightarrow> string \<Rightarrow> upstream_request" where
  "gw_call k api m uri = \<lparr>ur_Provider = ''a'', ur_Key = key_fields (demo_key k), ur_API = api, ur_Stream = False, ur_Model = m, ur_URI = uri\<rparr>"

abbreviation gw_chat :: "string \<Rightarrow> outcome \<times> server_state" where
  "gw_chat acct \<equiv> makeHandler gw_config gw_services gw_proxy ''chat.completions'' (gw_request ''m'' ''m'') (gw_ctx acct) gw_state"

lemma gw_chat_call: "fst (gw_chat ''acct'') = Forwarded (gw_call ''y'' ''chat.completions'' ''m'' ''/v1beta/models/m:generateContent'') (Inr gw_result)"
  by code_simp

lemma chat_run:
  "gw_chat ''acct'' =
     (Forwarded (gw_call ''y'' ''chat.completions'' ''m'' ''/v1beta/models/m:generateContent'') (Inr gw_result), snd (gw_chat ''acct''))"
  using gw_chat_call by (simp add: prod_eq_iff)


theorem refused_request_no_effect_witness:
  "fst (gw_chat ''poor'') = Refused (HttpError 402 ''billing_error'' ''insufficient_balance'') \<and>
   ss_ledger (snd (gw_chat ''poor'')) = ss_ledger gw_state \<and> ss_keys (snd (gw_chat ''poor'')) = ss_keys gw_state"
proof -
  have r: "fst (gw_chat ''poor'') = Refused (HttpError 402 ''billing_error'' ''insufficient_balance'')" by code_simp
  then have "gw_chat ''poor'' = (Refused (HttpError 402 ''billing_error'' ''insufficient_balance''), snd (gw_chat ''poor''))"
    by (simp add: prod_eq_iff)
  from refused_request_no_effect[OF disjI1, OF this] r show ?thesis by simp
qed

abbreviation gw_gemini :: "string \<Rightarrow> outcome \<times> server_state" where
  "gw_gemini bm \<equiv> makeGeminiHandler gw_config gw_services gw_proxy (gw_request ''m'' bm) (gw_ctx ''acct'') gw_state"

lemma gemini_run:
  "gw_gemini [] =
     (Forwarded (gw_call ''x'' ''gemini.generateContent'' ''m'' ''/v1beta/models/m:generateContent'') (Inr gw_result), snd (gw_gemini []))"
proof -
  have "fst (gw_gemini []) =
      Forwarded (gw_call ''x'' ''gemini.generateContent'' ''m'' ''/v1beta/models/m:generateContent'') (Inr gw_result)"
    by code_simp
  then show ?thesis by (simp add: prod_eq_iff)
qed

lemma gw_token: "TokenModelOverride (gw_ctx acct) = []" "TokenUpstreamKey (gw_ctx acct) = []"
  by (simp_all add: TokenModelOverride_def TokenUpstreamKey_def GetString_def gw_ctx_def requestIDMiddleware_def
      ResolveHeaderKey_def Let_def)

theorem gemini_body_model_unchecked_witness:
  "\<not> AllowsModel (context_principal (gw_ctx ''acct'')) ''big'' \<and>
   (\<exists>res st'. gw_gemini ''big'' =
     (Forwarded (gw_call ''x'' ''gemini.generateContent'' ''big'' ''/v1beta/models/big:generateContent'') res, st'))"
proof
  show "\<not> AllowsModel (context_principal (gw_ctx ''acct'')) ''big''" by code_simp
  have rq: "(gw_request ''m'' [])\<lparr>rq_Body := Inr (False, bm)\<rparr> = gw_request ''m'' bm" for bm by (simp add: gw_request_def)
  have t: "trim_space ''big'' = ''big''" by code_simp
  have u: "proxy_uri (rq_URI (gw_request ''m'' [])) ''big'' = ''/v1beta/models/big:generateContent''" by code_simp
  from gemini_body_model_unchecked[where rq = "gw_request ''m'' []" and s = False and bm = "''big''", unfolded rq,
      OF gemini_run _ gw_token(1)] t u
  show "\<exists>res st'. gw_gemini ''big'' =
     (Forwarded (gw_call ''x'' ''gemini.generateContent'' ''big'' ''/v1beta/models/big:generateContent'') res, st')"
    by (simp add: gw_call_def)
qed

lemma gw_bound: "bound_key_name (gw_ctx ''acct'') ''a'' = ''y''" by code_simp

theorem bound_key_honoured_witness:
  "KeyByName ''a'' ''y'' (ss_keys gw_state) = Some (demo_key ''y'') \<and>
   ss_keys (snd (gw_chat ''acct'')) = ss_keys gw_state"
proof
  show "KeyByName ''a'' ''y'' (ss_keys gw_state) = Some (demo_key ''y'')" by code_simp
  from bound_key_honoured[OF chat_run gw_token(2)] gw_bound
  show "ss_keys (snd (gw_chat ''acct'')) = ss_keys gw_state" by (simp add: gw_call_def)
qed

theorem gemini_ignores_bound_key_witness:
  "bound_key_name (gw_ctx ''acct'') ''a'' = ''y'' \<and>
   (\<exists>k. NextKey ''a'' (ss_keys gw_state) = (Some k, ss_keys (snd (gw_gemini []))) \<and> key_fields k = key_fields (demo_key ''x''))"
  using gemini_ignores_bound_key[OF gemini_run gw_token(2)] gw_bound by (auto simp: gw_call_def)

text \<open>A request that authenticates with the access key of the deployment.\<close>

definition gw_login :: gin_ctx where
  "gw_login = \<lparr>gc_Header = (\<lambda>h. if h = ''Authorization'' then ''Bearer sec'' else []), gc_Principal = None, gc_Strings = []\<rparr>"

lemma gw_login_credential: "credential gw_login = ''sec''" "trim_space (sc_APIKey gw_config) = ''master''"
  by code_simp+

lemma gw_login_anonymous: "PrincipalFromContext gw_login = None"
  by (simp add: PrincipalFromContext_def gw_login_def)

definition gw_limited :: access_key_record where
  "gw_limited = (demo_record ''k1'' (HashAccessKey demo_client ''sec'') ''acct'')\<lparr>ar_AllowedModels := [''m'']\<rparr>"

definition gw_limited_state :: server_state where
  "gw_limited_state = gw_state\<lparr>ss_keydb := snd (CreateAccessKey demo_client True 5 gw_limited empty_db)\<rparr>"

theorem model_allowlist_dropped_witness:
  "\<exists>r c' p. LookupAccessKey demo_client (\<lambda>_. True) 9 ''sec'' (ss_keydb gw_limited_state) = Inr (Some r) \<and>
     ar_AllowedModels r = [''m''] \<and> authenticate gw_config gw_services gw_limited_state gw_login = AuthNext c' \<and>
     PrincipalFromContext c' = Some p \<and> AllowsModel p ''other''"
proof -
  have "case LookupAccessKey demo_client (\<lambda>_. True) 9 ''sec'' (ss_keydb gw_limited_state) of
      Inr (Some r) \<Rightarrow> ar_AllowedModels r = [''m''] | _ \<Rightarrow> False" by code_simp
  then obtain r where r: "LookupAccessKey demo_client (\<lambda>_. True) 9 ''sec'' (ss_keydb gw_limited_state) = Inr (Some r)"
      "ar_AllowedModels r = [''m'']" by (auto split: sum.splits option.splits)
  let ?c = "setPrincipal (record_principal r) gw_login"
  have "resolveAccessKey gw_config gw_services gw_limited_state ''sec'' = Accepted (record_principal r)"
    using r by (simp add: resolveAccessKey_def gw_limited_state_def gw_state_def gw_config_def gw_services_def)
  then have a: "authenticate gw_config gw_services gw_limited_state gw_login = AuthNext ?c"
    using gw_login_credential by (simp add: authenticate_def MiddlewareWithResolver_def Let_def)
  have p: "PrincipalFromContext ?c = Some (normalize_principal (record_principal r))"
    by (simp add: PrincipalFromContext_def)
  from model_allowlist_dropped[OF a gw_login_anonymous p] r a p show ?thesis by blast
qed



end
