(* ===== verification/Json_Path.thy ===== *)
theory Json_Path
  imports Prelude
begin

text \<open>
  The JSON path language of the provider configurations, \<^verbatim>\<open>onr-core/pkg/jsonutil/value.go\<close>:
  compilation of paths with fields, indices, wildcards and filters, the visit of the values a path
  denotes, and the readers of strings and integers on top of it. The cache of compiled paths only
  saves work and is left out.

  A decoded JSON value is a \<open>json\<close>. A number stands for a \<^verbatim>\<open>float64\<close> by the two things the code
  makes of it, its conversion to a 64-bit integer and its shortest decimal text. Objects are
  association lists, looked up with \<^const>\<open>map_of\<close>. The Go integers and string slices that the
  configuration writes into a document are values of their own, as in Go: a slice of strings is not
  an array for paths. Readers of floating-point sums are not modelled.

  Shown: compiling the text of a path gives the path back, a string reader returns the first
  string that is not blank among the values the path denotes, and the integer reader is the 64-bit
  sum over them.
\<close>

section \<open>Values and paths\<close>

datatype json =
    JNull
  | JBool bool
  | JNum int string
  | JStr string
  | JArr "json list"
  | JObj "(string \<times> json) list"
  | JInt int
  | JStrs "string list"

record path_part =
  pp_name :: string
  pp_idx :: int
  pp_hasIdx :: bool
  pp_isStar :: bool
  pp_hasFilter :: bool
  pp_filterField :: string
  pp_filterValue :: string

section \<open>Coercions\<close>

definition CoerceString :: "json \<Rightarrow> string" where
  "CoerceString v = (case v of JStr t \<Rightarrow> t | _ \<Rightarrow> [])"

definition CoerceScalarString :: "json \<Rightarrow> string" where
  "CoerceScalarString v =
     (case v of
        JStr t \<Rightarrow> t
      | JNum _ t \<Rightarrow> t
      | JBool b \<Rightarrow> (if b then ''true'' else ''false'')
      | _ \<Rightarrow> [])"

text \<open>\<^verbatim>\<open>strconv.Atoi\<close>: an optional sign and decimal digits within 64 bits.\<close>

definition digits_value :: "string \<Rightarrow> int" where
  "digits_value s = foldl (\<lambda>n c. 10 * n + (of_char c - 48)) 0 s"

definition atoi :: "string \<Rightarrow> int option" where
  "atoi s =
     (let neg = (s \<noteq> [] \<and> hd s = CHR ''-'');
          ds = (if s \<noteq> [] \<and> hd s \<in> {CHR ''-'', CHR ''+''} then tl s else s);
          n = (if neg then - digits_value ds else digits_value ds) in
      if ds \<noteq> [] \<and> list_all is_digit ds \<and> in_int64 n then Some n else None)"

fun CoerceIntOK :: "json \<Rightarrow> int \<times> bool" where
  "CoerceIntOK (JNum i _) = (i, True)"
| "CoerceIntOK (JInt i) = (i, True)"
| "CoerceIntOK (JStr t) = (case atoi (trim_space t) of Some i \<Rightarrow> (i, True) | None \<Rightarrow> (0, False))"
| "CoerceIntOK (JArr items) =
     foldl (\<lambda>(sum, ok) (n, itemOK). (wrap64 (sum + n), ok \<or> itemOK)) (0, False) (map CoerceIntOK items)"
| "CoerceIntOK _ = (0, False)"

definition CoerceInt :: "json \<Rightarrow> int" where
  "CoerceInt v = fst (CoerceIntOK v)"

fun FirstInt :: "int list \<Rightarrow> int" where
  "FirstInt [] = 0"
| "FirstInt (v # vs) = (if v \<noteq> 0 then v else FirstInt vs)"

section \<open>Compilation\<close>

text \<open>
  The loop of \<^verbatim>\<open>splitPathParts\<close>: \<open>cur\<close> holds the bytes since the last cut in reverse, \<open>depth\<close> the open
  brackets and \<open>quote\<close> the quote that is open.
\<close>

fun split_loop :: "string \<Rightarrow> nat \<Rightarrow> char option \<Rightarrow> string \<Rightarrow> string list option" where
  "split_loop cur depth quote [] =
     (if quote \<noteq> None \<or> depth \<noteq> 0 then None else Some [rev cur])"
| "split_loop cur depth (Some q) (ch # s) =
     split_loop (ch # cur) depth (if ch = q then None else Some q) s"
| "split_loop cur depth None (ch # s) =
     (if ch = CHR 0x22 \<or> ch = CHR 0x27 then split_loop (ch # cur) depth (Some ch) s
      else if ch = CHR ''['' then split_loop (ch # cur) (depth + 1) None s
      else if ch = CHR '']'' then
        (if depth = 0 then None else split_loop (ch # cur) (depth - 1) None s)
      else if ch = CHR ''.'' \<and> depth = 0 then map_option ((#) (rev cur)) (split_loop [] 0 None s)
      else split_loop (ch # cur) depth None s)"

definition splitPathParts :: "string \<Rightarrow> string list option" where
  "splitPathParts path = split_loop [] 0 None path"

definition parseFilter :: "string \<Rightarrow> (string \<times> string) option" where
  "parseFilter inner =
     (let trimmed = trim_space inner in
      if \<not> has_prefix trimmed ''?('' \<or> \<not> has_suffix trimmed '')'' then None
      else
        let body = trim_space (butlast (drop 2 trimmed)) in
        if \<not> has_prefix body ''@.'' then None
        else
          let body' = trim_prefix body ''@.'' in
          case str_index body' ''=='' of
            None \<Rightarrow> None
          | Some i \<Rightarrow>
              let field = trim_space (take i body'); rawValue = trim_space (drop (i + 2) body') in
              if field = [] \<or> rawValue = [] then None
              else if length rawValue < 2 then None
              else if (hd rawValue \<noteq> CHR 0x22 \<and> hd rawValue \<noteq> CHR 0x27) \<or> last rawValue \<noteq> hd rawValue then None
              else Some (field, butlast (tl rawValue)))"

definition plain_part :: "string \<Rightarrow> path_part" where
  "plain_part name = \<lparr>pp_name = name, pp_idx = 0, pp_hasIdx = False, pp_isStar = False,
     pp_hasFilter = False, pp_filterField = [], pp_filterValue = []\<rparr>"

definition splitIndex :: "string \<Rightarrow> path_part option" where
  "splitIndex s =
     (if CHR ''['' \<notin> set s then Some (plain_part s)
      else if s = [] \<or> last s \<noteq> CHR '']'' then None
      else
        let name = takeWhile (\<lambda>c. c \<noteq> CHR ''['') s;
            inner = trim_space (butlast (tl (dropWhile (\<lambda>c. c \<noteq> CHR ''['') s))) in
        if inner = ''*'' then Some ((plain_part name)\<lparr>pp_hasIdx := True, pp_isStar := True\<rparr>)
        else
          case parseFilter inner of
            Some (field, value) \<Rightarrow>
              Some ((plain_part name)\<lparr>pp_hasIdx := True, pp_hasFilter := True,
                pp_filterField := field, pp_filterValue := value\<rparr>)
          | None \<Rightarrow>
              (case atoi inner of
                 None \<Rightarrow> None
               | Some n \<Rightarrow> Some ((plain_part name)\<lparr>pp_hasIdx := True, pp_idx := n\<rparr>)))"

fun compile_parts :: "string list \<Rightarrow> path_part list option" where
  "compile_parts [] = Some []"
| "compile_parts (raw # raws) =
     (let part = trim_space raw in
      if part = [] then None
      else
        case splitIndex part of
          None \<Rightarrow> None
        | Some p \<Rightarrow> map_option ((#) p) (compile_parts raws))"

definition compilePath :: "string \<Rightarrow> path_part list option" where
  "compilePath path =
     (let p = trim_space path in
      if p = [] \<or> \<not> has_prefix p ''$.'' then None
      else
        case splitPathParts (trim_prefix p ''$.'') of
          None \<Rightarrow> None
        | Some rawParts \<Rightarrow> compile_parts rawParts)"

definition ValidPath :: "string \<Rightarrow> bool" where
  "ValidPath path \<longleftrightarrow> compilePath path \<noteq> None"

section \<open>Filters\<close>

fun nested_field :: "json \<Rightarrow> string list \<Rightarrow> string option" where
  "nested_field v [] = (case v of JStr s \<Rightarrow> Some s | _ \<Rightarrow> None)"
| "nested_field v (raw # raws) =
     (let part = trim_space raw in
      if part = [] then None
      else
        case v of
          JObj obj \<Rightarrow> (case map_of obj part of None \<Rightarrow> None | Some nxt \<Rightarrow> nested_field nxt raws)
        | _ \<Rightarrow> None)"

definition getNestedStringField :: "json \<Rightarrow> string \<Rightarrow> string option" where
  "getNestedStringField v field = nested_field v (str_split (trim_space field) ''.'')"

definition matchesFilter :: "json \<Rightarrow> string \<Rightarrow> string \<Rightarrow> bool" where
  "matchesFilter v field want \<longleftrightarrow>
     (case getNestedStringField v field of
        None \<Rightarrow> False
      | Some got \<Rightarrow> equal_fold (trim_space got) (trim_space want))"

section \<open>Reading\<close>

definition enter_field :: "path_part \<Rightarrow> json \<Rightarrow> json option" where
  "enter_field p cur =
     (if pp_name p \<noteq> [] then (case cur of JObj m \<Rightarrow> map_of m (pp_name p) | _ \<Rightarrow> None) else Some cur)"

text \<open>Whether the path matched, and the values handed to the visitor, in order.\<close>

fun visitPathValues :: "json \<Rightarrow> path_part list \<Rightarrow> bool \<times> json list" where
  "visitPathValues cur [] = (True, [cur])"
| "visitPathValues cur (p # rest) =
     (case enter_field p cur of
        None \<Rightarrow> (False, [])
      | Some cur' \<Rightarrow>
          if \<not> pp_hasIdx p then visitPathValues cur' rest
          else
            case cur' of
              JArr arr \<Rightarrow>
                if pp_hasFilter p then
                  (True, concat (map (\<lambda>item. snd (visitPathValues item rest))
                     (filter (\<lambda>item. matchesFilter item (pp_filterField p) (pp_filterValue p)) arr)))
                else if pp_isStar p then
                  (if rest = [] then (True, arr)
                   else (True, concat (map (\<lambda>item. snd (visitPathValues item rest)) arr)))
                else if pp_idx p < 0 \<or> pp_idx p \<ge> int (length arr) then (False, [])
                else visitPathValues (arr ! nat (pp_idx p)) rest
            | _ \<Rightarrow> (False, []))"

text \<open>The first string of a list that is not blank.\<close>

fun first_nonblank :: "string list \<Rightarrow> string" where
  "first_nonblank [] = []"
| "first_nonblank (v # vs) = (if trim_space v \<noteq> [] then v else first_nonblank vs)"

fun getStringByParts :: "json \<Rightarrow> path_part list \<Rightarrow> string" where
  "getStringByParts cur [] = CoerceString cur"
| "getStringByParts cur (p # rest) =
     (case enter_field p cur of
        None \<Rightarrow> []
      | Some cur' \<Rightarrow>
          if \<not> pp_hasIdx p then getStringByParts cur' rest
          else
            case cur' of
              JArr arr \<Rightarrow>
                if pp_hasFilter p then
                  first_nonblank (map (\<lambda>item. if rest = [] then CoerceString item else getStringByParts item rest)
                    (filter (\<lambda>item. matchesFilter item (pp_filterField p) (pp_filterValue p)) arr))
                else if pp_isStar p then
                  (if rest = [] then first_nonblank (map CoerceString arr)
                   else first_nonblank (map (\<lambda>item. getStringByParts item rest) arr))
                else if pp_idx p < 0 \<or> pp_idx p \<ge> int (length arr) then []
                else getStringByParts (arr ! nat (pp_idx p)) rest
            | _ \<Rightarrow> [])"

definition GetValuesByPath :: "json \<Rightarrow> string \<Rightarrow> json list option" where
  "GetValuesByPath root path =
     (case compilePath path of
        None \<Rightarrow> None
      | Some parts \<Rightarrow> (let (ok, vals) = visitPathValues root parts in if ok then Some vals else None))"

definition GetStringByPath :: "json \<Rightarrow> string \<Rightarrow> string" where
  "GetStringByPath root path =
     (case compilePath path of None \<Rightarrow> [] | Some parts \<Rightarrow> getStringByParts root parts)"

fun GetFirstStringByPaths :: "json \<Rightarrow> string list \<Rightarrow> string" where
  "GetFirstStringByPaths root [] = []"
| "GetFirstStringByPaths root (path # paths) =
     (let v = trim_space (GetStringByPath root path) in if v \<noteq> [] then v else GetFirstStringByPaths root paths)"

definition GetIntByPath :: "json \<Rightarrow> string \<Rightarrow> int" where
  "GetIntByPath root path =
     (case GetValuesByPath root path of
        None \<Rightarrow> 0
      | Some vals \<Rightarrow> foldl (\<lambda>sum v. wrap64 (sum + CoerceInt v)) 0 vals)"

fun GetFirstIntByPaths :: "json \<Rightarrow> string list \<Rightarrow> int" where
  "GetFirstIntByPaths root [] = 0"
| "GetFirstIntByPaths root (path # paths) =
     (let v = GetIntByPath root path in if v \<noteq> 0 then v else GetFirstIntByPaths root paths)"

section \<open>Strings are read in the order of the visit\<close>

definition nonblank :: "string \<Rightarrow> string" where
  "nonblank s = (if trim_space s \<noteq> [] then s else [])"

lemma first_nonblank_append:
  "first_nonblank (xs @ ys) = (if first_nonblank xs = [] then first_nonblank ys else first_nonblank xs)"
  by (induction xs) auto

lemma first_nonblank_concat: "first_nonblank (concat xss) = first_nonblank (map first_nonblank xss)"
proof (induction xss)
  case (Cons xs xss)
  have "first_nonblank xs = [] \<or> trim_space (first_nonblank xs) \<noteq> []"
    by (induction xs) auto
  with Cons show ?case by (auto simp: first_nonblank_append)
qed simp

lemma first_nonblank_nonblank: "first_nonblank (map (\<lambda>x. nonblank (f x)) xs) = first_nonblank (map f xs)"
  by (induction xs) (auto simp: nonblank_def)

lemma nonblank_first_nonblank [simp]: "nonblank (first_nonblank xs) = first_nonblank xs"
  by (induction xs) (auto simp: nonblank_def)

lemma visit_unmatched: "fst (visitPathValues cur ps) \<or> snd (visitPathValues cur ps) = []"
  by (induction cur ps rule: visitPathValues.induct) (auto split: option.splits json.splits)

lemma getStringByParts_visit:
  "nonblank (getStringByParts cur ps) = first_nonblank (map CoerceString (snd (visitPathValues cur ps)))"
proof (induction ps arbitrary: cur)
  case (Cons p ps)
  have step: "first_nonblank (map (\<lambda>item. getStringByParts item ps) arr) =
      first_nonblank (map CoerceString (concat (map (\<lambda>item. snd (visitPathValues item ps)) arr)))" for arr
    using first_nonblank_nonblank[of "\<lambda>item. getStringByParts item ps" arr]
    by (simp add: Cons.IH map_concat first_nonblank_concat comp_def)
  show ?case
    using Cons.IH step by (auto simp: nonblank_def[of "[]"] split: option.splits json.splits)
qed (simp add: nonblank_def)

text \<open>
  Reading a string by path is reading the values the path denotes: the result, unless it is
  blank, is the first string that is not blank among the visited values, and it is blank only if
  there is none.
\<close>

theorem string_by_path_first:
  "nonblank (GetStringByPath root path) =
     first_nonblank (map CoerceString (case GetValuesByPath root path of None \<Rightarrow> [] | Some vs \<Rightarrow> vs))"
proof (cases "compilePath path")
  case (Some parts)
  then show ?thesis
    using getStringByParts_visit[of root parts] visit_unmatched[of root parts]
    by (auto simp: GetStringByPath_def GetValuesByPath_def split: prod.splits)
qed (simp add: GetStringByPath_def GetValuesByPath_def nonblank_def)

section \<open>The text of a path\<close>

definition visible :: "char \<Rightarrow> bool" where
  "visible c \<longleftrightarrow> 33 \<le> (of_char c :: nat) \<and> (of_char c :: nat) \<le> 126"

definition name_char :: "char \<Rightarrow> bool" where
  "name_char c \<longleftrightarrow> visible c \<and> c \<notin> {CHR ''.'', CHR ''['', CHR '']'', CHR 0x22, CHR 0x27}"

definition field_char :: "char \<Rightarrow> bool" where
  "field_char c \<longleftrightarrow> visible c \<and> c \<notin> {CHR ''['', CHR '']'', CHR 0x22, CHR 0x27, CHR ''=''}"

text \<open>
  The parts a configuration can write: a field, an index from zero on, a wildcard or a filter, alone
  or on a field.
\<close>

definition good_part :: "path_part \<Rightarrow> bool" where
  "good_part p \<longleftrightarrow>
     list_all name_char (pp_name p) \<and>
     (if \<not> pp_hasIdx p then p = plain_part (pp_name p) \<and> pp_name p \<noteq> []
      else if pp_hasFilter p then
        p = (plain_part (pp_name p))\<lparr>pp_hasIdx := True, pp_hasFilter := True,
              pp_filterField := pp_filterField p, pp_filterValue := pp_filterValue p\<rparr> \<and>
        pp_filterField p \<noteq> [] \<and> list_all field_char (pp_filterField p) \<and> CHR 0x22 \<notin> set (pp_filterValue p)
      else if pp_isStar p then p = (plain_part (pp_name p))\<lparr>pp_hasIdx := True, pp_isStar := True\<rparr>
      else p = (plain_part (pp_name p))\<lparr>pp_hasIdx := True, pp_idx := pp_idx p\<rparr> \<and>
        0 \<le> pp_idx p \<and> in_int64 (pp_idx p))"

definition filter_text :: "string \<Rightarrow> string \<Rightarrow> string" where
  "filter_text field value = ''?(@.'' @ field @ ''=='' @ [CHR 0x22] @ value @ [CHR 0x22] @ '')''"

definition index_text :: "path_part \<Rightarrow> string" where
  "index_text p =
     (if pp_hasFilter p then filter_text (pp_filterField p) (pp_filterValue p)
      else if pp_isStar p then ''*'' else itoa (nat (pp_idx p)))"

definition part_text :: "path_part \<Rightarrow> string" where
  "part_text p = pp_name p @ (if pp_hasIdx p then ''['' @ index_text p @ '']'' else [])"

definition path_text :: "path_part list \<Rightarrow> string" where
  "path_text ps = ''$.'' @ str_join ''.'' (map part_text ps)"

lemma visible_trim: "s \<noteq> [] \<Longrightarrow> visible (hd s) \<Longrightarrow> visible (last s) \<Longrightarrow> trim_space s = s"
  by (rule trim_space_id) (auto simp: visible_def digit7_iff is_ascii_space_iff)

lemma list_all_trim: "list_all visible s \<Longrightarrow> trim_space s = s"
  by (cases "s = []") (auto intro!: visible_trim simp: list_all_iff)

lemma name_char_visible: "list_all name_char s \<Longrightarrow> list_all visible s"
  by (auto simp: list_all_iff name_char_def)

lemma field_char_visible: "list_all field_char s \<Longrightarrow> list_all visible s"
  by (auto simp: list_all_iff field_char_def)

subsection \<open>Decimal indices\<close>

lemma digit_of:
  assumes "d < 10"
  shows "is_digit (char_of (48 + d))" "(of_char (char_of (48 + d)) :: int) = 48 + int d"
proof -
  have n: "(of_char (char_of (48 + d)) :: nat) = 48 + d" using assms by simp
  show "is_digit (char_of (48 + d))" using assms by (simp add: is_digit_def n)
  show "(of_char (char_of (48 + d)) :: int) = 48 + int d"
    using n by (metis of_nat_of_char of_nat_add of_nat_numeral)
qed

lemma itoa_digits: "list_all is_digit (itoa n) \<and> itoa n \<noteq> [] \<and> digits_value (itoa n) = int n"
proof (induction n rule: itoa.induct)
  case (1 n)
  show ?case
  proof (cases "n < 10")
    case True
    then show ?thesis using digit_of[OF True] by (subst (1 2 3) itoa.simps) (simp add: digits_value_def)
  next
    case False
    have m: "n mod 10 < 10" by simp
    have "10 * int (n div 10) + int (n mod 10) = int n"
      by (metis mult_div_mod_eq of_nat_add of_nat_mult of_nat_numeral)
    with 1 False digit_of[OF m] show ?thesis
      by (subst (1 2 3) itoa.simps) (simp add: digits_value_def)
  qed
qed

lemma digit_visible: "is_digit c \<Longrightarrow> visible c"
  by (simp add: is_digit_def visible_def)

lemma digit_not: "is_digit c \<Longrightarrow> c \<notin> {CHR ''-'', CHR ''+'', CHR ''.'', CHR ''['', CHR '']'', CHR 0x22, CHR 0x27, CHR ''*'', CHR ''?''}"
  by (auto simp: is_digit_def)

lemma atoi_itoa: "in_int64 (int n) \<Longrightarrow> atoi (itoa n) = Some (int n)"
proof -
  have "itoa n \<noteq> []" "is_digit (hd (itoa n))" using itoa_digits[of n] by (auto simp: list_all_iff)
  then have "hd (itoa n) \<notin> {CHR ''-'', CHR ''+''}" using digit_not by auto
  then show "in_int64 (int n) \<Longrightarrow> atoi (itoa n) = Some (int n)"
    using itoa_digits[of n] by (auto simp: atoi_def Let_def)
qed

subsection \<open>Cutting\<close>

lemma split_skip:
  assumes "\<forall>c \<in> set s. c \<notin> {CHR ''['', CHR '']'', CHR 0x22, CHR 0x27} \<and> (depth = 0 \<longrightarrow> c \<noteq> CHR ''.'')"
  shows "split_loop cur depth None (s @ rest) = split_loop (rev s @ cur) depth None rest"
  using assms by (induction s arbitrary: cur) auto

lemma split_quoted:
  "q \<notin> set s \<Longrightarrow> split_loop cur depth (Some q) (s @ rest) = split_loop (rev s @ cur) depth (Some q) rest"
  by (induction s arbitrary: cur) auto

lemma split_index_text:
  assumes "good_part p" "pp_hasIdx p"
  shows "split_loop cur 1 None (index_text p @ rest) = split_loop (rev (index_text p) @ cur) 1 None rest"
proof (cases "pp_hasFilter p")
  case True
  let ?a = "''?(@.'' @ pp_filterField p @ ''==''" and ?v = "pp_filterValue p"
  have v: "CHR 0x22 \<notin> set ?v" and "list_all field_char (pp_filterField p)"
    using assms True by (auto simp: good_part_def)
  then have "split_loop cur 1 None (?a @ r) = split_loop (rev ?a @ cur) 1 None r" for r
    by (intro split_skip) (auto simp: field_char_def list_all_iff)
  note a = this[of "[CHR 0x22] @ ?v @ [CHR 0x22] @ '')'' @ rest"]
  show ?thesis using a v by (simp add: index_text_def True filter_text_def split_quoted)
next
  case False
  then show ?thesis
    using itoa_digits[of "nat (pp_idx p)"] digit_not
    by (intro split_skip) (auto simp: index_text_def list_all_iff)
qed

lemma split_part_text:
  assumes "good_part p"
  shows "split_loop cur 0 None (part_text p @ rest) = split_loop (rev (part_text p) @ cur) 0 None rest"
proof -
  have "split_loop cur 0 None (pp_name p @ r) = split_loop (rev (pp_name p) @ cur) 0 None r" for r
    using assms by (intro split_skip) (auto simp: good_part_def name_char_def list_all_iff)
  then show ?thesis using split_index_text[OF assms] by (simp add: part_text_def)
qed

lemma split_path_text:
  "list_all good_part (p # ps) \<Longrightarrow>
     splitPathParts (str_join ''.'' (map part_text (p # ps))) = Some (map part_text (p # ps))"
proof (induction ps arbitrary: p)
  case Nil
  then show ?case using split_part_text[of p "[]" "[]"] by (simp add: splitPathParts_def)
next
  case (Cons q ps)
  then have "splitPathParts (str_join ''.'' (map part_text (q # ps))) = Some (map part_text (q # ps))" by simp
  with Cons.prems show ?case using split_part_text[of p "[]"] by (simp add: splitPathParts_def)
qed

subsection \<open>Parsing a part\<close>

lemma has_suffix_append [simp]: "has_suffix (s @ t) t"
  by (simp add: has_suffix_def)

lemma parseFilter_text:
  assumes "field \<noteq> []" "list_all field_char field"
  shows "parseFilter (filter_text field value) = Some (field, value)"
proof -
  let ?q = "[CHR 0x22] @ value @ [CHR 0x22]" and ?b = "''@.'' @ field @ ''=='' @ [CHR 0x22] @ value @ [CHR 0x22]"
  have v: "visible (CHR ''?'')" "visible (CHR '')'')" "visible (CHR ''@'')" "visible (CHR 0x22)" by (simp_all add: visible_def)
  have t: "trim_space (filter_text field value) = filter_text field value"
    by (rule visible_trim) (auto simp: filter_text_def v)
  have b: "butlast (drop 2 (filter_text field value)) = ?b" by (simp add: filter_text_def butlast_append)
  have tb: "trim_space ?b = ?b" by (rule visible_trim) (simp_all add: v)
  have "CHR ''='' \<notin> set field" using assms(2) by (auto simp: field_char_def list_all_iff)
  then have i: "str_index (field @ ''=='' @ ?q) ''=='' = Some (length field)"
    using str_index_at[of "CHR ''=''" field "''='' @ ?q" "''=''"] by simp
  have tf: "trim_space field = field" by (rule list_all_trim[OF field_char_visible[OF assms(2)]])
  have tq: "trim_space ?q = ?q" by (rule visible_trim) (simp_all add: v)
  have s: "has_prefix (filter_text field value) ''?(''" "has_suffix (filter_text field value) '')''"
    using has_suffix_append[of "''?(@.'' @ field @ ''=='' @ ?q" "'')''"] by (simp_all add: filter_text_def)
  show ?thesis
    unfolding parseFilter_def t b Let_def tb
    using s i tf tq assms(1) by (simp add: trim_prefix_def butlast_append)
qed

lemma parseFilter_plain: "\<not> has_prefix (trim_space s) ''?('' \<Longrightarrow> parseFilter s = None"
  by (simp add: parseFilter_def)

lemma index_text_shape:
  assumes "good_part p" "pp_hasIdx p"
  shows "trim_space (index_text p) = index_text p" "pp_hasFilter p \<or> pp_isStar p \<or> list_all is_digit (index_text p)"
    "pp_hasFilter p \<or> \<not> pp_isStar p \<Longrightarrow> index_text p \<noteq> ''*''"
proof -
  let ?n = "nat (pp_idx p)"
  have d: "list_all visible (itoa ?n)" "itoa ?n \<noteq> ''*''"
    using itoa_digits[of ?n] digit_visible by (auto simp: list_all_iff is_digit_def[of "CHR ''*''"])
  have f: "trim_space (filter_text fl v) = filter_text fl v" for fl v
    by (rule visible_trim) (auto simp: filter_text_def visible_def)
  show "trim_space (index_text p) = index_text p"
    using list_all_trim[OF d(1)] list_all_trim[of "''*''"] f by (auto simp: index_text_def visible_def)
  show "pp_hasFilter p \<or> pp_isStar p \<or> list_all is_digit (index_text p)"
    using itoa_digits[of ?n] by (auto simp: index_text_def)
  show "pp_hasFilter p \<or> \<not> pp_isStar p \<Longrightarrow> index_text p \<noteq> ''*''"
    using d(2) by (auto simp: index_text_def filter_text_def)
qed

lemma cut_at: "c \<notin> set s \<Longrightarrow> takeWhile (\<lambda>x. x \<noteq> c) (s @ c # r) = s \<and> dropWhile (\<lambda>x. x \<noteq> c) (s @ c # r) = c # r"
  by (induction s) auto

lemma splitIndex_text:
  assumes "good_part p"
  shows "splitIndex (part_text p) = Some p"
proof (cases "pp_hasIdx p")
  case False
  then show ?thesis using assms by (auto simp: splitIndex_def part_text_def good_part_def name_char_def list_all_iff)
next
  case True
  let ?i = "index_text p"
  have name: "CHR ''['' \<notin> set (pp_name p)" using assms by (auto simp: good_part_def name_char_def list_all_iff)
  then have cut: "takeWhile (\<lambda>c. c \<noteq> CHR ''['') (part_text p) = pp_name p"
      "butlast (tl (dropWhile (\<lambda>c. c \<noteq> CHR ''['') (part_text p))) = ?i"
    using True cut_at[OF name, of "?i @ '']''"] by (simp_all add: part_text_def butlast_append)
  have shape: "CHR ''['' \<in> set (part_text p)" "part_text p \<noteq> []" "last (part_text p) = CHR '']''"
    using True by (simp_all add: part_text_def)
  note ix = index_text_shape[OF assms True]
  show ?thesis
  proof (cases "pp_hasFilter p")
    case f: True
    then have "parseFilter ?i = Some (pp_filterField p, pp_filterValue p)"
      using assms True by (auto simp: index_text_def good_part_def intro: parseFilter_text)
    with f True assms shape cut ix show ?thesis by (auto simp: splitIndex_def Let_def good_part_def plain_part_def)
  next
    case f: False
    show ?thesis
    proof (cases "pp_isStar p")
      case s: True
      with f True assms shape cut ix show ?thesis by (auto simp: splitIndex_def Let_def good_part_def index_text_def)
    next
      case s: False
      have "\<not> has_prefix ?i ''?(''" using ix(2) f s digit_not by (cases ?i) auto
      then have "parseFilter ?i = None" using ix(1) by (simp add: parseFilter_plain)
      moreover have "atoi ?i = Some (pp_idx p)"
        using f s True assms atoi_itoa[of "nat (pp_idx p)"] by (simp add: index_text_def good_part_def)
      ultimately show ?thesis
        using f s True assms shape cut ix by (auto simp: splitIndex_def Let_def good_part_def)
    qed
  qed
qed

lemma part_text_ends:
  assumes "good_part p"
  shows "part_text p \<noteq> []" "visible (hd (part_text p))" "visible (last (part_text p))"
proof -
  have "list_all visible (pp_name p)" using assms name_char_visible by (auto simp: good_part_def)
  then show "part_text p \<noteq> []" "visible (hd (part_text p))" "visible (last (part_text p))"
    using assms by (auto simp: part_text_def good_part_def list_all_iff visible_def hd_append split: if_splits)
qed

lemma compile_part_texts: "list_all good_part ps \<Longrightarrow> compile_parts (map part_text ps) = Some ps"
  by (induction ps) (auto simp: splitIndex_text visible_trim part_text_ends Let_def)

lemma last_str_join: "xs \<noteq> [] \<Longrightarrow> last xs \<noteq> [] \<Longrightarrow> str_join sep xs \<noteq> [] \<and> last (str_join sep xs) = last (last xs)"
  by (induction sep xs rule: str_join.induct) auto

text \<open>
  Paths can be written down and read back: the text of any path of fields, indices, wildcards and
  filters compiles to exactly that path.
\<close>

theorem path_text_roundtrip:
  assumes "ps \<noteq> []" "list_all good_part ps"
  shows "compilePath (path_text ps) = Some ps"
proof -
  let ?j = "str_join ''.'' (map part_text ps)"
  have "good_part (last ps)" using assms by (auto simp: list_all_iff)
  then have l: "?j \<noteq> []" "visible (last ?j)"
    using last_str_join[of "map part_text ps" "''.''"] part_text_ends[of "last ps"] assms(1) by (auto simp: last_map)
  have t: "trim_space (path_text ps) = path_text ps"
    by (rule visible_trim) (use l in \<open>auto simp: path_text_def visible_def\<close>)
  have "splitPathParts ?j = Some (map part_text ps)"
    using assms split_path_text by (cases ps) (auto simp del: str_join.simps list.map)
  with assms t show ?thesis
    by (simp add: compilePath_def Let_def path_text_def trim_prefix_def compile_part_texts)
qed

definition demo_path :: "path_part list" where
  "demo_path = [plain_part ''usage'', (plain_part ''items'')\<lparr>pp_hasIdx := True, pp_idx := 12\<rparr>,
     (plain_part ''parts'')\<lparr>pp_hasIdx := True, pp_hasFilter := True, pp_filterField := ''meta.kind'', pp_filterValue := ''a.[b''\<rparr>,
     (plain_part [])\<lparr>pp_hasIdx := True, pp_isStar := True\<rparr>]"

theorem path_text_roundtrip_witness:
  "path_text demo_path = ''$.usage.items[12].parts[?(@.meta.kind=='' @ [CHR 0x22] @ ''a.[b'' @ [CHR 0x22] @ '')].[*]'' \<and>
   compilePath (path_text demo_path) = Some demo_path"
proof
  show "path_text demo_path = ''$.usage.items[12].parts[?(@.meta.kind=='' @ [CHR 0x22] @ ''a.[b'' @ [CHR 0x22] @ '')].[*]''"
    by code_simp
  have "list_all good_part demo_path" by code_simp
  moreover have "demo_path \<noteq> []" by (simp add: demo_path_def)
  ultimately show "compilePath (path_text demo_path) = Some demo_path" by (intro path_text_roundtrip)
qed

end
