(* ===== verification/Dsl_Expr.thy ===== *)
theory Dsl_Expr
  imports Json_Path
begin

text \<open>
  The string expressions of provider configurations, in \<^verbatim>\<open>onr-core/pkg/dslconfig\<close>: quoting
  (\<^verbatim>\<open>core_preprocess.go\<close>), argument splitting, variables, templates and evaluation (\<^verbatim>\<open>routing.go\<close>),
  the conditional (\<^verbatim>\<open>expr_if_present.go\<close>) and the validation at load time (\<^verbatim>\<open>validate_routing.go\<close>).

  \<open>meta\<close> holds the fields of \<^verbatim>\<open>dslmeta.Meta\<close> the modelled code reads; the parsed request body and the
  names of the uploaded files are two of them. Evaluation and validation recurse on arguments that
  are shorter than the expression, which is their termination measure.

  Shown: the evaluator implements the abstract semantics of expressions on the text of every
  expression, and an expression that passes validation fails at run time only for an empty variable.
\<close>

section \<open>Metadata\<close>

record meta =
  mt_API :: string
  mt_IsStream :: bool
  mt_BaseURL :: string
  mt_APIKey :: string
  mt_OAuthAccessToken :: string
  mt_CredentialProjectID :: string
  mt_ChannelLocation :: string
  mt_UpstreamTransport :: string
  mt_OriginModelName :: string
  mt_DSLModelMapped :: string
  mt_TaskID :: string
  mt_TaskUpstreamID :: string
  mt_RequestURLPath :: string
  mt_RequestRoot :: json
  mt_FileFields :: "string list"
  mt_OAuthCacheKey :: string
  mt_CredentialFile :: string
  mt_CredentialJSON :: string
  mt_AWSAccessKeyID :: string
  mt_AWSSecretAccessKey :: string
  mt_AWSSessionToken :: string
  mt_AWSRegion :: string
  mt_RequestContentType :: string

definition RequestHasUploadedFile :: "meta \<Rightarrow> string \<Rightarrow> bool" where
  "RequestHasUploadedFile meta field \<longleftrightarrow> trim_space field \<noteq> [] \<and> field \<in> set (mt_FileFields meta)"

section \<open>Quoting\<close>

definition replace_all :: "string \<Rightarrow> string \<Rightarrow> string \<Rightarrow> string" where
  "replace_all old new s = str_join new (str_split s old)"

abbreviation bs :: char where "bs \<equiv> CHR 0x5C"
abbreviation dq :: char where "dq \<equiv> CHR 0x22"
abbreviation sq :: char where "sq \<equiv> CHR 0x27"

definition unquoteString :: "string \<Rightarrow> string" where
  "unquoteString raw =
     (if length raw < 2 then raw
      else
        let quote = hd raw in
        if (quote \<noteq> dq \<and> quote \<noteq> sq) \<or> last raw \<noteq> quote then raw
        else
          let inner = butlast (tl raw);
              i1 = replace_all [bs, bs] [bs] inner;
              i2 = (if quote = dq then replace_all [bs, dq] [dq] i1 else replace_all [bs, sq] [sq] i1);
              i3 = replace_all [bs, CHR ''n''] [CHR 0x0A] i2 in
          replace_all [bs, CHR ''t''] [CHR 0x09] i3)"

definition isQuotedStringExpr :: "string \<Rightarrow> bool" where
  "isQuotedStringExpr expr \<longleftrightarrow>
     (let raw = trim_space expr in
      \<not> length raw < 2 \<and> ((hd raw = dq \<and> last raw = dq) \<or> (hd raw = sq \<and> last raw = sq)))"

section \<open>Arguments\<close>

definition flush :: "string \<Rightarrow> string list \<Rightarrow> string list" where
  "flush cur parts = (let p = trim_space (rev cur) in if p \<noteq> [] then p # parts else parts)"

text \<open>
  The loop of \<^verbatim>\<open>splitTopLevelArgs\<close>: \<open>cur\<close> is the buffer in reverse, \<open>depth\<close> counts open parentheses,
  \<open>quote\<close> is the open quote and \<open>escaped\<close> tells that a backslash precedes.
\<close>

fun args_loop :: "string \<Rightarrow> nat \<Rightarrow> char option \<Rightarrow> bool \<Rightarrow> string \<Rightarrow> string list" where
  "args_loop cur depth quote escaped [] = flush cur []"
| "args_loop cur depth (Some q) escaped (ch # s) =
     (if escaped then args_loop (ch # cur) depth (Some q) False s
      else if ch = bs then args_loop (ch # cur) depth (Some q) True s
      else args_loop (ch # cur) depth (if ch = q then None else Some q) False s)"
| "args_loop cur depth None escaped (ch # s) =
     (if ch = dq \<or> ch = sq then args_loop (ch # cur) depth (Some ch) escaped s
      else if ch = CHR ''('' then args_loop (ch # cur) (depth + 1) None escaped s
      else if ch = CHR '')'' then args_loop (ch # cur) (depth - 1) None escaped s
      else if ch = CHR '','' \<and> depth = 0 then flush cur (args_loop [] 0 None escaped s)
      else args_loop (ch # cur) depth None escaped s)"

definition splitTopLevelArgs :: "string \<Rightarrow> string list" where
  "splitTopLevelArgs s = args_loop [] 0 None False s"

section \<open>Variables\<close>

definition builtin_variables :: "string list" where
  "builtin_variables =
     [''$channel.base_url'', ''$channel.key'', ''$channel.location'', ''$credential.project_id'',
      ''$oauth.access_token'', ''$request.model'', ''$request.model_mapped'', ''$task.id'', ''$task.upstream_id'']"

definition isBuiltinStringVariable :: "string \<Rightarrow> bool" where
  "isBuiltinStringVariable expr \<longleftrightarrow> trim_space expr \<in> set builtin_variables"

definition evalBuiltinStringVariable :: "string \<Rightarrow> meta \<Rightarrow> string" where
  "evalBuiltinStringVariable expr meta =
     (let e = trim_space expr in
      if e = ''$channel.base_url'' then mt_BaseURL meta
      else if e = ''$channel.key'' then mt_APIKey meta
      else if e = ''$channel.location'' then mt_ChannelLocation meta
      else if e = ''$credential.project_id'' then mt_CredentialProjectID meta
      else if e = ''$oauth.access_token'' then mt_OAuthAccessToken meta
      else if e = ''$request.model'' then mt_OriginModelName meta
      else if e = ''$request.model_mapped'' then
        (if mt_DSLModelMapped meta \<noteq> [] then mt_DSLModelMapped meta else mt_OriginModelName meta)
      else if e = ''$task.id'' then mt_TaskID meta
      else if e = ''$task.upstream_id'' then mt_TaskUpstreamID meta
      else [])"

definition normalizeTemplateVariable :: "string \<Rightarrow> string option" where
  "normalizeTemplateVariable name =
     (let n = trim_space name in
      if n = [] then None
      else
        let n' = (if has_prefix n ''$'' then n else CHR ''$'' # n) in
        if isBuiltinStringVariable n' then Some n' else None)"

definition referencesVariable :: "string \<Rightarrow> string \<Rightarrow> bool" where
  "referencesVariable expr variable \<longleftrightarrow>
     (let v = trim_space (trim_prefix variable ''$''); e = trim_space expr in
      v \<noteq> [] \<and> (str_contains e v \<or> str_contains e (CHR ''$'' # v)))"

section \<open>Evaluation\<close>

datatype expr_error =
    EmptyVariable string
  | UnsupportedVariable string
  | IfPresentArity nat
  | IfPresentPathNotQuoted
  | IfPresentPathEmpty
  | IfPresentPathForm
  | EmptyExpr
  | ConcatNoArgs
  | TemplateShape
  | UnclosedPlaceholder
  | UnsupportedExpr string

lemma length_after_brace:
  assumes "has_prefix t ''${''"
  shows "length (dropWhile P (drop 2 t)) - Suc 0 < length t"
  using assms length_dropWhile_le[of P "drop 2 t"] prefix_length_le[OF assms] by simp

function evalTemplateString :: "meta \<Rightarrow> bool \<Rightarrow> string \<Rightarrow> expr_error + string" where
  "evalTemplateString meta req tmpl =
     (if tmpl = [] then Inr []
      else if has_prefix tmpl ([bs] @ ''${'') then
        bind_res (evalTemplateString meta req (drop 3 tmpl)) (\<lambda>r. Inr (''${'' @ r))
      else if \<not> has_prefix tmpl ''${'' then
        bind_res (evalTemplateString meta req (tl tmpl)) (\<lambda>r. Inr (hd tmpl # r))
      else if CHR ''}'' \<notin> set (drop 2 tmpl) then Inr tmpl
      else
        let body = drop 2 tmpl;
            name = trim_space (takeWhile (\<lambda>c. c \<noteq> CHR ''}'') body);
            rest = tl (dropWhile (\<lambda>c. c \<noteq> CHR ''}'') body) in
        case normalizeTemplateVariable name of
          Some expr \<Rightarrow>
            let value = evalBuiltinStringVariable expr meta in
            if req \<and> trim_space value = [] then Inl (EmptyVariable expr)
            else bind_res (evalTemplateString meta req rest) (\<lambda>r. Inr (value @ r))
        | None \<Rightarrow> if req then Inl (UnsupportedVariable name) else evalTemplateString meta req rest)"
  by pat_completeness auto
termination
  by (relation "measure (\<lambda>(meta, req, tmpl). length tmpl)") (simp_all add: length_after_brace)

declare evalTemplateString.simps [simp del]

definition isIfPresentExpr :: "string \<Rightarrow> bool" where
  "isIfPresentExpr raw \<longleftrightarrow> (let t = trim_space raw in has_prefix t ''if_present('' \<and> has_suffix t '')'')"

definition call_args :: "string \<Rightarrow> string \<Rightarrow> string list" where
  "call_args fn raw = splitTopLevelArgs (trim_suffix (trim_prefix raw fn) '')'')"

definition carries_value :: "json \<Rightarrow> bool" where
  "carries_value v =
     (case v of
        JNull \<Rightarrow> False
      | JArr xs \<Rightarrow> xs \<noteq> []
      | JObj m \<Rightarrow> m \<noteq> []
      | JStr s \<Rightarrow> trim_space s \<noteq> []
      | _ \<Rightarrow> True)"

definition requestPathCarriesValue :: "json \<Rightarrow> string \<Rightarrow> bool" where
  "requestPathCarriesValue root path \<longleftrightarrow>
     (case GetValuesByPath root path of None \<Rightarrow> False | Some values \<Rightarrow> list_ex carries_value values)"

definition requestPathPresent :: "meta \<Rightarrow> string \<Rightarrow> bool" where
  "requestPathPresent meta path \<longleftrightarrow>
     (if requestPathCarriesValue (mt_RequestRoot meta) path then True
      else if has_prefix path ''$.'' \<and> CHR ''.'' \<notin> set (drop 2 path) \<and> CHR ''['' \<notin> set (drop 2 path)
      then RequestHasUploadedFile meta (drop 2 path)
      else False)"

lemma map_res_cong [fundef_cong]:
  "xs = ys \<Longrightarrow> (\<And>x. x \<in> set ys \<Longrightarrow> f x = g x) \<Longrightarrow> map_res f xs = map_res g ys"
  by (induction xs arbitrary: ys) (auto cong: option.case_cong)

lemma length_trim_space: "length (trim_space s) \<le> length s"
proof -
  have "length (trim_right t) \<le> length t" for t by (rule prefix_length_le[OF trim_right_prefix])
  moreover have "length (trim_left s) \<le> length s"
    by (simp add: trim_left_def suffix_length_le[OF drop_spaces_suffix])
  ultimately show ?thesis unfolding trim_space_def using order_trans by blast
qed

lemma flush_length: "a \<in> set (flush cur parts) \<Longrightarrow> a \<in> set parts \<or> length a \<le> length cur"
  using length_trim_space[of "rev cur"] by (auto simp: flush_def Let_def split: if_splits)

lemma args_loop_length: "a \<in> set (args_loop cur depth quote escaped s) \<Longrightarrow> length a \<le> length cur + length s"
proof (induction cur depth quote escaped s arbitrary: a rule: args_loop.induct)
  case (1 cur depth quote escaped)
  then show ?case by (auto dest: flush_length)
next
  case (2 cur depth q escaped ch s)
  then show ?case by (fastforce split: if_splits)
next
  case (3 cur depth escaped ch s)
  then show ?case by (fastforce split: if_splits dest: flush_length)
qed

lemma call_args_shorter:
  assumes "has_prefix raw fn" "fn \<noteq> []" "a \<in> set (call_args fn raw)"
  shows "length a < length raw"
proof -
  have "length a \<le> length (trim_suffix (trim_prefix raw fn) '')'')"
    using assms(3) args_loop_length by (fastforce simp: call_args_def splitTopLevelArgs_def)
  also have "\<dots> \<le> length (trim_prefix raw fn)" by (simp add: trim_suffix_def)
  also have "\<dots> < length raw"
    using assms(1,2) prefix_length_le[OF assms(1)] by (cases fn) (auto simp: trim_prefix_def)
  finally show ?thesis .
qed

lemma call_args_measure:
  assumes "has_prefix (trim_space expr) fn" "fn \<noteq> []" "a \<in> set (call_args fn (trim_space expr))"
  shows "length a < length expr"
  using call_args_shorter[OF assms] length_trim_space[of expr] by linarith

lemma in_set_tlD: "a \<in> set (tl xs) \<Longrightarrow> a \<in> set xs"
  by (cases xs) auto

lemma isIfPresent_prefix: "isIfPresentExpr (trim_space e) \<Longrightarrow> has_prefix (trim_space e) ''if_present(''"
  by (simp add: isIfPresentExpr_def Let_def)

text \<open>
  The result of an expression; in lenient mode (\<open>req = False\<close>) blank and unknown variables vanish, in
  the strict mode of routing they are errors.
\<close>

function evalStringExprValue :: "meta \<Rightarrow> bool \<Rightarrow> string \<Rightarrow> expr_error + string" where
  "evalStringExprValue meta req expr =
     (let raw = trim_space expr in
      if raw = [] then Inr []
      else if has_prefix raw ''template('' \<and> has_suffix raw '')'' then
        (let args = call_args ''template('' raw in
         if length args \<noteq> 1 \<or> \<not> isQuotedStringExpr (args ! 0) then Inr raw
         else evalTemplateString meta req (unquoteString (trim_space (args ! 0))))
      else if isIfPresentExpr raw then
        (let args = call_args ''if_present('' raw in
         if length args \<noteq> 3 then Inl (IfPresentArity (length args))
         else
           let pathArg = trim_space (args ! 0) in
           if \<not> isQuotedStringExpr pathArg then Inl IfPresentPathNotQuoted
           else
             let path = trim_space (unquoteString pathArg) in
             if path = [] then Inl IfPresentPathEmpty
             else evalStringExprValue meta req (if requestPathPresent meta path then args ! 1 else args ! 2))
      else if has_prefix raw ''concat('' \<and> has_suffix raw '')'' then
        bind_res (map_res (evalStringExprValue meta req) (call_args ''concat('' raw)) (\<lambda>parts. Inr (concat parts))
      else if isQuotedStringExpr raw then Inr (unquoteString raw)
      else if isBuiltinStringVariable raw then
        (let v = evalBuiltinStringVariable raw meta in
         if req \<and> trim_space v = [] then Inl (EmptyVariable raw) else Inr v)
      else Inr raw)"
  by pat_completeness auto
termination
proof (relation "measure (\<lambda>(meta, req, expr). length expr)", goal_cases)
  case 2
  then show ?case by (auto intro!: call_args_measure[where fn = "''if_present(''"] dest: isIfPresent_prefix)
next
  case 3
  then show ?case by (auto intro!: call_args_measure[where fn = "''concat(''"])
qed simp

declare evalStringExprValue.simps [simp del]

definition EvalStringExpr :: "string \<Rightarrow> meta \<Rightarrow> string" where
  "EvalStringExpr expr meta = (case evalStringExprValue meta False expr of Inl _ \<Rightarrow> [] | Inr v \<Rightarrow> v)"

definition evalRoutingStringExpr :: "string \<Rightarrow> meta \<Rightarrow> expr_error + string" where
  "evalRoutingStringExpr expr meta = evalStringExprValue meta True expr"

section \<open>Validation\<close>

function validateTemplateString :: "string \<Rightarrow> expr_error option" where
  "validateTemplateString tmpl =
     (if tmpl = [] then None
      else if has_prefix tmpl ([bs] @ ''${'') then validateTemplateString (drop 3 tmpl)
      else if \<not> has_prefix tmpl ''${'' then validateTemplateString (tl tmpl)
      else if CHR ''}'' \<notin> set (drop 2 tmpl) then Some UnclosedPlaceholder
      else
        let name = trim_space (takeWhile (\<lambda>c. c \<noteq> CHR ''}'') (drop 2 tmpl)) in
        if normalizeTemplateVariable name = None then Some (UnsupportedVariable name)
        else validateTemplateString (tl (dropWhile (\<lambda>c. c \<noteq> CHR ''}'') (drop 2 tmpl))))"
  by pat_completeness auto
termination
  by (relation "measure length") (simp_all add: length_after_brace)

declare validateTemplateString.simps [simp del]

definition validateTemplateExpr :: "string \<Rightarrow> expr_error + string" where
  "validateTemplateExpr raw =
     (let args = call_args ''template('' raw in
      if length args \<noteq> 1 then Inl TemplateShape
      else
        let arg = trim_space (args ! 0) in
        if \<not> isQuotedStringExpr arg then Inl TemplateShape
        else
          let tmpl = unquoteString arg in
          case validateTemplateString tmpl of Some e \<Rightarrow> Inl e | None \<Rightarrow> Inr tmpl)"

definition validateIfPresentExpr :: "string \<Rightarrow> expr_error option" where
  "validateIfPresentExpr raw =
     (let args = call_args ''if_present('' (trim_space raw) in
      if length args \<noteq> 3 then Some (IfPresentArity (length args))
      else
        let pathArg = trim_space (args ! 0) in
        if \<not> isQuotedStringExpr pathArg then Some IfPresentPathNotQuoted
        else
          let path = trim_space (unquoteString pathArg) in
          if path = [] then Some IfPresentPathEmpty
          else if \<not> has_prefix path ''$'' then Some IfPresentPathForm
          else None)"

text \<open>The first error of a list of checks, in order.\<close>

fun first_error :: "('a \<Rightarrow> 'e option) \<Rightarrow> 'a list \<Rightarrow> 'e option" where
  "first_error f [] = None"
| "first_error f (x # xs) = (case f x of Some e \<Rightarrow> Some e | None \<Rightarrow> first_error f xs)"

lemma first_error_cong [fundef_cong]:
  "xs = ys \<Longrightarrow> (\<And>x. x \<in> set ys \<Longrightarrow> f x = g x) \<Longrightarrow> first_error f xs = first_error g ys"
  by (induction xs arbitrary: ys) (auto split: option.splits)

lemma first_error_None: "first_error f xs = None \<longleftrightarrow> (\<forall>x \<in> set xs. f x = None)"
  by (induction xs) (auto split: option.splits)

function ValidateStringExpr :: "string \<Rightarrow> expr_error option" where
  "ValidateStringExpr expr =
     (let raw = trim_space expr in
      if raw = [] then Some EmptyExpr
      else if isQuotedStringExpr raw \<or> isBuiltinStringVariable raw then None
      else if isIfPresentExpr raw then
        (case validateIfPresentExpr raw of
           Some e \<Rightarrow> Some e
         | None \<Rightarrow> first_error ValidateStringExpr (tl (call_args ''if_present('' (trim_space raw))))
      else if has_prefix raw ''concat('' \<and> has_suffix raw '')'' then
        (let args = call_args ''concat('' raw in
         if args = [] then Some ConcatNoArgs else first_error ValidateStringExpr args)
      else if has_prefix raw ''template('' \<and> has_suffix raw '')'' then
        (case validateTemplateExpr raw of Inl e \<Rightarrow> Some e | Inr _ \<Rightarrow> None)
      else Some (UnsupportedExpr raw))"
  by pat_completeness auto
termination
proof (relation "measure length", goal_cases)
  case 2
  then show ?case
    by (auto intro!: call_args_measure[where fn = "''if_present(''"] dest: isIfPresent_prefix in_set_tlD)
next
  case 3
  then show ?case by (auto intro!: call_args_measure[where fn = "''concat(''"])
qed simp

declare ValidateStringExpr.simps [simp del]

section \<open>Validated expressions do not fail\<close>

definition blank_variable :: "meta \<Rightarrow> bool \<Rightarrow> expr_error \<Rightarrow> bool" where
  "blank_variable meta req e \<longleftrightarrow>
     req \<and> (\<exists>v. e = EmptyVariable v \<and> isBuiltinStringVariable v \<and> trim_space (evalBuiltinStringVariable v meta) = [])"

lemma normalizeTemplateVariable_builtin: "normalizeTemplateVariable n = Some e \<Longrightarrow> isBuiltinStringVariable e"
  by (auto simp: normalizeTemplateVariable_def Let_def split: if_splits)

lemma validated_template:
  "validateTemplateString t = None \<Longrightarrow> evalTemplateString meta req t = Inl e \<Longrightarrow> blank_variable meta req e"
proof (induction t rule: validateTemplateString.induct)
  case (1 t)
  from 1(4,5) show ?case
    using 1(1-3) normalizeTemplateVariable_builtin
    by (subst (asm) validateTemplateString.simps, subst (asm) evalTemplateString.simps)
       (auto simp: bind_res_eq_Inl Let_def blank_variable_def split: if_splits option.splits)
qed

lemma quoted_head: "isQuotedStringExpr (trim_space s) \<Longrightarrow> hd (trim_space s) \<in> {dq, sq}"
  by (auto simp: isQuotedStringExpr_def Let_def)

lemma builtin_head: "isBuiltinStringVariable (trim_space s) \<Longrightarrow> hd (trim_space s) = CHR ''$''"
  by (auto simp: isBuiltinStringVariable_def builtin_variables_def)

lemma call_head:
  "has_prefix s ''template('' \<Longrightarrow> hd s = CHR ''t''"
  "has_prefix s ''concat('' \<Longrightarrow> hd s = CHR ''c''"
  "has_prefix s ''if_present('' \<Longrightarrow> hd s = CHR ''i''"
  by (auto simp: prefix_def)

lemma map_res_Inl: "map_res f xs = Inl e \<Longrightarrow> \<exists>x \<in> set xs. f x = Inl e"
  by (induction xs) (auto simp: bind_res_eq_Inl)

text \<open>
  C16. Validation at load time is sound: an expression that passes it can fail at run time only in the
  strict mode of routing and only because a builtin variable it uses is blank; in lenient mode it
  always has a value.
\<close>

theorem validated_expr_evaluates:
  assumes "ValidateStringExpr expr = None" and "evalStringExprValue meta req expr = Inl e"
  shows "blank_variable meta req e"
  using assms
proof (induction expr rule: ValidateStringExpr.induct)
  case (1 expr)
  let ?raw = "trim_space expr"
  note val = 1(3)[unfolded ValidateStringExpr.simps[of expr] Let_def]
  note ev = 1(4)[unfolded evalStringExprValue.simps[of meta req expr] Let_def]
  consider (quoted) "isQuotedStringExpr ?raw" | (var) "isBuiltinStringVariable ?raw" "\<not> isQuotedStringExpr ?raw"
    | (cond) "isIfPresentExpr ?raw" "\<not> isQuotedStringExpr ?raw" "\<not> isBuiltinStringVariable ?raw"
    | (cat) "has_prefix ?raw ''concat(''" "has_suffix ?raw '')''" "\<not> isIfPresentExpr ?raw"
        "\<not> isQuotedStringExpr ?raw" "\<not> isBuiltinStringVariable ?raw"
    | (tmpl) "has_prefix ?raw ''template(''" "has_suffix ?raw '')''" "\<not> has_prefix ?raw ''concat('' "
        "\<not> isIfPresentExpr ?raw" "\<not> isQuotedStringExpr ?raw" "\<not> isBuiltinStringVariable ?raw"
    using val call_head by (fastforce split: if_splits)
  then show ?case
  proof cases
    case quoted
    then show ?thesis
      using ev quoted_head[OF quoted] call_head isIfPresent_prefix[of expr] by (fastforce split: if_splits)
  next
    case var
    then show ?thesis
      using ev builtin_head[OF var(1)] call_head isIfPresent_prefix[of expr]
      by (fastforce simp: blank_variable_def split: if_splits)
  next
    case cond
    then have h: "\<not> has_prefix ?raw ''template(''" using call_head isIfPresent_prefix[of expr] by force
    obtain a b c where args: "call_args ''if_present('' ?raw = [a, b, c]"
      using cond val by (auto simp: validateIfPresentExpr_def Let_def length_Suc_conv numeral_3_eq_3
          split: if_splits option.splits)
    have ok: "ValidateStringExpr b = None" "ValidateStringExpr c = None"
      using cond val by (auto simp: args first_error_None split: if_splits option.splits)
    have "evalStringExprValue meta req b = Inl e \<or> evalStringExprValue meta req c = Inl e"
      using cond val ev h by (auto simp: args validateIfPresentExpr_def Let_def split: if_splits option.splits)
    then show ?thesis using 1(1)[OF refl _ _ _ ] ok cond val args by (fastforce split: if_splits option.splits)
  next
    case cat
    then have h: "\<not> has_prefix ?raw ''template(''" using call_head by force
    with cat ev obtain a where "a \<in> set (call_args ''concat('' ?raw)" "evalStringExprValue meta req a = Inl e"
      by (auto simp: bind_res_eq_Inl split: if_splits dest: map_res_Inl)
    moreover from this cat val have "ValidateStringExpr a = None" by (auto simp: first_error_None split: if_splits)
    ultimately show ?thesis using 1(2)[OF refl] cat val by (fastforce split: if_splits)
  next
    case tmpl
    then show ?thesis
      using val ev validated_template
      by (auto simp: validateTemplateExpr_def Let_def split: if_splits option.splits)
  qed
qed

section \<open>The meaning of expressions\<close>

datatype piece = PLit string | PVar string

datatype sexpr =
    ELit string
  | EVar string
  | ETemplate "piece list"
  | EConcat "sexpr list"
  | EIfPresent string sexpr sexpr

definition quoted :: "string \<Rightarrow> string" where
  "quoted s = [dq] @ s @ [dq]"

primrec piece_text :: "piece \<Rightarrow> string" where
  "piece_text (PLit s) = s"
| "piece_text (PVar v) = ''${'' @ tl v @ ''}''"

fun expr_text :: "sexpr \<Rightarrow> string" where
  "expr_text (ELit s) = quoted s"
| "expr_text (EVar v) = v"
| "expr_text (ETemplate ps) = ''template('' @ quoted (concat (map piece_text ps)) @ '')''"
| "expr_text (EConcat es) = ''concat('' @ str_join '', '' (map expr_text es) @ '')''"
| "expr_text (EIfPresent p a b) = ''if_present('' @ str_join '', '' [quoted p, expr_text a, expr_text b] @ '')''"

definition plain :: "string \<Rightarrow> bool" where
  "plain s \<longleftrightarrow> dq \<notin> set s \<and> bs \<notin> set s"

primrec good_piece :: "piece \<Rightarrow> bool" where
  "good_piece (PLit s) = (plain s \<and> CHR ''$'' \<notin> set s)"
| "good_piece (PVar v) = (v \<in> set builtin_variables)"

fun good_expr :: "sexpr \<Rightarrow> bool" where
  "good_expr (ELit s) = plain s"
| "good_expr (EVar v) = (v \<in> set builtin_variables)"
| "good_expr (ETemplate ps) = list_all good_piece ps"
| "good_expr (EConcat es) = list_all good_expr es"
| "good_expr (EIfPresent p a b) = (plain p \<and> p \<noteq> [] \<and> trim_space p = p \<and> good_expr a \<and> good_expr b)"

definition variable_value :: "meta \<Rightarrow> bool \<Rightarrow> string \<Rightarrow> expr_error + string" where
  "variable_value meta req v =
     (let x = evalBuiltinStringVariable v meta in
      if req \<and> trim_space x = [] then Inl (EmptyVariable v) else Inr x)"

primrec piece_value :: "meta \<Rightarrow> bool \<Rightarrow> piece \<Rightarrow> expr_error + string" where
  "piece_value meta req (PLit s) = Inr s"
| "piece_value meta req (PVar v) = variable_value meta req v"

fun expr_value :: "meta \<Rightarrow> bool \<Rightarrow> sexpr \<Rightarrow> expr_error + string" where
  "expr_value meta req (ELit s) = Inr s"
| "expr_value meta req (EVar v) = variable_value meta req v"
| "expr_value meta req (ETemplate ps) = bind_res (map_res (piece_value meta req) ps) (\<lambda>xs. Inr (concat xs))"
| "expr_value meta req (EConcat es) = bind_res (map_res (expr_value meta req) es) (\<lambda>xs. Inr (concat xs))"
| "expr_value meta req (EIfPresent p a b) =
     (if requestPathPresent meta p then expr_value meta req a else expr_value meta req b)"

subsection \<open>Quoting\<close>

lemma replace_all_absent: "c \<notin> set s \<Longrightarrow> replace_all (c # cs) new s = s"
  by (simp add: replace_all_def str_split.simps[of s] str_index_absent)

lemma unquote_quoted: "plain s \<Longrightarrow> unquoteString (quoted s) = s"
  by (simp add: unquoteString_def quoted_def plain_def Let_def replace_all_absent)

lemma quoted_trim: "trim_space (quoted s) = quoted s"
  by (rule visible_trim) (simp_all add: quoted_def visible_def)

lemma isQuoted_quoted [simp]: "isQuotedStringExpr (quoted s)"
  unfolding isQuotedStringExpr_def quoted_trim Let_def by (simp add: quoted_def)

subsection \<open>Arguments\<close>

lemma builtin_chars: "\<forall>v \<in> set builtin_variables. list_all (\<lambda>c. visible c \<and> c \<notin> {dq, sq, bs, CHR ''('', CHR '')'', CHR '','', CHR ''}''}) v \<and> 2 \<le> length v"
  by code_simp

definition passes :: "string \<Rightarrow> bool" where
  "passes t \<longleftrightarrow> (\<forall>cur d rest. args_loop cur d None False (t @ rest) = args_loop (rev t @ cur) d None False rest)"

lemma passesD: "passes t \<Longrightarrow> args_loop cur d None False (t @ rest) = args_loop (rev t @ cur) d None False rest"
  by (simp add: passes_def)

lemma passes_plain: "\<forall>c \<in> set s. c \<notin> {dq, sq, CHR ''('', CHR '')'', CHR '',''} \<Longrightarrow> passes s"
proof -
  assume *: "\<forall>c \<in> set s. c \<notin> {dq, sq, CHR ''('', CHR '')'', CHR '',''}"
  have "args_loop cur d None False (s @ rest) = args_loop (rev s @ cur) d None False rest" for cur d rest
    using * by (induction s arbitrary: cur) auto
  then show "passes s" by (simp add: passes_def)
qed

lemma passes_append: "passes s \<Longrightarrow> passes t \<Longrightarrow> passes (s @ t)"
  by (simp add: passes_def)

lemma passes_quoted: "plain s \<Longrightarrow> passes (quoted s)"
proof -
  assume "plain s"
  then have "args_loop cur d (Some dq) False (s @ rest) = args_loop (rev s @ cur) d (Some dq) False rest" for cur d rest
    by (induction s arbitrary: cur) (auto simp: plain_def)
  then show "passes (quoted s)" by (simp add: passes_def quoted_def)
qed

lemma passes_join:
  "list_all passes ts \<Longrightarrow> args_loop cur (Suc d) None False (str_join '', '' ts @ rest) =
     args_loop (rev (str_join '', '' ts) @ cur) (Suc d) None False rest"
  by (induction "'', ''" ts arbitrary: cur rule: str_join.induct) (auto simp: passes_def)

lemma passes_call:
  assumes "list_all passes ts" "\<forall>c \<in> set fn. c \<notin> {dq, sq, CHR ''('', CHR '')'', CHR '',''}"
  shows "passes (fn @ ''('' @ str_join '', '' ts @ '')'')"
proof -
  have "passes fn" by (rule passes_plain[OF assms(2)])
  then show ?thesis by (simp add: passes_def passes_join[OF assms(1)])
qed

lemma trim_space_blank: "trim_space (CHR '' '' # t) = trim_space t"
  by (simp add: trim_space_def trim_left_def skip_space_def is_ascii_space_def)

definition arg_text :: "string \<Rightarrow> bool" where
  "arg_text t \<longleftrightarrow> passes t \<and> t \<noteq> [] \<and> trim_space t = t"

lemma split_join_args:
  "ts \<noteq> [] \<Longrightarrow> list_all arg_text ts \<Longrightarrow> cur = [] \<or> cur = '' '' \<Longrightarrow> args_loop cur 0 None False (str_join '', '' ts) = ts"
proof (induction ts arbitrary: cur)
  case (Cons t ts)
  from Cons.prems have t: "passes t" "t \<noteq> []" "trim_space t = t" "list_all arg_text ts" by (simp_all add: arg_text_def[of t])
  have f: "flush (rev t @ cur) parts = t # parts" for parts
    using Cons.prems(3) t(2,3) by (auto simp: flush_def trim_space_blank)
  show ?case
  proof (cases ts)
    case Nil
    then show ?thesis using passesD[OF t(1), of cur 0 "[]"] by (simp add: f)
  next
    case c: (Cons u us)
    let ?r = "CHR '','' # CHR '' '' # str_join '', '' ts"
    have "args_loop cur 0 None False (str_join '', '' (t # ts)) = args_loop (rev t @ cur) 0 None False ?r"
      using passesD[OF t(1), of cur 0 ?r] by (simp add: c)
    also have "\<dots> = t # args_loop '' '' 0 None False (str_join '', '' ts)"
      by (simp add: f)
    also have "\<dots> = t # ts" using Cons.IH[of "'' ''"] t(4) c by simp
    finally show ?thesis .
  qed
qed simp

lemma call_args_join:
  assumes "list_all arg_text ts"
  shows "call_args fn (fn @ str_join '', '' ts @ '')'') = ts"
proof -
  have "trim_suffix (str_join '', '' ts @ '')'') '')'' = str_join '', '' ts"
    by (simp add: trim_suffix_def)
  moreover have "args_loop [] 0 None False (str_join '', '' ts) = ts"
    using assms split_join_args[of ts "[]"] by (cases ts) (auto simp: flush_def)
  ultimately show ?thesis by (simp add: call_args_def trim_prefix_def splitTopLevelArgs_def)
qed

lemma call_args_quoted:
  assumes "plain s"
  shows "call_args fn (fn @ quoted s @ '')'') = [quoted s]"
proof -
  have "arg_text (quoted s)"
    using passes_quoted[OF assms] quoted_trim[of s] by (simp add: arg_text_def) (simp add: quoted_def)
  then show ?thesis using call_args_join[of "[quoted s]" fn] by simp
qed

subsection \<open>Templates\<close>

lemma template_literal:
  assumes "CHR ''$'' \<notin> set s" "bs \<notin> set s"
  shows "evalTemplateString meta req (s @ r) = bind_res (evalTemplateString meta req r) (\<lambda>x. Inr (s @ x))"
  using assms
proof (induction s)
  case Nil
  then show ?case by (cases "evalTemplateString meta req r") simp_all
next
  case (Cons c s)
  then have "evalTemplateString meta req (c # s @ r) = bind_res (evalTemplateString meta req (s @ r)) (\<lambda>x. Inr (c # x))"
    by (subst evalTemplateString.simps) auto
  with Cons show ?case by (cases "evalTemplateString meta req r") simp_all
qed

lemma builtin_dollar: "v \<in> set builtin_variables \<Longrightarrow> CHR ''$'' # tl v = v \<and> trim_space v = v \<and> trim_space (tl v) = tl v \<and>
    tl v \<noteq> [] \<and> \<not> prefix ''$'' (tl v) \<and> CHR ''}'' \<notin> set (tl v)"
proof -
  have "list_all (\<lambda>v. CHR ''$'' # tl v = v \<and> trim_space v = v \<and> trim_space (tl v) = tl v \<and> tl v \<noteq> [] \<and>
      hd (tl v) \<noteq> CHR ''$'' \<and> CHR ''}'' \<notin> set (tl v)) builtin_variables" by code_simp
  then show "v \<in> set builtin_variables \<Longrightarrow> ?thesis" by (auto simp: list_all_iff prefix_def)
qed

lemma template_variable:
  assumes "v \<in> set builtin_variables"
  shows "evalTemplateString meta req (''${'' @ tl v @ ''}'' @ r) =
     bind_res (variable_value meta req v) (\<lambda>x. bind_res (evalTemplateString meta req r) (\<lambda>y. Inr (x @ y)))"
proof -
  note d = builtin_dollar[OF assms]
  then have "normalizeTemplateVariable (tl v) = Some v"
    using assms by (simp add: normalizeTemplateVariable_def isBuiltinStringVariable_def Let_def)
  then show ?thesis
    using d cut_at[of "CHR ''}''" "tl v" r]
    by (subst evalTemplateString.simps) (simp add: variable_value_def Let_def)
qed

lemma template_text:
  "list_all good_piece ps \<Longrightarrow> evalTemplateString meta req (concat (map piece_text ps)) =
     bind_res (map_res (piece_value meta req) ps) (\<lambda>xs. Inr (concat xs))"
proof (induction ps)
  case (Cons p ps)
  show ?case
  proof (cases p)
    case (PLit s)
    with Cons show ?thesis
      by (cases "map_res (piece_value meta req) ps") (simp_all add: template_literal plain_def)
  next
    case (PVar v)
    then have "evalTemplateString meta req (concat (map piece_text (p # ps))) =
        bind_res (variable_value meta req v) (\<lambda>x. bind_res (evalTemplateString meta req (concat (map piece_text ps))) (\<lambda>y. Inr (x @ y)))"
      using Cons.prems template_variable[of v meta req "concat (map piece_text ps)"] by simp
    with Cons PVar show ?thesis
      by (cases "variable_value meta req v"; cases "map_res (piece_value meta req) ps") simp_all
  qed
qed (simp add: evalTemplateString.simps)

lemma good_pieces_plain:
  assumes "list_all good_piece ps"
  shows "plain (concat (map piece_text ps))"
proof -
  have "plain (piece_text p)" if "good_piece p" for p
  proof (cases p)
    case (PVar v)
    then have "v \<in> set builtin_variables" using that by simp
    then have "list_all (\<lambda>c. c \<notin> {dq, bs}) v" using builtin_chars by (auto simp: list_all_iff)
    then have "plain (tl v)" by (cases v) (auto simp: plain_def list_all_iff)
    with PVar show ?thesis by (simp add: plain_def)
  qed (use that in simp)
  with assms show ?thesis by (auto simp: plain_def list_all_iff)
qed

subsection \<open>Expressions\<close>

lemma call_arg_text:
  assumes "passes (fn @ ''('' @ x @ '')'')" "fn \<noteq> []" "visible (hd fn)"
  shows "arg_text (fn @ ''('' @ x @ '')'')"
proof -
  have "trim_space (fn @ ''('' @ x @ '')'') = fn @ ''('' @ x @ '')''"
    using assms(2,3) by (intro visible_trim) (simp_all add: visible_def[of "CHR '')''"])
  with assms show ?thesis unfolding arg_text_def by simp
qed

lemma expr_text_arg: "good_expr e \<Longrightarrow> arg_text (expr_text e)"
proof (induction e)
  case (ELit s)
  then show ?case using passes_quoted quoted_trim[of s] by (simp add: arg_text_def) (simp add: quoted_def)
next
  case (EVar v)
  then have v: "v \<in> set builtin_variables" by simp
  have "\<forall>c \<in> set v. c \<notin> {dq, sq, CHR ''('', CHR '')'', CHR '',''}"
    using bspec[OF builtin_chars v] unfolding list_all_iff by blast
  then have "passes v" by (rule passes_plain)
  with builtin_dollar[OF v] show ?case by (auto simp: arg_text_def)
next
  case (ETemplate ps)
  then have "passes (quoted (concat (map piece_text ps)))"
    by (simp add: passes_quoted good_pieces_plain)
  then have "passes (''template'' @ ''('' @ str_join '', '' [quoted (concat (map piece_text ps))] @ '')'')"
    by (intro passes_call) auto
  from call_arg_text[OF this] show ?case by (simp add: visible_def)
next
  case (EConcat es)
  then have "list_all passes (map expr_text es)" by (auto simp: list_all_iff arg_text_def)
  then have "passes (''concat'' @ ''('' @ str_join '', '' (map expr_text es) @ '')'')" by (intro passes_call) auto
  from call_arg_text[OF this] show ?case by (simp add: visible_def)
next
  case (EIfPresent p a b)
  then have "list_all passes [quoted p, expr_text a, expr_text b]" by (auto simp: arg_text_def passes_quoted)
  then have "passes (''if_present'' @ ''('' @ str_join '', '' [quoted p, expr_text a, expr_text b] @ '')'')"
    by (intro passes_call) auto
  from call_arg_text[OF this] show ?case by (simp add: visible_def del: str_join.simps)
qed

lemma map_res_map: "map_res f (map g xs) = map_res (\<lambda>x. f (g x)) xs"
  by (induction xs) simp_all

lemma eval_template:
  assumes "trim_space r = r" "has_prefix r ''template(''" "has_suffix r '')''"
    and "call_args ''template('' r = [quoted s]" "plain s"
  shows "evalStringExprValue meta req r = evalTemplateString meta req s"
proof -
  have "r \<noteq> []" using assms(2) by auto
  with assms show ?thesis
    by (subst evalStringExprValue.simps) (simp add: quoted_trim unquote_quoted)
qed

lemma eval_concat:
  assumes "trim_space r = r" "has_prefix r ''concat(''" "has_suffix r '')''"
  shows "evalStringExprValue meta req r =
    bind_res (map_res (evalStringExprValue meta req) (call_args ''concat('' r)) (\<lambda>parts. Inr (concat parts))"
proof -
  have "r \<noteq> []" "\<not> has_prefix r ''template(''" "\<not> isIfPresentExpr r"
    using assms call_head[of r] isIfPresent_prefix[of r] by auto
  with assms show ?thesis by (subst evalStringExprValue.simps) simp
qed

lemma eval_if_present:
  assumes "trim_space r = r" "isIfPresentExpr r" "call_args ''if_present('' r = [quoted p, a, b]"
    and "plain p" "p \<noteq> []" "trim_space p = p"
  shows "evalStringExprValue meta req r = evalStringExprValue meta req (if requestPathPresent meta p then a else b)"
proof -
  have "has_prefix r ''if_present(''" using isIfPresent_prefix[of r] assms(1,2) by simp
  then have "r \<noteq> []" "\<not> has_prefix r ''template(''" using call_head by (auto simp: prefix_def)
  with assms show ?thesis
    by (subst evalStringExprValue.simps) (simp add: quoted_trim unquote_quoted)
qed

text \<open>
  The evaluator implements the semantics of expressions: on the text of an expression built from
  literals, variables, templates, concatenations and conditionals it returns the value of that
  expression, or the error of the first blank variable in strict mode.
\<close>

theorem eval_expr_text:
  assumes "good_expr e"
  shows "evalStringExprValue meta req (expr_text e) = expr_value meta req e"
  using assms
proof (induction e)
  case (ELit s)
  have "trim_space (quoted s) = quoted s" by (rule quoted_trim)
  with ELit show ?case
    by (subst evalStringExprValue.simps)
       (simp add: isIfPresentExpr_def Let_def unquote_quoted, simp add: quoted_def)
next
  case (EVar v)
  then have "list_all (\<lambda>v. hd v = CHR ''$'' \<and> \<not> isQuotedStringExpr v \<and> isBuiltinStringVariable v \<and> trim_space v = v \<and> v \<noteq> []) builtin_variables"
    by code_simp
  with EVar have v: "hd v = CHR ''$''" "\<not> isQuotedStringExpr v" "isBuiltinStringVariable v" "trim_space v = v" "v \<noteq> []"
    unfolding list_all_iff by simp_all
  then have "\<not> has_prefix v ''template(''" "\<not> has_prefix v ''concat(''" "\<not> has_prefix v ''if_present(''"
    using call_head[of v] by auto
  with v show ?case
    by (subst evalStringExprValue.simps) (simp add: isIfPresentExpr_def Let_def variable_value_def)
next
  case (ETemplate ps)
  let ?s = "concat (map piece_text ps)"
  have t: "trim_space (expr_text (ETemplate ps)) = expr_text (ETemplate ps)"
    using expr_text_arg[OF ETemplate] by (simp only: arg_text_def)
  have p: "plain ?s" using ETemplate by (simp add: good_pieces_plain)
  have s: "has_prefix (expr_text (ETemplate ps)) ''template(''" "has_suffix (expr_text (ETemplate ps)) '')''"
    using has_suffix_append[of "''template('' @ quoted ?s" "'')''"] by simp_all
  have a: "call_args ''template('' (expr_text (ETemplate ps)) = [quoted ?s]"
    using call_args_quoted[OF p, of "''template(''"] by simp
  show ?case
    using eval_template[OF t s a p] template_text[of ps] ETemplate by simp
next
  case (EConcat es)
  have t: "trim_space (expr_text (EConcat es)) = expr_text (EConcat es)"
    using expr_text_arg[OF EConcat.prems] by (simp only: arg_text_def)
  have "list_all arg_text (map expr_text es)" using EConcat.prems expr_text_arg by (auto simp: list_all_iff)
  note a = call_args_join[OF this, of "''concat(''"]
  have m: "map_res (\<lambda>e. evalStringExprValue meta req (expr_text e)) es = map_res (expr_value meta req) es"
    using EConcat by (intro map_res_cong) (auto simp: list_all_iff)
  have s: "has_prefix (expr_text (EConcat es)) ''concat(''" "has_suffix (expr_text (EConcat es)) '')''"
    using has_suffix_append[of "''concat('' @ str_join '', '' (map expr_text es)" "'')''"] by simp_all
  show ?case
    using eval_concat[OF t s] a m by (simp add: map_res_map)
next
  case (EIfPresent p a b)
  let ?ts = "[quoted p, expr_text a, expr_text b]"
  have t: "trim_space (expr_text (EIfPresent p a b)) = expr_text (EIfPresent p a b)"
    using expr_text_arg[OF EIfPresent.prems] by (simp only: arg_text_def)
  have "list_all arg_text ?ts"
    using EIfPresent.prems expr_text_arg[of "ELit p"] expr_text_arg[of a] expr_text_arg[of b] by simp
  note c = call_args_join[OF this, of "''if_present(''"]
  have i: "isIfPresentExpr (expr_text (EIfPresent p a b))"
    using has_suffix_append[of "''if_present('' @ str_join '', '' ?ts" "'')''"]
    unfolding isIfPresentExpr_def t Let_def by (simp del: str_join.simps)
  have c': "call_args ''if_present('' (expr_text (EIfPresent p a b)) = ?ts" using c by (simp del: str_join.simps)
  show ?case
    using eval_if_present[OF t i c'] EIfPresent by simp
qed

definition demo_meta :: meta where
  "demo_meta = \<lparr>mt_API = ''chat.completions'', mt_IsStream = False, mt_BaseURL = [], mt_APIKey = ''k, \"x\"'',
     mt_OAuthAccessToken = [], mt_CredentialProjectID = [], mt_ChannelLocation = '' '', mt_UpstreamTransport = [],
     mt_OriginModelName = ''m'', mt_DSLModelMapped = [], mt_TaskID = [], mt_TaskUpstreamID = [],
     mt_RequestURLPath = ''/v1/chat'', mt_RequestRoot = JObj [(''image'', JStr ''u'')], mt_FileFields = [], mt_OAuthCacheKey = [], mt_CredentialFile = [], mt_CredentialJSON = [],
     mt_AWSAccessKeyID = [], mt_AWSSecretAccessKey = [], mt_AWSSessionToken = [], mt_AWSRegion = [], mt_RequestContentType = []\<rparr>"

definition demo_expr :: sexpr where
  "demo_expr = EConcat [ELit ''Bearer, '', EVar ''$channel.key'',
     EIfPresent ''$.image'' (ETemplate [PLit ''/('', PVar ''$request.model_mapped'', PLit '')'']) (ELit [])]"

theorem eval_expr_text_witness:
  "evalStringExprValue demo_meta True (expr_text demo_expr) = Inr ''Bearer, k, \"x\"/(m)''"
proof -
  have "good_expr demo_expr" by code_simp
  moreover have "expr_value demo_meta True demo_expr = Inr ''Bearer, k, \"x\"/(m)''" by code_simp
  ultimately show ?thesis using eval_expr_text[of demo_expr demo_meta True] by simp
qed

theorem validated_expr_evaluates_witness:
  "blank_variable demo_meta True (EmptyVariable ''$channel.location'')"
proof -
  let ?e = "''concat($request.model, $channel.location)''"
  have "ValidateStringExpr ?e = None" by code_simp
  moreover have "evalStringExprValue demo_meta True ?e = Inl (EmptyVariable ''$channel.location'')" by code_simp
  ultimately show ?thesis by (rule validated_expr_evaluates)
qed

text \<open>
  The escapes are undone one after the other, so an escaped backslash before an \<^verbatim>\<open>n\<close> is read as a line
  break instead of a backslash and an \<^verbatim>\<open>n\<close>.
\<close>

lemma unquote_escaped_backslash: "unquoteString [dq, bs, bs, CHR ''n'', dq] = [CHR 0x0A]"
  by code_simp

end
