(* ===== verification/Dsl_Scanner.thy ===== *)
theory Dsl_Scanner
  imports Dsl_Expr
begin

text \<open>
  The scanner of the provider configuration language, \<^verbatim>\<open>onr-core/pkg/dslconfig/core_scanner.go\<close>: tokens
  with their text and position, line and column of a position, and the search for the provider name of
  a file. The scanner works on bytes; a byte above 127 is classified as the code point of the same
  number, as the conversion \<^verbatim>\<open>rune(b)\<close> of the code does.

  Shown: scanning ends and loses nothing: the token texts put together are the input, and each
  token carries the position where it begins.
\<close>

section \<open>Tokens\<close>

datatype token_kind =
    tokEOF | tokWhitespace | tokComment | tokIdent | tokString | tokLBrace | tokRBrace | tokSemicolon | tokOther

record token =
  tk_kind :: token_kind
  tk_text :: string
  tk_pos :: nat

record scanner =
  sc_path :: string
  sc_input :: string
  sc_i :: nat
  sc_lastPos :: nat

definition newScanner :: "string \<Rightarrow> string \<Rightarrow> scanner" where
  "newScanner path input = \<lparr>sc_path = path, sc_input = input, sc_i = 0, sc_lastPos = 0\<rparr>"

definition isSpace :: "char \<Rightarrow> bool" where
  "isSpace b \<longleftrightarrow> b = CHR '' '' \<or> b = CHR 0x09 \<or> b = CHR 0x0A \<or> b = CHR 0x0D"

text \<open>The letters among the first 256 code points.\<close>

definition latin1_letter :: "char \<Rightarrow> bool" where
  "latin1_letter c \<longleftrightarrow>
     (let n = (of_char c :: nat) in
      65 \<le> n \<and> n \<le> 90 \<or> 97 \<le> n \<and> n \<le> 122 \<or> n = 170 \<or> n = 181 \<or> n = 186 \<or> 192 \<le> n \<and> n \<noteq> 215 \<and> n \<noteq> 247)"

definition isIdentStart :: "char \<Rightarrow> bool" where
  "isIdentStart c \<longleftrightarrow> c = CHR ''_'' \<or> latin1_letter c"

definition isIdentPart :: "char \<Rightarrow> bool" where
  "isIdentPart c \<longleftrightarrow> isIdentStart c \<or> is_digit c \<or> c = CHR ''-'' \<or> c = CHR '':'' \<or> c = CHR ''.''"

section \<open>Scanning\<close>

text \<open>
  Each scanner of the code looks at the rest of the input and takes the token that begins there, or
  nothing: its kind and its length.
\<close>

definition scanWhitespace :: "string \<Rightarrow> (token_kind \<times> nat) option" where
  "scanWhitespace rest =
     (if isSpace (hd rest) then Some (tokWhitespace, length (takeWhile isSpace rest)) else None)"

definition scanComment :: "string \<Rightarrow> (token_kind \<times> nat) option" where
  "scanComment rest =
     (if hd rest = CHR ''#'' then Some (tokComment, length (takeWhile (\<lambda>c. c \<noteq> CHR 0x0A) rest))
      else if has_prefix rest ''//'' then Some (tokComment, 2 + length (takeWhile (\<lambda>c. c \<noteq> CHR 0x0A) (drop 2 rest)))
      else None)"

fun string_length :: "char \<Rightarrow> string \<Rightarrow> nat" where
  "string_length quote [] = 0"
| "string_length quote (c # cs) =
     (if c = CHR 0x5C then (case cs of [] \<Rightarrow> 1 | _ # cs' \<Rightarrow> 2 + string_length quote cs')
      else if c = quote then 1
      else 1 + string_length quote cs)"

definition scanString :: "string \<Rightarrow> (token_kind \<times> nat) option" where
  "scanString rest =
     (if hd rest = dq \<or> hd rest = CHR 0x27 then Some (tokString, 1 + string_length (hd rest) (tl rest)) else None)"

definition scanSingleChar :: "string \<Rightarrow> (token_kind \<times> nat) option" where
  "scanSingleChar rest =
     (if hd rest = CHR ''{'' then Some (tokLBrace, 1)
      else if hd rest = CHR ''}'' then Some (tokRBrace, 1)
      else if hd rest = CHR '';'' then Some (tokSemicolon, 1)
      else None)"

definition scanIdent :: "string \<Rightarrow> (token_kind \<times> nat) option" where
  "scanIdent rest =
     (if isIdentStart (hd rest) then Some (tokIdent, 1 + length (takeWhile isIdentPart (tl rest))) else None)"

definition scanOther :: "string \<Rightarrow> token_kind \<times> nat" where
  "scanOther rest = (tokOther, 1)"

definition scan_at :: "string \<Rightarrow> token_kind \<times> nat" where
  "scan_at rest =
     (case scanWhitespace rest of Some t \<Rightarrow> t | None \<Rightarrow>
     (case scanComment rest of Some t \<Rightarrow> t | None \<Rightarrow>
     (case scanString rest of Some t \<Rightarrow> t | None \<Rightarrow>
     (case scanSingleChar rest of Some t \<Rightarrow> t | None \<Rightarrow>
     (case scanIdent rest of Some t \<Rightarrow> t | None \<Rightarrow> scanOther rest)))))"

definition next_token :: "scanner \<Rightarrow> token \<times> scanner" where
  "next_token s =
     (let i = sc_i s; s1 = s\<lparr>sc_lastPos := i\<rparr> in
      if i \<ge> length (sc_input s) then (\<lparr>tk_kind = tokEOF, tk_text = [], tk_pos = i\<rparr>, s1)
      else
        let (kind, n) = scan_at (drop i (sc_input s)) in
        (\<lparr>tk_kind = kind, tk_text = take n (drop i (sc_input s)), tk_pos = i\<rparr>, s1\<lparr>sc_i := i + n\<rparr>))"

section \<open>Progress\<close>

lemma string_length_le: "string_length q s \<le> length s"
  by (induction q s rule: string_length.induct) (auto split: list.splits)

text \<open>A token that fits the rest of the input it is taken from.\<close>

definition fits :: "string \<Rightarrow> token_kind \<times> nat \<Rightarrow> bool" where
  "fits rest t \<longleftrightarrow> 0 < snd t \<and> snd t \<le> length rest \<and> fst t \<noteq> tokEOF"

lemma scanners_fit:
  assumes "rest \<noteq> []"
  shows "scanWhitespace rest = Some t \<Longrightarrow> fits rest t" "scanComment rest = Some t \<Longrightarrow> fits rest t"
    "scanString rest = Some t \<Longrightarrow> fits rest t" "scanSingleChar rest = Some t \<Longrightarrow> fits rest t"
    "scanIdent rest = Some t \<Longrightarrow> fits rest t" "fits rest (scanOther rest)"
proof -
  obtain c cs where rest: "rest = c # cs" using assms by (cases rest) auto
  show "scanWhitespace rest = Some t \<Longrightarrow> fits rest t"
    using length_takeWhile_le[of isSpace rest] by (auto simp: scanWhitespace_def fits_def rest split: if_splits)
  show "scanString rest = Some t \<Longrightarrow> fits rest t"
    using string_length_le[of _ cs] by (auto simp: scanString_def fits_def rest split: if_splits)
  show "scanSingleChar rest = Some t \<Longrightarrow> fits rest t" by (auto simp: scanSingleChar_def fits_def rest split: if_splits)
  show "scanIdent rest = Some t \<Longrightarrow> fits rest t"
    using length_takeWhile_le[of isIdentPart cs] by (auto simp: scanIdent_def fits_def rest split: if_splits)
  show "fits rest (scanOther rest)" by (simp add: scanOther_def fits_def rest Suc_le_eq)
  have "2 \<le> length rest" if "has_prefix rest ''//''" using that prefix_length_le[of "''//''" rest] by simp
  then show "scanComment rest = Some t \<Longrightarrow> fits rest t"
    using length_takeWhile_le[of "\<lambda>c. c \<noteq> CHR 0x0A" "drop 2 rest"] length_takeWhile_le[of "\<lambda>c. c \<noteq> CHR 0x0A" rest]
    by (auto simp: scanComment_def fits_def rest split: if_splits)
qed

lemma scan_at_fits: "rest \<noteq> [] \<Longrightarrow> fits rest (scan_at rest)"
  by (auto simp: scan_at_def scanners_fit split: option.splits)

lemmas scan_at_bounds = scan_at_fits[unfolded fits_def, THEN conjunct1] scan_at_fits[unfolded fits_def, THEN conjunct2, THEN conjunct1]
  scan_at_fits[unfolded fits_def, THEN conjunct2, THEN conjunct2]

lemma next_token_cases:
  obtains (eof) "length (sc_input s) \<le> sc_i s"
      "next_token s = (\<lparr>tk_kind = tokEOF, tk_text = [], tk_pos = sc_i s\<rparr>, s\<lparr>sc_lastPos := sc_i s\<rparr>)"
  | (tok) kind n where "sc_i s < length (sc_input s)" "kind \<noteq> tokEOF" "0 < n" "sc_i s + n \<le> length (sc_input s)"
      "scan_at (drop (sc_i s) (sc_input s)) = (kind, n)"
      "next_token s = (\<lparr>tk_kind = kind, tk_text = take n (drop (sc_i s) (sc_input s)), tk_pos = sc_i s\<rparr>,
                       s\<lparr>sc_lastPos := sc_i s, sc_i := sc_i s + n\<rparr>)"
proof (cases "sc_i s < length (sc_input s)")
  case True
  then have "drop (sc_i s) (sc_input s) \<noteq> []" by simp
  from scan_at_bounds[OF this] True show thesis
    by (intro tok[of "fst (scan_at (drop (sc_i s) (sc_input s)))" "snd (scan_at (drop (sc_i s) (sc_input s)))"])
      (auto simp: next_token_def Let_def split: prod.splits)
qed (auto intro!: eof simp: next_token_def Let_def)

definition remaining :: "scanner \<Rightarrow> nat" where
  "remaining s = length (sc_input s) - sc_i s"

lemma next_token_shorter:
  "next_token s = (t, s') \<Longrightarrow> tk_kind t \<noteq> tokEOF \<Longrightarrow> remaining s' < remaining s"
  by (cases s rule: next_token_cases) (auto simp: remaining_def)

lemma next_token_input: "next_token s = (t, s') \<Longrightarrow> sc_input s' = sc_input s \<and> sc_path s' = sc_path s"
  by (cases s rule: next_token_cases) auto

function nextNonTrivia :: "scanner \<Rightarrow> token \<times> scanner" where
  "nextNonTrivia s =
     (let (tok, s') = next_token s in
      if tk_kind tok = tokWhitespace \<or> tk_kind tok = tokComment then nextNonTrivia s' else (tok, s'))"
  by pat_completeness auto
termination
  by (relation "measure remaining") (auto dest!: next_token_shorter[OF sym])

declare nextNonTrivia.simps [simp del]

lemma nextNonTrivia_shorter:
  "nextNonTrivia s = (t, s') \<Longrightarrow> tk_kind t \<noteq> tokEOF \<Longrightarrow> remaining s' < remaining s"
proof (induction s rule: nextNonTrivia.induct)
  case (1 s)
  obtain u s1 where u: "next_token s = (u, s1)" by force
  show ?case
  proof (cases "tk_kind u = tokWhitespace \<or> tk_kind u = tokComment")
    case True
    with u 1(2) have "nextNonTrivia s1 = (t, s')" by (subst (asm) nextNonTrivia.simps) simp
    with 1(1)[OF u[symmetric] refl True] 1(3) u True next_token_shorter[OF u] show ?thesis by fastforce
  next
    case False
    with u 1(2) have "t = u" "s' = s1" by (subst (asm) nextNonTrivia.simps, auto)+
    with next_token_shorter[OF u] 1(3) show ?thesis by simp
  qed
qed

section \<open>Positions and errors\<close>

definition lineCol :: "scanner \<Rightarrow> nat \<Rightarrow> nat \<times> nat" where
  "lineCol s pos =
     (let seen = take (min pos (length (sc_input s))) (sc_input s) in
      (1 + length (filter (\<lambda>c. c = CHR 0x0A) seen), 1 + length (takeWhile (\<lambda>c. c \<noteq> CHR 0x0A) (rev seen))))"

record dsl_error =
  de_path :: string
  de_line :: nat
  de_col :: nat
  de_msg :: string

definition errAt :: "scanner \<Rightarrow> nat \<Rightarrow> string \<Rightarrow> dsl_error" where
  "errAt s pos msg = (let (line, col) = lineCol s pos in \<lparr>de_path = sc_path s, de_line = line, de_col = col, de_msg = msg\<rparr>)"

function findProviderName_loop :: "scanner \<Rightarrow> dsl_error + string" where
  "findProviderName_loop s =
     (let (tok, s1) = nextNonTrivia s in
      if tk_kind tok = tokEOF then
        Inl \<lparr>de_path = sc_path s, de_line = 0, de_col = 0, de_msg = ''no provider block found''\<rparr>
      else if tk_kind tok \<noteq> tokIdent \<or> tk_text tok \<noteq> ''provider'' then findProviderName_loop s1
      else
        let (nameTok, s2) = nextNonTrivia s1 in
        if tk_kind nameTok \<noteq> tokString then Inl (errAt s2 (tk_pos nameTok) ''expected string literal after provider'')
        else
          let (lb, s3) = nextNonTrivia s2 in
          if tk_kind lb \<noteq> tokLBrace then Inl (errAt s3 (tk_pos lb) ''expected '{' after provider name'')
          else
            let name = trim_space (unquoteString (tk_text nameTok)) in
            if name = [] then Inl (errAt s3 (tk_pos nameTok) ''provider name is empty'') else Inr name)"
  by pat_completeness auto
termination
  by (relation "measure remaining") (auto dest!: nextNonTrivia_shorter[OF sym])

declare findProviderName_loop.simps [simp del]

definition findProviderName :: "string \<Rightarrow> string \<Rightarrow> dsl_error + string" where
  "findProviderName path content = findProviderName_loop (newScanner path content)"

section \<open>The token stream\<close>

function tokens :: "scanner \<Rightarrow> token list" where
  "tokens s = (let (tok, s') = next_token s in if tk_kind tok = tokEOF then [] else tok # tokens s')"
  by pat_completeness auto
termination
  by (relation "measure remaining") (auto dest!: next_token_shorter[OF sym])

declare tokens.simps [simp del]

text \<open>
  C19. Scanning ends and loses nothing: every input is cut into at most as many tokens as it has bytes, the
  texts of the tokens, put together, are the input itself, no token is empty, and every token starts
  where the texts before it end.
\<close>
theorem scanner_lossless:
  "length (tokens (newScanner path input)) \<le> length input
   \<and> concat (map tk_text (tokens (newScanner path input))) = input
   \<and> (\<forall>k < length (tokens (newScanner path input)).
        tk_text (tokens (newScanner path input) ! k) \<noteq> [] \<and>
        tk_pos (tokens (newScanner path input) ! k) = length (concat (map tk_text (take k (tokens (newScanner path input))))))"
proof -
  have *: "concat (map tk_text (tokens s)) = drop (sc_i s) (sc_input s)
    \<and> (\<forall>k < length (tokens s). tk_text (tokens s ! k) \<noteq> [] \<and>
         tk_pos (tokens s ! k) = sc_i s + length (concat (map tk_text (take k (tokens s)))))" for s
  proof (induction s rule: tokens.induct)
    case (1 s)
    show ?case
    proof (cases s rule: next_token_cases)
      case eof
      then have "tokens s = []" by (subst tokens.simps) simp
      with eof show ?thesis by simp
    next
      case (tok kind n)
      let ?t = "\<lparr>tk_kind = kind, tk_text = take n (drop (sc_i s) (sc_input s)), tk_pos = sc_i s\<rparr>"
      let ?s = "s\<lparr>sc_lastPos := sc_i s, sc_i := sc_i s + n\<rparr>"
      have ts: "tokens s = ?t # tokens ?s" using tok by (subst tokens.simps) simp
      note IH = 1[OF tok(6)[symmetric] refl, simplified, OF tok(2)]
      have len: "length (take n (drop (sc_i s) (sc_input s))) = n" using tok(4) by simp
      have "take n (drop (sc_i s) (sc_input s)) @ drop (sc_i s + n) (sc_input s) = drop (sc_i s) (sc_input s)"
        by (metis append_take_drop_id drop_drop add.commute)
      with IH tok(3,4) show ?thesis
        by (auto simp: ts less_Suc_eq_0_disj len)
    qed
  qed
  have "length ts \<le> length (concat (map tk_text ts))" if "\<forall>k < length ts. tk_text (ts ! k) \<noteq> []" for ts :: "token list"
  proof -
    from that have "\<forall>t \<in> set ts. tk_text t \<noteq> []" by (metis in_set_conv_nth)
    then show ?thesis by (induction ts) (auto simp: Suc_le_eq add_mono_thms_linordered_field(4) intro: add_less_le_mono le_less_trans)
  qed
  from this[of "tokens (newScanner path input)"] *[of "newScanner path input"] show ?thesis by (simp add: newScanner_def)
qed

definition demo_source :: string where
  "demo_source = ''provider \"a\" { # x''"

theorem scanner_lossless_witness:
  "concat (map tk_text (tokens (newScanner ''f'' demo_source))) = demo_source
   \<and> tk_pos (tokens (newScanner ''f'' demo_source) ! 4) = length (concat (map tk_text (take 4 (tokens (newScanner ''f'' demo_source)))))"
proof -
  have "4 < length (tokens (newScanner ''f'' demo_source))" by code_simp
  with scanner_lossless[of "''f''" demo_source] show ?thesis by blast
qed

end
