(* ===== verification/Dsl_Match.thy ===== *)
theory Dsl_Match
  imports Prelude
begin

text \<open>
  The selection of match blocks, which every phase of a provider configuration repeats
  (\<^verbatim>\<open>selectMatch\<close> of the routing, header, request, response and finish-reason phases in
  \<^verbatim>\<open>onr-core/pkg/dslconfig\<close>): the blocks are tried in order, a block with an API or a stream flag is
  skipped when the request differs, and the first one left is taken. The interface \<open>first_match\<close>
  states this once, its consequences are proved once, and each phase interprets it.
\<close>

definition block_applies :: "string \<Rightarrow> bool option \<Rightarrow> string \<Rightarrow> bool \<Rightarrow> bool" where
  "block_applies mAPI mStream api stream \<longleftrightarrow>
     (mAPI = [] \<or> mAPI = api) \<and> (mStream = None \<or> mStream = Some stream)"

locale first_match =
  fixes blockAPI :: "'m \<Rightarrow> string"
    and blockStream :: "'m \<Rightarrow> bool option"
    and select :: "'m list \<Rightarrow> string \<Rightarrow> bool \<Rightarrow> 'm option"
  assumes select_Nil: "select [] api stream = None"
    and select_Cons: "select (m # ms) api stream =
      (if block_applies (blockAPI m) (blockStream m) api stream then Some m else select ms api stream)"
begin

lemma select_Some_iff:
  "select ms api stream = Some m \<longleftrightarrow>
     (\<exists>before after. ms = before @ m # after \<and> block_applies (blockAPI m) (blockStream m) api stream \<and>
        (\<forall>b \<in> set before. \<not> block_applies (blockAPI b) (blockStream b) api stream))"
proof (induction ms)
  case (Cons x ms)
  show ?case
  proof (cases "block_applies (blockAPI x) (blockStream x) api stream")
    case True
    then show ?thesis by (force simp: select_Cons Cons_eq_append_conv)
  next
    case False
    then have "(\<exists>before after. x # ms = before @ m # after \<and> block_applies (blockAPI m) (blockStream m) api stream \<and>
        (\<forall>b \<in> set before. \<not> block_applies (blockAPI b) (blockStream b) api stream)) \<longleftrightarrow>
      (\<exists>before after. ms = before @ m # after \<and> block_applies (blockAPI m) (blockStream m) api stream \<and>
        (\<forall>b \<in> set before. \<not> block_applies (blockAPI b) (blockStream b) api stream))"
      by (auto simp: Cons_eq_append_conv) (metis append_Cons set_ConsD)
    with False Cons.IH show ?thesis by (simp add: select_Cons)
  qed
qed (simp add: select_Nil)

lemma select_None_iff:
  "select ms api stream = None \<longleftrightarrow> (\<forall>m \<in> set ms. \<not> block_applies (blockAPI m) (blockStream m) api stream)"
  by (induction ms) (auto simp: select_Nil select_Cons)

lemma select_append:
  "select (ms @ ns) api stream = (case select ms api stream of None \<Rightarrow> select ns api stream | Some m \<Rightarrow> Some m)"
  by (induction ms) (auto simp: select_Nil select_Cons)

text \<open>A block that a previous one covers is never taken.\<close>

lemma shadowed_block:
  assumes "m \<in> set ms" "blockAPI m = [] \<or> blockAPI m = blockAPI n" "blockStream m = None \<or> blockStream m = blockStream n"
    and "blockAPI n \<noteq> [] \<or> blockAPI m = []" "blockStream n \<noteq> None \<or> blockStream m = None"
  shows "select (ms @ n # ns) api stream = select (ms @ ns) api stream"
proof (cases "select ms api stream")
  case None
  with assms(1) have "\<not> block_applies (blockAPI m) (blockStream m) api stream" by (simp add: select_None_iff)
  with assms(2-) have "\<not> block_applies (blockAPI n) (blockStream n) api stream" by (auto simp: block_applies_def)
  with None show ?thesis by (simp add: select_append select_Cons)
qed (simp add: select_append)

end

end
