(* ===== verification/Dsl_Headers.thy ===== *)
theory Dsl_Headers
  imports Dsl_Expr Dsl_Match
begin

text \<open>
  The header phase of provider configurations, \<^verbatim>\<open>onr-core/pkg/dslconfig/headers.go\<close>: the effective
  header operations of a request, their application to the upstream headers, and the filters of
  comma-separated header values with their wildcard patterns.

  \<^verbatim>\<open>http.Header\<close> is an association list from canonical names to the values in order. The OAuth
  configuration of a phase is merged by an operation that is an argument here; it does not influence
  the header operations.

  Shown: wildcard matching is the textbook glob relation, and the value rules keep exactly the items
  they should, through the splitting and joining of header values.
\<close>

section \<open>HTTP headers\<close>

definition token_byte :: "char \<Rightarrow> bool" where
  "token_byte c \<longleftrightarrow> byte_in 48 57 c \<or> byte_in 65 90 c \<or> byte_in 97 122 c \<or> c \<in> set ''!#$%&*+-.^_`|~'' \<or> c = CHR 0x27"

fun canon_bytes :: "bool \<Rightarrow> string \<Rightarrow> string" where
  "canon_bytes upper [] = []"
| "canon_bytes upper (c # s) = (if upper then upper_byte c else lower_byte c) # canon_bytes (c = CHR ''-'') s"

definition canonical_key :: "string \<Rightarrow> string" where
  "canonical_key s = (if list_all token_byte s then canon_bytes True s else s)"

type_synonym header = "(string \<times> string list) list"

definition hdr_Values :: "header \<Rightarrow> string \<Rightarrow> string list" where
  "hdr_Values h name = (case map_of h (canonical_key name) of None \<Rightarrow> [] | Some vs \<Rightarrow> vs)"

definition hdr_Set :: "string \<Rightarrow> string \<Rightarrow> header \<Rightarrow> header" where
  "hdr_Set name v h = AList.update (canonical_key name) [v] h"

definition hdr_Del :: "string \<Rightarrow> header \<Rightarrow> header" where
  "hdr_Del name h = AList.delete (canonical_key name) h"

definition hdr_Add :: "string \<Rightarrow> string \<Rightarrow> header \<Rightarrow> header" where
  "hdr_Add name v h = AList.update (canonical_key name) (hdr_Values h name @ [v]) h"

section \<open>Configuration\<close>

record header_op =
  ho_Op :: string
  ho_NameExpr :: string
  ho_ValueExpr :: string
  ho_Patterns :: "string list"
  ho_Separator :: string

record 'oauth phase_headers =
  ph_Auth :: "header_op list"
  ph_Request :: "header_op list"
  ph_OAuth :: 'oauth
  ph_AWSSigV4 :: bool

record 'oauth match_headers =
  mh_API :: string
  mh_Stream :: "bool option"
  mh_Headers :: "'oauth phase_headers"

record 'oauth provider_headers =
  pvh_Defaults :: "'oauth phase_headers"
  pvh_Matches :: "'oauth match_headers list"

record header_value_rule =
  hv_Name :: string
  hv_Patterns :: "string list"
  hv_Separator :: string

section \<open>Wildcards\<close>

text \<open>The loop over the inner parts of a pattern: the position behind their leftmost occurrences.\<close>

fun match_parts :: "string list \<Rightarrow> string \<Rightarrow> nat \<Rightarrow> nat option" where
  "match_parts [] value pos = Some pos"
| "match_parts (part # parts) value pos =
     (if part = [] then match_parts parts value pos
      else
        case str_index (drop pos value) part of
          None \<Rightarrow> None
        | Some idx \<Rightarrow> match_parts parts value (pos + (idx + length part)))"

definition wildcardMatch :: "string \<Rightarrow> string \<Rightarrow> bool" where
  "wildcardMatch pattern value =
     (if pattern = [] then value = []
      else if pattern = ''*'' then True
      else
        let parts = str_split pattern ''*'' in
        if length parts = 1 then value = pattern
        else
          let p0 = hd parts; lst = last parts in
          if p0 \<noteq> [] \<and> \<not> has_prefix value p0 then False
          else
            case match_parts (butlast (tl parts)) value (if p0 \<noteq> [] then length p0 else 0) of
              None \<Rightarrow> False
            | Some pos \<Rightarrow>
                if lst = [] then True
                else if length parts = 2 \<and> p0 = [] then has_suffix value lst
                else has_suffix value lst \<and> int pos \<le> int (length value) - int (length lst))"

definition matchesAnyHeaderValuePattern :: "string \<Rightarrow> string list \<Rightarrow> bool" where
  "matchesAnyHeaderValuePattern value patterns = list_ex (\<lambda>pattern. wildcardMatch pattern value) patterns"

section \<open>Header values\<close>

definition splitHeaderValueItems :: "string \<Rightarrow> string \<Rightarrow> string list" where
  "splitHeaderValueItems raw separator =
     (let sep = (if trim_space separator = [] then '','' else separator) in
      filter (\<lambda>item. item \<noteq> []) (map trim_space (str_split raw sep)))"

definition splitHeaderValues :: "string list \<Rightarrow> string \<Rightarrow> string list" where
  "splitHeaderValues values separator = concat (map (\<lambda>v. splitHeaderValueItems v separator) values)"

definition headerValueJoinSeparator :: "string \<Rightarrow> string" where
  "headerValueJoinSeparator separator =
     (if trim_space separator = [] \<or> separator = '','' then '', '' else separator @ '' '')"

definition applyHeaderValueRule :: "header_value_rule \<Rightarrow> bool \<Rightarrow> header \<Rightarrow> header" where
  "applyHeaderValueRule rule keepMatching hdr =
     (let name = trim_space (hv_Name rule) in
      if name = [] then hdr
      else
        let values = hdr_Values hdr name in
        if values = [] then hdr
        else
          let items = splitHeaderValues values (hv_Separator rule) in
          if items = [] then hdr_Del name hdr
          else
            let kept = filter (\<lambda>item. matchesAnyHeaderValuePattern item (hv_Patterns rule) = keepMatching) items in
            if kept = [] then hdr_Del name hdr
            else hdr_Set name (str_join (headerValueJoinSeparator (hv_Separator rule)) kept) hdr)"

definition applyHeaderValueKeepRule :: "header_value_rule \<Rightarrow> header \<Rightarrow> header" where
  "applyHeaderValueKeepRule rule hdr = applyHeaderValueRule rule True hdr"

definition applyHeaderValueFilterRule :: "header_value_rule \<Rightarrow> header \<Rightarrow> header" where
  "applyHeaderValueFilterRule rule hdr = applyHeaderValueRule rule False hdr"

section \<open>Selection and application\<close>

fun headers_selectMatch :: "'o match_headers list \<Rightarrow> string \<Rightarrow> bool \<Rightarrow> 'o match_headers option" where
  "headers_selectMatch [] api stream = None"
| "headers_selectMatch (m # ms) api stream =
     (if mh_API m \<noteq> [] \<and> mh_API m \<noteq> api then headers_selectMatch ms api stream
      else if mh_Stream m \<noteq> None \<and> mh_Stream m \<noteq> Some stream then headers_selectMatch ms api stream
      else Some m)"

interpretation header_blocks: first_match mh_API mh_Stream headers_selectMatch
  by unfold_locales (auto simp: block_applies_def)

definition Effective :: "('o \<Rightarrow> 'o \<Rightarrow> 'o) \<Rightarrow> 'o provider_headers \<Rightarrow> meta \<Rightarrow> 'o phase_headers option" where
  "Effective mergeOAuth p meta =
     (let api = trim_space (mt_API meta) in
      if api = [] then None
      else
        let out = pvh_Defaults p in
        case headers_selectMatch (pvh_Matches p) api (mt_IsStream meta) of
          None \<Rightarrow> Some out
        | Some m \<Rightarrow>
            Some \<lparr>ph_Auth = ph_Auth out @ ph_Auth (mh_Headers m),
                  ph_Request = ph_Request out @ ph_Request (mh_Headers m),
                  ph_OAuth = mergeOAuth (ph_OAuth out) (ph_OAuth (mh_Headers m)),
                  ph_AWSSigV4 = (ph_AWSSigV4 out \<or> ph_AWSSigV4 (mh_Headers m))\<rparr>)"

definition apply_header_op :: "meta \<Rightarrow> header \<Rightarrow> header_op \<Rightarrow> header \<Rightarrow> header" where
  "apply_header_op meta srcHdr op dstHdr =
     (let name = trim_space (EvalStringExpr (ho_NameExpr op) meta);
          rule = \<lparr>hv_Name = name, hv_Patterns = ho_Patterns op, hv_Separator = ho_Separator op\<rparr> in
      if ho_Op op = ''header_set'' then
        (if name = [] then dstHdr else hdr_Set name (EvalStringExpr (ho_ValueExpr op) meta) dstHdr)
      else if ho_Op op = ''header_del'' then (if name = [] then dstHdr else hdr_Del name dstHdr)
      else if ho_Op op = ''header_pass'' then
        (if name = [] then dstHdr
         else
           let values = hdr_Values srcHdr name in
           if values = [] then dstHdr
           else fold (hdr_Add name) values (hdr_Del name dstHdr))
      else if ho_Op op = ''header_filter_values'' then applyHeaderValueFilterRule rule dstHdr
      else if ho_Op op = ''header_keep_values'' then applyHeaderValueKeepRule rule dstHdr
      else dstHdr)"

definition headers_Apply :: "('o \<Rightarrow> 'o \<Rightarrow> 'o) \<Rightarrow> 'o provider_headers \<Rightarrow> meta \<Rightarrow> header \<Rightarrow> header \<Rightarrow> header" where
  "headers_Apply mergeOAuth p meta srcHdr dstHdr =
     (case Effective mergeOAuth p meta of
        None \<Rightarrow> dstHdr
      | Some phase \<Rightarrow> fold (apply_header_op meta srcHdr) (ph_Auth phase @ ph_Request phase) dstHdr)"

definition UsesAWSSigV4 :: "('o \<Rightarrow> 'o \<Rightarrow> 'o) \<Rightarrow> 'o provider_headers \<Rightarrow> meta \<Rightarrow> bool" where
  "UsesAWSSigV4 mergeOAuth p meta \<longleftrightarrow>
     (case Effective mergeOAuth p meta of None \<Rightarrow> False | Some phase \<Rightarrow> ph_AWSSigV4 phase)"

section \<open>Wildcard matching is globbing\<close>

inductive glob :: "string \<Rightarrow> string \<Rightarrow> bool" where
  glob_done: "glob [] []"
| glob_byte: "c \<noteq> CHR ''*'' \<Longrightarrow> glob p s \<Longrightarrow> glob (c # p) (c # s)"
| glob_star: "glob p s \<Longrightarrow> glob (CHR ''*'' # p) (t @ s)"

inductive_simps glob_Nil: "glob [] s"
inductive_simps glob_Cons: "glob (c # p) s"

lemma glob_star_iff: "glob (CHR ''*'' # p) s \<longleftrightarrow> (\<exists>t u. s = t @ u \<and> glob p u)"
  by (auto simp: glob_Cons)

lemma glob_literal: "CHR ''*'' \<notin> set l \<Longrightarrow> glob (l @ p) s \<longleftrightarrow> (\<exists>u. s = l @ u \<and> glob p u)"
  by (induction l arbitrary: s) (auto simp: glob_Cons)

lemma glob_exact: "CHR ''*'' \<notin> set l \<Longrightarrow> glob l s \<longleftrightarrow> s = l"
  using glob_literal[of l "[]" s] by (auto simp: glob_Nil)

lemma glob_star_mono: "glob (CHR ''*'' # p) u \<Longrightarrow> glob (CHR ''*'' # p) (t @ u)"
  by (metis append.assoc glob_star_iff)

subsection \<open>Searching\<close>

lemma str_index_Some:
  "str_index s sub = Some i \<Longrightarrow> prefix sub (drop i s) \<and> i \<le> length s \<and> (\<forall>t u. s = t @ sub @ u \<longrightarrow> i \<le> length t)"
proof (induction s sub arbitrary: i rule: str_index.induct)
  case (2 c s sub)
  show ?case
  proof (cases "prefix sub (c # s)")
    case False
    with 2 obtain j where j: "str_index s sub = Some j" "i = Suc j" by auto
    note ih = 2(1)[OF False j(1)]
    have "i \<le> length t" if "c # s = t @ sub @ u" for t u
      using that False ih j by (cases t) (auto simp: prefix_def)
    with ih j show ?thesis by auto
  qed (use 2 in auto)
qed (auto split: if_splits)

lemma str_index_None: "str_index s sub = None \<Longrightarrow> s \<noteq> t @ sub @ u"
proof (induction s sub arbitrary: t rule: str_index.induct)
  case (2 c s sub)
  then show ?case by (cases t) (auto split: if_splits)
qed (auto split: if_splits)

lemma split_char:
  "str_join [c] (str_split s [c]) = s \<and> (\<forall>p \<in> set (str_split s [c]). c \<notin> set p) \<and> str_split s [c] \<noteq> []"
proof (induction "length s" arbitrary: s rule: less_induct)
  case less
  show ?case
  proof (cases "str_index s [c]")
    case None
    then have "c \<notin> set s" using str_index_None[OF None] by (metis append_Cons append_Nil split_list)
    with None show ?thesis by (simp add: str_split.simps[of s])
  next
    case (Some i)
    let ?r = "drop (Suc i) s"
    from str_index_Some[OF Some] obtain u where d: "drop i s = c # u" and i: "i \<le> length s"
      and first: "\<forall>t u. s = t @ [c] @ u \<longrightarrow> i \<le> length t" by (auto simp: prefix_def)
    then have lt: "i < length s" by (metis drop_all list.distinct(1) not_le)
    have u: "u = ?r" using d by (metis drop_Suc list.sel(3) tl_drop)
    have s: "s = take i s @ c # ?r" using d u by (metis append_take_drop_id)
    have nostar: "c \<notin> set (take i s)"
    proof
      assume "c \<in> set (take i s)"
      then obtain t v where "take i s = t @ c # v" by (auto dest: split_list)
      then have "s = t @ [c] @ (v @ c # ?r)" "length t < i"
        using s i by (metis append.assoc append_Cons append_Nil, metis length_append length_take
            less_add_same_cancel1 list.size(4) min.absorb2 zero_less_Suc add_Suc_right)
      with first show False by (metis not_le)
    qed
    have sp: "str_split s [c] = take i s # str_split ?r [c]"
      using Some by (simp add: str_split.simps[of s])
    have "length ?r < length s" using lt by simp
    from less[OF this] have ih: "str_join [c] (str_split ?r [c]) = ?r"
      "\<forall>p \<in> set (str_split ?r [c]). c \<notin> set p" "str_split ?r [c] \<noteq> []" by blast+
    then obtain q qs where q: "str_split ?r [c] = q # qs" by (cases "str_split ?r [c]") auto
    with ih sp s nostar show ?thesis by (auto simp: sp q)
  qed
qed

subsection \<open>Leftmost search is complete\<close>

definition rest_pattern :: "string list \<Rightarrow> string \<Rightarrow> string" where
  "rest_pattern ms lst = CHR ''*'' # str_join ''*'' (ms @ [lst])"

lemma rest_pattern_Cons: "rest_pattern (m # ms) lst = CHR ''*'' # m @ rest_pattern ms lst"
  by (cases ms) (simp_all add: rest_pattern_def)

lemma has_suffix_iff: "has_suffix s p \<longleftrightarrow> (\<exists>t. s = t @ p)"
  by (metis has_suffix_def prefix_def rev_append rev_rev_ident)

lemma glob_rest_mono: "glob (rest_pattern ms lst) u \<Longrightarrow> glob (rest_pattern ms lst) (t @ u)"
  by (simp add: rest_pattern_def glob_star_mono)

lemma suffix_of_drop:
  assumes "w = t @ m @ u" "i \<le> length t"
  shows "\<exists>x. drop (i + length m) w = x @ u"
proof -
  have "drop (i + length m) w = drop (i + length m) (t @ m) @ u" using assms by simp
  then show ?thesis by blast
qed

lemma glob_rest_step:
  assumes "CHR ''*'' \<notin> set m"
  shows "glob (rest_pattern (m # ms) lst) w \<longleftrightarrow>
    (case str_index w m of None \<Rightarrow> False | Some i \<Rightarrow> glob (rest_pattern ms lst) (drop (i + length m) w))"
proof -
  have g: "glob (rest_pattern (m # ms) lst) w \<longleftrightarrow> (\<exists>t u. w = t @ m @ u \<and> glob (rest_pattern ms lst) u)"
    using assms by (auto simp: rest_pattern_Cons glob_star_iff glob_literal)
  show ?thesis
  proof (cases "str_index w m")
    case None
    then show ?thesis using g str_index_None[OF None] by auto
  next
    case (Some i)
    from str_index_Some[OF Some] obtain u where u: "drop i w = m @ u" and i: "i \<le> length w"
      and first: "\<forall>t u. w = t @ m @ u \<longrightarrow> i \<le> length t" by (auto simp: prefix_def)
    have d: "drop (i + length m) w = u" using u by (metis add.commute append_eq_conv_conj drop_drop)
    have w: "w = take i w @ m @ u" using u by (metis append_take_drop_id)
    have "glob (rest_pattern ms lst) (drop (i + length m) w)" if "w = t @ m @ v" "glob (rest_pattern ms lst) v" for t v
      using suffix_of_drop[OF that(1)] first that glob_rest_mono by metis
    then have "glob (rest_pattern (m # ms) lst) w \<longleftrightarrow> glob (rest_pattern ms lst) (drop (i + length m) w)"
      using g w unfolding d by blast
    with Some show ?thesis by simp
  qed
qed

lemma str_index_Nil [simp]: "str_index w [] = Some 0"
  by (cases w) auto

lemma match_parts_glob:
  assumes "\<forall>m \<in> set ms. CHR ''*'' \<notin> set m" "CHR ''*'' \<notin> set lst" "pos \<le> length v"
  shows "glob (rest_pattern ms lst) (drop pos v) \<longleftrightarrow>
    (case match_parts ms v pos of None \<Rightarrow> False | Some q \<Rightarrow> has_suffix v lst \<and> q + length lst \<le> length v)"
  using assms
proof (induction ms arbitrary: pos)
  case Nil
  have "(\<exists>t. drop pos v = t @ lst) \<longleftrightarrow> (\<exists>t. v = t @ lst) \<and> pos + length lst \<le> length v"
  proof
    assume "\<exists>t. drop pos v = t @ lst"
    then obtain t where t: "drop pos v = t @ lst" by blast
    then have "length v - pos = length t + length lst" by (metis length_append length_drop)
    moreover have "v = (take pos v @ t) @ lst" using t by (metis append.assoc append_take_drop_id)
    ultimately show "(\<exists>t. v = t @ lst) \<and> pos + length lst \<le> length v"
      using Nil.prems(3) by (intro conjI exI) (assumption, linarith)
  next
    assume "(\<exists>t. v = t @ lst) \<and> pos + length lst \<le> length v"
    then show "\<exists>t. drop pos v = t @ lst" by auto
  qed
  with Nil show ?case
    by (simp add: rest_pattern_def glob_star_iff glob_exact has_suffix_iff)
next
  case (Cons m ms)
  show ?case
  proof (cases "m = []")
    case True
    then have "glob (rest_pattern (m # ms) lst) (drop pos v) \<longleftrightarrow> glob (rest_pattern ms lst) (drop pos v)"
      using glob_rest_step[of m ms lst "drop pos v"] by simp
    with True Cons show ?thesis by simp
  next
    case False
    show ?thesis
    proof (cases "str_index (drop pos v) m")
      case None
      with False Cons.prems show ?thesis using glob_rest_step[of m ms lst "drop pos v"] by simp
    next
      case (Some i)
      have "pos + (i + length m) \<le> length v" using str_index_bound[OF Some] Cons.prems(3) by simp
      with Cons Some False show ?thesis
        using glob_rest_step[of m ms lst "drop pos v"] by (simp add: add.commute)
    qed
  qed
qed

lemma wildcard_glob: "wildcardMatch pattern value \<longleftrightarrow> glob pattern value"
proof -
  obtain p0 ps where parts: "str_split pattern ''*'' = p0 # ps"
    using split_char[of "CHR ''*''" pattern] by (cases "str_split pattern ''*''") auto
  have join: "str_join ''*'' (p0 # ps) = pattern" and nostar: "\<forall>p \<in> set (p0 # ps). CHR ''*'' \<notin> set p"
    using split_char[of "CHR ''*''" pattern] parts by auto
  show ?thesis
  proof (cases ps rule: rev_cases)
    case Nil
    then have "pattern = p0" "pattern \<noteq> ''*''" using join nostar by auto
    then show ?thesis using nostar Nil parts by (auto simp: wildcardMatch_def glob_exact glob_Nil)
  next
    case (snoc ms lst)
    have pat: "pattern = p0 @ rest_pattern ms lst"
      using join snoc by (cases ms) (simp_all add: rest_pattern_def)
    then have ne: "pattern \<noteq> []" by (simp add: rest_pattern_def)
    have g: "glob pattern value \<longleftrightarrow> has_prefix value p0 \<and> glob (rest_pattern ms lst) (drop (length p0) value)"
      using nostar by (auto simp: pat glob_literal prefix_def)
    have shape: "length (str_split pattern ''*'') \<noteq> 1" "hd (str_split pattern ''*'') = p0"
      "last (str_split pattern ''*'') = lst" "butlast (tl (str_split pattern ''*'')) = ms"
      using parts snoc by simp_all
    have star: "pattern = ''*'' \<Longrightarrow> p0 = [] \<and> glob pattern value"
      using pat by (cases p0) (auto simp: rest_pattern_def glob_star_iff glob_Nil)
    show ?thesis
    proof (cases "has_prefix value p0")
      case False
      then have "p0 \<noteq> []" by auto
      with False g ne shape star show ?thesis by (auto simp: wildcardMatch_def)
    next
      case True
      let ?m = "match_parts ms value (length p0)"
      have "length p0 \<le> length value" using True by (rule prefix_length_le)
      then have m: "glob pattern value \<longleftrightarrow>
          (case ?m of None \<Rightarrow> False | Some q \<Rightarrow> has_suffix value lst \<and> q + length lst \<le> length value)"
        using g True match_parts_glob[of ms lst "length p0" "value"] nostar snoc by simp
      have le: "q \<le> length value" if "match_parts ns value pos = Some q" "pos \<le> length value" for ns pos q
        using that by (induction ns arbitrary: pos) (auto split: if_splits option.splits dest: str_index_bound)
      have one: "ms = [] \<Longrightarrow> p0 = [] \<Longrightarrow> has_suffix value lst \<Longrightarrow> length lst \<le> length value"
        by (auto simp: has_suffix_iff)
      have two: "length (str_split pattern ''*'') = 2 \<longleftrightarrow> ms = []" using parts snoc by simp
      have suf: "has_suffix value []" by (simp add: has_suffix_iff)
      show ?thesis
        using m le[of ms "length p0"] one two star suf ne shape True \<open>length p0 \<le> length value\<close>
        by (auto simp: wildcardMatch_def Let_def split: option.splits if_splits)
    qed
  qed
qed

text \<open>
  C15. Header value patterns mean what they say: a value matches a pattern exactly if it is the pattern
  with every star replaced by some text. In particular taking the leftmost occurrence of each part
  never misses a match, and overlapping ends are not counted twice.
\<close>

theorem wildcard_match_glob: "wildcardMatch pattern value \<longleftrightarrow> glob pattern value"
  by (rule wildcard_glob)

section \<open>Value rules\<close>

lemma str_split_blank:
  assumes "c \<noteq> b"
  shows "\<exists>p ps. str_split s [c] = p # ps \<and> str_split (b # s) [c] = (b # p) # ps"
proof (cases "c \<in> set s")
  case True
  then obtain x r where s: "s = x @ c # r" "c \<notin> set x" by (meson split_list_first)
  then show ?thesis using str_split_at[of c "b # x" r] str_split_at[of c x r] assms by simp
next
  case False
  then show ?thesis using str_split_none[of c s] str_split_none[of c "b # s"] assms by simp
qed

definition clean_item :: "char \<Rightarrow> string \<Rightarrow> bool" where
  "clean_item c x \<longleftrightarrow> c \<notin> set x \<and> x \<noteq> [] \<and> trim_space x = x"

lemma split_joined_items:
  assumes "c \<noteq> CHR '' ''" "\<forall>x \<in> set xs. clean_item c x" "xs \<noteq> []"
  shows "map trim_space (str_split (str_join [c, CHR '' ''] xs) [c]) = xs"
  using assms(2,3)
proof (induction xs)
  case (Cons x xs)
  show ?case
  proof (cases xs)
    case Nil
    with Cons.prems show ?thesis by (simp add: str_split_none clean_item_def)
  next
    case c: (Cons y ys)
    let ?j = "str_join [c, CHR '' ''] xs"
    obtain p ps where p: "str_split ?j [c] = p # ps" "str_split (CHR '' '' # ?j) [c] = (CHR '' '' # p) # ps"
      using str_split_blank[OF assms(1)] by blast
    have "str_split (str_join [c, CHR '' ''] (x # xs)) [c] = x # (CHR '' '' # p) # ps"
      using Cons.prems str_split_at[of c x "CHR '' '' # ?j"] p(2) by (simp add: c clean_item_def)
    with Cons c p(1) show ?thesis by (simp add: trim_space_blank clean_item_def)
  qed
qed simp

lemma set_trim_space: "set (trim_space s) \<subseteq> set s"
proof -
  have "set (trim_right t) \<subseteq> set t" for t by (rule set_mono_prefix[OF trim_right_prefix])
  moreover have "set (trim_left s) \<subseteq> set s" unfolding trim_left_def by (rule set_mono_suffix[OF drop_spaces_suffix])
  ultimately show ?thesis unfolding trim_space_def by blast
qed

definition item_separator :: "string \<Rightarrow> char" where
  "item_separator sep = (if trim_space sep = [] then CHR '','' else hd sep)"

lemma split_items_clean:
  assumes "trim_space sep = [] \<or> length sep = 1" "x \<in> set (splitHeaderValueItems v sep)"
  shows "clean_item (item_separator sep) x"
proof -
  let ?c = "item_separator sep"
  have s: "(if trim_space sep = [] then '','' else sep) = [?c]"
    using assms(1) by (cases sep) (auto simp: item_separator_def)
  from assms(2) obtain y where y: "y \<in> set (str_split v [?c])" "x = trim_space y" "x \<noteq> []"
    unfolding splitHeaderValueItems_def s Let_def by auto
  then have "?c \<notin> set y" using split_char by blast
  with y set_trim_space[of y] show ?thesis by (auto simp: clean_item_def)
qed

lemma split_items_join:
  assumes "trim_space sep = [] \<or> length sep = 1" "\<forall>x \<in> set xs. clean_item (item_separator sep) x" "xs \<noteq> []"
  shows "splitHeaderValueItems (str_join (headerValueJoinSeparator sep) xs) sep = xs"
proof -
  let ?c = "item_separator sep"
  have s: "(if trim_space sep = [] then '','' else sep) = [?c]"
    using assms(1) by (cases sep) (auto simp: item_separator_def)
  have j: "headerValueJoinSeparator sep = [?c, CHR '' '']"
    using assms(1) by (cases sep) (auto simp: item_separator_def headerValueJoinSeparator_def)
  have b: "trim_space '' '' = []" by code_simp
  have ns: "?c \<noteq> CHR '' ''"
  proof
    assume *: "?c = CHR '' ''"
    with assms(1) have "trim_space sep \<noteq> []" by (auto simp: item_separator_def split: if_splits)
    moreover from * this assms(1) have "sep = '' ''" by (cases sep) (auto simp: item_separator_def)
    ultimately show False using b by simp
  qed
  have "filter (\<lambda>item. item \<noteq> []) xs = xs" using assms(2) by (auto simp: clean_item_def filter_id_conv)
  then show ?thesis
    unfolding splitHeaderValueItems_def s j Let_def split_joined_items[OF ns assms(2,3)] .
qed

lemma hdr_Values_simps [simp]:
  "hdr_Values (hdr_Set n v h) m = (if canonical_key m = canonical_key n then [v] else hdr_Values h m)"
  "hdr_Values (hdr_Del n h) m = (if canonical_key m = canonical_key n then [] else hdr_Values h m)"
  by (simp_all add: hdr_Values_def hdr_Set_def hdr_Del_def update_conv' delete_conv')

text \<open>
  The value rules keep exactly the right items: after a keep or filter rule the items of the header
  are, in order, those items it had before that match one of the patterns (keep) or none of them
  (filter), and every other header is as before.
\<close>

theorem header_value_rule_exact:
  assumes "trim_space (hv_Separator rule) = [] \<or> length (hv_Separator rule) = 1" "trim_space (hv_Name rule) = n" "n \<noteq> []"
  shows "splitHeaderValues (hdr_Values (applyHeaderValueRule rule keep h) n) (hv_Separator rule) =
      filter (\<lambda>item. (\<exists>p \<in> set (hv_Patterns rule). glob p item) = keep) (splitHeaderValues (hdr_Values h n) (hv_Separator rule)) \<and>
    (canonical_key m \<noteq> canonical_key n \<longrightarrow> hdr_Values (applyHeaderValueRule rule keep h) m = hdr_Values h m)"
proof -
  let ?sep = "hv_Separator rule" and ?items = "splitHeaderValues (hdr_Values h n) (hv_Separator rule)"
  let ?kept = "filter (\<lambda>item. matchesAnyHeaderValuePattern item (hv_Patterns rule) = keep) ?items"
  have any: "matchesAnyHeaderValuePattern x ps \<longleftrightarrow> (\<exists>p \<in> set ps. glob p x)" for x ps
    by (auto simp: matchesAnyHeaderValuePattern_def list_ex_iff wildcard_glob)
  have "\<forall>x \<in> set ?kept. clean_item (item_separator ?sep) x"
    using split_items_clean[OF assms(1)] by (auto simp: splitHeaderValues_def)
  then have join: "?kept \<noteq> [] \<Longrightarrow> splitHeaderValueItems (str_join (headerValueJoinSeparator ?sep) ?kept) ?sep = ?kept"
    by (rule split_items_join[OF assms(1)])
  have empty: "hdr_Values h n = [] \<Longrightarrow> ?items = []" "splitHeaderValues [] ?sep = []"
    by (simp_all add: splitHeaderValues_def)
  have one: "splitHeaderValues [v] ?sep = splitHeaderValueItems v ?sep" for v
    by (simp add: splitHeaderValues_def)
  show ?thesis
    using assms(2,3) join empty one unfolding any[symmetric]
    by (auto simp: applyHeaderValueRule_def Let_def)
qed

definition demo_rule :: header_value_rule where
  "demo_rule = \<lparr>hv_Name = '' anthropic-beta '', hv_Patterns = [''a-*'', ''z''], hv_Separator = []\<rparr>"

definition demo_header :: header where
  "demo_header = [(''Anthropic-Beta'', [''a-1, b '', '' ,a-2'']), (''X'', [''y''])]"

theorem header_value_rule_exact_witness:
  "splitHeaderValues (hdr_Values (applyHeaderValueRule demo_rule True demo_header) ''anthropic-beta'') [] = [''a-1'', ''a-2''] \<and>
   filter (\<lambda>item. (\<exists>p \<in> set (hv_Patterns demo_rule). glob p item) = True)
     (splitHeaderValues (hdr_Values demo_header ''anthropic-beta'') []) = [''a-1'', ''a-2'']"
proof -
  have s: "hv_Separator demo_rule = []" and n: "trim_space (hv_Name demo_rule) = ''anthropic-beta''" by code_simp+
  have "splitHeaderValues (hdr_Values (applyHeaderValueRule demo_rule True demo_header) ''anthropic-beta'') [] = [''a-1'', ''a-2'']"
    by code_simp
  with header_value_rule_exact[of demo_rule "''anthropic-beta''" True demo_header] s n show ?thesis by simp
qed

end
