(* ===== verification/Json_Ops.thy ===== *)
theory Json_Ops
  imports Dsl_Headers
begin

text \<open>
  The JSON mutations of provider configurations, \<^verbatim>\<open>onr-core/pkg/dslconfig/json_ops.go\<close>, and the
  event filter \<^verbatim>\<open>matchesUsageEvent\<close> of \<^verbatim>\<open>usage_root.go\<close>.

  Go's object trees are mutated in place; none of the operations makes one subtree reachable from two
  places, so a tree that is returned updated models them. Floating-point numbers are a parameter: \<open>float_ops\<close>
  holds the coercion, comparison, parsing and embedding the code uses. An operation returns an error
  or whether it changed the object, with the object.

  Shown: setting, replacing, deleting and renaming are exactly the tree updates their names say, for
  the path they name and for every path that does not lie on it.
\<close>

section \<open>Data\<close>

type_synonym jobj = "(string \<times> json) list"

record 'f float_ops =
  fo_CoerceFloatOK :: "json \<Rightarrow> 'f option"
  fo_less :: "'f \<Rightarrow> 'f \<Rightarrow> bool"
  fo_json :: "'f \<Rightarrow> json"
  fo_parseLiteral :: "string \<Rightarrow> 'f option"

record 'f json_op =
  jo_Op :: string
  jo_Path :: string
  jo_FromPath :: string
  jo_ToPath :: string
  jo_ValueExpr :: string
  jo_HeaderName :: string
  jo_FieldName :: string
  jo_Patterns :: "string list"
  jo_Separator :: string
  jo_Event :: string
  jo_EventOptional :: bool
  jo_MaxCount :: int
  jo_MatchValue :: string
  jo_ClampRange :: "('f \<times> 'f) option"

text \<open>
  What the operations read of a request besides the string metadata. The request root in the metadata
  may be the very object that is operated on, as it is for request bodies; then expressions see the
  changes that are already made.
\<close>

record 'f op_env =
  oe_meta :: meta
  oe_headers :: header
  oe_maxPrice :: "(string \<times> 'f) list"
  oe_float :: "'f float_ops"
  oe_sharesRoot :: bool

datatype json_error =
    PathNotRooted
  | PathHasIndex
  | PathEmptyKey
  | NumberVariableUnavailable
  | WrapExpectsStringOrArray
  | FilterExpectsStrings
  | ClampRangeMissing
  | UnsupportedOp string
  | RootNil

section \<open>Paths\<close>

definition parseObjectPath :: "string \<Rightarrow> json_error + string list" where
  "parseObjectPath path =
     (let p = trim_space path in
      if \<not> has_prefix p ''$.'' then Inl PathNotRooted
      else
        let rest = trim_prefix p ''$.'' in
        if CHR ''['' \<in> set rest \<or> CHR '']'' \<in> set rest then Inl PathHasIndex
        else
          let parts = map trim_space (str_split rest ''.'') in
          if list_ex (\<lambda>k. k = []) parts then Inl PathEmptyKey else Inr parts)"

text \<open>The object under a key, if there is one.\<close>

definition sub_object :: "string \<Rightarrow> jobj \<Rightarrow> jobj option" where
  "sub_object k ob = (case map_of ob k of Some (JObj m) \<Rightarrow> Some m | _ \<Rightarrow> None)"

text \<open>
  The walk to the parent of a path, shared by the operations: \<open>act\<close> is applied to the last key and the
  object that holds it; where the walk leaves the objects, nothing changes.
\<close>

fun at_parent :: "(string \<Rightarrow> jobj \<Rightarrow> json_error + (bool \<times> jobj)) \<Rightarrow> string list \<Rightarrow> jobj \<Rightarrow> json_error + (bool \<times> jobj)" where
  "at_parent act [] ob = Inr (False, ob)"
| "at_parent act [k] ob = act k ob"
| "at_parent act (k # ks) ob =
     (case sub_object k ob of
        Some m \<Rightarrow> bind_res (at_parent act ks m) (\<lambda>(c, m'). Inr (c, AList.update k (JObj m') ob))
      | None \<Rightarrow> Inr (False, ob))"

definition on_path :: "string \<Rightarrow> (string \<Rightarrow> jobj \<Rightarrow> json_error + (bool \<times> jobj)) \<Rightarrow> jobj \<Rightarrow> json_error + (bool \<times> jobj)" where
  "on_path path act ob = bind_res (parseObjectPath path) (\<lambda>parts. at_parent act parts ob)"

text \<open>The value at a path.\<close>

fun get_parts :: "string list \<Rightarrow> jobj \<Rightarrow> json option" where
  "get_parts [] ob = None"
| "get_parts [k] ob = map_of ob k"
| "get_parts (k # ks) ob = (case sub_object k ob of Some m \<Rightarrow> get_parts ks m | None \<Rightarrow> None)"

definition jsonGet :: "string \<Rightarrow> jobj \<Rightarrow> json option" where
  "jsonGet path ob = (case parseObjectPath path of Inl _ \<Rightarrow> None | Inr parts \<Rightarrow> get_parts parts ob)"

definition jsonPathExists :: "string \<Rightarrow> jobj \<Rightarrow> json_error + bool" where
  "jsonPathExists path ob = bind_res (parseObjectPath path) (\<lambda>parts. Inr (get_parts parts ob \<noteq> None))"

section \<open>Operations\<close>

fun set_parts :: "string list \<Rightarrow> json \<Rightarrow> jobj \<Rightarrow> bool \<times> jobj" where
  "set_parts [] v ob = (False, ob)"
| "set_parts [k] v ob = (if map_of ob k = Some v then (False, ob) else (True, AList.update k v ob))"
| "set_parts (k # ks) v ob =
     (case sub_object k ob of
        Some m \<Rightarrow> (let (c, m') = set_parts ks v m in (c, AList.update k (JObj m') ob))
      | None \<Rightarrow> (let (c, m') = set_parts ks v [] in (True, AList.update k (JObj m') ob)))"

definition jsonSet :: "string \<Rightarrow> json \<Rightarrow> jobj \<Rightarrow> json_error + (bool \<times> jobj)" where
  "jsonSet path v ob = bind_res (parseObjectPath path) (\<lambda>parts. Inr (set_parts parts v ob))"

definition replace_last :: "json \<Rightarrow> string \<Rightarrow> jobj \<Rightarrow> json_error + (bool \<times> jobj)" where
  "replace_last v k ob =
       (case map_of ob k of
         None \<Rightarrow> Inr (False, ob)
       | Some old \<Rightarrow> if old = v then Inr (False, ob) else Inr (True, AList.update k v ob))"

definition jsonReplace :: "string \<Rightarrow> json \<Rightarrow> jobj \<Rightarrow> json_error + (bool \<times> jobj)" where
  "jsonReplace path v = on_path path (replace_last v)"

definition del_last :: "string \<Rightarrow> jobj \<Rightarrow> json_error + (bool \<times> jobj)" where
  "del_last k ob =
       (if map_of ob k = None then Inr (False, ob) else Inr (True, AList.delete k ob))"

definition jsonDel :: "string \<Rightarrow> jobj \<Rightarrow> json_error + (bool \<times> jobj)" where
  "jsonDel path = on_path path del_last"

definition jsonRename :: "string \<Rightarrow> string \<Rightarrow> jobj \<Rightarrow> json_error + (bool \<times> jobj)" where
  "jsonRename fromPath toPath ob =
     bind_res (parseObjectPath fromPath) (\<lambda>fromParts.
     bind_res (parseObjectPath toPath) (\<lambda>toParts.
       case get_parts fromParts ob of
         None \<Rightarrow> Inr (False, ob)
       | Some v \<Rightarrow>
           bind_res (at_parent (\<lambda>k m. Inr (True, AList.delete k m)) fromParts ob) (\<lambda>(_, ob').
             Inr (True, snd (set_parts toParts v ob')))))"

definition wrapped_input :: "string \<Rightarrow> json" where
  "wrapped_input text =
     JArr [JObj [(''role'', JStr ''user''),
                 (''content'', JArr [JObj [(''type'', JStr ''input_text''), (''text'', JStr text)]])]]"

definition wrap_last :: "string \<Rightarrow> jobj \<Rightarrow> json_error + (bool \<times> jobj)" where
  "wrap_last k ob =
       (case map_of ob k of
         None \<Rightarrow> Inr (False, ob)
       | Some (JStr text) \<Rightarrow> Inr (True, AList.update k (wrapped_input text) ob)
       | Some (JArr _) \<Rightarrow> Inr (False, ob)
       | Some (JStrs _) \<Rightarrow> Inr (False, ob)
       | Some _ \<Rightarrow> Inl WrapExpectsStringOrArray)"

definition jsonWrapInputText :: "string \<Rightarrow> jobj \<Rightarrow> json_error + (bool \<times> jobj)" where
  "jsonWrapInputText path = on_path path wrap_last"

definition stringSliceValue :: "json \<Rightarrow> string list option" where
  "stringSliceValue v =
     (case v of
        JStrs ss \<Rightarrow> Some ss
      | JArr xs \<Rightarrow> those (map (\<lambda>x. case x of JStr s \<Rightarrow> Some s | _ \<Rightarrow> None) xs)
      | _ \<Rightarrow> None)"

definition lowerPatterns :: "string list \<Rightarrow> string list" where
  "lowerPatterns patterns = map (\<lambda>p. to_lower (trim_space p)) patterns"

definition filter_last :: "string list \<Rightarrow> bool \<Rightarrow> string \<Rightarrow> jobj \<Rightarrow> json_error + (bool \<times> jobj)" where
  "filter_last patterns keepMatching k ob =
       (case map_of ob k of
         None \<Rightarrow> Inr (False, ob)
       | Some v \<Rightarrow>
           (case stringSliceValue v of
              None \<Rightarrow> Inl FilterExpectsStrings
            | Some values \<Rightarrow>
                let filtered = filter (\<lambda>s. matchesAnyHeaderValuePattern (to_lower s) (lowerPatterns patterns) = keepMatching) values in
                if filtered = [] then Inr (True, AList.delete k ob)
                else if values = filtered then Inr (False, ob)
                else Inr (True, AList.update k (JStrs filtered) ob)))"

definition jsonApplyValueFilter :: "string \<Rightarrow> string list \<Rightarrow> bool \<Rightarrow> jobj \<Rightarrow> json_error + (bool \<times> jobj)" where
  "jsonApplyValueFilter path patterns keepMatching = on_path path (filter_last patterns keepMatching)"

definition jsonFilterValues :: "string \<Rightarrow> string list \<Rightarrow> jobj \<Rightarrow> json_error + (bool \<times> jobj)" where
  "jsonFilterValues path patterns = jsonApplyValueFilter path patterns True"

definition jsonKeepValues :: "string \<Rightarrow> string list \<Rightarrow> jobj \<Rightarrow> json_error + (bool \<times> jobj)" where
  "jsonKeepValues path patterns = jsonApplyValueFilter path patterns True"

definition jsonObjectFieldMatches :: "jobj \<Rightarrow> string \<Rightarrow> string list \<Rightarrow> bool" where
  "jsonObjectFieldMatches ob fieldName patterns =
     (case map_of ob (trim_space fieldName) of
        Some (JStr fieldValue) \<Rightarrow> matchesAnyHeaderValuePattern (to_lower fieldValue) (lowerPatterns patterns)
      | _ \<Rightarrow> False)"

definition field_matches :: "string \<Rightarrow> string list \<Rightarrow> json \<Rightarrow> bool" where
  "field_matches fieldName patterns x = (case x of JObj m \<Rightarrow> jsonObjectFieldMatches m fieldName patterns | _ \<Rightarrow> False)"

definition del_matching_last :: "string \<Rightarrow> string list \<Rightarrow> string \<Rightarrow> jobj \<Rightarrow> json_error + (bool \<times> jobj)" where
  "del_matching_last fieldName patterns k ob =
       (case map_of ob k of
         Some (JArr items) \<Rightarrow>
           (let filtered = filter (\<lambda>x. \<not> field_matches fieldName patterns x) items in
            if length filtered = length items then Inr (False, ob)
            else if filtered = [] then Inr (True, AList.delete k ob)
            else Inr (True, AList.update k (JArr filtered) ob))
       | Some v \<Rightarrow>
           if field_matches fieldName patterns v then Inr (True, AList.delete k ob) else Inr (False, ob)
       | None \<Rightarrow> Inr (False, ob))"

definition jsonDelWithCondition :: "string \<Rightarrow> string \<Rightarrow> string list \<Rightarrow> jobj \<Rightarrow> json_error + (bool \<times> jobj)" where
  "jsonDelWithCondition path fieldName patterns = on_path path (del_matching_last fieldName patterns)"

definition map_value_last :: "string \<Rightarrow> json \<Rightarrow> string \<Rightarrow> jobj \<Rightarrow> json_error + (bool \<times> jobj)" where
  "map_value_last matchValue v k ob =
       (case map_of ob k of
         Some (JStr s) \<Rightarrow>
           if s \<noteq> matchValue then Inr (False, ob)
           else if JStr s = v then Inr (False, ob)
           else Inr (True, AList.update k v ob)
       | _ \<Rightarrow> Inr (False, ob))"

definition jsonMapValue :: "string \<Rightarrow> string \<Rightarrow> json \<Rightarrow> jobj \<Rightarrow> json_error + (bool \<times> jobj)" where
  "jsonMapValue path matchValue v = on_path path (map_value_last matchValue v)"

definition clamp_last :: "'f float_ops \<Rightarrow> 'f \<Rightarrow> 'f \<Rightarrow> string \<Rightarrow> jobj \<Rightarrow> json_error + (bool \<times> jobj)" where
  "clamp_last fo lo hi k ob =
       (case map_of ob k of
          None \<Rightarrow> Inr (False, ob)
        | Some cur \<Rightarrow>
            (case fo_CoerceFloatOK fo cur of
               None \<Rightarrow> Inr (False, ob)
             | Some v \<Rightarrow>
                 let o1 = (if fo_less fo v lo then lo else v); out = (if fo_less fo hi o1 then hi else o1) in
                 if cur = fo_json fo out then Inr (False, ob)
                 else Inr (True, AList.update k (fo_json fo out) ob)))"

definition jsonClamp :: "'f float_ops \<Rightarrow> string \<Rightarrow> ('f \<times> 'f) option \<Rightarrow> jobj \<Rightarrow> json_error + (bool \<times> jobj)" where
  "jsonClamp fo path rng ob =
     (case rng of
        None \<Rightarrow> Inl ClampRangeMissing
      | Some (lo, hi) \<Rightarrow> on_path path (clamp_last fo lo hi) ob)"

section \<open>Values\<close>

definition number_variables :: "string list" where
  "number_variables =
     [''$model_channel.max_price.prompt'', ''$model_channel.max_price.completion'',
      ''$model_channel.max_price.request'', ''$model_channel.max_price.image'']"

definition parseFloatLiteral :: "'f float_ops \<Rightarrow> string \<Rightarrow> 'f option" where
  "parseFloatLiteral fo raw =
     (if raw = [] then None
      else if hd raw \<noteq> CHR ''-'' \<and> hd raw \<noteq> CHR ''+'' \<and> hd raw \<noteq> CHR ''.'' \<and> \<not> is_digit (hd raw) then None
      else if \<not> list_ex (\<lambda>c. c \<in> set ''.eE'') raw then None
      else fo_parseLiteral fo raw)"

definition evalJSONValueExpr :: "'f op_env \<Rightarrow> string \<Rightarrow> json_error + json" where
  "evalJSONValueExpr env expr =
     (let raw = trim_space expr in
      if raw = [] then Inr (JStr [])
      else if raw = ''true'' then Inr (JBool True)
      else if raw = ''false'' then Inr (JBool False)
      else if raw = ''null'' then Inr JNull
      else if has_prefix raw [dq] \<and> has_suffix raw [dq] then Inr (JStr (unquoteString raw))
      else
        case atoi raw of
          Some i \<Rightarrow> Inr (JInt i)
        | None \<Rightarrow>
            (case parseFloatLiteral (oe_float env) raw of
               Some f \<Rightarrow> Inr (fo_json (oe_float env) f)
             | None \<Rightarrow>
                 if raw \<in> set number_variables then
                   (case map_of (oe_maxPrice env) raw of
                      None \<Rightarrow> Inl NumberVariableUnavailable
                    | Some f \<Rightarrow> Inr (fo_json (oe_float env) f))
                 else Inr (JStr (EvalStringExpr raw (oe_meta env)))))"

definition headerValuesForJSON :: "'f op_env \<Rightarrow> string \<Rightarrow> string \<Rightarrow> string list" where
  "headerValuesForJSON env headerName separator =
     (let name = trim_space headerName in
      if name = [] then [] else splitHeaderValues (hdr_Values (oe_headers env) name) separator)"

section \<open>Sequences of operations\<close>

definition see_root :: "'f op_env \<Rightarrow> jobj \<Rightarrow> 'f op_env" where
  "see_root env ob =
     (if oe_sharesRoot env then env\<lparr>oe_meta := (oe_meta env)\<lparr>mt_RequestRoot := JObj ob\<rparr>\<rparr> else env)"

definition applyJSONOp :: "'f op_env \<Rightarrow> 'f json_op \<Rightarrow> jobj \<Rightarrow> json_error + (bool \<times> jobj)" where
  "applyJSONOp env op ob =
     (let opn = jo_Op op in
      if opn = ''json_set'' then bind_res (evalJSONValueExpr (see_root env ob) (jo_ValueExpr op)) (\<lambda>v. jsonSet (jo_Path op) v ob)
      else if opn = ''json_replace'' then bind_res (evalJSONValueExpr (see_root env ob) (jo_ValueExpr op)) (\<lambda>v. jsonReplace (jo_Path op) v ob)
      else if opn = ''json_set_if_absent'' then
        bind_res (jsonPathExists (jo_Path op) ob) (\<lambda>exs.
          if exs then Inr (False, ob)
          else bind_res (evalJSONValueExpr (see_root env ob) (jo_ValueExpr op)) (\<lambda>v. jsonSet (jo_Path op) v ob))
      else if opn = ''json_del'' then jsonDel (jo_Path op) ob
      else if opn = ''json_del_if_missing'' then
        bind_res (jsonPathExists (jo_FromPath op) ob) (\<lambda>exs.
          if exs then Inr (False, ob) else jsonDel (jo_Path op) ob)
      else if opn = ''json_rename'' then jsonRename (jo_FromPath op) (jo_ToPath op) ob
      else if opn = ''json_wrap_input_text'' then jsonWrapInputText (jo_Path op) ob
      else if opn = ''json_set_header_values'' then
        (let vals = headerValuesForJSON env (jo_HeaderName op) (jo_Separator op) in
         if vals = [] then Inr (False, ob) else jsonSet (jo_Path op) (JStrs vals) ob)
      else if opn = ''json_filter_values'' then jsonFilterValues (jo_Path op) (jo_Patterns op) ob
      else if opn = ''json_keep_values'' then jsonKeepValues (jo_Path op) (jo_Patterns op) ob
      else if opn = ''json_del_with_condition'' then jsonDelWithCondition (jo_Path op) (jo_FieldName op) (jo_Patterns op) ob
      else if opn = ''json_map_value'' then
        bind_res (evalJSONValueExpr (see_root env ob) (jo_ValueExpr op)) (\<lambda>v. jsonMapValue (jo_Path op) (jo_MatchValue op) v ob)
      else if opn = ''json_clamp'' then jsonClamp (oe_float env) (jo_Path op) (jo_ClampRange op) ob
      else Inl (UnsupportedOp opn))"

definition matchesUsageEvent :: "string \<Rightarrow> string \<Rightarrow> bool \<Rightarrow> bool" where
  "matchesUsageEvent current expected optional \<longleftrightarrow>
     (let e = trim_space expected; c = trim_space current in
      if e = [] then True
      else if c = [] \<and> optional then True
      else list_ex (\<lambda>part. equal_fold (trim_space part) c) (str_split e ''|''))"

definition shouldSkipJSONOp :: "string \<Rightarrow> 'f json_op \<Rightarrow> int \<Rightarrow> bool" where
  "shouldSkipJSONOp event op cnt \<longleftrightarrow>
     (trim_space (jo_Event op) \<noteq> [] \<and> \<not> matchesUsageEvent event (jo_Event op) (jo_EventOptional op)) \<or>
     (jo_MaxCount op > 0 \<and> cnt \<ge> jo_MaxCount op)"

definition recordJSONOpChange :: "bool \<Rightarrow> 'f json_op \<Rightarrow> int \<Rightarrow> int" where
  "recordJSONOpChange changed op cnt = (if \<not> changed \<or> jo_MaxCount op \<le> 0 then cnt else cnt + 1)"

text \<open>
  The loop over the operations with their change counters; \<open>act\<close> is the operation switch of the
  caller.
\<close>

fun ops_loop ::
    "('f json_op \<Rightarrow> jobj \<Rightarrow> json_error + (bool \<times> jobj)) \<Rightarrow> string \<Rightarrow> ('f json_op \<times> int) list \<Rightarrow> jobj
     \<Rightarrow> json_error + (jobj \<times> int list)" where
  "ops_loop act event [] ob = Inr (ob, [])"
| "ops_loop act event ((op, cnt) # ops) ob =
     (if shouldSkipJSONOp event op cnt
      then bind_res (ops_loop act event ops ob) (\<lambda>(ob', cs). Inr (ob', cnt # cs))
      else
        bind_res (act op ob) (\<lambda>(changed, ob').
          bind_res (ops_loop act event ops ob') (\<lambda>(ob'', cs).
            Inr (ob'', recordJSONOpChange changed op cnt # cs))))"

definition ApplyJSONOps :: "'f op_env \<Rightarrow> jobj option \<Rightarrow> 'f json_op list \<Rightarrow> json_error + jobj" where
  "ApplyJSONOps env root ops =
     (case root of
        None \<Rightarrow> Inl RootNil
      | Some ob \<Rightarrow> bind_res (ops_loop (applyJSONOp env) [] (map (\<lambda>op. (op, 0)) ops) ob) (\<lambda>(ob', _). Inr ob'))"

section \<open>Updates along a path\<close>

lemma sub_object_update [simp]:
  "sub_object j (AList.update k v ob) = (if j = k then (case v of JObj m \<Rightarrow> Some m | _ \<Rightarrow> None) else sub_object j ob)"
  by (simp add: sub_object_def update_conv')

lemma sub_object_Nil [simp]: "sub_object k [] = None"
  by (simp add: sub_object_def)

lemma sub_object_cong: "map_of ob k = map_of ob' k \<Longrightarrow> sub_object k ob = sub_object k ob'"
  by (simp add: sub_object_def)

lemma get_parts_Nil [simp]: "get_parts qs [] = None"
  by (cases "(qs, [] :: jobj)" rule: get_parts.cases) auto

lemma get_parts_cong: "map_of ob (hd qs) = map_of ob' (hd qs) \<Longrightarrow> get_parts qs ob = get_parts qs ob'"
  by (cases "(qs, ob)" rule: get_parts.cases) (auto simp: sub_object_def)

lemma get_parts_Cons2: "ks \<noteq> [] \<Longrightarrow> get_parts (k # ks) ob = (case sub_object k ob of Some m \<Rightarrow> get_parts ks m | None \<Rightarrow> None)"
  by (cases ks) (simp_all split: option.splits)

lemma set_parts_get: "ks \<noteq> [] \<Longrightarrow> get_parts ks (snd (set_parts ks v ob)) = Some v"
  by (induction ks v ob rule: set_parts.induct) (auto simp: update_conv' split: option.splits prod.splits)

lemma sub_object_Some: "sub_object k ob = Some m \<longleftrightarrow> map_of ob k = Some (JObj m)"
  by (auto simp: sub_object_def split: option.splits json.splits)

lemma update_same: "map_of ob k = Some v \<Longrightarrow> AList.update k v ob = ob"
  by (induction ob) auto

lemma set_parts_unchanged: "set_parts ks v ob = (False, ob') \<Longrightarrow> ob' = ob"
proof (induction ks v ob arbitrary: ob' rule: set_parts.induct)
  case (3 k k' ks v ob)
  show ?case
  proof (cases "sub_object k ob")
    case (Some m)
    obtain c m' where r: "set_parts (k' # ks) v m = (c, m')" by force
    with 3(3) Some have "c = False" "ob' = AList.update k (JObj m') ob" by auto
    with 3(2)[OF Some] r Some show ?thesis by (simp add: update_same sub_object_Some)
  qed (use 3(3) in \<open>auto split: prod.splits\<close>)
qed (auto split: if_splits)

lemma parallel_Cons: "(k # ks) \<parallel> (q # qs) \<longleftrightarrow> k \<noteq> q \<or> ks \<parallel> qs"
  by (auto simp: parallel_def)

lemma parallel_ne: "ks \<parallel> qs \<Longrightarrow> ks \<noteq> [] \<and> qs \<noteq> []"
  by (auto simp: parallel_def)

lemma set_parts_frame:
  "ks \<parallel> qs \<Longrightarrow> get_parts qs (snd (set_parts ks v ob)) = get_parts qs ob"
proof (induction ks v ob arbitrary: qs rule: set_parts.induct)
  case (2 k v ob)
  then show ?case
    by (cases qs) (auto simp: parallel_Cons update_conv' dest: parallel_ne intro!: get_parts_cong)
next
  case (3 k k' ks v ob)
  obtain q qs' where qs: "qs = q # qs'" using parallel_ne[OF 3(3)] by (cases qs) auto
  show ?case
  proof (cases "q = k")
    case False
    then have "map_of (AList.update k x ob) (hd qs) = map_of ob (hd qs)" for x by (simp add: qs update_conv')
    then have "get_parts qs (AList.update k x ob) = get_parts qs ob" for x by (rule get_parts_cong)
    then show ?thesis by (simp split: option.splits prod.splits)
  next
    case True
    then have par: "(k' # ks) \<parallel> qs'" using 3(3) by (simp add: qs parallel_Cons)
    then have ne: "qs' \<noteq> []" using parallel_ne by blast
    from 3(1)[OF _ par] 3(2)[OF _ par] show ?thesis
      by (auto simp: qs True get_parts_Cons2[OF ne] split: option.splits prod.splits)
  qed
qed (auto dest: parallel_ne)

lemma str_split_ne [simp]: "str_split s sep \<noteq> []"
  by (subst str_split.simps) (simp split: option.splits)

lemma parse_ne: "parseObjectPath path = Inr ks \<Longrightarrow> ks \<noteq> []"
  by (auto simp: parseObjectPath_def Let_def split: if_splits)

lemma jsonGet_parts: "parseObjectPath path = Inr ks \<Longrightarrow> jsonGet path ob = get_parts ks ob"
  by (simp add: jsonGet_def)

text \<open>Two objects that agree on every path that parts from \<open>ks\<close>.\<close>

definition agree_off :: "string list \<Rightarrow> jobj \<Rightarrow> jobj \<Rightarrow> bool" where
  "agree_off ks ob ob' \<longleftrightarrow> (\<forall>qs. ks \<parallel> qs \<longrightarrow> get_parts qs ob' = get_parts qs ob)"

text \<open>
  The interface of an operation on the last key of a path. \<open>upd\<close> is the value the operation gives that
  key, from the value it has; the operation touches no other key, leaves an absent value absent, and
  leaves the object alone when it reports no change. Its clients get the same laws for whole paths:
  the value at the path is updated, and no path that parts from it is reached.
\<close>

locale key_update =
  fixes act :: "string \<Rightarrow> jobj \<Rightarrow> json_error + (bool \<times> jobj)"
    and upd :: "json option \<Rightarrow> json option"
  assumes here: "act k ob = Inr (c, ob') \<Longrightarrow> map_of ob' k = upd (map_of ob k)"
    and elsewhere: "act k ob = Inr (c, ob') \<Longrightarrow> j \<noteq> k \<Longrightarrow> map_of ob' j = map_of ob j"
    and absent: "upd None = None"
    and unchanged: "act k ob = Inr (False, ob') \<Longrightarrow> ob' = ob"
begin

lemma at_parent_step:
  assumes "at_parent act (k # ks) ob = Inr (c, ob')" "ks \<noteq> []"
  obtains "sub_object k ob = None" "ob' = ob" "c = False"
  | m m' where "sub_object k ob = Some m" "at_parent act ks m = Inr (c, m')" "ob' = AList.update k (JObj m') ob"
  using assms by (cases ks; cases "sub_object k ob") (auto simp: bind_res_eq_Inr)

lemma at_parent_frame:
  "at_parent act ks ob = Inr (c, ob') \<Longrightarrow> ks \<parallel> qs \<Longrightarrow> get_parts qs ob' = get_parts qs ob"
proof (induction ks arbitrary: ob c ob' qs)
  case (Cons k ks)
  obtain q qs' where qs: "qs = q # qs'" using parallel_ne[OF Cons(3)] by (cases qs) auto
  show ?case
  proof (cases "ks = []")
    case True
    then have "q \<noteq> k" using Cons(3) by (auto simp: qs parallel_Cons dest: parallel_ne)
    then show ?thesis using elsewhere[of k ob c ob' q] Cons(2) by (intro get_parts_cong) (simp add: True qs)
  next
    case False
    from Cons.prems(1) False show ?thesis
    proof (cases rule: at_parent_step)
      case (2 m m')
      show ?thesis
      proof (cases "q = k")
        case False
        then show ?thesis by (intro get_parts_cong) (simp add: 2 qs update_conv')
      next
        case True
        then have par: "ks \<parallel> qs'" using Cons.prems(2) by (simp add: qs parallel_Cons)
        then have ne: "qs' \<noteq> []" using parallel_ne by blast
        from Cons.IH[OF 2(2) par] show ?thesis by (simp add: qs True 2 get_parts_Cons2[OF ne])
      qed
    qed simp
  qed
qed (auto dest: parallel_ne)

lemma at_parent_get:
  "at_parent act ks ob = Inr (c, ob') \<Longrightarrow> ks \<noteq> [] \<Longrightarrow> get_parts ks ob' = upd (get_parts ks ob)"
proof (induction ks arbitrary: ob c ob')
  case (Cons k ks)
  show ?case
  proof (cases "ks = []")
    case True
    then show ?thesis using here Cons.prems(1) by simp
  next
    case False
    from Cons.prems(1) False show ?thesis
      by (cases rule: at_parent_step) (simp_all add: False get_parts_Cons2 absent Cons.IH)
  qed
qed simp

lemma at_parent_unchanged: "at_parent act ks ob = Inr (False, ob') \<Longrightarrow> ob' = ob"
proof (induction ks arbitrary: ob ob')
  case (Cons k ks)
  show ?case
  proof (cases "ks = []")
    case True
    then show ?thesis using unchanged Cons.prems(1) by simp
  next
    case False
    from Cons.prems(1) False show ?thesis
    proof (cases rule: at_parent_step)
      case (2 m m')
      then show ?thesis using Cons.IH[OF 2(2)] by (simp add: sub_object_Some update_same)
    qed simp
  qed
qed simp

lemma on_path_laws:
  assumes ks: "parseObjectPath path = Inr ks" and r: "on_path path act ob = Inr (c, ob')"
  shows "jsonGet path ob' = upd (jsonGet path ob)" "agree_off ks ob ob'" "c \<or> ob' = ob"
proof -
  have r: "at_parent act ks ob = Inr (c, ob')" using assms by (simp add: on_path_def)
  show "jsonGet path ob' = upd (jsonGet path ob)" using at_parent_get[OF r parse_ne[OF ks]] by (simp add: jsonGet_parts[OF ks])
  show "agree_off ks ob ob'" using at_parent_frame[OF r] by (simp add: agree_off_def)
  show "c \<or> ob' = ob" using at_parent_unchanged[of ks ob ob'] r by auto
qed

lemma on_path_frame:
  assumes "on_path path act ob = Inr (c, ob')" "\<forall>ks. parseObjectPath path = Inr ks \<longrightarrow> ks \<parallel> qs"
  shows "get_parts qs ob' = get_parts qs ob"
  using assms on_path_laws(2)[OF _ assms(1)] by (cases "parseObjectPath path") (auto simp: on_path_def agree_off_def)

end

definition replace_upd :: "json \<Rightarrow> json option \<Rightarrow> json option" where
  "replace_upd v x = (if x = None then None else Some v)"

definition wrap_upd :: "json option \<Rightarrow> json option" where
  "wrap_upd x = (case x of Some (JStr text) \<Rightarrow> Some (wrapped_input text) | _ \<Rightarrow> x)"

definition filter_upd :: "string list \<Rightarrow> bool \<Rightarrow> json option \<Rightarrow> json option" where
  "filter_upd patterns keep x =
     (case Option.bind x stringSliceValue of
        None \<Rightarrow> x
      | Some values \<Rightarrow>
          let filtered = filter (\<lambda>s. matchesAnyHeaderValuePattern (to_lower s) (lowerPatterns patterns) = keep) values in
          if filtered = [] then None else if filtered = values then x else Some (JStrs filtered))"

definition del_matching_upd :: "string \<Rightarrow> string list \<Rightarrow> json option \<Rightarrow> json option" where
  "del_matching_upd fieldName patterns x =
     (case x of
        Some (JArr items) \<Rightarrow>
          if \<not> list_ex (field_matches fieldName patterns) items then x
          else if list_all (field_matches fieldName patterns) items then None
          else Some (JArr (filter (\<lambda>i. \<not> field_matches fieldName patterns i) items))
      | Some v \<Rightarrow> if field_matches fieldName patterns v then None else x
      | None \<Rightarrow> None)"

definition map_value_upd :: "string \<Rightarrow> json \<Rightarrow> json option \<Rightarrow> json option" where
  "map_value_upd matchValue v x = (if x = Some (JStr matchValue) then Some v else x)"

definition clamp_upd :: "'f float_ops \<Rightarrow> 'f \<Rightarrow> 'f \<Rightarrow> json option \<Rightarrow> json option" where
  "clamp_upd fo lo hi x =
     (case Option.bind x (fo_CoerceFloatOK fo) of
        None \<Rightarrow> x
      | Some v \<Rightarrow> Some (fo_json fo (if fo_less fo v lo then (if fo_less fo hi lo then hi else lo)
                                   else if fo_less fo hi v then hi else v)))"

lemmas last_act_defs = update_conv' delete_conv' Let_def

interpretation replace: key_update "replace_last v" "replace_upd v" for v
  by unfold_locales (auto simp: replace_last_def replace_upd_def last_act_defs split: option.splits if_splits)

interpretation del: key_update del_last "\<lambda>_. None"
  by unfold_locales (auto simp: del_last_def last_act_defs split: if_splits)

interpretation cut: key_update "\<lambda>k m. Inr (True, AList.delete k m)" "\<lambda>_. None"
  by unfold_locales (auto simp: last_act_defs)

interpretation wrap: key_update wrap_last wrap_upd
  by unfold_locales (auto simp: wrap_last_def wrap_upd_def last_act_defs split: option.splits json.splits)

interpretation filter_values: key_update "filter_last patterns keep" "filter_upd patterns keep" for patterns keep
  by unfold_locales
    (auto simp: filter_last_def filter_upd_def last_act_defs split: option.splits if_splits)

lemma field_matches_simps [simp]:
  "\<not> field_matches f ps JNull" "\<not> field_matches f ps (JBool b)" "\<not> field_matches f ps (JNum i s)"
  "\<not> field_matches f ps (JStr s)" "\<not> field_matches f ps (JArr xs)" "\<not> field_matches f ps (JInt i)"
  "\<not> field_matches f ps (JStrs ss)"
  by (simp_all add: field_matches_def)

lemma filter_length_eq: "length (filter P xs) = length xs \<longleftrightarrow> list_all P xs"
  by (induction xs) (auto, metis Suc_n_not_le_n length_filter_le)

interpretation del_matching: key_update "del_matching_last f ps" "del_matching_upd f ps" for f ps
  by unfold_locales
    (auto simp: del_matching_last_def del_matching_upd_def last_act_defs filter_length_eq list_all_iff
      list_ex_iff filter_empty_conv split: option.splits json.splits if_splits)

interpretation map_value: key_update "map_value_last mv v" "map_value_upd mv v" for mv v
  by unfold_locales
    (auto simp: map_value_last_def map_value_upd_def last_act_defs split: option.splits json.splits if_splits)

interpretation clamp: key_update "clamp_last fo lo hi" "clamp_upd fo lo hi" for fo lo hi
  by unfold_locales
    (auto simp: clamp_last_def clamp_upd_def last_act_defs split: option.splits if_splits)

lemma at_parent_total:
  assumes "\<And>k ob. \<exists>r. act k ob = Inr r"
  shows "\<exists>c ob'. at_parent act ks ob = Inr (c, ob')"
  using assms by (induction act ks ob rule: at_parent.induct) (fastforce split: option.splits simp: bind_res_def)+

section \<open>Laws of the operations\<close>

lemma jsonSet_laws:
  assumes "parseObjectPath path = Inr ks"
  shows "\<exists>c ob'. jsonSet path v ob = Inr (c, ob') \<and> jsonGet path ob' = Some v \<and> agree_off ks ob ob' \<and> (c \<or> ob' = ob)"
proof -
  obtain c ob' where r: "set_parts ks v ob = (c, ob')" by force
  with set_parts_get[OF parse_ne[OF assms], of v ob] set_parts_frame[of ks _ v ob] set_parts_unchanged[of ks v ob ob']
  show ?thesis using assms by (simp add: jsonSet_def jsonGet_parts agree_off_def) auto
qed

lemma jsonReplace_laws:
  assumes "parseObjectPath path = Inr ks"
  shows "\<exists>c ob'. jsonReplace path v ob = Inr (c, ob') \<and> jsonGet path ob' = (if jsonGet path ob = None then None else Some v)
           \<and> agree_off ks ob ob' \<and> (c \<or> ob' = ob)"
proof -
  have "\<exists>r. replace_last v k m = Inr r" for k m by (cases "map_of m k") (auto simp: replace_last_def)
  from at_parent_total[of "replace_last v" ks ob, OF this] obtain c ob' where r: "on_path path (replace_last v) ob = Inr (c, ob')"
    using assms by (auto simp: on_path_def)
  from r replace.on_path_laws[OF assms r] show ?thesis unfolding jsonReplace_def replace_upd_def by metis
qed

lemma jsonDel_laws:
  assumes "parseObjectPath path = Inr ks"
  shows "\<exists>c ob'. jsonDel path ob = Inr (c, ob') \<and> jsonGet path ob' = None \<and> agree_off ks ob ob' \<and> (c \<or> ob' = ob)"
proof -
  have "\<exists>r. del_last k m = Inr r" for k m by (cases "map_of m k") (auto simp: del_last_def)
  from at_parent_total[of del_last ks ob, OF this] obtain c ob' where r: "on_path path del_last ob = Inr (c, ob')"
    using assms by (auto simp: on_path_def)
  from r del.on_path_laws[OF assms r] show ?thesis unfolding jsonDel_def by metis
qed

lemma parallel_sym: "ks \<parallel> qs \<Longrightarrow> qs \<parallel> ks"
  by (simp add: parallel_def)

lemma jsonRename_laws:
  assumes "parseObjectPath path = Inr ks" "parseObjectPath toPath = Inr ts" "ks \<parallel> ts" "jsonGet path ob = Some w"
  shows "\<exists>ob'. jsonRename path toPath ob = Inr (True, ob') \<and> jsonGet toPath ob' = Some w \<and> jsonGet path ob' = None
           \<and> (\<forall>qs. ks \<parallel> qs \<and> ts \<parallel> qs \<longrightarrow> get_parts qs ob' = get_parts qs ob)"
proof -
  obtain c m where m: "at_parent (\<lambda>k m. Inr (True, AList.delete k m)) ks ob = Inr (c, m)"
    using at_parent_total[of "\<lambda>k m. Inr (True, AList.delete k m)" ks ob] by auto
  have "get_parts ks m = None" by (rule cut.at_parent_get[OF m parse_ne[OF assms(1)]])
  with set_parts_frame[of ts _ w m] cut.at_parent_frame[OF m] set_parts_get[OF parse_ne[OF assms(2)], of w m]
  show ?thesis using assms m by (simp add: jsonRename_def jsonGet_parts parallel_sym)
qed

text \<open>The paths an operation writes.\<close>

definition written_paths :: "'f json_op \<Rightarrow> string list" where
  "written_paths op = (if jo_Op op = ''json_rename'' then [jo_FromPath op, jo_ToPath op] else [jo_Path op])"

definition parts_from :: "string list \<Rightarrow> string \<Rightarrow> bool" where
  "parts_from qs path \<longleftrightarrow> (\<forall>ks. parseObjectPath path = Inr ks \<longrightarrow> ks \<parallel> qs)"

text \<open>A result that, when it is an object, has the value of \<open>ob\<close> at \<open>qs\<close>.\<close>

definition keeps :: "string list \<Rightarrow> jobj \<Rightarrow> json_error + (bool \<times> jobj) \<Rightarrow> bool" where
  "keeps qs ob r \<longleftrightarrow> (\<forall>c ob'. r = Inr (c, ob') \<longrightarrow> get_parts qs ob' = get_parts qs ob)"

lemma keeps_basic: "keeps qs ob (Inl e)" "keeps qs ob (Inr (c, ob))"
  by (simp_all add: keeps_def)

lemma keeps_bind: "(\<And>v. keeps qs ob (f v)) \<Longrightarrow> keeps qs ob (bind_res r f)"
  by (auto simp: keeps_def bind_res_def split: sum.splits)

lemma keeps_if: "(b \<Longrightarrow> keeps qs ob r) \<Longrightarrow> (\<not> b \<Longrightarrow> keeps qs ob r') \<Longrightarrow> keeps qs ob (if b then r else r')"
  by simp

lemma keeps_on_path:
  assumes "key_update act upd" "parts_from qs path"
  shows "keeps qs ob (on_path path act ob)"
  unfolding keeps_def using key_update.on_path_frame[OF assms(1)] assms(2) unfolding parts_from_def by metis

lemma keeps_set: "parts_from qs path \<Longrightarrow> keeps qs ob (jsonSet path v ob)"
  using set_parts_frame[of _ qs v ob] by (auto simp: keeps_def jsonSet_def bind_res_eq_Inr parts_from_def) (metis snd_conv)

lemma keeps_rename:
  assumes "parts_from qs p1" "parts_from qs p2"
  shows "keeps qs ob (jsonRename p1 p2 ob)"
  unfolding jsonRename_def
proof (cases "parseObjectPath p1"; cases "parseObjectPath p2")
  fix ks ts assume p: "parseObjectPath p1 = Inr ks" "parseObjectPath p2 = Inr ts"
  show "keeps qs ob (bind_res (parseObjectPath p1) (\<lambda>fromParts. bind_res (parseObjectPath p2) (\<lambda>toParts.
    case get_parts fromParts ob of None \<Rightarrow> Inr (False, ob)
    | Some v \<Rightarrow> bind_res (at_parent (\<lambda>k m. Inr (True, AList.delete k m)) fromParts ob)
        (\<lambda>(_, ob'). Inr (True, snd (set_parts toParts v ob'))))))"
    using assms p cut.at_parent_frame[of ks ob _ _ qs] set_parts_frame[of ts qs]
    by (auto simp: keeps_def parts_from_def bind_res_eq_Inr split: option.splits)
qed (simp_all add: keeps_basic)

lemma keeps_clamp: "parts_from qs path \<Longrightarrow> keeps qs ob (jsonClamp fo path rng ob)"
  by (auto simp: jsonClamp_def keeps_basic intro: keeps_on_path[OF clamp.key_update_axioms] split: option.splits)

lemmas path_op_defs = jsonReplace_def jsonDel_def jsonWrapInputText_def jsonFilterValues_def jsonKeepValues_def
  jsonApplyValueFilter_def jsonDelWithCondition_def jsonMapValue_def

lemmas keeps_rules = keeps_if keeps_bind keeps_basic keeps_set keeps_rename keeps_clamp
  keeps_on_path[OF replace.key_update_axioms] keeps_on_path[OF del.key_update_axioms]
  keeps_on_path[OF wrap.key_update_axioms] keeps_on_path[OF filter_values.key_update_axioms]
  keeps_on_path[OF del_matching.key_update_axioms] keeps_on_path[OF map_value.key_update_axioms]

lemma applyJSONOp_keeps:
  "list_all (parts_from qs) (written_paths op) \<Longrightarrow> keeps qs ob (applyJSONOp env op ob)"
  unfolding applyJSONOp_def Let_def path_op_defs
  by (intro keeps_rules) (simp_all add: written_paths_def)

lemma ops_loop_frame:
  assumes "\<And>op ob c ob'. op \<in> fst ` set ops \<Longrightarrow> act op ob = Inr (c, ob') \<Longrightarrow> get_parts qs ob' = get_parts qs ob"
    and "ops_loop act event ops ob = Inr (ob', cs)"
  shows "get_parts qs ob' = get_parts qs ob"
  using assms
proof (induction act event ops ob arbitrary: ob' cs rule: ops_loop.induct)
  case (2 act event op cnt ops ob)
  show ?case
  proof (cases "shouldSkipJSONOp event op cnt")
    case True
    with 2(4) obtain cs' where r: "ops_loop act event ops ob = Inr (ob', cs')" by (auto simp: bind_res_eq_Inr)
    show ?thesis by (rule 2(1)[OF True _ r]) (rule 2(3), auto)
  next
    case False
    with 2(4) obtain c m cs' where m: "act op ob = Inr (c, m)" "ops_loop act event ops m = Inr (ob', cs')"
      by (auto simp: bind_res_eq_Inr)
    have "get_parts qs ob' = get_parts qs m"
      by (rule 2(2)[OF False _ m(2)]) (rule 2(3), auto)
    also have "\<dots> = get_parts qs ob" by (rule 2(3)[OF _ m(1)]) simp
    finally show ?thesis .
  qed
qed simp

text \<open>
  C17. The JSON updates of the configuration language are lawful: for a path that parses, setting,
  replacing and deleting succeed, reading the path back gives the new value, nothing (when a replaced
  path was absent) and nothing, a report of no change means the object is untouched, and every path
  that parts from the named one keeps its value. Renaming moves the value to a path that parts from the
  old one, leaves the old path absent and every other path alone.
\<close>
theorem json_update_laws:
  assumes "parseObjectPath path = Inr ks"
  shows "(\<exists>c ob'. jsonSet path v ob = Inr (c, ob') \<and> jsonGet path ob' = Some v \<and> agree_off ks ob ob' \<and> (c \<or> ob' = ob))
     \<and> (\<exists>c ob'. jsonReplace path v ob = Inr (c, ob')
           \<and> jsonGet path ob' = (if jsonGet path ob = None then None else Some v) \<and> agree_off ks ob ob' \<and> (c \<or> ob' = ob))
     \<and> (\<exists>c ob'. jsonDel path ob = Inr (c, ob') \<and> jsonGet path ob' = None \<and> agree_off ks ob ob' \<and> (c \<or> ob' = ob))
     \<and> (parseObjectPath toPath = Inr ts \<and> ks \<parallel> ts \<and> jsonGet path ob = Some w \<longrightarrow>
         (\<exists>ob'. jsonRename path toPath ob = Inr (True, ob') \<and> jsonGet toPath ob' = Some w \<and> jsonGet path ob' = None
           \<and> (\<forall>qs. ks \<parallel> qs \<and> ts \<parallel> qs \<longrightarrow> get_parts qs ob' = get_parts qs ob)))"
  using jsonSet_laws[OF assms] jsonReplace_laws[OF assms] jsonDel_laws[OF assms] jsonRename_laws[OF assms] by blast

theorem json_update_laws_witness:
  "\<exists>ob'. jsonRename ''$.a.b'' ''$.c'' [(''a'', JObj [(''b'', JInt 1), (''d'', JNull)])] = Inr (True, ob')
     \<and> jsonGet ''$.c'' ob' = Some (JInt 1) \<and> jsonGet ''$.a.b'' ob' = None
     \<and> (\<forall>qs. [''a'', ''b''] \<parallel> qs \<and> [''c''] \<parallel> qs
          \<longrightarrow> get_parts qs ob' = get_parts qs [(''a'', JObj [(''b'', JInt 1), (''d'', JNull)])])"
proof (rule json_update_laws[THEN conjunct2, THEN conjunct2, THEN conjunct2, THEN mp], goal_cases)
  case 1 show ?case by code_simp
next
  case 2
  have "parseObjectPath ''$.c'' = Inr [''c'']"
    "jsonGet ''$.a.b'' [(''a'', JObj [(''b'', JInt 1), (''d'', JNull)])] = Some (JInt 1)" by code_simp+
  then show ?case by (simp add: parallel_Cons)
qed

text \<open>
  A list of JSON operations reaches no further than the paths it writes: when \<open>ApplyJSONOps\<close>
  succeeds, every path of the object that parts from all of them (both paths of a rename, the path of any
  other operation) has the value it had, whatever values, filters, conditions and ranges the
  operations carry.
\<close>
theorem json_ops_frame:
  assumes "ApplyJSONOps env (Some ob) ops = Inr ob'"
    and "\<forall>op \<in> set ops. \<forall>path \<in> set (written_paths op). parts_from qs path"
  shows "get_parts qs ob' = get_parts qs ob"
proof -
  obtain cs where "ops_loop (applyJSONOp env) [] (map (\<lambda>op. (op, 0)) ops) ob = Inr (ob', cs)"
    using assms(1) by (auto simp: ApplyJSONOps_def bind_res_eq_Inr)
  then show ?thesis
    by (rule ops_loop_frame[rotated]) (use assms(2) applyJSONOp_keeps[of qs, unfolded keeps_def] in \<open>fastforce simp: list_all_iff\<close>)
qed

definition demo_floats :: "int float_ops" where
  "demo_floats = \<lparr>fo_CoerceFloatOK = (\<lambda>v. case v of JInt i \<Rightarrow> Some i | _ \<Rightarrow> None), fo_less = (<), fo_json = JInt,
     fo_parseLiteral = (\<lambda>_. None)\<rparr>"

definition demo_env :: "int op_env" where
  "demo_env = \<lparr>oe_meta = demo_meta, oe_headers = [], oe_maxPrice = [], oe_float = demo_floats, oe_sharesRoot = False\<rparr>"

definition demo_op :: "int json_op" where
  "demo_op = \<lparr>jo_Op = [], jo_Path = [], jo_FromPath = [], jo_ToPath = [], jo_ValueExpr = [], jo_HeaderName = [],
     jo_FieldName = [], jo_Patterns = [], jo_Separator = [], jo_Event = [], jo_EventOptional = False, jo_MaxCount = 0,
     jo_MatchValue = [], jo_ClampRange = None\<rparr>"

definition demo_ops :: "int json_op list" where
  "demo_ops =
     [demo_op\<lparr>jo_Op := ''json_set'', jo_Path := ''$.a.model'', jo_ValueExpr := ''$request.model''\<rparr>,
      demo_op\<lparr>jo_Op := ''json_rename'', jo_FromPath := ''$.stop'', jo_ToPath := ''$.a.stop''\<rparr>,
      demo_op\<lparr>jo_Op := ''json_clamp'', jo_Path := ''$.temperature'', jo_ClampRange := Some (0, 1)\<rparr>]"

definition demo_body :: jobj where
  "demo_body = [(''stop'', JStr ''x''), (''temperature'', JInt 2), (''a'', JObj [(''keep'', JBool True)])]"

definition demo_body' :: jobj where
  "demo_body' =
     [(''temperature'', JInt 1), (''a'', JObj [(''keep'', JBool True), (''model'', JStr ''m''), (''stop'', JStr ''x'')])]"

theorem json_ops_frame_witness: "get_parts [''a'', ''keep''] demo_body' = get_parts [''a'', ''keep''] demo_body"
proof (rule json_ops_frame)
  show "ApplyJSONOps demo_env (Some demo_body) demo_ops = Inr demo_body'" by code_simp
  have p: "parseObjectPath ''$.a.model'' = Inr [''a'', ''model'']" "parseObjectPath ''$.stop'' = Inr [''stop'']"
    "parseObjectPath ''$.a.stop'' = Inr [''a'', ''stop'']" "parseObjectPath ''$.temperature'' = Inr [''temperature'']"
    by code_simp+
  show "\<forall>op \<in> set demo_ops. \<forall>path \<in> set (written_paths op). parts_from [''a'', ''keep''] path"
    by (simp add: demo_ops_def demo_op_def written_paths_def parts_from_def p parallel_Cons)
qed

end
