(* ===== verification/Dsl_Validation.thy ===== *)
theory Dsl_Validation
  imports Dsl_Scanner Json_Ops Encodings
begin

text \<open>
  Request validation, from the text of a directive to the verdict on a request: the statements
  \<^verbatim>\<open>req_required\<close>, \<^verbatim>\<open>req_forbid\<close>, \<^verbatim>\<open>req_type\<close>, \<^verbatim>\<open>req_range\<close>, \<^verbatim>\<open>req_len\<close> and
  \<^verbatim>\<open>req_enum\<close> (\<^verbatim>\<open>onr-core/pkg/dslconfig/parse_request_validation.go\<close>), their compilation when a configuration is
  validated (\<^verbatim>\<open>validate_request_validation.go\<close>) and their execution
  (\<^verbatim>\<open>onr-core/pkg/requestvalidate\<close>).

  Floating-point numbers and Go's string quoting are parameters, in the records \<open>num_ops\<close> and
  \<open>quote_ops\<close>. A Go panic is the value \<open>Panic\<close>.

  Shown: compiled rules never panic; a request passes exactly when every rule holds of it in the
  declarative reading, and otherwise the first rule that does not is reported; what is reported is a
  function of the rule and never of the value that failed; and the statement text of a rule parses back
  to the rule.
\<close>

text \<open>A bound that is absent holds.\<close>

fun opt_all :: "('a \<Rightarrow> bool) \<Rightarrow> 'a option \<Rightarrow> bool" where
  "opt_all P None = True"
| "opt_all P (Some x) = P x"

lemma opt_all_mono: "opt_all P x \<Longrightarrow> (\<And>y. P y \<Longrightarrow> Q y) \<Longrightarrow> opt_all Q x"
  by (cases x) auto

section \<open>Data\<close>

record 'f num_ops =
  no_ParseFloat :: "string \<Rightarrow> 'f option"
  no_number :: "int \<Rightarrow> string \<Rightarrow> 'f"
  no_finite :: "'f \<Rightarrow> bool"
  no_integral :: "'f \<Rightarrow> bool"
  no_less :: "'f \<Rightarrow> 'f \<Rightarrow> bool"
  no_eq :: "'f \<Rightarrow> 'f \<Rightarrow> bool"
  no_show :: "'f \<Rightarrow> string"

record quote_ops =
  qo_Quote :: "string \<Rightarrow> string"
  qo_Unquote :: "string \<Rightarrow> string option"

datatype 'f literal = LitNull | LitBool bool | LitString string | LitNumber 'f

record 'f validation_rule =
  vr_Op :: string
  vr_Source :: string
  vr_Path :: string
  vr_Name :: string
  vr_Type :: string
  vr_Min :: "'f option"
  vr_Max :: "'f option"
  vr_MinLen :: "int option"
  vr_MaxLen :: "int option"
  vr_Values :: "string list"
  vr_AllowNull :: bool
  vr_PathParts :: "string list"
  vr_CanonicalName :: string
  vr_LiteralValues :: "'f literal list"
  vr_StringValueSet :: "string list"

definition empty_rule :: "'f validation_rule" where
  "empty_rule = \<lparr>vr_Op = [], vr_Source = [], vr_Path = [], vr_Name = [], vr_Type = [], vr_Min = None, vr_Max = None,
     vr_MinLen = None, vr_MaxLen = None, vr_Values = [], vr_AllowNull = False, vr_PathParts = [], vr_CanonicalName = [],
     vr_LiteralValues = [], vr_StringValueSet = []\<rparr>"

section \<open>Statements\<close>

record stmt_word =
  sw_text :: string
  sw_quoted :: bool
  sw_pos :: nat

text \<open>
  The loop of \<^verbatim>\<open>collectStmtWords\<close>: \<open>inWord\<close> says whether the code's pointer to the current word is set, which
  is then the last of the words.
\<close>

function words_loop ::
    "string \<Rightarrow> scanner \<Rightarrow> stmt_word list \<Rightarrow> bool \<Rightarrow> bool \<Rightarrow> dsl_error + (stmt_word list \<times> scanner)" where
  "words_loop directive s words inWord curQuoted =
     (let (tok, s1) = next_token s in
      case tk_kind tok of
        tokEOF \<Rightarrow> Inl (errAt s1 (tk_pos tok) (''unexpected EOF in '' @ directive))
      | tokSemicolon \<Rightarrow> Inr (words, s1)
      | tokWhitespace \<Rightarrow> words_loop directive s1 words False curQuoted
      | tokComment \<Rightarrow> words_loop directive s1 words False curQuoted
      | tokLBrace \<Rightarrow> Inl (errAt s1 (tk_pos tok) (directive @ '' does not use braces''))
      | tokRBrace \<Rightarrow> Inl (errAt s1 (tk_pos tok) (directive @ '' does not use braces''))
      | kind \<Rightarrow>
          if inWord \<and> (curQuoted \<or> kind = tokString) then
            Inl (errAt s1 (tk_pos tok) (directive @ '' arguments must be separated by whitespace''))
          else
            let words1 = (if inWord then words else words @ [\<lparr>sw_text = [], sw_quoted = False, sw_pos = tk_pos tok\<rparr>]);
                quoted1 = (if inWord then curQuoted else False);
                cur = last words1 in
            if kind = tokString then
              words_loop directive s1 (butlast words1 @ [cur\<lparr>sw_text := unquoteString (tk_text tok), sw_quoted := True\<rparr>]) True True
            else
              words_loop directive s1 (butlast words1 @ [cur\<lparr>sw_text := sw_text cur @ tk_text tok\<rparr>]) True quoted1)"
  by pat_completeness auto
termination
  by (relation "measure (\<lambda>(directive, s, words, inWord, curQuoted). remaining s)")
    (auto dest!: next_token_shorter[OF sym])

declare words_loop.simps [simp del]

definition collectStmtWords :: "scanner \<Rightarrow> string \<Rightarrow> dsl_error + (stmt_word list \<times> scanner)" where
  "collectStmtWords s directive = words_loop directive s [] False False"

definition splitStmtKV :: "stmt_word \<Rightarrow> (string \<times> string) option" where
  "splitStmtKV w =
     (if sw_quoted w then None
      else if CHR ''='' \<in> set (sw_text w) then Some (str_cut (CHR ''='') (sw_text w))
      else None)"

definition parseReqValidationSourceAndTarget ::
    "scanner \<Rightarrow> string \<Rightarrow> stmt_word list \<Rightarrow> dsl_error + (string \<times> string \<times> stmt_word list)" where
  "parseReqValidationSourceAndTarget s directive words =
     (if length words < 2 then
        Inl (errAt s (sc_lastPos s) (directive @ '' expects: '' @ directive @ '' <body|header|query> <path-or-name> ...;''))
      else
        let source = trim_space (sw_text (words ! 0)); pathOrName = trim_space (sw_text (words ! 1)) in
        if pathOrName = [] then
          Inl (errAt s (sw_pos (words ! 1)) (directive @ '' requires a non-empty path or name''))
        else Inr (source, pathOrName, drop 2 words))"

definition newReqValidationRule :: "string \<Rightarrow> string \<Rightarrow> string \<Rightarrow> 'f validation_rule" where
  "newReqValidationRule op source pathOrName =
     (let rule = empty_rule\<lparr>vr_Op := op, vr_Source := source\<rparr> in
      if source = ''body'' then rule\<lparr>vr_Path := pathOrName\<rparr> else rule\<lparr>vr_Name := pathOrName\<rparr>)"

text \<open>What the six statement parsers share: the words, the source and the target, and the rule to fill.\<close>

definition stmt_head ::
    "string \<Rightarrow> string \<Rightarrow> scanner \<Rightarrow> dsl_error + ('f validation_rule \<times> stmt_word list \<times> scanner)" where
  "stmt_head directive op s =
     bind_res (collectStmtWords s directive) (\<lambda>(words, s1).
     bind_res (parseReqValidationSourceAndTarget s1 directive words) (\<lambda>(source, pathOrName, rest).
       Inr (newReqValidationRule op source pathOrName, rest, s1)))"

fun required_args :: "scanner \<Rightarrow> stmt_word list \<Rightarrow> 'f validation_rule \<Rightarrow> dsl_error + 'f validation_rule" where
  "required_args s [] rule = Inr rule"
| "required_args s (w # ws) rule =
     (case splitStmtKV w of
        None \<Rightarrow> Inl (errAt s (sw_pos w) ''req_required only accepts allow_null=true|false'')
      | Some (key, v) \<Rightarrow>
          if key \<noteq> ''allow_null'' then Inl (errAt s (sw_pos w) ''req_required only accepts allow_null=true|false'')
          else if v = ''true'' then required_args s ws (rule\<lparr>vr_AllowNull := True\<rparr>)
          else if v = ''false'' then required_args s ws (rule\<lparr>vr_AllowNull := False\<rparr>)
          else Inl (errAt s (sw_pos w) ''req_required allow_null expects true or false''))"

definition parseReqRequiredStmt ::
    "scanner \<Rightarrow> 'f validation_rule list \<Rightarrow> dsl_error + ('f validation_rule list \<times> scanner)" where
  "parseReqRequiredStmt s rules =
     bind_res (stmt_head ''req_required'' ''required'' s) (\<lambda>(rule, rest, s1).
     bind_res (required_args s1 rest rule) (\<lambda>rule. Inr (rules @ [rule], s1)))"

definition parseReqForbidStmt ::
    "scanner \<Rightarrow> 'f validation_rule list \<Rightarrow> dsl_error + ('f validation_rule list \<times> scanner)" where
  "parseReqForbidStmt s rules =
     bind_res (stmt_head ''req_forbid'' ''forbid'' s) (\<lambda>(rule, rest, s1).
       if rest \<noteq> [] then Inl (errAt s1 (sw_pos (hd rest)) ''req_forbid expects: req_forbid <source> <path-or-name>;'')
       else Inr (rules @ [rule], s1))"

definition parseReqTypeStmt ::
    "scanner \<Rightarrow> 'f validation_rule list \<Rightarrow> dsl_error + ('f validation_rule list \<times> scanner)" where
  "parseReqTypeStmt s rules =
     bind_res (stmt_head ''req_type'' ''type'' s) (\<lambda>(rule, rest, s1).
       if length rest \<noteq> 1 then
         Inl (errAt s1 (sc_lastPos s1) ''req_type expects: req_type <source> <path-or-name> <type>;'')
       else Inr (rules @ [rule\<lparr>vr_Type := trim_space (sw_text (rest ! 0))\<rparr>], s1))"

definition parseReqRangeNumber :: "'f num_ops \<Rightarrow> string \<Rightarrow> 'f option" where
  "parseReqRangeNumber no v =
     (if list_ex (\<lambda>c. c \<in> set ''eE'') v then None
      else case no_ParseFloat no v of None \<Rightarrow> None | Some f \<Rightarrow> if no_finite no f then Some f else None)"

fun range_args :: "'f num_ops \<Rightarrow> scanner \<Rightarrow> stmt_word list \<Rightarrow> 'f validation_rule \<Rightarrow> dsl_error + 'f validation_rule" where
  "range_args no s [] rule = Inr rule"
| "range_args no s (w # ws) rule =
     (case splitStmtKV w of
        None \<Rightarrow> Inl (errAt s (sw_pos w) ''req_range only accepts min=<number> and max=<number>'')
      | Some (key, v) \<Rightarrow>
          if key \<noteq> ''min'' \<and> key \<noteq> ''max'' then
            Inl (errAt s (sw_pos w) ''req_range only accepts min=<number> and max=<number>'')
          else
            case parseReqRangeNumber no v of
              None \<Rightarrow> Inl (errAt s (sw_pos w) (''req_range '' @ key @ '' expects a decimal number literal''))
            | Some f \<Rightarrow> range_args no s ws (if key = ''min'' then rule\<lparr>vr_Min := Some f\<rparr> else rule\<lparr>vr_Max := Some f\<rparr>))"

definition parseReqRangeStmt ::
    "'f num_ops \<Rightarrow> scanner \<Rightarrow> 'f validation_rule list \<Rightarrow> dsl_error + ('f validation_rule list \<times> scanner)" where
  "parseReqRangeStmt no s rules =
     bind_res (stmt_head ''req_range'' ''range'' s) (\<lambda>(rule, rest, s1).
     bind_res (range_args no s1 rest rule) (\<lambda>rule. Inr (rules @ [rule], s1)))"

fun len_args :: "scanner \<Rightarrow> stmt_word list \<Rightarrow> 'f validation_rule \<Rightarrow> dsl_error + 'f validation_rule" where
  "len_args s [] rule = Inr rule"
| "len_args s (w # ws) rule =
     (case splitStmtKV w of
        None \<Rightarrow> Inl (errAt s (sw_pos w) ''req_len only accepts min=<int> and max=<int>'')
      | Some (key, v) \<Rightarrow>
          if key \<noteq> ''min'' \<and> key \<noteq> ''max'' then Inl (errAt s (sw_pos w) ''req_len only accepts min=<int> and max=<int>'')
          else
            case atoi v of
              None \<Rightarrow> Inl (errAt s (sw_pos w) (''req_len '' @ key @ '' expects an integer literal''))
            | Some n \<Rightarrow> len_args s ws (if key = ''min'' then rule\<lparr>vr_MinLen := Some n\<rparr> else rule\<lparr>vr_MaxLen := Some n\<rparr>))"

definition parseReqLenStmt ::
    "scanner \<Rightarrow> 'f validation_rule list \<Rightarrow> dsl_error + ('f validation_rule list \<times> scanner)" where
  "parseReqLenStmt s rules =
     bind_res (stmt_head ''req_len'' ''len'' s) (\<lambda>(rule, rest, s1).
     bind_res (len_args s1 rest rule) (\<lambda>rule. Inr (rules @ [rule], s1)))"

definition parseReqEnumStmt ::
    "quote_ops \<Rightarrow> scanner \<Rightarrow> 'f validation_rule list \<Rightarrow> dsl_error + ('f validation_rule list \<times> scanner)" where
  "parseReqEnumStmt qo s rules =
     bind_res (stmt_head ''req_enum'' ''enum'' s) (\<lambda>(rule, rest, s1).
       Inr (rules @ [rule\<lparr>vr_Values := map (\<lambda>w. if sw_quoted w then qo_Quote qo (sw_text w) else sw_text w) rest\<rparr>], s1))"

section \<open>Compilation\<close>

datatype rule_error =
    InvalidBodyPath json_error
  | EmptyName
  | UnsupportedSource
  | AllowNullMisplaced
  | TypeNotBody
  | UnsupportedType
  | BoundsMissing
  | BoundsNotFinite
  | BoundsNegative
  | BoundsSwapped
  | ValuesMissing
  | InvalidStringLiteral
  | InvalidEnumLiteral
  | UnsupportedRuleOp

definition compileReqRuleSource :: "'f validation_rule \<Rightarrow> rule_error + 'f validation_rule" where
  "compileReqRuleSource rule =
     (if vr_Source rule = ''body'' then
        (case parseObjectPath (vr_Path rule) of
           Inl e \<Rightarrow> Inl (InvalidBodyPath e)
         | Inr parts \<Rightarrow> Inr (rule\<lparr>vr_PathParts := parts\<rparr>))
      else if vr_Source rule = ''header'' \<or> vr_Source rule = ''query'' then
        (if vr_Name rule = [] then Inl EmptyName
         else if vr_Source rule = ''header'' then Inr (rule\<lparr>vr_CanonicalName := canonical_key (vr_Name rule)\<rparr>)
         else Inr rule)
      else Inl UnsupportedSource)"

definition req_types :: "string list" where
  "req_types = [''null'', ''bool'', ''number'', ''integer'', ''string'', ''array'', ''object'']"

definition validateReqRuleType :: "'f validation_rule \<Rightarrow> rule_error + 'f validation_rule" where
  "validateReqRuleType rule =
     (if vr_Source rule \<noteq> ''body'' then Inl TypeNotBody
      else if vr_Type rule \<in> set req_types then Inr rule
      else Inl UnsupportedType)"

definition validateReqRuleRange :: "'f num_ops \<Rightarrow> 'f validation_rule \<Rightarrow> rule_error + 'f validation_rule" where
  "validateReqRuleRange no rule =
     (if vr_Min rule = None \<and> vr_Max rule = None then Inl BoundsMissing
      else if \<not> opt_all (no_finite no) (vr_Min rule) \<or> \<not> opt_all (no_finite no) (vr_Max rule) then Inl BoundsNotFinite
      else
        case (vr_Min rule, vr_Max rule) of
          (Some lo, Some hi) \<Rightarrow> if no_less no hi lo then Inl BoundsSwapped else Inr rule
        | _ \<Rightarrow> Inr rule)"

definition validateReqRuleLen :: "'f validation_rule \<Rightarrow> rule_error + 'f validation_rule" where
  "validateReqRuleLen rule =
     (if vr_MinLen rule = None \<and> vr_MaxLen rule = None then Inl BoundsMissing
      else if \<not> opt_all (\<lambda>n. 0 \<le> n) (vr_MinLen rule) \<or> \<not> opt_all (\<lambda>n. 0 \<le> n) (vr_MaxLen rule) then Inl BoundsNegative
      else
        case (vr_MinLen rule, vr_MaxLen rule) of
          (Some lo, Some hi) \<Rightarrow> if lo > hi then Inl BoundsSwapped else Inr rule
        | _ \<Rightarrow> Inr rule)"

definition enum_string :: "quote_ops \<Rightarrow> string \<Rightarrow> string" where
  "enum_string qo v =
     (case qo_Unquote qo v of Some u \<Rightarrow> if has_prefix v [dq] then u else v | None \<Rightarrow> v)"

definition enum_literal :: "'f num_ops \<Rightarrow> quote_ops \<Rightarrow> string \<Rightarrow> rule_error + 'f literal" where
  "enum_literal no qo v =
     (if has_prefix v [dq] then
        (case qo_Unquote qo v of None \<Rightarrow> Inl InvalidStringLiteral | Some text \<Rightarrow> Inr (LitString text))
      else if v = ''true'' then Inr (LitBool True)
      else if v = ''false'' then Inr (LitBool False)
      else if v = ''null'' then Inr LitNull
      else
        case no_ParseFloat no v of
          None \<Rightarrow> Inl InvalidEnumLiteral
        | Some f \<Rightarrow> if no_finite no f then Inr (LitNumber f) else Inl InvalidEnumLiteral)"

definition compileReqRuleEnum :: "'f num_ops \<Rightarrow> quote_ops \<Rightarrow> 'f validation_rule \<Rightarrow> rule_error + 'f validation_rule" where
  "compileReqRuleEnum no qo rule =
     (if vr_Values rule = [] then Inl ValuesMissing
      else if vr_Source rule \<noteq> ''body'' then Inr (rule\<lparr>vr_StringValueSet := map (enum_string qo) (vr_Values rule)\<rparr>)
      else bind_res (map_res (enum_literal no qo) (vr_Values rule)) (\<lambda>ls. Inr (rule\<lparr>vr_LiteralValues := ls\<rparr>)))"

definition validateReqRuleOp :: "'f num_ops \<Rightarrow> quote_ops \<Rightarrow> 'f validation_rule \<Rightarrow> rule_error + 'f validation_rule" where
  "validateReqRuleOp no qo rule =
     (if vr_AllowNull rule \<and> (vr_Op rule \<noteq> ''required'' \<or> vr_Source rule \<noteq> ''body'') then Inl AllowNullMisplaced
      else if vr_Op rule = ''required'' \<or> vr_Op rule = ''forbid'' then Inr rule
      else if vr_Op rule = ''type'' then validateReqRuleType rule
      else if vr_Op rule = ''range'' then validateReqRuleRange no rule
      else if vr_Op rule = ''len'' then validateReqRuleLen rule
      else if vr_Op rule = ''enum'' then compileReqRuleEnum no qo rule
      else Inl UnsupportedRuleOp)"

definition validateRequestValidationRules ::
    "'f num_ops \<Rightarrow> quote_ops \<Rightarrow> 'f validation_rule list \<Rightarrow> rule_error + 'f validation_rule list" where
  "validateRequestValidationRules no qo rules =
     map_res (\<lambda>rule. bind_res (compileReqRuleSource rule) (validateReqRuleOp no qo)) rules"

section \<open>Execution\<close>

record validation_error =
  ve_Source :: string
  ve_PathOrName :: string
  ve_Rule :: string
  ve_Message :: string

datatype outcome = Pass | Reject validation_error | Panic

definition failRule :: "'f validation_rule \<Rightarrow> string \<Rightarrow> outcome" where
  "failRule rule condition =
     (let pathOrName = (if vr_Source rule \<noteq> ''body'' then vr_Name rule else vr_Path rule) in
      Reject \<lparr>ve_Source = vr_Source rule, ve_PathOrName = pathOrName, ve_Rule = vr_Op rule,
              ve_Message = pathOrName @ '' '' @ condition\<rparr>)"

text \<open>Reading an object along the parts of a path; with no parts the code indexes out of range.\<close>

fun lookupBody :: "string list \<Rightarrow> jobj \<Rightarrow> json option option" where
  "lookupBody [] ob = None"
| "lookupBody [k] ob = Some (map_of ob k)"
| "lookupBody (k # ks) ob = (case sub_object k ob of Some m \<Rightarrow> lookupBody ks m | None \<Rightarrow> Some None)"

definition lookupHeader :: "header \<Rightarrow> string \<Rightarrow> json option" where
  "lookupHeader headers name = (case map_of headers name of Some (v # _) \<Rightarrow> Some (JStr v) | _ \<Rightarrow> None)"

text \<open>\<^verbatim>\<open>url.ParseQuery\<close> for a caller that ignores its error: the pairs that parse.\<close>

definition query_values :: "string \<Rightarrow> (string \<times> string) list" where
  "query_values q =
     concat (map (\<lambda>p. if CHR '';'' \<in> set p \<or> p = [] then [] else case query_pair p of None \<Rightarrow> [] | Some kv \<Rightarrow> [kv])
       (str_split q ''&''))"

definition lookupQuery :: "string \<Rightarrow> string \<Rightarrow> json option" where
  "lookupQuery rawQuery name = map_option JStr (map_of (query_values rawQuery) name)"

definition checkRequired :: "'f validation_rule \<Rightarrow> json option \<Rightarrow> outcome" where
  "checkRequired rule v =
     (case v of
        None \<Rightarrow> failRule rule ''is required''
      | Some x \<Rightarrow>
          if x = JNull \<and> vr_Source rule = ''body'' \<and> \<not> vr_AllowNull rule then failRule rule ''must not be null'' else Pass)"

definition jsonTypeMatches :: "'f num_ops \<Rightarrow> json \<Rightarrow> string \<Rightarrow> bool" where
  "jsonTypeMatches no v typ =
     (if typ = ''null'' then v = JNull
      else if typ = ''bool'' then (case v of JBool _ \<Rightarrow> True | _ \<Rightarrow> False)
      else if typ = ''number'' then (case v of JNum _ _ \<Rightarrow> True | _ \<Rightarrow> False)
      else if typ = ''integer'' then (case v of JNum i t \<Rightarrow> no_integral no (no_number no i t) | _ \<Rightarrow> False)
      else if typ = ''string'' then (case v of JStr _ \<Rightarrow> True | _ \<Rightarrow> False)
      else if typ = ''array'' then (case v of JArr _ \<Rightarrow> True | _ \<Rightarrow> False)
      else if typ = ''object'' then (case v of JObj _ \<Rightarrow> True | _ \<Rightarrow> False)
      else False)"

definition checkType :: "'f num_ops \<Rightarrow> 'f validation_rule \<Rightarrow> json \<Rightarrow> outcome" where
  "checkType no rule v =
     (if jsonTypeMatches no v (vr_Type rule) then Pass else failRule rule (''must be of type '' @ vr_Type rule))"

definition rangeNumber :: "'f num_ops \<Rightarrow> json \<Rightarrow> 'f option" where
  "rangeNumber no v =
     (case v of
        JNum i t \<Rightarrow> (let f = no_number no i t in if no_finite no f then Some f else None)
      | JStr t \<Rightarrow> (case no_ParseFloat no t of None \<Rightarrow> None | Some f \<Rightarrow> if no_finite no f then Some f else None)
      | _ \<Rightarrow> None)"

text \<open>The two bound reports dereference the maximum in their last case; without one the code panics.\<close>

definition bound_text :: "string \<Rightarrow> ('a \<Rightarrow> string) \<Rightarrow> 'a option \<Rightarrow> 'a option \<Rightarrow> string option" where
  "bound_text what shw lo hi =
     (case (lo, hi) of
        (Some l, Some h) \<Rightarrow> Some (what @ ''must be between '' @ shw l @ '' and '' @ shw h)
      | (Some l, None) \<Rightarrow> Some (what @ ''must be >= '' @ shw l)
      | (None, Some h) \<Rightarrow> Some (what @ ''must be <= '' @ shw h)
      | (None, None) \<Rightarrow> None)"

definition failRangeBound :: "'f num_ops \<Rightarrow> 'f validation_rule \<Rightarrow> outcome" where
  "failRangeBound no rule =
     (case bound_text [] (no_show no) (vr_Min rule) (vr_Max rule) of None \<Rightarrow> Panic | Some t \<Rightarrow> failRule rule t)"

definition checkRange :: "'f num_ops \<Rightarrow> 'f validation_rule \<Rightarrow> json \<Rightarrow> outcome" where
  "checkRange no rule v =
     (case rangeNumber no v of
        None \<Rightarrow> failRule rule ''must be a number''
      | Some f \<Rightarrow>
          if \<not> opt_all (\<lambda>lo. \<not> no_less no f lo) (vr_Min rule) then failRangeBound no rule
          else if \<not> opt_all (\<lambda>hi. \<not> no_less no hi f) (vr_Max rule) then failRangeBound no rule
          else Pass)"

text \<open>\<^verbatim>\<open>utf8.RuneCountInString\<close>.\<close>

function rune_count :: "string \<Rightarrow> nat" where
  "rune_count s = (if s = [] then 0 else 1 + rune_count (drop (rune_width s) s))"
  by pat_completeness auto
termination
  by (relation "measure length") (auto simp: rune_width_pos)

declare rune_count.simps [simp del]

definition failLenBound :: "'f validation_rule \<Rightarrow> outcome" where
  "failLenBound rule =
     (case bound_text ''length '' int_text (vr_MinLen rule) (vr_MaxLen rule) of None \<Rightarrow> Panic | Some t \<Rightarrow> failRule rule t)"

definition value_length :: "json \<Rightarrow> int option" where
  "value_length v = (case v of JStr t \<Rightarrow> Some (int (rune_count t)) | JArr xs \<Rightarrow> Some (int (length xs)) | _ \<Rightarrow> None)"

definition checkLen :: "'f validation_rule \<Rightarrow> json \<Rightarrow> outcome" where
  "checkLen rule v =
     (case value_length v of
        None \<Rightarrow> failRule rule ''must be a string or array''
      | Some len \<Rightarrow>
          if \<not> opt_all (\<lambda>lo. lo \<le> len) (vr_MinLen rule) then failLenBound rule
          else if \<not> opt_all (\<lambda>hi. len \<le> hi) (vr_MaxLen rule) then failLenBound rule
          else Pass)"

definition literal_matches :: "'f num_ops \<Rightarrow> json \<Rightarrow> 'f literal \<Rightarrow> bool" where
  "literal_matches no v lit =
     (case lit of
        LitNull \<Rightarrow> v = JNull
      | LitString t \<Rightarrow> v = JStr t
      | LitBool b \<Rightarrow> v = JBool b
      | LitNumber f \<Rightarrow> (case v of JNum i t \<Rightarrow> no_eq no (no_number no i t) f | _ \<Rightarrow> False))"

definition bodyEnumMatches :: "'f num_ops \<Rightarrow> json \<Rightarrow> 'f literal list \<Rightarrow> bool" where
  "bodyEnumMatches no v lits = list_ex (literal_matches no v) lits"

definition checkEnum :: "'f num_ops \<Rightarrow> 'f validation_rule \<Rightarrow> json \<Rightarrow> outcome" where
  "checkEnum no rule v =
     (if vr_Source rule = ''body'' \<and> bodyEnumMatches no v (vr_LiteralValues rule) then Pass
      else if vr_Source rule \<noteq> ''body'' \<and> (case v of JStr t \<Rightarrow> t \<in> set (vr_StringValueSet rule) | _ \<Rightarrow> False) then Pass
      else failRule rule ''must be one of the allowed values'')"

definition checkRule :: "'f num_ops \<Rightarrow> 'f validation_rule \<Rightarrow> json option \<Rightarrow> outcome" where
  "checkRule no rule v =
     (if vr_Op rule = ''required'' then checkRequired rule v
      else if vr_Op rule = ''forbid'' then (if v \<noteq> None then failRule rule ''must not be present'' else Pass)
      else
        case v of
          None \<Rightarrow> Pass
        | Some x \<Rightarrow>
            if vr_Op rule = ''type'' then checkType no rule x
            else if vr_Op rule = ''range'' then checkRange no rule x
            else if vr_Op rule = ''len'' then checkLen rule x
            else if vr_Op rule = ''enum'' then checkEnum no rule x
            else Panic)"

record request_view =
  rv_root :: "jobj option"
  rv_headers :: header
  rv_query :: string

definition run_rule :: "'f num_ops \<Rightarrow> request_view \<Rightarrow> 'f validation_rule \<Rightarrow> outcome" where
  "run_rule no req rule =
     (if vr_Source rule = ''body'' then
        (case rv_root req of
           None \<Rightarrow> Reject \<lparr>ve_Source = vr_Source rule, ve_PathOrName = vr_Path rule, ve_Rule = ''json_body'',
                          ve_Message = vr_Path rule @ '' validation requires a JSON object body''\<rparr>
         | Some ob \<Rightarrow>
             (case lookupBody (vr_PathParts rule) ob of None \<Rightarrow> Panic | Some v \<Rightarrow> checkRule no rule v))
      else if vr_Source rule = ''header'' then checkRule no rule (lookupHeader (rv_headers req) (vr_CanonicalName rule))
      else if vr_Source rule = ''query'' then checkRule no rule (lookupQuery (rv_query req) (vr_Name rule))
      else checkRule no rule None)"

fun Validate :: "'f num_ops \<Rightarrow> 'f validation_rule list \<Rightarrow> request_view \<Rightarrow> outcome" where
  "Validate no [] req = Pass"
| "Validate no (rule # rules) req =
     (case run_rule no req rule of Pass \<Rightarrow> Validate no rules req | r \<Rightarrow> r)"

section \<open>The declarative reading\<close>

text \<open>The value a rule is about, for a rule as it is written.\<close>

definition rule_target :: "request_view \<Rightarrow> 'f validation_rule \<Rightarrow> json option" where
  "rule_target req rule =
     (if vr_Source rule = ''body'' then Option.bind (rv_root req) (jsonGet (vr_Path rule))
      else if vr_Source rule = ''header'' then map_option JStr (case hdr_Values (rv_headers req) (vr_Name rule) of [] \<Rightarrow> None | v # _ \<Rightarrow> Some v)
      else map_option JStr (map_of (query_values (rv_query req)) (vr_Name rule)))"

text \<open>Membership of a value in the written candidates of an enumeration.\<close>

definition is_candidate :: "'f num_ops \<Rightarrow> quote_ops \<Rightarrow> 'f validation_rule \<Rightarrow> json \<Rightarrow> bool" where
  "is_candidate no qo rule v =
     (if vr_Source rule = ''body'' then
        list_ex (\<lambda>w. case enum_literal no qo w of Inr lit \<Rightarrow> literal_matches no v lit | Inl _ \<Rightarrow> False) (vr_Values rule)
      else list_ex (\<lambda>w. v = JStr (enum_string qo w)) (vr_Values rule))"

definition value_holds :: "'f num_ops \<Rightarrow> quote_ops \<Rightarrow> 'f validation_rule \<Rightarrow> json \<Rightarrow> bool" where
  "value_holds no qo rule v =
     (if vr_Op rule = ''type'' then jsonTypeMatches no v (vr_Type rule)
      else if vr_Op rule = ''range'' then
        (case rangeNumber no v of
           None \<Rightarrow> False
         | Some f \<Rightarrow> opt_all (\<lambda>lo. \<not> no_less no f lo) (vr_Min rule) \<and> opt_all (\<lambda>hi. \<not> no_less no hi f) (vr_Max rule))
      else if vr_Op rule = ''len'' then
        (case value_length v of
           None \<Rightarrow> False
         | Some n \<Rightarrow> opt_all (\<lambda>lo. lo \<le> n) (vr_MinLen rule) \<and> opt_all (\<lambda>hi. n \<le> hi) (vr_MaxLen rule))
      else is_candidate no qo rule v)"

definition target_holds :: "'f num_ops \<Rightarrow> quote_ops \<Rightarrow> 'f validation_rule \<Rightarrow> json option \<Rightarrow> bool" where
  "target_holds no qo rule target =
     (if vr_Op rule = ''required'' then
        (case target of None \<Rightarrow> False | Some v \<Rightarrow> v = JNull \<and> vr_Source rule = ''body'' \<longrightarrow> vr_AllowNull rule)
      else if vr_Op rule = ''forbid'' then target = None
      else opt_all (value_holds no qo rule) target)"

definition rule_holds :: "'f num_ops \<Rightarrow> quote_ops \<Rightarrow> request_view \<Rightarrow> 'f validation_rule \<Rightarrow> bool" where
  "rule_holds no qo req rule \<longleftrightarrow>
     (vr_Source rule = ''body'' \<longrightarrow> rv_root req \<noteq> None) \<and>
     target_holds no qo rule (rule_target req rule)"

text \<open>The conditions a rejection can report, from the rule alone.\<close>

definition report_conditions :: "'f num_ops \<Rightarrow> 'f validation_rule \<Rightarrow> string list" where
  "report_conditions no rule =
     [''is required'', ''must not be null'', ''must not be present'', ''must be of type '' @ vr_Type rule, ''must be a number'',
      ''must be a string or array'', ''must be one of the allowed values'', ''validation requires a JSON object body'']
     @ (case bound_text [] (no_show no) (vr_Min rule) (vr_Max rule) of None \<Rightarrow> [] | Some t \<Rightarrow> [t])
     @ (case bound_text ''length '' int_text (vr_MinLen rule) (vr_MaxLen rule) of None \<Rightarrow> [] | Some t \<Rightarrow> [t])"

definition rule_reports :: "'f num_ops \<Rightarrow> 'f validation_rule \<Rightarrow> validation_error list" where
  "rule_reports no rule =
     (let name = (if vr_Source rule = ''body'' then vr_Path rule else vr_Name rule) in
      concat (map (\<lambda>kind. map (\<lambda>t. \<lparr>ve_Source = vr_Source rule, ve_PathOrName = name, ve_Rule = kind, ve_Message = name @ '' '' @ t\<rparr>)
        (report_conditions no rule)) [vr_Op rule, ''json_body'']))"

lemma failRule_reports: "t \<in> set (report_conditions no rule) \<Longrightarrow> failRule rule t = Reject e \<Longrightarrow> e \<in> set (rule_reports no rule)"
  by (auto simp: failRule_def rule_reports_def Let_def)

lemma reports_source: "e \<in> set (rule_reports no rule) \<Longrightarrow> ve_Source e = vr_Source rule"
  by (auto simp: rule_reports_def Let_def)

section \<open>Compiled rules\<close>

text \<open>What compilation establishes: the fields it fills, and what it leaves alone.\<close>

definition compiled_from :: "'f num_ops \<Rightarrow> quote_ops \<Rightarrow> 'f validation_rule \<Rightarrow> 'f validation_rule \<Rightarrow> bool" where
  "compiled_from no qo rule r \<longleftrightarrow>
     vr_Op r = vr_Op rule \<and> vr_Source r = vr_Source rule \<and> vr_Path r = vr_Path rule \<and> vr_Name r = vr_Name rule \<and>
     vr_Type r = vr_Type rule \<and> vr_Min r = vr_Min rule \<and> vr_Max r = vr_Max rule \<and> vr_MinLen r = vr_MinLen rule \<and>
     vr_MaxLen r = vr_MaxLen rule \<and> vr_AllowNull r = vr_AllowNull rule \<and>
     (vr_Source rule = ''body'' \<and> parseObjectPath (vr_Path rule) = Inr (vr_PathParts r)
      \<or> vr_Source rule = ''header'' \<and> vr_CanonicalName r = canonical_key (vr_Name rule)
      \<or> vr_Source rule = ''query'') \<and>
     vr_Op rule \<in> set [''required'', ''forbid'', ''type'', ''range'', ''len'', ''enum''] \<and>
     (vr_Op rule = ''range'' \<longrightarrow> vr_Min rule \<noteq> None \<or> vr_Max rule \<noteq> None) \<and>
     (vr_Op rule = ''len'' \<longrightarrow> vr_MinLen rule \<noteq> None \<or> vr_MaxLen rule \<noteq> None) \<and>
     (vr_Op rule = ''enum'' \<longrightarrow>
        (if vr_Source rule = ''body'' then map_res (enum_literal no qo) (vr_Values rule) = Inr (vr_LiteralValues r)
         else vr_StringValueSet r = map (enum_string qo) (vr_Values rule)))"

lemma validateReqRuleOp_D:
  assumes "validateReqRuleOp no qo r1 = Inr r"
  shows "vr_Op r1 \<in> {''required'', ''forbid'', ''type''} \<and> r = r1
    \<or> vr_Op r1 = ''range'' \<and> r = r1 \<and> (vr_Min r1 \<noteq> None \<or> vr_Max r1 \<noteq> None)
    \<or> vr_Op r1 = ''len'' \<and> r = r1 \<and> (vr_MinLen r1 \<noteq> None \<or> vr_MaxLen r1 \<noteq> None)
    \<or> vr_Op r1 = ''enum'' \<and> vr_Source r1 \<noteq> ''body'' \<and> r = r1\<lparr>vr_StringValueSet := map (enum_string qo) (vr_Values r1)\<rparr>
    \<or> (\<exists>ls. vr_Op r1 = ''enum'' \<and> vr_Source r1 = ''body'' \<and> map_res (enum_literal no qo) (vr_Values r1) = Inr ls
          \<and> r = r1\<lparr>vr_LiteralValues := ls\<rparr>)"
proof -
  consider "vr_Op r1 = ''required'' \<or> vr_Op r1 = ''forbid''" | "vr_Op r1 = ''type''" | "vr_Op r1 = ''range''"
    | "vr_Op r1 = ''len''" | "vr_Op r1 = ''enum''"
    using assms by (auto simp: validateReqRuleOp_def split: if_splits)
  then show ?thesis
  proof cases
    case 1
    then show ?thesis using assms by (auto simp: validateReqRuleOp_def split: if_splits)
  next
    case 2
    then show ?thesis using assms by (auto simp: validateReqRuleOp_def validateReqRuleType_def split: if_splits)
  next
    case 3
    then show ?thesis using assms
      by (auto simp: validateReqRuleOp_def validateReqRuleRange_def split: if_splits option.splits)
  next
    case 4
    then show ?thesis using assms
      by (auto simp: validateReqRuleOp_def validateReqRuleLen_def split: if_splits option.splits)
  next
    case 5
    then show ?thesis using assms
      by (auto simp: validateReqRuleOp_def compileReqRuleEnum_def bind_res_eq_Inr split: if_splits)
  qed
qed

lemma compile_rule:
  assumes "bind_res (compileReqRuleSource rule) (validateReqRuleOp no qo) = Inr r"
  shows "compiled_from no qo rule r"
proof -
  from assms obtain r1 where r1: "compileReqRuleSource rule = Inr r1" "validateReqRuleOp no qo r1 = Inr r"
    by (auto simp: bind_res_eq_Inr)
  have 1: "vr_Op r1 = vr_Op rule" "vr_Source r1 = vr_Source rule" "vr_Path r1 = vr_Path rule" "vr_Name r1 = vr_Name rule"
    "vr_Type r1 = vr_Type rule" "vr_Min r1 = vr_Min rule" "vr_Max r1 = vr_Max rule" "vr_MinLen r1 = vr_MinLen rule"
    "vr_MaxLen r1 = vr_MaxLen rule" "vr_AllowNull r1 = vr_AllowNull rule" "vr_Values r1 = vr_Values rule"
    and src: "vr_Source rule = ''body'' \<and> parseObjectPath (vr_Path rule) = Inr (vr_PathParts r1)
      \<or> vr_Source rule = ''header'' \<and> vr_CanonicalName r1 = canonical_key (vr_Name rule)
      \<or> vr_Source rule = ''query''"
    using r1(1) by (auto simp: compileReqRuleSource_def split: if_splits sum.splits)
  from validateReqRuleOp_D[OF r1(2)] show ?thesis unfolding 1
    by (elim disjE conjE exE) (use src 1 in \<open>auto simp: compiled_from_def\<close>)
qed

lemma lookupBody_get: "ks \<noteq> [] \<Longrightarrow> lookupBody ks ob = Some (get_parts ks ob)"
  by (induction ks ob rule: lookupBody.induct) (auto split: option.splits)

lemma enum_compiled:
  assumes "compiled_from no qo rule r" "vr_Op rule = ''enum''"
  shows "checkEnum no r v = (if is_candidate no qo rule v then Pass else failRule r ''must be one of the allowed values'')"
proof (cases "vr_Source rule = ''body''")
  case True
  with assms have "list_all2 (\<lambda>w lit. enum_literal no qo w = Inr lit) (vr_Values rule) (vr_LiteralValues r)"
    by (simp add: compiled_from_def map_res_Inr_iff)
  then have "bodyEnumMatches no v (vr_LiteralValues r) = is_candidate no qo rule v"
    unfolding bodyEnumMatches_def is_candidate_def using True
    by (induction rule: list_all2_induct) auto
  with True assms(1) show ?thesis by (simp add: checkEnum_def compiled_from_def)
next
  case False
  with assms have "vr_StringValueSet r = map (enum_string qo) (vr_Values rule)" by (simp add: compiled_from_def)
  with False assms(1) show ?thesis
    by (auto simp: checkEnum_def compiled_from_def is_candidate_def list_ex_iff split: json.splits)
qed

text \<open>A rule on a value: it passes exactly when it holds, and otherwise reports one of its conditions.\<close>

lemma checkRule_exact:
  assumes "compiled_from no qo rule r"
  shows "(checkRule no r v = Pass \<longleftrightarrow> target_holds no qo rule v)
    \<and> (checkRule no r v = Pass \<or> (\<exists>t \<in> set (report_conditions no rule). checkRule no r v = failRule r t))"
proof -
  note c = assms[unfolded compiled_from_def]
  have fail: "failRule r t \<noteq> Pass" for t by (simp add: failRule_def Let_def)
  consider "vr_Op rule = ''required''" | "vr_Op rule = ''forbid''" | "vr_Op rule = ''type''" | "vr_Op rule = ''range''"
    | "vr_Op rule = ''len''" | "vr_Op rule = ''enum''" using c by auto
  then show ?thesis
  proof cases
    case 1
    then show ?thesis using c fail
      by (auto simp: target_holds_def checkRule_def checkRequired_def report_conditions_def split: option.splits)
  next
    case 2
    then show ?thesis using c fail by (auto simp: target_holds_def checkRule_def report_conditions_def)
  next
    case 3
    then show ?thesis using c fail
      by (cases v) (auto simp: target_holds_def checkRule_def checkType_def value_holds_def report_conditions_def)
  next
    case 4
    then have "bound_text [] (no_show no) (vr_Min rule) (vr_Max rule) \<noteq> None"
      using c by (auto simp: bound_text_def split: option.splits)
    then obtain t where "bound_text [] (no_show no) (vr_Min rule) (vr_Max rule) = Some t" by auto
    with 4 show ?thesis using c fail
      by (cases v) (auto simp: target_holds_def checkRule_def checkRange_def value_holds_def report_conditions_def failRangeBound_def split: option.splits)
  next
    case 5
    then have "bound_text ''length '' int_text (vr_MinLen rule) (vr_MaxLen rule) \<noteq> None"
      using c by (auto simp: bound_text_def split: option.splits)
    then obtain t where "bound_text ''length '' int_text (vr_MinLen rule) (vr_MaxLen rule) = Some t" by auto
    with 5 show ?thesis using c fail
      by (cases v) (auto simp: target_holds_def checkRule_def checkLen_def value_holds_def report_conditions_def failLenBound_def split: option.splits)
  next
    case 6
    then show ?thesis using c fail
      by (cases v) (auto simp: target_holds_def checkRule_def enum_compiled[OF assms 6] value_holds_def report_conditions_def)
  qed
qed

lemma run_rule_exact:
  assumes c: "compiled_from no qo rule r"
  shows "(run_rule no req r = Pass \<longleftrightarrow> rule_holds no qo req rule)
    \<and> (run_rule no req r = Pass \<or> (\<exists>e \<in> set (rule_reports no rule). run_rule no req r = Reject e))"
proof -
  note f = c[unfolded compiled_from_def]
  have rep: "\<exists>e \<in> set (rule_reports no rule). failRule r t = Reject e" if "t \<in> set (report_conditions no rule)" for t
  proof -
    have "failRule r t = failRule rule t" using f by (simp add: failRule_def)
    moreover obtain e where "failRule rule t = Reject e" by (simp add: failRule_def Let_def)
    ultimately show ?thesis using failRule_reports[OF that] by auto
  qed
  have check: "(checkRule no r v = Pass \<longleftrightarrow> target_holds no qo rule v)
      \<and> (checkRule no r v = Pass \<or> (\<exists>e \<in> set (rule_reports no rule). checkRule no r v = Reject e))" for v
    using checkRule_exact[OF c, of v] rep by metis
  show ?thesis
  proof (cases "vr_Source rule = ''body''")
    case body: True
    show ?thesis
    proof (cases "rv_root req")
      case None
      then show ?thesis using f body
        by (auto simp: run_rule_def rule_holds_def rule_reports_def report_conditions_def Let_def)
    next
      case (Some ob)
      have p: "parseObjectPath (vr_Path rule) = Inr (vr_PathParts r)" using f body by auto
      have "run_rule no req r = checkRule no r (rule_target req rule)"
        using f body Some p lookupBody_get[OF parse_ne[OF p]]
        by (simp add: run_rule_def rule_target_def jsonGet_parts[OF p])
      moreover have "rule_holds no qo req rule = target_holds no qo rule (rule_target req rule)" using Some by (simp add: rule_holds_def)
      ultimately show ?thesis using check[of "rule_target req rule"] by metis
    qed
  next
    case False
    then have src: "vr_Source rule = ''header'' \<and> vr_CanonicalName r = canonical_key (vr_Name rule) \<or> vr_Source rule = ''query''"
      using f by auto
    have "run_rule no req r = checkRule no r (rule_target req rule)"
    proof (cases "vr_Source rule = ''header''")
      case True
      with f src show ?thesis
        by (simp add: run_rule_def rule_target_def lookupHeader_def hdr_Values_def split: option.split list.split)
    next
      case False
      with f src show ?thesis by (simp add: run_rule_def rule_target_def lookupQuery_def)
    qed
    moreover have "rule_holds no qo req rule = target_holds no qo rule (rule_target req rule)" using False by (simp add: rule_holds_def)
    ultimately show ?thesis using check[of "rule_target req rule"] by metis
  qed
qed

lemma Validate_exact:
  assumes "list_all2 (compiled_from no qo) rules compiled"
  shows "(Validate no compiled req = Pass \<and> (\<forall>rule \<in> set rules. rule_holds no qo req rule)) \<or>
    (\<exists>before rule after e. rules = before @ rule # after \<and> (\<forall>r \<in> set before. rule_holds no qo req r) \<and>
       \<not> rule_holds no qo req rule \<and> e \<in> set (rule_reports no rule) \<and> Validate no compiled req = Reject e)"
  using assms
proof (induction rule: list_all2_induct)
  case (Cons rule rules r rs)
  note run = run_rule_exact[OF Cons(1), of req]
  show ?case
  proof (cases "rule_holds no qo req rule")
    case True
    with run have v: "Validate no (r # rs) req = Validate no rs req" by simp
    from Cons(3) show ?thesis
    proof (elim disjE exE conjE)
      fix before bad after e
      assume "rules = before @ bad # after" "\<forall>r \<in> set before. rule_holds no qo req r"
        "\<not> rule_holds no qo req bad" "e \<in> set (rule_reports no bad)" "Validate no rs req = Reject e"
      with True v show ?thesis by (intro disjI2 exI[of _ "rule # before"] exI[of _ bad] exI[of _ after] exI[of _ e]) simp
    qed (use True v in simp)
  next
    case False
    with run obtain e where "run_rule no req r = Reject e" "e \<in> set (rule_reports no rule)" by auto
    with False show ?thesis by (intro disjI2 exI[of _ "[]"]) auto
  qed
qed simp


text \<open>
  C21. A rejection tells the client nothing about the offending value: whatever two requests a list of
  compiled rules refuses, the report is one of finitely many that are computed from the written rules
  alone, so the values of the request are not in it.
\<close>
theorem rejection_value_free:
  assumes "validateRequestValidationRules no qo rules = Inr compiled"
    and "Validate no compiled req = Reject e"
  shows "e \<in> set (concat (map (rule_reports no) rules))"
proof -
  have "list_all2 (compiled_from no qo) rules compiled"
    using assms(1) unfolding validateRequestValidationRules_def map_res_Inr_iff
    by (rule list_all2_mono) (rule compile_rule)
  from Validate_exact[OF this, of req] assms(2) show ?thesis by fastforce
qed

section \<open>Statement text\<close>

text \<open>An argument of a statement, as a bare word or a quoted one, and the text of a list of arguments.\<close>

datatype arg = Bare string | Quoted string

definition word_char :: "char \<Rightarrow> bool" where
  "word_char c \<longleftrightarrow> \<not> isSpace c \<and> c \<notin> set [dq, sq, CHR ''{'', CHR ''}'', CHR '';'', CHR ''#'', CHR ''/'']"

definition bare :: "string \<Rightarrow> bool" where
  "bare w \<longleftrightarrow> w \<noteq> [] \<and> list_all word_char w"

definition good_arg :: "arg \<Rightarrow> bool" where
  "good_arg a = (case a of Bare w \<Rightarrow> bare w | Quoted t \<Rightarrow> plain t)"

definition arg_string :: "arg \<Rightarrow> string" where
  "arg_string a = (case a of Bare w \<Rightarrow> w | Quoted t \<Rightarrow> quoted t)"

definition word_of :: "arg \<Rightarrow> nat \<Rightarrow> stmt_word" where
  "word_of a p = (case a of Bare w \<Rightarrow> \<lparr>sw_text = w, sw_quoted = False, sw_pos = p\<rparr> | Quoted t \<Rightarrow> \<lparr>sw_text = t, sw_quoted = True, sw_pos = p\<rparr>)"

definition args_text :: "arg list \<Rightarrow> string" where
  "args_text args = concat (map (\<lambda>a. CHR '' '' # arg_string a) args) @ '';''"

text \<open>A scanner that has the text \<open>r\<close> before it.\<close>

definition at_text :: "scanner \<Rightarrow> string \<Rightarrow> bool" where
  "at_text s r \<longleftrightarrow> drop (sc_i s) (sc_input s) = r"

lemma next_at:
  assumes "at_text s r" "r \<noteq> []" "scan_at r = (k, n)"
  obtains s' where "next_token s = (\<lparr>tk_kind = k, tk_text = take n r, tk_pos = sc_i s\<rparr>, s')" "at_text s' (drop n r)"
proof -
  have r: "drop (sc_i s) (sc_input s) = r" using assms(1) by (simp add: at_text_def)
  have lt: "sc_i s < length (sc_input s)" using r assms(2) by (metis drop_all not_le_imp_less)
  have "next_token s = (\<lparr>tk_kind = k, tk_text = take n r, tk_pos = sc_i s\<rparr>, s\<lparr>sc_lastPos := sc_i s, sc_i := sc_i s + n\<rparr>)"
    using lt assms(3) by (simp add: next_token_def r Let_def)
  moreover have "at_text (s\<lparr>sc_lastPos := sc_i s, sc_i := sc_i s + n\<rparr>) (drop n r)"
    using drop_drop[of n "sc_i s" "sc_input s"] unfolding at_text_def r by (simp add: add.commute)
  ultimately show thesis by (rule that)
qed

definition ends_word :: "string \<Rightarrow> bool" where
  "ends_word r \<longleftrightarrow> (\<exists>t. r = CHR '' '' # t \<or> r = CHR '';'' # t)"

lemma scan_word_char:
  assumes "word_char c"
  shows "scan_at (c # cs) = (if isIdentStart c then (tokIdent, 1 + length (takeWhile isIdentPart cs)) else (tokOther, 1))"
  using assms
  by (auto simp: scan_at_def scanWhitespace_def scanComment_def scanString_def scanSingleChar_def scanIdent_def scanOther_def
      word_char_def)

lemma not_ident_part: "\<not> isIdentPart CHR '' ''" "\<not> isIdentPart CHR '';''"
  by (simp_all add: isIdentPart_def isIdentStart_def latin1_letter_def is_digit_def)

lemma takeWhile_ident_end: "ends_word r \<Longrightarrow> takeWhile isIdentPart (w @ r) = takeWhile isIdentPart w"
  using not_ident_part by (auto simp: ends_word_def takeWhile_tail)

lemma words_new:
  assumes "next_token s = (t, s1)" "tk_kind t = tokIdent \<or> tk_kind t = tokOther"
  shows "words_loop d s ws False q = words_loop d s1 (ws @ [\<lparr>sw_text = tk_text t, sw_quoted = False, sw_pos = tk_pos t\<rparr>]) True False"
  using assms by (subst words_loop.simps) (auto simp: Let_def)

lemma words_more:
  assumes "next_token s = (t, s1)" "tk_kind t = tokIdent \<or> tk_kind t = tokOther"
  shows "words_loop d s (ws @ [x]) True False = words_loop d s1 (ws @ [x\<lparr>sw_text := sw_text x @ tk_text t\<rparr>]) True False"
  using assms by (subst words_loop.simps) (auto simp: Let_def)

lemma word_token:
  assumes "word_char c" "ends_word r"
  obtains k n where "scan_at ((c # cs) @ r) = (k, Suc n)" "k = tokIdent \<or> k = tokOther" "n \<le> length cs"
proof (cases "isIdentStart c")
  case True
  show thesis by (rule that[of tokIdent "length (takeWhile isIdentPart cs)"])
    (use assms True in \<open>simp_all add: scan_word_char takeWhile_ident_end length_takeWhile_le\<close>)
next
  case False
  show thesis by (rule that[of tokOther 0]) (use assms False in \<open>simp_all add: scan_word_char\<close>)
qed

lemma bare_rest:
  assumes "list_all word_char w" "ends_word r" "at_text s (w @ r)"
  shows "\<exists>s'. at_text s' r \<and> words_loop d s (ws @ [x]) True False = words_loop d s' (ws @ [x\<lparr>sw_text := sw_text x @ w\<rparr>]) True False"
  using assms
proof (induction "length w" arbitrary: w s x rule: less_induct)
  case less
  show ?case
  proof (cases w)
    case (Cons c cs)
    from less.prems(1) have c: "word_char c" by (simp add: Cons)
    from word_token[OF c less.prems(2)] obtain k n where
      k: "scan_at (w @ r) = (k, Suc n)" "k = tokIdent \<or> k = tokOther" "n \<le> length cs" unfolding Cons by metis
    obtain s1 where s1: "next_token s = (\<lparr>tk_kind = k, tk_text = take (Suc n) (w @ r), tk_pos = sc_i s\<rparr>, s1)"
      "at_text s1 (drop (Suc n) (w @ r))"
      using next_at[OF less.prems(3) _ k(1)] by (auto simp: Cons)
    have tk: "take (Suc n) (w @ r) = take (Suc n) w" "drop (Suc n) (w @ r) = drop (Suc n) w @ r" using k(3) by (simp_all add: Cons)
    let ?x = "x\<lparr>sw_text := sw_text x @ take (Suc n) w\<rparr>"
    have "words_loop d s (ws @ [x]) True False = words_loop d s1 (ws @ [?x]) True False"
      using words_more[OF s1(1)[unfolded tk]] k(2) by simp
    moreover have "length (drop (Suc n) w) < length w" "list_all word_char (drop (Suc n) w)"
      using less.prems(1) by (auto simp: Cons list_all_iff dest: in_set_dropD)
    from less.hyps[OF this less.prems(2) s1(2)[unfolded tk], of ?x] obtain s' where "at_text s' r"
      "words_loop d s1 (ws @ [?x]) True False = words_loop d s' (ws @ [?x\<lparr>sw_text := sw_text ?x @ drop (Suc n) w\<rparr>]) True False" by auto
    moreover have "?x\<lparr>sw_text := sw_text ?x @ drop (Suc n) w\<rparr> = x\<lparr>sw_text := sw_text x @ w\<rparr>" by (simp del: take_Suc_Cons drop_Suc_Cons)
    ultimately show ?thesis by metis
  qed (use less.prems in auto)
qed

lemma bare_word:
  assumes "bare w" "ends_word r" "at_text s (w @ r)"
  shows "\<exists>s'. at_text s' r \<and> words_loop d s ws False q = words_loop d s' (ws @ [word_of (Bare w) (sc_i s)]) True False"
proof -
  obtain c cs where w: "w = c # cs" using assms(1) by (cases w) (auto simp: bare_def)
  have c: "word_char c" using assms(1) by (simp add: bare_def w)
  from word_token[OF c assms(2)] obtain k n where
    k: "scan_at (w @ r) = (k, Suc n)" "k = tokIdent \<or> k = tokOther" "n \<le> length cs" unfolding w by metis
  have tk: "take (Suc n) (w @ r) = take (Suc n) w" "drop (Suc n) (w @ r) = drop (Suc n) w @ r" using k(3) by (simp_all add: w)
  obtain s1 where s1: "next_token s = (\<lparr>tk_kind = k, tk_text = take (Suc n) w, tk_pos = sc_i s\<rparr>, s1)" "at_text s1 (drop (Suc n) w @ r)"
    using next_at[OF assms(3) _ k(1)] unfolding tk by (auto simp: w)
  let ?x = "\<lparr>sw_text = take (Suc n) w, sw_quoted = False, sw_pos = sc_i s\<rparr>"
  have 1: "words_loop d s ws False q = words_loop d s1 (ws @ [?x]) True False"
    using words_new[OF s1(1)] k(2) by simp
  have "list_all word_char (drop (Suc n) w)" using assms(1) by (auto simp: bare_def list_all_iff dest: in_set_dropD)
  from bare_rest[OF this assms(2) s1(2), of d ws ?x] obtain s' where
    "at_text s' r" "words_loop d s1 (ws @ [?x]) True False = words_loop d s' (ws @ [?x\<lparr>sw_text := sw_text ?x @ drop (Suc n) w\<rparr>]) True False"
    by auto
  moreover have "?x\<lparr>sw_text := sw_text ?x @ drop (Suc n) w\<rparr> = word_of (Bare w) (sc_i s)"
    by (simp add: word_of_def del: take_Suc_Cons drop_Suc_Cons)
  ultimately show ?thesis using 1 by metis
qed

lemma string_length_plain: "plain t \<Longrightarrow> string_length dq (t @ dq # r) = Suc (length t)"
  by (induction t) (auto simp: plain_def)

lemma quoted_word:
  assumes "plain t" "at_text s (quoted t @ r)"
  shows "\<exists>s'. at_text s' r \<and> words_loop d s ws False q = words_loop d s' (ws @ [word_of (Quoted t) (sc_i s)]) True True"
proof -
  have scan: "scan_at (quoted t @ r) = (tokString, length t + 2)"
    by (simp add: scan_at_def scanWhitespace_def scanComment_def scanString_def quoted_def isSpace_def
        string_length_plain[OF assms(1)])
  have tk: "take (length t + 2) (quoted t @ r) = quoted t" "drop (length t + 2) (quoted t @ r) = r"
    by (simp_all add: quoted_def)
  obtain s1 where s1: "next_token s = (\<lparr>tk_kind = tokString, tk_text = quoted t, tk_pos = sc_i s\<rparr>, s1)" "at_text s1 r"
    using next_at[OF assms(2) _ scan] unfolding tk by (auto simp: quoted_def)
  have "words_loop d s ws False q = words_loop d s1 (ws @ [word_of (Quoted t) (sc_i s)]) True True"
    using s1(1) by (subst words_loop.simps) (simp add: Let_def word_of_def unquote_quoted[OF assms(1)])
  with s1(2) show ?thesis by blast
qed

lemma space_word:
  assumes "\<not> isSpace c" "at_text s (CHR '' '' # c # r)"
  shows "\<exists>s'. at_text s' (c # r) \<and> words_loop d s ws b q = words_loop d s' ws False q"
proof -
  have scan: "scan_at (CHR '' '' # c # r) = (tokWhitespace, 1)"
    using assms(1) by (simp add: scan_at_def scanWhitespace_def) (simp add: isSpace_def)
  obtain s1 where s1: "next_token s = (\<lparr>tk_kind = tokWhitespace, tk_text = '' '', tk_pos = sc_i s\<rparr>, s1)" "at_text s1 (c # r)"
    using next_at[OF assms(2) _ scan] by auto
  have "words_loop d s ws b q = words_loop d s1 ws False q" using s1(1) by (subst words_loop.simps) simp
  with s1(2) show ?thesis by blast
qed

lemma end_word:
  assumes "at_text s (CHR '';'' # r)"
  shows "\<exists>s'. at_text s' r \<and> words_loop d s ws b q = Inr (ws, s')"
proof -
  have scan: "scan_at (CHR '';'' # r) = (tokSemicolon, 1)"
    by (simp add: scan_at_def scanWhitespace_def scanComment_def scanString_def scanSingleChar_def isSpace_def)
  obtain s1 where s1: "next_token s = (\<lparr>tk_kind = tokSemicolon, tk_text = '';'', tk_pos = sc_i s\<rparr>, s1)" "at_text s1 r"
    using next_at[OF assms _ scan] by auto
  have "words_loop d s ws b q = Inr (ws, s1)" using s1(1) by (subst words_loop.simps) simp
  with s1(2) show ?thesis by blast
qed

lemma args_text_ends: "ends_word (args_text args @ r)"
  by (cases args) (simp_all add: args_text_def ends_word_def)

lemma arg_word:
  assumes "good_arg a" "ends_word r" "at_text s (CHR '' '' # arg_string a @ r)"
  shows "\<exists>s' p b' q'. at_text s' r \<and> words_loop d s ws b q = words_loop d s' (ws @ [word_of a p]) b' q'"
proof -
  obtain c cs where c: "arg_string a = c # cs" "\<not> isSpace c"
    using assms(1) by (cases a; cases "arg_string a")
      (auto simp: good_arg_def arg_string_def bare_def word_char_def quoted_def isSpace_def)
  from space_word[OF c(2), of s "cs @ r" d ws b q] assms(3) obtain s1 where
    s1: "at_text s1 (arg_string a @ r)" "words_loop d s ws b q = words_loop d s1 ws False q" by (auto simp: c)
  show ?thesis
  proof (cases a)
    case (Bare w)
    then show ?thesis using bare_word[OF _ assms(2), of w s1 d ws q] s1 assms(1)
      by (auto simp: good_arg_def arg_string_def)
  next
    case (Quoted t)
    then show ?thesis using quoted_word[of t s1 r d ws q] s1 assms(1)
      by (auto simp: good_arg_def arg_string_def)
  qed
qed

lemma collect_args:
  assumes "list_all good_arg args" "at_text s (args_text args @ r)"
  shows "\<exists>s' ps. at_text s' r \<and> length ps = length args \<and> words_loop d s ws b q = Inr (ws @ map2 word_of args ps, s')"
  using assms
proof (induction args arbitrary: s ws b q)
  case Nil
  then show ?case using end_word[of s r d ws b q] by (auto simp: args_text_def)
next
  case (Cons a args)
  have "at_text s (CHR '' '' # arg_string a @ args_text args @ r)" using Cons.prems(2) by (simp add: args_text_def)
  from arg_word[OF _ args_text_ends this, of d ws b q] Cons.prems(1) obtain s1 p b' q' where
    s1: "at_text s1 (args_text args @ r)" "words_loop d s ws b q = words_loop d s1 (ws @ [word_of a p]) b' q'" by auto
  from Cons.IH[OF _ s1(1), of "ws @ [word_of a p]" b' q'] Cons.prems(1) obtain s' ps where
    "at_text s' r" "length ps = length args" "words_loop d s ws b q = Inr (ws @ map2 word_of (a # args) (p # ps), s')"
    using s1(2) by auto
  then show ?case by (intro exI[of _ s'] exI[of _ "p # ps"]) simp
qed

text \<open>The statements, their meaning as rules and their text after the directive's name.\<close>

datatype 'f req_stmt =
    StRequired string string bool
  | StForbid string string
  | StType string string string
  | StRange string string "'f option" "'f option"
  | StLen string string "nat option" "nat option"
  | StEnum string string "arg list"

primrec stmt_directive :: "'f req_stmt \<Rightarrow> string" where
  "stmt_directive (StRequired _ _ _) = ''req_required''"
| "stmt_directive (StForbid _ _) = ''req_forbid''"
| "stmt_directive (StType _ _ _) = ''req_type''"
| "stmt_directive (StRange _ _ _ _) = ''req_range''"
| "stmt_directive (StLen _ _ _ _) = ''req_len''"
| "stmt_directive (StEnum _ _ _) = ''req_enum''"

primrec stmt_rule :: "quote_ops \<Rightarrow> 'f req_stmt \<Rightarrow> 'f validation_rule" where
  "stmt_rule qo (StRequired src tgt an) = (newReqValidationRule ''required'' src tgt)\<lparr>vr_AllowNull := an\<rparr>"
| "stmt_rule qo (StForbid src tgt) = newReqValidationRule ''forbid'' src tgt"
| "stmt_rule qo (StType src tgt typ) = (newReqValidationRule ''type'' src tgt)\<lparr>vr_Type := typ\<rparr>"
| "stmt_rule qo (StRange src tgt lo hi) = (newReqValidationRule ''range'' src tgt)\<lparr>vr_Min := lo, vr_Max := hi\<rparr>"
| "stmt_rule qo (StLen src tgt lo hi) =
     (newReqValidationRule ''len'' src tgt)\<lparr>vr_MinLen := map_option int lo, vr_MaxLen := map_option int hi\<rparr>"
| "stmt_rule qo (StEnum src tgt vs) =
     (newReqValidationRule ''enum'' src tgt)\<lparr>vr_Values := map (\<lambda>a. case a of Bare w \<Rightarrow> w | Quoted t \<Rightarrow> qo_Quote qo t) vs\<rparr>"

definition bound_args :: "('a \<Rightarrow> string) \<Rightarrow> 'a option \<Rightarrow> 'a option \<Rightarrow> arg list" where
  "bound_args shw lo hi =
     (case lo of None \<Rightarrow> [] | Some l \<Rightarrow> [Bare (''min='' @ shw l)]) @ (case hi of None \<Rightarrow> [] | Some h \<Rightarrow> [Bare (''max='' @ shw h)])"

primrec stmt_args :: "'f num_ops \<Rightarrow> 'f req_stmt \<Rightarrow> arg list" where
  "stmt_args no (StRequired src tgt an) = [Bare src, Quoted tgt] @ (if an then [Bare ''allow_null=true''] else [])"
| "stmt_args no (StForbid src tgt) = [Bare src, Quoted tgt]"
| "stmt_args no (StType src tgt typ) = [Bare src, Quoted tgt, Bare typ]"
| "stmt_args no (StRange src tgt lo hi) = [Bare src, Quoted tgt] @ bound_args (no_show no) lo hi"
| "stmt_args no (StLen src tgt lo hi) = [Bare src, Quoted tgt] @ bound_args itoa lo hi"
| "stmt_args no (StEnum src tgt vs) = [Bare src, Quoted tgt] @ vs"

definition good_target :: "string \<Rightarrow> string \<Rightarrow> bool" where
  "good_target src tgt \<longleftrightarrow> bare src \<and> trim_space src = src \<and> plain tgt \<and> tgt \<noteq> [] \<and> trim_space tgt = tgt"

definition good_number :: "'f num_ops \<Rightarrow> 'f \<Rightarrow> bool" where
  "good_number no f \<longleftrightarrow> list_all word_char (no_show no f) \<and> parseReqRangeNumber no (no_show no f) = Some f"

primrec good_stmt :: "'f num_ops \<Rightarrow> 'f req_stmt \<Rightarrow> bool" where
  "good_stmt no (StRequired src tgt an) \<longleftrightarrow> good_target src tgt"
| "good_stmt no (StForbid src tgt) \<longleftrightarrow> good_target src tgt"
| "good_stmt no (StType src tgt typ) \<longleftrightarrow> good_target src tgt \<and> bare typ \<and> trim_space typ = typ"
| "good_stmt no (StRange src tgt lo hi) \<longleftrightarrow> good_target src tgt \<and> opt_all (good_number no) lo \<and> opt_all (good_number no) hi"
| "good_stmt no (StLen src tgt lo hi) \<longleftrightarrow>
     good_target src tgt \<and> opt_all (\<lambda>n. in_int64 (int n)) lo \<and> opt_all (\<lambda>n. in_int64 (int n)) hi"
| "good_stmt no (StEnum src tgt vs) \<longleftrightarrow> good_target src tgt \<and> list_all good_arg vs"

text \<open>The dispatch on the directive, for the six validation directives.\<close>

definition parse_req_stmt ::
    "'f num_ops \<Rightarrow> quote_ops \<Rightarrow> string \<Rightarrow> scanner \<Rightarrow> 'f validation_rule list \<Rightarrow> (dsl_error + ('f validation_rule list \<times> scanner)) option" where
  "parse_req_stmt no qo directive s rules =
     (if directive = ''req_required'' then Some (parseReqRequiredStmt s rules)
      else if directive = ''req_forbid'' then Some (parseReqForbidStmt s rules)
      else if directive = ''req_type'' then Some (parseReqTypeStmt s rules)
      else if directive = ''req_range'' then Some (parseReqRangeStmt no s rules)
      else if directive = ''req_len'' then Some (parseReqLenStmt s rules)
      else if directive = ''req_enum'' then Some (parseReqEnumStmt qo s rules)
      else None)"

lemma word_of_simps [simp]:
  "sw_text (word_of (Bare w) p) = w" "sw_text (word_of (Quoted t) p) = t"
  "\<not> sw_quoted (word_of (Bare w) p)" "sw_quoted (word_of (Quoted t) p)"
  by (simp_all add: word_of_def)

lemma stmt_head_args:
  assumes "good_target src tgt" "list_all good_arg extra" "at_text s (args_text ([Bare src, Quoted tgt] @ extra) @ r)"
  shows "\<exists>s' ps. at_text s' r \<and> length ps = length extra \<and>
    stmt_head d op s = Inr (newReqValidationRule op src tgt, map2 word_of extra ps, s')"
proof -
  have "list_all good_arg ([Bare src, Quoted tgt] @ extra)" using assms(1,2) by (simp add: good_target_def good_arg_def)
  from collect_args[OF this assms(3), of d "[]" False False] obtain s' ps where
    c: "at_text s' r" "length ps = 2 + length extra" "collectStmtWords s d = Inr (map2 word_of ([Bare src, Quoted tgt] @ extra) ps, s')"
    by (auto simp: collectStmtWords_def)
  obtain p1 p2 qs where ps: "ps = p1 # p2 # qs" "length qs = length extra"
    using c(2) by (cases ps; cases "tl ps") auto
  have "stmt_head d op s = Inr (newReqValidationRule op src tgt, map2 word_of extra qs, s')"
    using assms(1) by (simp add: stmt_head_def c(3) ps(1) parseReqValidationSourceAndTarget_def good_target_def Let_def)
  with c(1) ps(2) show ?thesis by blast
qed

lemma split_kv:
  "splitStmtKV (word_of (Bare (''min='' @ v)) p) = Some (''min'', v)"
  "splitStmtKV (word_of (Bare (''max='' @ v)) p) = Some (''max'', v)"
  "splitStmtKV (word_of (Bare ''allow_null=true'') p) = Some (''allow_null'', ''true'')"
  by (simp_all add: splitStmtKV_def str_cut_def)

lemma word_char_key: "list_all word_char v \<Longrightarrow> bare (''min='' @ v) \<and> bare (''max='' @ v)"
  by (simp add: bare_def word_char_def isSpace_def)

lemmas kv_simps = split_kv[simplified] word_char_key[simplified]

lemma digit_word_char: "is_digit c \<Longrightarrow> word_char c"
  by (auto simp: word_char_def isSpace_def is_digit_def)

lemma itoa_word: "list_all word_char (itoa n)"
  using itoa_digits[of n] by (auto simp: list_all_iff digit_word_char)

lemma bound_args_good:
  "opt_all (\<lambda>x. list_all word_char (shw x)) lo \<Longrightarrow> opt_all (\<lambda>x. list_all word_char (shw x)) hi \<Longrightarrow>
     list_all good_arg (bound_args shw lo hi)"
  by (auto simp: bound_args_def good_arg_def kv_simps split: option.splits)

lemma range_args_bounds:
  assumes "opt_all (good_number no) lo" "opt_all (good_number no) hi" "length ps = length (bound_args (no_show no) lo hi)"
    and "vr_Min rule = None" "vr_Max rule = None"
  shows "range_args no s (map2 word_of (bound_args (no_show no) lo hi) ps) rule = Inr (rule\<lparr>vr_Min := lo, vr_Max := hi\<rparr>)"
  using assms
  by (cases lo; cases hi; cases ps; cases "tl ps") (auto simp: bound_args_def kv_simps good_number_def)

lemma len_args_bounds:
  assumes "opt_all (\<lambda>n. in_int64 (int n)) lo" "opt_all (\<lambda>n. in_int64 (int n)) hi" "length ps = length (bound_args itoa lo hi)"
    and "vr_MinLen rule = None" "vr_MaxLen rule = None"
  shows "len_args s (map2 word_of (bound_args itoa lo hi) ps) rule = Inr (rule\<lparr>vr_MinLen := map_option int lo, vr_MaxLen := map_option int hi\<rparr>)"
  using assms
  by (cases lo; cases hi; cases ps; cases "tl ps") (auto simp: bound_args_def kv_simps atoi_itoa)

lemma enum_words:
  "length ps = length vs \<Longrightarrow>
     map (\<lambda>w. if sw_quoted w then qo_Quote qo (sw_text w) else sw_text w) (map2 word_of vs ps) =
     map (\<lambda>a. case a of Bare w \<Rightarrow> w | Quoted t \<Rightarrow> qo_Quote qo t) vs"
  by (induction vs ps rule: list_induct2') (auto split: arg.splits)

lemma new_rule_fields [simp]:
  "vr_Min (newReqValidationRule op src tgt) = None" "vr_Max (newReqValidationRule op src tgt) = None"
  "vr_MinLen (newReqValidationRule op src tgt) = None" "vr_MaxLen (newReqValidationRule op src tgt) = None"
  "vr_AllowNull (newReqValidationRule op src tgt) = False"
  by (simp_all add: newReqValidationRule_def empty_rule_def Let_def)

lemma stmt_args_good: "good_stmt no st \<Longrightarrow> list_all good_arg (drop 2 (stmt_args no st))"
  by (cases st) (auto simp: good_arg_def itoa_word good_number_def bare_def word_char_def isSpace_def
      intro!: bound_args_good split: option.splits elim!: opt_all_mono)

text \<open>
  C22. Validation statements survive printing: for each of the six directives, the text of a statement
  (source, quoted target and arguments, after the directive's name) is parsed to exactly the rule the
  statement denotes, appended to the rules read before, and the scanner is left right behind the
  semicolon. Numbers are assumed to be printed as decimals that read back.
\<close>
theorem req_stmt_roundtrip:
  assumes "good_stmt no st" "at_text s (args_text (stmt_args no st) @ tail)"
  shows "\<exists>s'. parse_req_stmt no qo (stmt_directive st) s rules = Some (Inr (rules @ [stmt_rule qo st], s')) \<and> at_text s' tail"
proof -
  obtain src tgt where st: "good_target src tgt" "stmt_args no st = [Bare src, Quoted tgt] @ drop 2 (stmt_args no st)" using assms(1) by (cases st) auto
  have head: "\<exists>s' ps. at_text s' tail \<and> length ps = length (drop 2 (stmt_args no st)) \<and>
    stmt_head d op s = Inr (newReqValidationRule op src tgt :: 'a validation_rule, map2 word_of (drop 2 (stmt_args no st)) ps, s')" for d op
    using stmt_head_args[OF st(1) stmt_args_good[OF assms(1)]] assms(2) st(2) by metis
  show ?thesis
  proof (cases st)
    case (StRequired src' tgt' an)
    with st(2) head[of "''req_required''" "''required''"] show ?thesis
      by (fastforce simp: parse_req_stmt_def parseReqRequiredStmt_def length_Suc_conv kv_simps split: if_splits)
  next
    case (StForbid src' tgt')
    with st(2) head[of "''req_forbid''" "''forbid''"] show ?thesis
      by (auto simp: parse_req_stmt_def parseReqForbidStmt_def)
  next
    case (StType src' tgt' ty)
    with st(2) head[of "''req_type''" "''type''"] assms(1) show ?thesis
      by (fastforce simp: parse_req_stmt_def parseReqTypeStmt_def length_Suc_conv)
  next
    case (StRange src' tgt' lo hi)
    with st(2) head[of "''req_range''" "''range''"] assms(1) show ?thesis
      by (fastforce simp: parse_req_stmt_def parseReqRangeStmt_def range_args_bounds)
  next
    case (StLen src' tgt' lo hi)
    with st(2) head[of "''req_len''" "''len''"] assms(1) show ?thesis
      by (fastforce simp: parse_req_stmt_def parseReqLenStmt_def len_args_bounds)
  next
    case (StEnum src' tgt' vs)
    with st(2) head[of "''req_enum''" "''enum''"] obtain s' ps where "at_text s' tail" "length ps = length vs"
      "stmt_head ''req_enum'' ''enum'' s = Inr (newReqValidationRule ''enum'' src' tgt' :: 'a validation_rule, map2 word_of vs ps, s')"
      by auto
    with StEnum show ?thesis by (simp add: parse_req_stmt_def parseReqEnumStmt_def enum_words del: map_map)
  qed
qed

section \<open>Instances\<close>

definition demo_num :: "int num_ops" where
  "demo_num = \<lparr>no_ParseFloat = atoi, no_number = (\<lambda>i _. i), no_finite = (\<lambda>_. True), no_integral = (\<lambda>_. True),
     no_less = (<), no_eq = (=), no_show = int_text\<rparr>"

definition demo_quote :: quote_ops where
  "demo_quote = \<lparr>qo_Quote = quoted,
     qo_Unquote = (\<lambda>s. if length s \<ge> 2 \<and> hd s = dq \<and> last s = dq then Some (butlast (tl s)) else None)\<rparr>"

definition demo_stmt :: "int req_stmt" where
  "demo_stmt = StLen ''body'' ''$.messages'' (Some 1) (Some 3)"

definition demo_scan :: scanner where
  "demo_scan = newScanner ''p.conf'' '' body \"$.messages\" min=1 max=3; req_map''"

theorem req_stmt_roundtrip_witness:
  "\<exists>s'. parse_req_stmt demo_num demo_quote ''req_len'' demo_scan [] = Some (Inr ([stmt_rule demo_quote demo_stmt], s')) \<and> at_text s' '' req_map''"
proof -
  have "good_stmt demo_num demo_stmt" by code_simp
  moreover have "at_text demo_scan (args_text (stmt_args demo_num demo_stmt) @ '' req_map'')" by code_simp
  ultimately show ?thesis using req_stmt_roundtrip[of demo_num demo_stmt demo_scan "'' req_map''" demo_quote "[]"]
    by (simp add: demo_stmt_def)
qed

definition demo_rules :: "int validation_rule list" where
  "demo_rules = map (stmt_rule demo_quote)
     [StRequired ''body'' ''$.model'' False, demo_stmt, StEnum ''query'' ''mode'' [Quoted ''a'', Bare ''b'']]"

definition demo_compiled :: "int validation_rule list" where
  "demo_compiled =
     [(demo_rules ! 0)\<lparr>vr_PathParts := [''model'']\<rparr>, (demo_rules ! 1)\<lparr>vr_PathParts := [''messages'']\<rparr>,
      (demo_rules ! 2)\<lparr>vr_StringValueSet := [''a'', ''b'']\<rparr>]"

definition demo_view :: request_view where
  "demo_view = \<lparr>rv_root = Some [(''model'', JStr ''m''), (''messages'', JArr [])], rv_headers = [], rv_query = ''mode=b&x=%zz''\<rparr>"

definition demo_reject :: validation_error where
  "demo_reject = \<lparr>ve_Source = ''body'', ve_PathOrName = ''$.messages'', ve_Rule = ''len'',
     ve_Message = ''$.messages length must be between 1 and 3''\<rparr>"

lemma demo_compile: "validateRequestValidationRules demo_num demo_quote demo_rules = Inr demo_compiled"
  by code_simp


theorem rejection_value_free_witness:
  "demo_reject \<in> set (concat (map (rule_reports demo_num) demo_rules))"
proof -
  have "Validate demo_num demo_compiled demo_view = Reject demo_reject" by code_simp
  with demo_compile show ?thesis by (rule rejection_value_free)
qed

end
