(* ===== verification/Dsl_Phases.thy ===== *)
theory Dsl_Phases
  imports Dsl_Validation Auth
begin

text \<open>
  The phases of a provider configuration that choose what happens to a request, in
  \<^verbatim>\<open>onr-core/pkg/dslconfig\<close>: routing (\<^verbatim>\<open>routing.go\<close>), the request transform (\<^verbatim>\<open>request_transform.go\<close>) and the
  response directive (\<^verbatim>\<open>response.go\<close>). Each phase has defaults and match blocks; the blocks are
  selected through the interface \<open>first_match\<close>.

  Splitting a URL into its parts and printing it are parameters (\<open>url_ops\<close>); the query of a URL is
  modelled, with \<^verbatim>\<open>url.Values\<close> as the list of its pairs. A Go map of expressions is an association list
  with distinct keys.

  Shown: routing rewrites exactly the query parameters it names and keeps every other one with
  all its values, and a transform that is selected is the defaults overridden by the first match.
\<close>

section \<open>Queries\<close>

fun bytes_less :: "string \<Rightarrow> string \<Rightarrow> bool" where
  "bytes_less _ [] = False"
| "bytes_less [] (_ # _) = True"
| "bytes_less (a # s) (b # t) = (if a = b then bytes_less s t else (of_char a :: nat) < of_char b)"

definition query_escape_byte :: "char \<Rightarrow> string" where
  "query_escape_byte c = (if c = CHR '' '' then ''+'' else escape_byte c)"

definition query_escape :: "string \<Rightarrow> string" where
  "query_escape s = concat (map query_escape_byte s)"

definition query_Del :: "string \<Rightarrow> (string \<times> string) list \<Rightarrow> (string \<times> string) list" where
  "query_Del k q = filter (\<lambda>p. fst p \<noteq> k) q"

definition query_Set :: "string \<Rightarrow> string \<Rightarrow> (string \<times> string) list \<Rightarrow> (string \<times> string) list" where
  "query_Set k v q = query_Del k q @ [(k, v)]"

definition pair_text :: "string \<times> string \<Rightarrow> string" where
  "pair_text p = query_escape (fst p) @ ''='' @ query_escape (snd p)"

definition query_Encode :: "(string \<times> string) list \<Rightarrow> string" where
  "query_Encode q = str_join ''&'' (map pair_text (slice_stable (\<lambda>p p'. bytes_less (fst p) (fst p')) q))"

section \<open>Routing\<close>

record url =
  u_Path :: string
  u_RawQuery :: string
  u_Other :: string

record url_ops =
  uo_Parse :: "string \<Rightarrow> url option"
  uo_String :: "url \<Rightarrow> string"

record routing_match =
  rm_API :: string
  rm_Stream :: "bool option"
  rm_SetPath :: string
  rm_QueryPairs :: "(string \<times> string) list"
  rm_QueryDels :: "string list"

record provider_routing =
  pr_BaseURLExpr :: string
  pr_Transport :: string
  pr_Matches :: "routing_match list"

datatype routing_error =
    BaseURLFails expr_error
  | RequestURLInvalid string
  | SetPathFails expr_error
  | SetQueryFails string expr_error

fun routing_selectMatch :: "routing_match list \<Rightarrow> string \<Rightarrow> bool \<Rightarrow> routing_match option" where
  "routing_selectMatch [] api stream = None"
| "routing_selectMatch (m # ms) api stream =
     (if rm_API m \<noteq> [] \<and> rm_API m \<noteq> api then routing_selectMatch ms api stream
      else if rm_Stream m \<noteq> None \<and> rm_Stream m \<noteq> Some stream then routing_selectMatch ms api stream
      else Some m)"

interpretation routing_blocks: first_match rm_API rm_Stream routing_selectMatch
  by unfold_locales (auto simp: block_applies_def)

definition map_error :: "('e \<Rightarrow> 'd) \<Rightarrow> 'e + 'a \<Rightarrow> 'd + 'a" where
  "map_error f r = (case r of Inl e \<Rightarrow> Inl (f e) | Inr x \<Rightarrow> Inr x)"

fun set_queries :: "meta \<Rightarrow> (string \<times> string) list \<Rightarrow> (string \<times> string) list \<Rightarrow> routing_error + (string \<times> string) list" where
  "set_queries meta [] q = Inr q"
| "set_queries meta ((k, v) # pairs) q =
     bind_res (map_error (SetQueryFails k) (evalRoutingStringExpr v meta)) (\<lambda>val. set_queries meta pairs (query_Set k val q))"

definition del_queries :: "string list \<Rightarrow> (string \<times> string) list \<Rightarrow> (string \<times> string) list" where
  "del_queries dels q = fold query_Del (filter (\<lambda>k. trim_space k \<noteq> []) dels) q"

definition rewrite_url :: "routing_match \<Rightarrow> meta \<Rightarrow> url \<Rightarrow> routing_error + url" where
  "rewrite_url match meta u =
     bind_res (if rm_SetPath match \<noteq> []
               then map_error SetPathFails (evalRoutingStringExpr (rm_SetPath match) meta) else Inr (u_Path u)) (\<lambda>path.
     bind_res (set_queries meta (rm_QueryPairs match) (del_queries (rm_QueryDels match) (query_values (u_RawQuery u)))) (\<lambda>q.
       Inr (u\<lparr>u_Path := path, u_RawQuery := query_Encode q\<rparr>)))"

definition routing_BaseURL :: "provider_routing \<Rightarrow> meta \<Rightarrow> routing_error + meta" where
  "routing_BaseURL p meta =
     (let v = trim_space (pr_BaseURLExpr p) in
      if v \<noteq> [] \<and> trim_space (mt_BaseURL meta) = [] then
        bind_res (map_error BaseURLFails (evalRoutingStringExpr v meta)) (\<lambda>baseURL. Inr (meta\<lparr>mt_BaseURL := baseURL\<rparr>))
      else Inr meta)"

definition routing_Transport :: "provider_routing \<Rightarrow> meta \<Rightarrow> meta" where
  "routing_Transport p meta =
     (let transport = to_lower (trim_space (pr_Transport p)) in
      if transport \<noteq> [] then meta\<lparr>mt_UpstreamTransport := transport\<rparr> else meta)"

definition routing_Apply :: "url_ops \<Rightarrow> provider_routing \<Rightarrow> meta \<Rightarrow> routing_error + meta" where
  "routing_Apply uo p meta =
     (let api = trim_space (mt_API meta) in
      if api = [] then Inr meta
      else
        case routing_selectMatch (pr_Matches p) api (mt_IsStream meta) of
          None \<Rightarrow> Inr meta
        | Some match \<Rightarrow>
            bind_res (routing_BaseURL p meta) (\<lambda>meta1.
              let meta2 = routing_Transport p meta1 in
              case uo_Parse uo (mt_RequestURLPath meta2) of
                None \<Rightarrow> Inl (RequestURLInvalid (mt_RequestURLPath meta2))
              | Some u \<Rightarrow>
                  bind_res (rewrite_url match meta2 u) (\<lambda>u'. Inr (meta2\<lparr>mt_RequestURLPath := uo_String uo u'\<rparr>))))"

fun HasMatchAPI :: "routing_match list \<Rightarrow> string \<Rightarrow> bool" where
  "HasMatchAPI [] api = False"
| "HasMatchAPI (m # ms) api = (if rm_API m \<noteq> [] \<and> rm_API m \<noteq> api then HasMatchAPI ms api else True)"

definition HasMatch :: "provider_routing \<Rightarrow> meta \<Rightarrow> bool" where
  "HasMatch p meta \<longleftrightarrow>
     (let api = trim_space (mt_API meta) in
      api \<noteq> [] \<and> routing_selectMatch (pr_Matches p) api (mt_IsStream meta) \<noteq> None)"

definition ReferencesVariable :: "provider_routing \<Rightarrow> string \<Rightarrow> bool" where
  "ReferencesVariable p variable \<longleftrightarrow>
     referencesVariable (pr_BaseURLExpr p) variable \<or>
     list_ex (\<lambda>m. referencesVariable (rm_SetPath m) variable \<or>
                  list_ex (\<lambda>kv. referencesVariable (snd kv) variable) (rm_QueryPairs m)) (pr_Matches p)"

section \<open>Request transforms\<close>

record inline_file_rule =
  if_Field :: string
  if_MaxBytes :: int
  if_MaxCount :: int

record 'f request_transform =
  rt_ModelMap :: "(string \<times> string) list option"
  rt_DefaultExpr :: string
  rt_ValidationRules :: "'f validation_rule list"
  rt_InlineFiles :: "inline_file_rule list"
  rt_JSONOps :: "'f json_op list"
  rt_AfterReqMapJSONOps :: "'f json_op list"
  rt_ReqMapMode :: string

record 'f match_request_transform =
  mr_API :: string
  mr_Stream :: "bool option"
  mr_Transform :: "'f request_transform"

record 'f provider_request_transform =
  pt_Defaults :: "'f request_transform"
  pt_Matches :: "'f match_request_transform list"

fun request_selectMatch :: "'f match_request_transform list \<Rightarrow> string \<Rightarrow> bool \<Rightarrow> 'f match_request_transform option" where
  "request_selectMatch [] api stream = None"
| "request_selectMatch (m # ms) api stream =
     (if mr_API m \<noteq> [] \<and> mr_API m \<noteq> api then request_selectMatch ms api stream
      else if mr_Stream m \<noteq> None \<and> mr_Stream m \<noteq> Some stream then request_selectMatch ms api stream
      else Some m)"

interpretation request_blocks: first_match mr_API mr_Stream request_selectMatch
  by unfold_locales (auto simp: block_applies_def)

definition map_entries :: "(string \<times> string) list option \<Rightarrow> (string \<times> string) list" where
  "map_entries m = (case m of None \<Rightarrow> [] | Some es \<Rightarrow> es)"

definition mergeRequestTransform :: "'f request_transform \<Rightarrow> 'f request_transform \<Rightarrow> 'f request_transform" where
  "mergeRequestTransform base override =
     base\<lparr>rt_ModelMap := (if map_entries (rt_ModelMap override) = [] then rt_ModelMap base
                          else Some (fold (\<lambda>(k, v). AList.update k v) (map_entries (rt_ModelMap override))
                                 (map_entries (rt_ModelMap base)))),
          rt_DefaultExpr := (if trim_space (rt_DefaultExpr override) \<noteq> [] then rt_DefaultExpr override else rt_DefaultExpr base),
          rt_JSONOps := rt_JSONOps base @ rt_JSONOps override,
          rt_ValidationRules := rt_ValidationRules base @ rt_ValidationRules override,
          rt_InlineFiles := rt_InlineFiles base @ rt_InlineFiles override,
          rt_AfterReqMapJSONOps := rt_AfterReqMapJSONOps base @ rt_AfterReqMapJSONOps override,
          rt_ReqMapMode := (if trim_space (rt_ReqMapMode override) \<noteq> [] then trim_space (rt_ReqMapMode override)
                            else rt_ReqMapMode base)\<rparr>"

definition transform_empty :: "'f request_transform \<Rightarrow> bool" where
  "transform_empty t \<longleftrightarrow> rt_ModelMap t = None \<and> trim_space (rt_DefaultExpr t) = [] \<and> rt_ValidationRules t = [] \<and>
     rt_InlineFiles t = [] \<and> rt_JSONOps t = [] \<and> rt_AfterReqMapJSONOps t = [] \<and> rt_ReqMapMode t = []"

definition request_Select :: "'f provider_request_transform \<Rightarrow> meta \<Rightarrow> 'f request_transform option" where
  "request_Select p meta =
     (let api = trim_space (mt_API meta) in
      if api = [] then None
      else
        let out = (case request_selectMatch (pt_Matches p) api (mt_IsStream meta) of
                     None \<Rightarrow> pt_Defaults p
                   | Some m \<Rightarrow> mergeRequestTransform (pt_Defaults p) (mr_Transform m));
            out1 = out\<lparr>rt_ReqMapMode := trim_space (rt_ReqMapMode out)\<rparr> in
        if transform_empty out1 then None else Some out1)"

definition model_Apply :: "'f request_transform \<Rightarrow> meta \<Rightarrow> meta" where
  "model_Apply t meta =
     (let meta1 = (if mt_DSLModelMapped meta = [] then meta\<lparr>mt_DSLModelMapped := mt_OriginModelName meta\<rparr> else meta);
          entries = map_entries (rt_ModelMap t);
          key = trim_space (mt_OriginModelName meta1) in
      if entries = [] \<and> trim_space (rt_DefaultExpr t) = [] then meta1
      else if key = [] then meta1
      else
        let fallback = (if trim_space (rt_DefaultExpr t) \<noteq> []
                        then meta1\<lparr>mt_DSLModelMapped := EvalStringExpr (rt_DefaultExpr t) meta1\<rparr> else meta1) in
        case map_of entries key of
          None \<Rightarrow> fallback
        | Some expr \<Rightarrow>
            if trim_space expr \<noteq> [] then meta1\<lparr>mt_DSLModelMapped := EvalStringExpr expr meta1\<rparr> else fallback)"

section \<open>Response directives\<close>

record inline_url_rule =
  iu_Path :: string
  iu_SetField :: string
  iu_WhenRequestPath :: string
  iu_WhenEquals :: string
  iu_MaxBytes :: int
  iu_TimeoutMS :: int
  iu_Concurrency :: int

record 'f response_directive =
  rd_Op :: string
  rd_Mode :: string
  rd_SSECollectMode :: string
  rd_JSONOps :: "'f json_op list"
  rd_SSEJSONDelIf :: "(string \<times> string \<times> string) list"
  rd_BodyExtract :: "(string \<times> string) option"
  rd_ContentTypeRule :: "(string \<times> string \<times> string) option"
  rd_SSEBinaryExtract :: "(string \<times> string \<times> string \<times> string) option"
  rd_InlineURL :: "inline_url_rule option"
  rd_ErrorWhen :: "(string \<times> string \<times> string \<times> int) list"

record 'f match_response =
  ms_API :: string
  ms_Stream :: "bool option"
  ms_Response :: "'f response_directive"

record 'f provider_response =
  ps_Defaults :: "'f response_directive"
  ps_Matches :: "'f match_response list"

fun response_selectMatch :: "'f match_response list \<Rightarrow> string \<Rightarrow> bool \<Rightarrow> 'f match_response option" where
  "response_selectMatch [] api stream = None"
| "response_selectMatch (m # ms) api stream =
     (if ms_API m \<noteq> [] \<and> ms_API m \<noteq> api then response_selectMatch ms api stream
      else if ms_Stream m \<noteq> None \<and> ms_Stream m \<noteq> Some stream then response_selectMatch ms api stream
      else Some m)"

interpretation response_blocks: first_match ms_API ms_Stream response_selectMatch
  by unfold_locales (auto simp: block_applies_def)

definition override_opt :: "'a option \<Rightarrow> 'a option \<Rightarrow> 'a option" where
  "override_opt base override = (if override \<noteq> None then override else base)"

definition mergeResponseDirective ::
    "'f response_directive \<Rightarrow> 'f response_directive \<Rightarrow> 'f response_directive" where
  "mergeResponseDirective base override =
     (let op1 = (if trim_space (rd_Op override) \<noteq> [] then rd_Op override else rd_Op base);
          mode1 = (if trim_space (rd_Op override) \<noteq> [] then rd_Mode override else rd_Mode base);
          mode2 = (if trim_space (rd_Mode override) \<noteq> [] then rd_Mode override else mode1);
          collect = (trim_space (rd_SSECollectMode override) \<noteq> []);
          reset = (collect \<and> trim_space op1 = ''resp_passthrough'') in
      base\<lparr>rd_Op := (if reset then [] else op1),
           rd_Mode := (if reset then [] else mode2),
           rd_SSECollectMode := (if collect then rd_SSECollectMode override else rd_SSECollectMode base),
           rd_SSEJSONDelIf := rd_SSEJSONDelIf base @ rd_SSEJSONDelIf override,
           rd_JSONOps := rd_JSONOps base @ rd_JSONOps override,
           rd_ErrorWhen := rd_ErrorWhen base @ rd_ErrorWhen override,
           rd_BodyExtract := override_opt (rd_BodyExtract base) (rd_BodyExtract override),
           rd_ContentTypeRule := override_opt (rd_ContentTypeRule base) (rd_ContentTypeRule override),
           rd_SSEBinaryExtract := override_opt (rd_SSEBinaryExtract base) (rd_SSEBinaryExtract override),
           rd_InlineURL := override_opt (rd_InlineURL base) (rd_InlineURL override)\<rparr>)"

definition directive_empty :: "'f response_directive \<Rightarrow> bool" where
  "directive_empty d \<longleftrightarrow> trim_space (rd_Op d) = [] \<and> trim_space (rd_SSECollectMode d) = [] \<and> rd_JSONOps d = [] \<and>
     rd_SSEJSONDelIf d = [] \<and> rd_BodyExtract d = None \<and> rd_ContentTypeRule d = None \<and> rd_SSEBinaryExtract d = None \<and>
     rd_InlineURL d = None \<and> rd_ErrorWhen d = []"

definition response_Select :: "'f provider_response \<Rightarrow> meta \<Rightarrow> 'f response_directive option" where
  "response_Select p meta =
     (let api = trim_space (mt_API meta) in
      if api = [] then None
      else
        let out = (case response_selectMatch (ps_Matches p) api (mt_IsStream meta) of
                     None \<Rightarrow> ps_Defaults p
                   | Some m \<Rightarrow> mergeResponseDirective (ps_Defaults p) (ms_Response m)) in
        if directive_empty out then None else Some out)"

section \<open>Queries survive encoding\<close>

lemma bytes_less_irrefl: "\<not> bytes_less s s"
  by (induction s) auto

lemma filter_stable_insert:
  "(\<And>x y. P x \<Longrightarrow> P y \<Longrightarrow> \<not> lt x y) \<Longrightarrow> filter P (stable_insert lt x ys) = (if P x then x # filter P ys else filter P ys)"
  by (induction ys) auto

lemma filter_slice_stable:
  "(\<And>x y. P x \<Longrightarrow> P y \<Longrightarrow> \<not> lt x y) \<Longrightarrow> filter P (slice_stable lt xs) = filter P xs"
  by (induction xs) (auto simp: slice_stable_def filter_stable_insert)

lemma query_unescape_query_escape: "query_unescape (query_escape s) = Some s"
proof (induction s)
  case (Cons c s)
  then show ?case
    by (cases "c = CHR '' ''") (simp_all add: query_escape_def query_escape_byte_def query_unescape_escape)
qed (simp add: query_escape_def)

lemma query_escape_bytes: "c \<in> set (query_escape s) \<Longrightarrow> url_safe c \<or> c = CHR ''%'' \<or> c = CHR ''+''"
  using urlEscape_bytes[of c] by (auto simp: query_escape_def query_escape_byte_def urlEscape_def split: if_splits)

lemma query_escape_clean: "CHR ''&'' \<notin> set (query_escape s)" "CHR ''='' \<notin> set (query_escape s)" "CHR '';'' \<notin> set (query_escape s)"
  by (auto dest!: query_escape_bytes)

lemma pair_text_clean: "CHR ''&'' \<notin> set (pair_text p)" "CHR '';'' \<notin> set (pair_text p)" "pair_text p \<noteq> []"
  by (simp_all add: pair_text_def query_escape_clean)

lemma query_pair_text: "query_pair (pair_text p) = Some p"
proof -
  have "str_cut (CHR ''='') (pair_text p) = (query_escape (fst p), query_escape (snd p))"
    using query_escape_clean(2)[of "fst p"] by (simp add: pair_text_def str_cut_append)
  then show ?thesis by (simp add: query_pair_def query_unescape_query_escape)
qed

lemma split_join: "xs \<noteq> [] \<Longrightarrow> \<forall>x \<in> set xs. c \<notin> set x \<Longrightarrow> str_split (str_join [c] xs) [c] = xs"
proof (induction xs rule: induct_list012)
  case (3 x y ys)
  then show ?case by (simp add: str_split_at)
qed (simp_all add: str_split_none)

lemma query_values_Encode: "query_values (query_Encode q) = slice_stable (\<lambda>p p'. bytes_less (fst p) (fst p')) q"
proof -
  let ?ps = "slice_stable (\<lambda>p p'. bytes_less (fst p) (fst p')) q"
  show ?thesis
  proof (cases "?ps = []")
    case True
    then show ?thesis by (simp add: query_values_def query_Encode_def str_split_none)
  next
    case False
    then have "str_split (query_Encode q) ''&'' = map pair_text ?ps"
      unfolding query_Encode_def by (intro split_join) (auto simp: pair_text_clean)
    then show ?thesis by (simp add: query_values_def pair_text_clean query_pair_text comp_def)
  qed
qed

text \<open>The values of a parameter, in order.\<close>

definition values_of :: "(string \<times> string) list \<Rightarrow> string \<Rightarrow> string list" where
  "values_of q k = map snd (filter (\<lambda>p. fst p = k) q)"

lemma values_of_Encode: "values_of (query_values (query_Encode q)) k = values_of q k"
  unfolding values_of_def query_values_Encode by (subst filter_slice_stable) (auto simp: bytes_less_irrefl)

lemma values_of_Del [simp]: "values_of (query_Del k' q) k = (if k = k' then [] else values_of q k)"
  by (auto simp: values_of_def query_Del_def filter_empty_conv intro!: arg_cong[of _ _ "map snd"] filter_cong)

lemma values_of_Set [simp]: "values_of (query_Set k' v q) k = (if k = k' then [v] else values_of q k)"
proof -
  have "values_of (query_Del k' q @ [(k', v)]) k = values_of (query_Del k' q) k @ (if k = k' then [v] else [])"
    by (simp add: values_of_def)
  then show ?thesis by (simp add: query_Set_def)
qed

lemma values_of_del_queries: "values_of (del_queries dels q) k = (if k \<in> set dels \<and> trim_space k \<noteq> [] then [] else values_of q k)"
proof -
  have "values_of (fold query_Del ks q) k = (if k \<in> set ks then [] else values_of q k)" for ks
    by (induction ks arbitrary: q) auto
  then show ?thesis by (simp add: del_queries_def)
qed

lemma map_error_Inr [simp]: "map_error f r = Inr x \<longleftrightarrow> r = Inr x"
  by (cases r) (simp_all add: map_error_def)

lemma values_of_set_queries:
  assumes "set_queries meta pairs q = Inr q'" "distinct (map fst pairs)"
  shows "map Inr (values_of q' k) =
    (case map_of pairs k of None \<Rightarrow> map Inr (values_of q k) | Some e \<Rightarrow> [evalRoutingStringExpr e meta])"
  using assms
proof (induction meta pairs q rule: set_queries.induct)
  case (2 meta k' v pairs q)
  from 2(2) obtain val where val: "evalRoutingStringExpr v meta = Inr val" "set_queries meta pairs (query_Set k' val q) = Inr q'"
    by (auto simp: bind_res_eq_Inr)
  have "map_of pairs k' = None" using 2(3) by (simp add: map_of_eq_None_iff)
  moreover have "map_error (SetQueryFails k') (evalRoutingStringExpr v meta) = Inr val" using val(1) by simp
  ultimately show ?case using 2(1)[OF val(2)] 2(3) val(1) by (auto split: option.split)
qed simp

section \<open>What routing changes\<close>

lemma routing_BaseURL_frame:
  assumes "routing_BaseURL p meta = Inr meta1"
  shows "\<exists>b. meta1 = meta\<lparr>mt_BaseURL := b\<rparr> \<and> (trim_space (mt_BaseURL meta) \<noteq> [] \<longrightarrow> b = mt_BaseURL meta)"
  using assms by (auto simp: routing_BaseURL_def Let_def bind_res_eq_Inr split: if_splits intro: exI[of _ "mt_BaseURL meta"])

text \<open>
  What routing does to a request whose API and stream flag select a match block: of the
  metadata only the base URL, the transport and the request URL change, and a base URL that the
  upstream key brings along stays; the new URL keeps everything but path and query of the old one; and
  a query parameter the block sets has exactly the value of its expression, one the block deletes is
  gone, and any other has exactly the values the client sent, in their order.
\<close>
theorem routing_query_exact:
  assumes "routing_Apply uo p meta = Inr meta'" "trim_space (mt_API meta) \<noteq> []"
    and "routing_selectMatch (pr_Matches p) (trim_space (mt_API meta)) (mt_IsStream meta) = Some match"
    and "distinct (map fst (rm_QueryPairs match))"
  shows "\<exists>u u' b t. uo_Parse uo (mt_RequestURLPath meta) = Some u
    \<and> meta' = meta\<lparr>mt_BaseURL := b, mt_UpstreamTransport := t, mt_RequestURLPath := uo_String uo u'\<rparr>
    \<and> (trim_space (mt_BaseURL meta) \<noteq> [] \<longrightarrow> b = mt_BaseURL meta)
    \<and> u_Other u' = u_Other u
    \<and> (\<forall>k. map Inr (values_of (query_values (u_RawQuery u')) k) =
         (case map_of (rm_QueryPairs match) k of
            Some e \<Rightarrow> [evalRoutingStringExpr e (meta\<lparr>mt_BaseURL := b, mt_UpstreamTransport := t\<rparr>)]
          | None \<Rightarrow> if k \<in> set (rm_QueryDels match) \<and> trim_space k \<noteq> [] then []
                    else map Inr (values_of (query_values (u_RawQuery u)) k)))"
proof -
  from assms(1-3) obtain meta1 where m1: "routing_BaseURL p meta = Inr meta1"
    by (auto simp: routing_Apply_def Let_def bind_res_eq_Inr)
  let ?m = "routing_Transport p meta1"
  obtain b where b1: "meta1 = meta\<lparr>mt_BaseURL := b\<rparr>" and b: "trim_space (mt_BaseURL meta) \<noteq> [] \<longrightarrow> b = mt_BaseURL meta"
    using routing_BaseURL_frame[OF m1] by blast
  obtain t where m2: "?m = meta\<lparr>mt_BaseURL := b, mt_UpstreamTransport := t\<rparr>"
    by (rule that[of "mt_UpstreamTransport ?m"]) (simp add: routing_Transport_def Let_def b1)
  from assms(1-3) m1 obtain u u' where u: "uo_Parse uo (mt_RequestURLPath ?m) = Some u" "rewrite_url match ?m u = Inr u'"
    "meta' = ?m\<lparr>mt_RequestURLPath := uo_String uo u'\<rparr>"
    by (auto simp: routing_Apply_def Let_def bind_res_eq_Inr split: option.splits)
  from u(2) obtain path q where q: "set_queries ?m (rm_QueryPairs match) (del_queries (rm_QueryDels match) (query_values (u_RawQuery u))) = Inr q"
    "u' = u\<lparr>u_Path := path, u_RawQuery := query_Encode q\<rparr>"
    by (auto simp: rewrite_url_def bind_res_eq_Inr)
  have "map Inr (values_of (query_values (u_RawQuery u')) k) =
      (case map_of (rm_QueryPairs match) k of
         Some e \<Rightarrow> [evalRoutingStringExpr e (meta\<lparr>mt_BaseURL := b, mt_UpstreamTransport := t\<rparr>)]
       | None \<Rightarrow> if k \<in> set (rm_QueryDels match) \<and> trim_space k \<noteq> [] then []
                 else map Inr (values_of (query_values (u_RawQuery u)) k))" for k
    using values_of_set_queries[OF q(1) assms(4), of k] unfolding m2
    by (simp add: q(2) values_of_Encode values_of_del_queries split: option.split)
  then show ?thesis
    using u m2 b q(2) by - (rule exI[of _ u], rule exI[of _ u'], rule exI[of _ b], rule exI[of _ t], simp)
qed


definition demo_url_ops :: url_ops where
  "demo_url_ops = \<lparr>uo_Parse = (\<lambda>s. let (p, q) = str_cut (CHR ''?'') s in Some \<lparr>u_Path = p, u_RawQuery = q, u_Other = []\<rparr>),
     uo_String = (\<lambda>u. u_Path u @ ''?'' @ u_RawQuery u)\<rparr>"

definition demo_match :: routing_match where
  "demo_match = \<lparr>rm_API = [], rm_Stream = None, rm_SetPath = [], rm_QueryPairs = [(''key'', ''$channel.key'')], rm_QueryDels = [''b'']\<rparr>"

definition demo_routing :: provider_routing where
  "demo_routing = \<lparr>pr_BaseURLExpr = [dq] @ ''https://up'' @ [dq], pr_Transport = [], pr_Matches = [demo_match]\<rparr>"

definition routed_meta :: meta where
  "routed_meta = demo_meta\<lparr>mt_RequestURLPath := ''/v1?b=2&a=%20&a=1'', mt_APIKey := ''k''\<rparr>"

theorem routing_query_exact_witness:
  "routing_Apply demo_url_ops demo_routing routed_meta =
     Inr (routed_meta\<lparr>mt_BaseURL := ''https://up'', mt_RequestURLPath := ''/v1?a=+&a=1&key=k''\<rparr>)
   \<and> (\<exists>u (u' :: url). uo_Parse demo_url_ops (mt_RequestURLPath routed_meta) = Some u \<and> u_Other u' = u_Other u
        \<and> values_of (query_values (u_RawQuery u')) ''a'' = values_of (query_values (u_RawQuery u)) ''a'')"
proof -
  have run: "routing_Apply demo_url_ops demo_routing routed_meta =
     Inr (routed_meta\<lparr>mt_BaseURL := ''https://up'', mt_RequestURLPath := ''/v1?a=+&a=1&key=k''\<rparr>)" by code_simp
  have sel: "routing_selectMatch (pr_Matches demo_routing) (trim_space (mt_API routed_meta)) (mt_IsStream routed_meta) = Some demo_match"
    "trim_space (mt_API routed_meta) \<noteq> []" by code_simp+
  have d: "distinct (map fst (rm_QueryPairs demo_match))" "map_of (rm_QueryPairs demo_match) ''a'' = None" "''a'' \<notin> set (rm_QueryDels demo_match)"
    by (simp_all add: demo_match_def)
  from routing_query_exact[OF run sel(2,1) d(1)] obtain u u' :: url and b t where u:
    "uo_Parse demo_url_ops (mt_RequestURLPath routed_meta) = Some u" "u_Other u' = u_Other u"
    "map Inr (values_of (query_values (u_RawQuery u')) ''a'') =
         (case map_of (rm_QueryPairs demo_match) ''a'' of
            Some e \<Rightarrow> [evalRoutingStringExpr e (routed_meta\<lparr>mt_BaseURL := b, mt_UpstreamTransport := t\<rparr>)]
          | None \<Rightarrow> if ''a'' \<in> set (rm_QueryDels demo_match) \<and> trim_space ''a'' \<noteq> [] then []
                    else map Inr (values_of (query_values (u_RawQuery u)) ''a''))"
    by blast
  have "inj (Inr :: string \<Rightarrow> expr_error + string)" by simp
  with u(3) d(2,3) have "values_of (query_values (u_RawQuery u')) ''a'' = values_of (query_values (u_RawQuery u)) ''a''"
    by (simp add: inj_map_eq_map)
  with run u(1,2) show ?thesis by blast
qed

end
