(* ===== verification/Request_Canon.thy ===== *)
theory Request_Canon
  imports Json_Ops Encodings
begin

text \<open>
  Reading request bodies, \<^verbatim>\<open>onr-core/pkg/requestcanon\<close>: the parsed root, model and stream flag of JSON and
  multipart bodies (\<^verbatim>\<open>requestcanon.go\<close>), and the extraction of uploaded files within their budgets
  (\<^verbatim>\<open>multipart_files.go\<close>).

  The formats of the standard library are parameters, in \<open>mime_ops\<close>: media types, the parts of a multipart
  body, types by extension and by content, and JSON decoding. A part whose content cannot be read to
  its end is marked, and reading it fails.

  Shown: an extracted file is never truncated and never over the budget of any rule that names its
  field, and a field never yields more files than any such rule allows.
\<close>

section \<open>Data\<close>

record mp_part =
  pt_FormName :: string
  pt_FileName :: string
  pt_ContentType :: string
  pt_Data :: string
  pt_Broken :: bool

record mime_ops =
  mo_ParseMediaType :: "string \<Rightarrow> (string \<times> (string \<times> string) list) option"
  mo_Parts :: "string \<Rightarrow> string \<Rightarrow> mp_part list \<times> bool"
  mo_TypeByExtension :: "string \<Rightarrow> string"
  mo_DetectContentType :: "string \<Rightarrow> string"
  mo_Unmarshal :: "string \<Rightarrow> json option"

record snapshot =
  sn_Body :: string
  sn_Root :: "jobj option"
  sn_Model :: string
  sn_Stream :: bool
  sn_ContentType :: string
  sn_FileFields :: "string list"

datatype canon_error =
    InvalidJSON
  | BadMediaType
  | BoundaryEmpty
  | MultipartBroken
  | FieldUnreadable string
  | FieldTooLarge string
  | StreamFieldInvalid
  | FileTooLarge string int
  | TooManyFiles string int

definition multipartFieldValueLimit :: int where
  "multipartFieldValueLimit = 2 ^ 20"

section \<open>Content types\<close>

definition AllowNonJSONRequestBodyAPI :: "string \<Rightarrow> bool" where
  "AllowNonJSONRequestBodyAPI api \<longleftrightarrow>
     to_lower (trim_space api) \<in> set [''images.edits'', ''audio.transcriptions'', ''audio.translations'']"

definition IsMultipartFormData :: "mime_ops \<Rightarrow> string \<Rightarrow> bool" where
  "IsMultipartFormData mo contentType =
     (case mo_ParseMediaType mo (trim_space contentType) of
        None \<Rightarrow> False
      | Some (mediaType, _) \<Rightarrow> equal_fold mediaType ''multipart/form-data'')"

definition DeclaresJSON :: "mime_ops \<Rightarrow> string \<Rightarrow> bool" where
  "DeclaresJSON mo contentType =
     (case mo_ParseMediaType mo (trim_space contentType) of
        Some (mediaType, _) \<Rightarrow>
          if trim_space mediaType \<noteq> [] then str_index (to_lower mediaType) ''json'' \<noteq> None
          else str_index (to_lower (trim_space contentType)) ''json'' \<noteq> None
      | None \<Rightarrow> str_index (to_lower (trim_space contentType)) ''json'' \<noteq> None)"

section \<open>Inspection\<close>

text \<open>\<^verbatim>\<open>io.ReadAll\<close> of a part behind an \<^verbatim>\<open>io.LimitReader\<close>: a limit that is not positive reads nothing.\<close>

definition read_limited :: "mp_part \<Rightarrow> int \<Rightarrow> string option" where
  "read_limited part n =
     (if n \<le> 0 then Some []
      else if pt_Broken part then None
      else Some (take (nat n) (pt_Data part)))"

lemma read_limited_code [code]:
  "read_limited part n =
     (if n \<le> 0 then Some []
      else if pt_Broken part then None
      else if int (length (pt_Data part)) \<le> n then Some (pt_Data part)
      else Some (take (nat n) (pt_Data part)))"
  by (simp add: read_limited_def)

definition parse_bool :: "string \<Rightarrow> bool option" where
  "parse_bool s =
     (if s \<in> set [''1'', ''t'', ''T'', ''TRUE'', ''true'', ''True''] then Some True
      else if s \<in> set [''0'', ''f'', ''F'', ''FALSE'', ''false'', ''False''] then Some False
      else None)"

type_synonym form_values = "(string \<times> string list) list"

definition append_value :: "string \<Rightarrow> 'a \<Rightarrow> (string \<times> 'a list) list \<Rightarrow> (string \<times> 'a list) list" where
  "append_value name v values =
     AList.update name ((case map_of values name of None \<Rightarrow> [] | Some vs \<Rightarrow> vs) @ [v]) values"

definition value_json :: "string list \<Rightarrow> json" where
  "value_json vals = (case vals of [v] \<Rightarrow> JStr v | _ \<Rightarrow> JArr (map JStr vals))"

definition multipartValuesRoot :: "form_values \<Rightarrow> jobj option" where
  "multipartValuesRoot values =
     (let root = concat (map (\<lambda>(k, vals). if vals = [] then [] else [(k, value_json vals)]) values) in
      if values = [] \<or> root = [] then None else Some root)"

fun inspect_parts ::
    "mp_part list \<Rightarrow> bool \<Rightarrow> form_values \<Rightarrow> string \<Rightarrow> bool \<Rightarrow> string list
     \<Rightarrow> canon_error + (jobj option \<times> string \<times> bool \<times> string list)" where
  "inspect_parts [] eof values model stream files =
     (if eof then Inr (multipartValuesRoot values, trim_space model, stream, files) else Inl MultipartBroken)"
| "inspect_parts (part # parts) eof values model stream files =
     (let name = trim_space (pt_FormName part); isFile = (trim_space (pt_FileName part) \<noteq> []) in
      if isFile \<or> name = [] then
        inspect_parts parts eof values model stream (if isFile \<and> name \<noteq> [] then files @ [name] else files)
      else
        case read_limited part (multipartFieldValueLimit + 1) of
          None \<Rightarrow> Inl (FieldUnreadable name)
        | Some bytes \<Rightarrow>
            if int (length bytes) > multipartFieldValueLimit then Inl (FieldTooLarge name)
            else
              let v = trim_space bytes; values1 = append_value name v values in
              if name = ''model'' then inspect_parts parts eof values1 v stream files
              else if name = ''stream'' \<and> v \<noteq> [] then
                (case parse_bool v of
                   None \<Rightarrow> Inl StreamFieldInvalid
                 | Some b \<Rightarrow> inspect_parts parts eof values1 model b files)
              else inspect_parts parts eof values1 model stream files)"

definition inspectMultipartBody ::
    "mime_ops \<Rightarrow> string \<Rightarrow> string \<Rightarrow> canon_error + (jobj option \<times> string \<times> bool \<times> string list)" where
  "inspectMultipartBody mo body contentType =
     (case mo_ParseMediaType mo (trim_space contentType) of
        None \<Rightarrow> Inl BadMediaType
      | Some (_, params) \<Rightarrow>
          let boundary = trim_space (case map_of params ''boundary'' of None \<Rightarrow> [] | Some b \<Rightarrow> b) in
          if boundary = [] then Inl BoundaryEmpty
          else
            let (parts, eof) = mo_Parts mo body boundary in
            inspect_parts parts eof [] [] False [])"

definition Inspect :: "mime_ops \<Rightarrow> bool \<Rightarrow> string \<Rightarrow> string \<Rightarrow> canon_error + snapshot" where
  "Inspect mo allowNonJSON body contentType =
     (let sn = \<lparr>sn_Body = body, sn_Root = None, sn_Model = [], sn_Stream = False, sn_ContentType = contentType, sn_FileFields = []\<rparr> in
      if trim_space body = [] then Inr sn
      else if IsMultipartFormData mo contentType then
        bind_res (inspectMultipartBody mo body contentType) (\<lambda>(root, model, stream, files).
          Inr (sn\<lparr>sn_Root := root, sn_Model := model, sn_Stream := stream, sn_FileFields := files\<rparr>))
      else
        case mo_Unmarshal mo body of
          None \<Rightarrow> if allowNonJSON \<and> \<not> DeclaresJSON mo contentType then Inr sn else Inl InvalidJSON
        | Some (JObj root) \<Rightarrow>
            Inr (sn\<lparr>sn_Root := Some root,
                    sn_Model := (case map_of root ''model'' of Some (JStr v) \<Rightarrow> v | _ \<Rightarrow> []),
                    sn_Stream := (case map_of root ''stream'' of Some (JBool b) \<Rightarrow> b | _ \<Rightarrow> False)\<rparr>)
        | Some _ \<Rightarrow> Inr sn)"

definition ParseRoot :: "mime_ops \<Rightarrow> string \<Rightarrow> string \<Rightarrow> jobj option" where
  "ParseRoot mo body contentType =
     (case Inspect mo True body contentType of Inl _ \<Rightarrow> None | Inr sn \<Rightarrow> sn_Root sn)"

section \<open>Uploaded files\<close>

record file_part =
  fp_Field :: string
  fp_Filename :: string
  fp_ContentType :: string
  fp_Data :: string

record file_request =
  fr_Field :: string
  fr_MaxBytes :: int
  fr_MaxCount :: int

definition normalizeMediaType :: "mime_ops \<Rightarrow> string \<Rightarrow> string" where
  "normalizeMediaType mo v =
     (if v = [] then []
      else case mo_ParseMediaType mo v of Some (mediaType, _) \<Rightarrow> mediaType | None \<Rightarrow> v)"

text \<open>\<^verbatim>\<open>filepath.Ext\<close>: the text from the last dot of the last path element.\<close>

definition file_ext :: "string \<Rightarrow> string" where
  "file_ext name =
     (let base = rev (takeWhile (\<lambda>c. c \<noteq> CHR ''/'') (rev name)) in
      if CHR ''.'' \<in> set base then CHR ''.'' # rev (takeWhile (\<lambda>c. c \<noteq> CHR ''.'') (rev base)) else [])"

definition octetStream :: string where "octetStream = ''application/octet-stream''"

definition filePartContentType :: "mime_ops \<Rightarrow> string \<Rightarrow> string \<Rightarrow> string \<Rightarrow> string" where
  "filePartContentType mo declared0 filename data =
     (let declared = normalizeMediaType mo (trim_space declared0);
          ext = to_lower (file_ext filename);
          byExt = (if ext = [] then [] else normalizeMediaType mo (mo_TypeByExtension mo ext));
          sniffed = (if data = [] then [] else normalizeMediaType mo (mo_DetectContentType mo data)) in
      if declared \<noteq> [] \<and> declared \<noteq> octetStream then declared
      else if byExt \<noteq> [] then byExt
      else if sniffed \<noteq> [] \<and> sniffed \<noteq> octetStream then sniffed
      else if declared \<noteq> [] then declared
      else octetStream)"

text \<open>The table of the wanted fields; a field declared again keeps the smaller numbers.\<close>

definition want_field :: "file_request \<Rightarrow> (string \<times> file_request) list \<Rightarrow> (string \<times> file_request) list" where
  "want_field req wanted =
     (let field = trim_space (fr_Field req) in
      if field = [] then wanted
      else
        let req1 = (case map_of wanted field of
                      None \<Rightarrow> req
                    | Some prev \<Rightarrow> req\<lparr>fr_MaxBytes := min (fr_MaxBytes req) (fr_MaxBytes prev),
                                      fr_MaxCount := min (fr_MaxCount req) (fr_MaxCount prev)\<rparr>) in
        AList.update field (req1\<lparr>fr_Field := field\<rparr>) wanted)"

fun extract_parts ::
    "mime_ops \<Rightarrow> (string \<times> file_request) list \<Rightarrow> mp_part list \<Rightarrow> bool \<Rightarrow> (string \<times> file_part list) list
     \<Rightarrow> canon_error + (string \<times> file_part list) list" where
  "extract_parts mo wanted [] eof out = (if eof then Inr out else Inl MultipartBroken)"
| "extract_parts mo wanted (part # parts) eof out =
     (let name = trim_space (pt_FormName part); filename = trim_space (pt_FileName part) in
      case map_of wanted name of
        None \<Rightarrow> extract_parts mo wanted parts eof out
      | Some req \<Rightarrow>
          if filename = [] then extract_parts mo wanted parts eof out
          else if fr_MaxCount req > 0 \<and> int (length (case map_of out name of None \<Rightarrow> [] | Some fs \<Rightarrow> fs)) \<ge> fr_MaxCount req
          then Inl (TooManyFiles name (fr_MaxCount req))
          else
            case read_limited part (wrap64 (fr_MaxBytes req + 1)) of
              None \<Rightarrow> Inl (FieldUnreadable name)
            | Some data \<Rightarrow>
                if int (length data) > fr_MaxBytes req then Inl (FileTooLarge name (fr_MaxBytes req))
                else
                  extract_parts mo wanted parts eof
                    (append_value name
                       \<lparr>fp_Field = name, fp_Filename = filename,
                        fp_ContentType = filePartContentType mo (pt_ContentType part) filename data, fp_Data = data\<rparr> out))"

definition ExtractMultipartFiles ::
    "mime_ops \<Rightarrow> string \<Rightarrow> string \<Rightarrow> file_request list \<Rightarrow> canon_error + (string \<times> file_part list) list" where
  "ExtractMultipartFiles mo body contentType requests =
     (if requests = [] \<or> body = [] \<or> \<not> IsMultipartFormData mo contentType then Inr []
      else
        let wanted = fold want_field requests [] in
        if wanted = [] then Inr []
        else
          case mo_ParseMediaType mo (trim_space contentType) of
            None \<Rightarrow> Inl BadMediaType
          | Some (_, params) \<Rightarrow>
              let boundary = (case map_of params ''boundary'' of None \<Rightarrow> [] | Some b \<Rightarrow> b) in
              if boundary = [] then Inl BoundaryEmpty
              else let (parts, eof) = mo_Parts mo body boundary in extract_parts mo wanted parts eof [])"

section \<open>Budgets\<close>

definition files_of :: "(string \<times> 'a list) list \<Rightarrow> string \<Rightarrow> 'a list" where
  "files_of out name = (case map_of out name of None \<Rightarrow> [] | Some fs \<Rightarrow> fs)"

lemma files_of_append_value [simp]:
  "files_of (append_value n v out) m = (if m = n then files_of out n @ [v] else files_of out m)"
  by (simp add: files_of_def append_value_def update_conv')

text \<open>The budgets the configuration parser admits.\<close>

definition admissible :: "file_request \<Rightarrow> bool" where
  "admissible r \<longleftrightarrow> 0 < fr_MaxBytes r \<and> fr_MaxBytes r \<le> 67108864 \<and> 0 < fr_MaxCount r \<and> fr_MaxCount r \<le> 16"

definition is_upload :: "string \<Rightarrow> mp_part \<Rightarrow> bool" where
  "is_upload name p \<longleftrightarrow> trim_space (pt_FormName p) = name \<and> trim_space (pt_FileName p) \<noteq> []"

definition within :: "file_request \<Rightarrow> file_part list \<Rightarrow> bool" where
  "within r fs \<longleftrightarrow> int (length fs) \<le> fr_MaxCount r \<and> (\<forall>f \<in> set fs. int (length (fp_Data f)) \<le> fr_MaxBytes r)"

lemma read_whole:
  assumes "admissible r" "read_limited p (wrap64 (fr_MaxBytes r + 1)) = Some data" "int (length data) \<le> fr_MaxBytes r"
  shows "data = pt_Data p"
proof -
  have "wrap64 (fr_MaxBytes r + 1) = fr_MaxBytes r + 1"
    using assms(1) by (intro wrap64_id) (auto simp: admissible_def in_int64_def)
  with assms show ?thesis by (auto simp: read_limited_def admissible_def split: if_splits)
qed

lemma extract_skip:
  assumes "map_of wanted (trim_space (pt_FormName part)) = None \<or> trim_space (pt_FileName part) = []"
  shows "extract_parts mo wanted (part # parts) eof out = extract_parts mo wanted parts eof out"
  using assms by (auto simp: Let_def split: option.split)

lemma extract_file:
  assumes "map_of wanted (trim_space (pt_FormName part)) = Some req" "trim_space (pt_FileName part) \<noteq> []"
    and "admissible req" "extract_parts mo wanted (part # parts) eof out = Inr out'"
  obtains fp where "fp_Data fp = pt_Data part" "int (length (pt_Data part)) \<le> fr_MaxBytes req"
    and "int (length (files_of out (trim_space (pt_FormName part)))) < fr_MaxCount req"
    and "extract_parts mo wanted parts eof (append_value (trim_space (pt_FormName part)) fp out) = Inr out'"
proof -
  let ?n = "trim_space (pt_FormName part)"
  have pos: "0 < fr_MaxCount req" using assms(3) by (simp add: admissible_def)
  note step = assms(4)[unfolded extract_parts.simps Let_def assms(1) option.case]
  have few: "int (length (files_of out ?n)) < fr_MaxCount req"
  proof (rule ccontr)
    assume "\<not> int (length (files_of out ?n)) < fr_MaxCount req"
    with step pos assms(2) show False by (simp add: files_of_def)
  qed
  obtain data where data: "read_limited part (wrap64 (fr_MaxBytes req + 1)) = Some data"
  proof (cases "read_limited part (wrap64 (fr_MaxBytes req + 1))")
    case None
    with step few assms(2) show ?thesis by (simp add: files_of_def)
  qed
  have fits: "int (length data) \<le> fr_MaxBytes req"
  proof (rule ccontr)
    assume "\<not> int (length data) \<le> fr_MaxBytes req"
    with step few assms(2) data show False by (simp add: files_of_def)
  qed
  have "data = pt_Data part" by (rule read_whole[OF assms(3) data fits])
  then show ?thesis
    using step few fits data assms(2)
    by (intro that[of "\<lparr>fp_Field = ?n, fp_Filename = trim_space (pt_FileName part),
          fp_ContentType = filePartContentType mo (pt_ContentType part) (trim_space (pt_FileName part)) data, fp_Data = data\<rparr>"])
       (simp_all add: files_of_def)
qed

lemma extract_exact:
  assumes adm: "\<forall>r \<in> ran (map_of wanted). admissible r"
    and "extract_parts mo wanted parts eof out = Inr out'" "map_of wanted name = Some r" "within r (files_of out name)"
  shows "map fp_Data (files_of out' name) = map fp_Data (files_of out name) @ map pt_Data (filter (is_upload name) parts)
    \<and> within r (files_of out' name)"
  using assms(2-)
proof (induction parts arbitrary: out)
  case Nil
  then show ?case by (simp split: if_splits)
next
  case (Cons part parts)
  let ?n = "trim_space (pt_FormName part)"
  show ?case
  proof (cases "map_of wanted ?n = None \<or> trim_space (pt_FileName part) = []")
    case True
    with Cons.prems(2) have "\<not> is_upload name part" by (auto simp: is_upload_def)
    with Cons extract_skip[OF True] show ?thesis by simp
  next
    case False
    then obtain req where req: "map_of wanted ?n = Some req" "trim_space (pt_FileName part) \<noteq> []" by auto
    then have "admissible req" using adm by (auto simp: ran_def)
    from extract_file[OF req this Cons.prems(1)] obtain fp where
      fp: "fp_Data fp = pt_Data part" "int (length (pt_Data part)) \<le> fr_MaxBytes req"
        "int (length (files_of out ?n)) < fr_MaxCount req"
        "extract_parts mo wanted parts eof (append_value ?n fp out) = Inr out'" by metis
    have "within r (files_of (append_value ?n fp out) name)"
      using Cons.prems(2,3) fp(1-3) req(1) by (auto simp: within_def)
    note IH = Cons.IH[OF fp(4) Cons.prems(2) this]
    show ?thesis using IH req(2) fp(1) by (auto simp: is_upload_def)
  qed
qed

text \<open>The table of wanted fields is below every declaration of a field.\<close>

definition below :: "file_request \<Rightarrow> file_request \<Rightarrow> bool" where
  "below w r \<longleftrightarrow> fr_MaxBytes w \<le> fr_MaxBytes r \<and> fr_MaxCount w \<le> fr_MaxCount r"

lemma want_field_cases:
  obtains "trim_space (fr_Field req) = []" "want_field req wanted = wanted"
  | w where "trim_space (fr_Field req) \<noteq> []" "below w req"
      "map_of (want_field req wanted) = (map_of wanted)(trim_space (fr_Field req) \<mapsto> w)"
      "\<And>prev. map_of wanted (trim_space (fr_Field req)) = Some prev \<Longrightarrow> below w prev"
      "\<And>prev. map_of wanted (trim_space (fr_Field req)) = Some prev \<Longrightarrow> admissible prev \<Longrightarrow> admissible req \<Longrightarrow> admissible w"
      "map_of wanted (trim_space (fr_Field req)) = None \<Longrightarrow> admissible req \<Longrightarrow> admissible w"
proof (cases "trim_space (fr_Field req) = []")
  case True
  then show ?thesis using that(1) by (simp add: want_field_def)
next
  case False
  let ?f = "trim_space (fr_Field req)"
  show ?thesis
  proof (cases "map_of wanted ?f")
    case None
    with False show ?thesis
      by (intro that(2)[of "req\<lparr>fr_Field := ?f\<rparr>"])
         (simp_all add: want_field_def Let_def update_conv' below_def admissible_def)
  next
    case (Some p)
    with False show ?thesis
      by (intro that(2)[of "req\<lparr>fr_MaxBytes := min (fr_MaxBytes req) (fr_MaxBytes p),
            fr_MaxCount := min (fr_MaxCount req) (fr_MaxCount p), fr_Field := ?f\<rparr>"])
         (auto simp: want_field_def Let_def update_conv' below_def admissible_def)
  qed
qed

lemma want_field_table:
  assumes "\<forall>w \<in> ran (map_of wanted). admissible w" "admissible req"
  shows "(\<forall>w \<in> ran (map_of (want_field req wanted)). admissible w)
    \<and> (\<forall>f w. map_of wanted f = Some w \<longrightarrow> (\<exists>w'. map_of (want_field req wanted) f = Some w' \<and> below w' w))
    \<and> (trim_space (fr_Field req) \<noteq> [] \<longrightarrow> (\<exists>w'. map_of (want_field req wanted) (trim_space (fr_Field req)) = Some w' \<and> below w' req))"
proof (rule want_field_cases[of req wanted])
  assume "trim_space (fr_Field req) = []" "want_field req wanted = wanted"
  then show ?thesis using assms by (simp add: below_def)
next
  fix w
  let ?f = "trim_space (fr_Field req)"
  assume w: "?f \<noteq> []" "below w req" "map_of (want_field req wanted) = (map_of wanted)(?f \<mapsto> w)"
    "\<And>prev. map_of wanted ?f = Some prev \<Longrightarrow> below w prev"
    "\<And>prev. map_of wanted ?f = Some prev \<Longrightarrow> admissible prev \<Longrightarrow> admissible req \<Longrightarrow> admissible w"
    "map_of wanted ?f = None \<Longrightarrow> admissible req \<Longrightarrow> admissible w"
  have "admissible w"
    using w(5,6) assms by (cases "map_of wanted ?f") (auto simp: ran_def)
  moreover have "\<exists>w'. ((map_of wanted)(?f \<mapsto> w)) f = Some w' \<and> below w' v" if "map_of wanted f = Some v" for f v
    using that w(4) by (auto simp: below_def)
  ultimately show ?thesis using w(2,3) assms(1) by (auto simp: ran_def)
qed

lemma below_trans: "below a b \<Longrightarrow> below b c \<Longrightarrow> below a c"
  by (auto simp: below_def)

lemma wanted_table:
  assumes "\<forall>w \<in> ran (map_of wanted). admissible w" "list_all admissible requests"
  shows "(\<forall>w \<in> ran (map_of (fold want_field requests wanted)). admissible w)
    \<and> (\<forall>f w. map_of wanted f = Some w \<longrightarrow> (\<exists>w'. map_of (fold want_field requests wanted) f = Some w' \<and> below w' w))
    \<and> (\<forall>r \<in> set requests. trim_space (fr_Field r) \<noteq> [] \<longrightarrow>
         (\<exists>w'. map_of (fold want_field requests wanted) (trim_space (fr_Field r)) = Some w' \<and> below w' r))"
  using assms
proof (induction requests arbitrary: wanted)
  case Nil
  then show ?case by (simp add: below_def)
next
  case (Cons r rs)
  from Cons.prems(2) have adm: "admissible r" "list_all admissible rs" by simp_all
  note step = want_field_table[OF Cons.prems(1) adm(1)]
  note IH = Cons.IH[OF conjunct1[OF step] adm(2)]
  let ?w = "want_field r wanted"
  have old: "\<exists>w'. map_of (fold want_field rs ?w) f = Some w' \<and> below w' v" if "\<exists>w'. map_of ?w f = Some w' \<and> below w' v" for f v
  proof -
    from that obtain w' where w': "map_of ?w f = Some w'" "below w' v" by auto
    from conjunct1[OF conjunct2[OF IH], rule_format, OF w'(1)] obtain w'' where
      "map_of (fold want_field rs ?w) f = Some w''" "below w'' w'" by auto
    with w'(2) show ?thesis using below_trans by auto
  qed
  show ?case
  proof (intro conjI ballI allI impI)
    fix w
    assume "w \<in> ran (map_of (fold want_field (r # rs) wanted))"
    with conjunct1[OF IH] show "admissible w" by simp
  next
    fix f w
    assume "map_of wanted f = Some w"
    from old[OF conjunct1[OF conjunct2[OF step], rule_format, OF this]]
    show "\<exists>w'. map_of (fold want_field (r # rs) wanted) f = Some w' \<and> below w' w" by simp
  next
    fix q
    assume q: "q \<in> set (r # rs)" "trim_space (fr_Field q) \<noteq> []"
    show "\<exists>w'. map_of (fold want_field (r # rs) wanted) (trim_space (fr_Field q)) = Some w' \<and> below w' q"
    proof (cases "q = r")
      case True
      with q old[OF conjunct2[OF conjunct2[OF step], rule_format]] show ?thesis by simp
    next
      case False
      with q conjunct2[OF conjunct2[OF IH]] show ?thesis by simp
    qed
  qed
qed

lemma upload_exact:
  assumes "ExtractMultipartFiles mo body contentType requests = Inr files" "list_all admissible requests"
    and "body \<noteq> []" "IsMultipartFormData mo contentType" "r \<in> set requests" "trim_space (fr_Field r) \<noteq> []"
  shows "map fp_Data (files_of files (trim_space (fr_Field r))) =
       map pt_Data (filter (is_upload (trim_space (fr_Field r)))
         (fst (mo_Parts mo body (the (map_of (snd (the (mo_ParseMediaType mo (trim_space contentType)))) ''boundary'')))))
     \<and> within r (files_of files (trim_space (fr_Field r)))"
proof -
  let ?w = "fold want_field requests []" and ?f = "trim_space (fr_Field r)"
  have tab: "\<forall>w \<in> ran (map_of ?w). admissible w" "\<exists>w'. map_of ?w ?f = Some w' \<and> below w' r"
    using wanted_table[of "[]" requests] assms(2,5,6) by auto
  then obtain w where w: "map_of ?w ?f = Some w" "below w r" by auto
  then have "?w \<noteq> []" by auto
  with assms(1,3-5) obtain mt params boundary where
    mt: "mo_ParseMediaType mo (trim_space contentType) = Some (mt, params)" "map_of params ''boundary'' = Some boundary"
      "extract_parts mo ?w (fst (mo_Parts mo body boundary)) (snd (mo_Parts mo body boundary)) [] = Inr files"
    by (auto simp: ExtractMultipartFiles_def Let_def split: if_splits option.splits prod.splits)
  have "admissible w" using tab(1) w(1) by (auto simp: ran_def)
  then have "within w (files_of [] ?f)" by (simp add: files_of_def within_def admissible_def)
  from extract_exact[OF tab(1) mt(3) w(1) this] w(2) mt(1,2) show ?thesis
    by (fastforce simp: files_of_def within_def below_def)
qed

text \<open>
  Uploads are read whole and within budget: when the files of a multipart body are extracted under
  rules with admissible budgets, then for every rule the files of its field are, in order, exactly the
  uploads of that field with their complete content, there are no more of them than the rule allows
  and none is larger than the rule allows, however often and with whatever budgets the field is
  declared.
\<close>
theorem upload_limits:
  assumes "ExtractMultipartFiles mo body contentType requests = Inr files" "list_all admissible requests"
    and "body \<noteq> []" "IsMultipartFormData mo contentType" "r \<in> set requests" "trim_space (fr_Field r) \<noteq> []"
  shows "map fp_Data (files_of files (trim_space (fr_Field r))) =
       map pt_Data (filter (is_upload (trim_space (fr_Field r)))
         (fst (mo_Parts mo body (the (map_of (snd (the (mo_ParseMediaType mo (trim_space contentType)))) ''boundary'')))))
     \<and> within r (files_of files (trim_space (fr_Field r)))"
  using upload_exact[OF assms] .

section \<open>Example\<close>

definition demo_mime :: mime_ops where
  "demo_mime = \<lparr>mo_ParseMediaType = (\<lambda>s. if s = [] then None else Some (s, [(''boundary'', ''b'')])),
     mo_Parts = (\<lambda>body _. ([\<lparr>pt_FormName = ''file'', pt_FileName = ''a.txt'', pt_ContentType = [], pt_Data = body, pt_Broken = False\<rparr>,
       \<lparr>pt_FormName = ''model'', pt_FileName = [], pt_ContentType = [], pt_Data = ''m'', pt_Broken = False\<rparr>], True)),
     mo_TypeByExtension = (\<lambda>_. ''text/plain''), mo_DetectContentType = (\<lambda>_. octetStream), mo_Unmarshal = (\<lambda>_. None)\<rparr>"

definition demo_requests :: "file_request list" where
  "demo_requests = [\<lparr>fr_Field = ''file'', fr_MaxBytes = 100, fr_MaxCount = 1\<rparr>, \<lparr>fr_Field = '' file'', fr_MaxBytes = 4, fr_MaxCount = 9\<rparr>]"

theorem upload_limits_witness:
  "ExtractMultipartFiles demo_mime ''abc'' ''multipart/form-data'' demo_requests = Inr
      [(''file'', [\<lparr>fp_Field = ''file'', fp_Filename = ''a.txt'', fp_ContentType = ''text/plain'', fp_Data = ''abc''\<rparr>])]
   \<and> within (demo_requests ! 1) (files_of
      [(''file'', [\<lparr>fp_Field = ''file'', fp_Filename = ''a.txt'', fp_ContentType = ''text/plain'', fp_Data = ''abc''\<rparr>])] ''file'')"
proof -
  have run: "ExtractMultipartFiles demo_mime ''abc'' ''multipart/form-data'' demo_requests = Inr
      [(''file'', [\<lparr>fp_Field = ''file'', fp_Filename = ''a.txt'', fp_ContentType = ''text/plain'', fp_Data = ''abc''\<rparr>])]"
    by code_simp
  moreover have "list_all admissible demo_requests" "IsMultipartFormData demo_mime ''multipart/form-data''"
    "trim_space (fr_Field (demo_requests ! 1)) = ''file''"
    by code_simp+
  moreover have "demo_requests ! 1 \<in> set demo_requests" by (simp add: demo_requests_def)
  ultimately show ?thesis using upload_limits[of demo_mime "''abc''" "''multipart/form-data''" demo_requests _ "demo_requests ! 1"] by simp
qed

end
