(* ===== verification/Media_Mapping.thy ===== *)
theory Media_Mapping
  imports Json_Ops
begin

text \<open>
  The mappings between the image and video APIs of OpenAI and the formats of other providers,
  \<^verbatim>\<open>onr-core/pkg/apitransform\<close>: Minimax images (\<^verbatim>\<open>minimax_openai_image.go\<close>), Qwen images
  (\<^verbatim>\<open>qwen_openai_image.go\<close>), PPIO videos (\<^verbatim>\<open>ppio_openai_video.go\<close>) and Gemini images and image edits
  (\<^verbatim>\<open>gemini_openai_image.go\<close>, \<^verbatim>\<open>gemini_openai_image_edit.go\<close>, requests only), with the errors of
  \<^verbatim>\<open>error.go\<close>.

  Roots are JSON objects; reading an absent field gives the nil value, here \<^const>\<open>JNull\<close>. The clock is the
  argument \<open>now\<close>. The text of an error message is kept where the code builds it from a value of the
  response, otherwise the constructor stands for it.
\<close>

section \<open>Errors\<close>

record mapping_error =
  me_Code :: string
  me_Param :: string

record upstream_error =
  ue_StatusCode :: int
  ue_Type :: string
  ue_Code :: string
  ue_Message :: string

definition server_error :: "int \<Rightarrow> string \<Rightarrow> string \<Rightarrow> upstream_error" where
  "server_error status code msg = \<lparr>ue_StatusCode = status, ue_Type = ''server_error'', ue_Code = code, ue_Message = msg\<rparr>"

abbreviation size_not_supported :: mapping_error where
  "size_not_supported \<equiv> \<lparr>me_Code = ''request_size_not_supported'', me_Param = ''size''\<rparr>"

section \<open>Reading fields\<close>

definition jfield :: "jobj \<Rightarrow> string \<Rightarrow> json" where
  "jfield ob k = (case map_of ob k of None \<Rightarrow> JNull | Some v \<Rightarrow> v)"

abbreviation field_string :: "jobj \<Rightarrow> string \<Rightarrow> string" where
  "field_string ob k \<equiv> CoerceString (jfield ob k)"

text \<open>The Go assertions to an object and to an array; what they yield when they fail reads as empty.\<close>

definition as_object :: "json \<Rightarrow> jobj" where
  "as_object v = (case v of JObj ob \<Rightarrow> ob | _ \<Rightarrow> [])"

definition as_array :: "json \<Rightarrow> json list" where
  "as_array v = (case v of JArr xs \<Rightarrow> xs | _ \<Rightarrow> [])"

section \<open>Minimax images\<close>

definition minimaxImageAspectRatioSizes :: "(string \<times> (int \<times> int)) list" where
  "minimaxImageAspectRatioSizes =
     [(''1:1'', (1024, 1024)), (''16:9'', (1280, 720)), (''4:3'', (1152, 864)), (''3:2'', (1248, 832)),
      (''2:3'', (832, 1248)), (''3:4'', (864, 1152)), (''9:16'', (720, 1280)), (''21:9'', (1344, 576))]"

definition size_text :: "int \<Rightarrow> int \<Rightarrow> string" where
  "size_text w h = itoa (nat w) @ ''x'' @ itoa (nat h)"

definition minimaxImagePixelAspectRatios :: "(string \<times> string) list" where
  "minimaxImagePixelAspectRatios = map (\<lambda>(ratio, (w, h)). (size_text w h, ratio)) minimaxImageAspectRatioSizes"

definition normalizeSize :: "string \<Rightarrow> string" where
  "normalizeSize sz = replace_all '' '' [] (to_lower (trim_space sz))"

definition minimaxImageValidDimension :: "int \<Rightarrow> bool" where
  "minimaxImageValidDimension v \<longleftrightarrow> 512 \<le> v \<and> v \<le> 2048 \<and> v mod 8 = 0"

definition minimaxImageSize :: "string \<Rightarrow> mapping_error + (string \<times> int \<times> int)" where
  "minimaxImageSize sz =
     (let normalized = normalizeSize sz in
      if normalized = [] then Inr (''1:1'', 0, 0)
      else if map_of minimaxImageAspectRatioSizes normalized \<noteq> None then Inr (normalized, 0, 0)
      else
        case map_of minimaxImagePixelAspectRatios normalized of
          Some ratio \<Rightarrow> Inr (ratio, 0, 0)
        | None \<Rightarrow>
            (case str_split normalized ''x'' of
               [ws, hs] \<Rightarrow>
                 (case atoi ws of
                    None \<Rightarrow> Inl size_not_supported
                  | Some w \<Rightarrow>
                      (case atoi hs of
                         None \<Rightarrow> Inl size_not_supported
                       | Some h \<Rightarrow>
                           if \<not> minimaxImageValidDimension w \<or> \<not> minimaxImageValidDimension h then Inl size_not_supported
                           else Inr ([], w, h)))
             | _ \<Rightarrow> Inl size_not_supported))"

definition minimaxImageResponseFormat :: "string \<Rightarrow> string" where
  "minimaxImageResponseFormat responseFormat =
     (let f = to_lower (trim_space responseFormat) in
      if f = [] then ''url'' else if f = ''b64_json'' \<or> f = ''base64'' then ''base64'' else f)"

definition image_count :: "jobj \<Rightarrow> int" where
  "image_count root = (let n = CoerceInt (jfield root ''n'') in if n \<le> 0 then 1 else n)"

definition seed_field :: "jobj \<Rightarrow> jobj" where
  "seed_field root = (case CoerceIntOK (jfield root ''seed'') of (seed, True) \<Rightarrow> [(''seed'', JInt seed)] | _ \<Rightarrow> [])"

definition MapOpenAIImagesToMinimaxImageRequest :: "jobj \<Rightarrow> mapping_error + jobj" where
  "MapOpenAIImagesToMinimaxImageRequest root =
     bind_res (minimaxImageSize (trim_space (field_string root ''size''))) (\<lambda>(aspectRatio, width, height).
       Inr ([(''model'', JStr (field_string root ''model'')),
             (''prompt'', JStr (field_string root ''prompt'')),
             (''response_format'', JStr (minimaxImageResponseFormat (field_string root ''response_format''))),
             (''n'', JInt (image_count root))] @
            (if aspectRatio \<noteq> [] then [(''aspect_ratio'', JStr aspectRatio)]
             else [(''width'', JInt width), (''height'', JInt height)]) @
            seed_field root @
            (case jfield root ''watermark'' of JBool b \<Rightarrow> [(''aigc_watermark'', JBool b)] | _ \<Rightarrow> [])))"

definition minimaxImageStrings :: "jobj \<Rightarrow> string \<Rightarrow> string list" where
  "minimaxImageStrings payload k =
     filter (\<lambda>v. v \<noteq> []) (map (\<lambda>item. trim_space (CoerceString item)) (as_array (jfield payload k)))"

definition minimaxImageBaseRespError :: "jobj \<Rightarrow> upstream_error option" where
  "minimaxImageBaseRespError root =
     (case jfield root ''base_resp'' of
        JObj baseResp \<Rightarrow>
          (let (statusCode, ok) = CoerceIntOK (jfield baseResp ''status_code'') in
           if \<not> ok \<or> statusCode = 0 then None
           else
             let message = trim_space (field_string baseResp ''status_msg'') in
             Some \<lparr>ue_StatusCode = 400, ue_Type = ''invalid_request_error'', ue_Code = ''minimax_'' @ int_text statusCode,
                   ue_Message = (if message = [] then ''minimax returned status_code '' @ int_text statusCode else message)\<rparr>)
      | _ \<Rightarrow> None)"

definition images_response :: "int \<Rightarrow> json list \<Rightarrow> upstream_error + jobj" where
  "images_response now items =
     (if items = [] then Inl (server_error 500 ''upstream_no_image'' ''No image data found in response'')
      else Inr [(''created'', JInt now), (''data'', JArr items)])"

definition MapMinimaxImageToOpenAIImagesResponseObject :: "int \<Rightarrow> jobj \<Rightarrow> upstream_error + jobj" where
  "MapMinimaxImageToOpenAIImagesResponseObject now root =
     (case minimaxImageBaseRespError root of
        Some e \<Rightarrow> Inl e
      | None \<Rightarrow>
          let payload = as_object (jfield root ''data'');
              b64s = map (\<lambda>raw. JObj [(''b64_json'', JStr raw)]) (minimaxImageStrings payload ''image_base64'');
              items = (if b64s = [] then map (\<lambda>raw. JObj [(''url'', JStr raw)]) (minimaxImageStrings payload ''image_urls'')
                       else b64s) in
          images_response now items)"

section \<open>Qwen images\<close>

definition qwenImageNormalizeSize :: "string \<Rightarrow> string" where
  "qwenImageNormalizeSize sz =
     (let normalized = normalizeSize sz in
      if normalized = [] then ''1328*1328'' else replace_all ''x'' ''*'' normalized)"

definition boolOrDefault :: "json \<Rightarrow> bool \<Rightarrow> bool" where
  "boolOrDefault v fallback = (case v of JBool b \<Rightarrow> b | _ \<Rightarrow> fallback)"

definition MapOpenAIImagesToQwenImageRequest :: "jobj \<Rightarrow> mapping_error + jobj" where
  "MapOpenAIImagesToQwenImageRequest root =
     (let negative = trim_space (field_string root ''negative_prompt'');
          parameters =
            [(''size'', JStr (qwenImageNormalizeSize (field_string root ''size''))), (''n'', JInt (image_count root))] @
            (if negative \<noteq> [] then [(''negative_prompt'', JStr negative)] else []) @
            [(''prompt_extend'', JBool (boolOrDefault (jfield root ''prompt_extend'') True)),
             (''watermark'', JBool (boolOrDefault (jfield root ''watermark'') False))] @
            seed_field root in
      Inr [(''model'', JStr (field_string root ''model'')),
           (''input'', JObj [(''messages'', JArr [JObj [(''role'', JStr ''user''),
              (''content'', JArr [JObj [(''text'', JStr (field_string root ''prompt''))]])]])]),
           (''parameters'', JObj parameters)])"

definition qwenImageBusinessError :: "jobj \<Rightarrow> upstream_error option" where
  "qwenImageBusinessError root =
     (let code = trim_space (field_string root ''code''); message = trim_space (field_string root ''message'') in
      if code = [] then None
      else Some \<lparr>ue_StatusCode = 400, ue_Type = ''invalid_request_error'', ue_Code = ''qwen_'' @ code,
                 ue_Message = (if message = [] then ''qwen returned code '' @ code else message)\<rparr>)"

definition qwen_image_urls :: "jobj \<Rightarrow> string list" where
  "qwen_image_urls root =
     concat (map (\<lambda>choice.
       filter (\<lambda>url. url \<noteq> [])
         (map (\<lambda>content. trim_space (field_string (as_object content) ''image''))
           (as_array (jfield (as_object (jfield (as_object choice) ''message'')) ''content''))))
       (as_array (jfield (as_object (jfield root ''output'')) ''choices'')))"

definition MapQwenImageToOpenAIImagesResponseObject :: "int \<Rightarrow> jobj \<Rightarrow> upstream_error + jobj" where
  "MapQwenImageToOpenAIImagesResponseObject now root =
     (case qwenImageBusinessError root of
        Some e \<Rightarrow> Inl e
      | None \<Rightarrow> images_response now (map (\<lambda>url. JObj [(''url'', JStr url)]) (qwen_image_urls root)))"

section \<open>Uploads in the request root\<close>

text \<open>What \<^verbatim>\<open>req_inline_file\<close> places under a field, as content types and base64 data.\<close>

definition inline_entry :: "json \<Rightarrow> (string \<times> string) list" where
  "inline_entry item =
     (case item of
        JObj entry \<Rightarrow>
          (let data = trim_space (field_string entry ''b64''); ct = trim_space (field_string entry ''content_type'') in
           if data = [] then [] else [(if ct = [] then ''application/octet-stream'' else ct, data)])
      | _ \<Rightarrow> [])"

definition inlineFilesAt :: "jobj \<Rightarrow> string \<Rightarrow> (string \<times> string) list" where
  "inlineFilesAt root k = concat (map inline_entry (as_array (jfield root k)))"

section \<open>PPIO videos\<close>

definition ppioNormalizeSize :: "string \<Rightarrow> string" where
  "ppioNormalizeSize sz = replace_all ''x'' ''*'' (trim_space sz)"

definition ppioResolutionFromSize :: "string \<Rightarrow> string" where
  "ppioResolutionFromSize sz =
     (let trimmed = trim_space sz in
      if trimmed = [] then ''720p'' else if str_contains trimmed ''1080'' then ''1080p'' else ''720p'')"

definition ppioDurationSeconds :: "string \<Rightarrow> int" where
  "ppioDurationSeconds raw =
     (let trimmed = trim_space raw in
      if trimmed = [] then 0 else case atoi trimmed of Some v \<Rightarrow> v | None \<Rightarrow> 0)"

definition missing_field :: "string \<Rightarrow> mapping_error" where
  "missing_field param = \<lparr>me_Code = ''request_missing_required_field'', me_Param = param\<rparr>"

definition prompt_missing :: mapping_error where
  "prompt_missing = \<lparr>me_Code = ''request_prompt_missing'', me_Param = ''prompt''\<rparr>"

definition MapOpenAIVideosToPPIORequest :: "jobj \<Rightarrow> mapping_error + jobj" where
  "MapOpenAIVideosToPPIORequest root =
     (let prompt = field_string root ''prompt'';
          seconds = trim_space (field_string root ''seconds'');
          sz = trim_space (field_string root ''size'') in
      if trim_space prompt = [] then Inl prompt_missing
      else if seconds = [] then Inl (missing_field ''seconds'')
      else if sz = [] then Inl (missing_field ''size'')
      else
        let duration = ppioDurationSeconds seconds;
            out = (''prompt'', JStr prompt) # (if duration > 0 then [(''duration'', JInt duration)] else []) in
        case inlineFilesAt root ''input_reference'' of
          [] \<Rightarrow> Inr (out @ [(''size'', JStr (ppioNormalizeSize sz))])
        | (ct, data) # _ \<Rightarrow>
            Inr (out @ [(''image'', JStr (''data:'' @ ct @ '';base64,'' @ data)),
                        (''resolution'', JStr (ppioResolutionFromSize (ppioNormalizeSize sz)))]))"

definition MapPPIOVideoCreateToOpenAIVideoObject :: "int \<Rightarrow> jobj \<Rightarrow> upstream_error + jobj" where
  "MapPPIOVideoCreateToOpenAIVideoObject now root =
     (let taskID = trim_space (field_string root ''task_id'') in
      if taskID = [] then Inl (server_error 502 ''upstream_missing_task_id'' ''PPIO create response has no task_id'')
      else Inr [(''object'', JStr ''video''), (''id'', JStr taskID), (''status'', JStr ''queued''),
                (''progress'', JInt 0), (''created_at'', JInt now)])"

definition ppioTaskStatus :: "string \<Rightarrow> upstream_error + string" where
  "ppioTaskStatus raw =
     (let s = trim_space raw in
      if s = ''TASK_STATUS_SUCCEED'' then Inr ''completed''
      else if s = ''TASK_STATUS_FAILED'' then Inr ''failed''
      else if s = ''TASK_STATUS_PROCESSING'' then Inr ''in_progress''
      else if s = ''TASK_STATUS_QUEUED'' then Inr ''queued''
      else Inl (server_error 502 ''upstream_unknown_task_status'' (''PPIO returned an unknown task status: '' @ s)))"

definition clamp_progress :: "int \<Rightarrow> int" where
  "clamp_progress p = (let q = (if p < 0 then 0 else p) in if q > 100 then 100 else q)"

definition missing_video :: "string \<Rightarrow> upstream_error" where
  "missing_video msg = server_error 502 ''upstream_missing_video'' msg"

definition ppio_completed :: "int \<Rightarrow> jobj \<Rightarrow> jobj \<Rightarrow> upstream_error + jobj" where
  "ppio_completed now root out =
     (case as_array (jfield root ''videos'') of
        [] \<Rightarrow> Inl (missing_video ''PPIO reported a completed task with no video'')
      | v # _ \<Rightarrow>
          let first = as_object v; videoURL = trim_space (field_string first ''video_url'') in
          if videoURL = [] then Inl (missing_video ''PPIO reported a completed task with an empty video url'')
          else
            Inr (out @ [(''progress'', JInt 100), (''video_url'', JStr videoURL),
              (''expires_at'', JInt (case atoi (trim_space (field_string first ''video_url_ttl'')) of
                                      Some ttl \<Rightarrow> wrap64 (now + ttl)
                                    | None \<Rightarrow> now))]))"

definition MapPPIOVideoResultToOpenAIVideoObject :: "int \<Rightarrow> jobj \<Rightarrow> upstream_error + jobj" where
  "MapPPIOVideoResultToOpenAIVideoObject now root =
     (case jfield root ''task'' of
        JObj task \<Rightarrow>
          if trim_space (field_string task ''task_id'') = []
          then Inl (server_error 502 ''upstream_missing_task_id'' ''PPIO task-result response has no task_id'')
          else
            bind_res (ppioTaskStatus (field_string task ''status'')) (\<lambda>status.
              let progress = clamp_progress (CoerceInt (jfield task ''progress_percent''));
                  terminal = (status = ''completed'' \<or> status = ''failed'');
                  out = [(''object'', JStr ''video''), (''status'', JStr status)] @
                        (if terminal then [(''completed_at'', JInt now)] else []);
                  reason = trim_space (field_string task ''reason'') in
              if status = ''failed'' then
                Inr (out @ [(''progress'', JInt progress)] @
                  (if reason \<noteq> [] then [(''error'', JObj [(''code'', JStr ''upstream_task_failed''), (''message'', JStr reason)])]
                   else []))
              else if status \<noteq> ''completed'' then Inr (out @ [(''progress'', JInt progress)])
              else ppio_completed now root out)
      | _ \<Rightarrow> Inl (server_error 502 ''upstream_missing_task'' ''PPIO task-result response has no task''))"

section \<open>Gemini images\<close>

definition geminiImageAspectRatios :: "(string \<times> string) list" where
  "geminiImageAspectRatios =
     [(''1024x1024'', ''1:1''), (''1792x1024'', ''16:9''), (''1024x1792'', ''9:16''), (''1152x864'', ''4:3''),
      (''864x1152'', ''3:4''), (''1248x832'', ''3:2''), (''832x1248'', ''2:3''), (''1280x1024'', ''5:4''),
      (''1024x1280'', ''4:5''), (''1344x576'', ''21:9''), (''1:1'', ''1:1''), (''2:3'', ''2:3''), (''3:2'', ''3:2''),
      (''3:4'', ''3:4''), (''4:3'', ''4:3''), (''4:5'', ''4:5''), (''5:4'', ''5:4''), (''9:16'', ''9:16''),
      (''16:9'', ''16:9''), (''21:9'', ''21:9'')]"

datatype gemini_part = PartText string | PartInline string string

record gemini_image_request =
  gi_Role :: string
  gi_Parts :: "gemini_part list"
  gi_CandidateCount :: int
  gi_ResponseModalities :: "string list"
  gi_ImageConfig :: "(string \<times> string) option"

definition geminiImageIsGemini3Model :: "string \<Rightarrow> bool" where
  "geminiImageIsGemini3Model model \<longleftrightarrow> has_prefix model ''gemini-3''"

definition geminiImageSupports4K :: "string \<Rightarrow> bool" where
  "geminiImageSupports4K model \<longleftrightarrow> has_prefix model ''gemini-3-pro-image''"

definition geminiImageAspectRatio :: "string \<Rightarrow> string" where
  "geminiImageAspectRatio sz =
     (case map_of geminiImageAspectRatios (normalizeSize sz) of Some aspect \<Rightarrow> aspect | None \<Rightarrow> ''1:1'')"

definition geminiImageSize :: "string \<Rightarrow> string \<Rightarrow> string" where
  "geminiImageSize model quality =
     (if to_lower (trim_space quality) = ''hd'' then (if geminiImageSupports4K model then ''4K'' else ''2K'') else ''1K'')"

definition invalid_param :: "string \<Rightarrow> mapping_error" where
  "invalid_param param = \<lparr>me_Code = ''request_invalid_parameter'', me_Param = param\<rparr>"

definition validateGeminiImageOptions ::
    "string \<Rightarrow> string \<Rightarrow> string \<Rightarrow> string \<Rightarrow> string \<Rightarrow> int \<Rightarrow> mapping_error option" where
  "validateGeminiImageOptions model prompt sz quality responseFormat n =
     (if prompt = [] then Some prompt_missing
      else if n > 1 then Some \<lparr>me_Code = ''request_n_out_of_range'', me_Param = ''n''\<rparr>
      else if to_lower responseFormat = ''url'' then Some (invalid_param ''response_format'')
      else
        let normalizedQuality = to_lower quality in
        if geminiImageIsGemini3Model model then
          (if sz \<noteq> [] \<and> map_of geminiImageAspectRatios (normalizeSize sz) = None then Some size_not_supported
           else if normalizedQuality \<noteq> [] \<and> normalizedQuality \<noteq> ''standard'' \<and> normalizedQuality \<noteq> ''hd''
           then Some (invalid_param ''quality'')
           else None)
        else if sz \<noteq> [] then Some size_not_supported
        else if quality \<noteq> [] then Some (invalid_param ''quality'')
        else None)"

definition gemini_request :: "jobj \<Rightarrow> string \<Rightarrow> gemini_part list \<Rightarrow> mapping_error + gemini_image_request" where
  "gemini_request root role parts =
     (let model = trim_space (field_string root ''model'');
          sz = trim_space (field_string root ''size'');
          quality = trim_space (field_string root ''quality'');
          n = CoerceInt (jfield root ''n'') in
      case validateGeminiImageOptions model (trim_space (field_string root ''prompt'')) sz quality
             (trim_space (field_string root ''response_format'')) n of
        Some e \<Rightarrow> Inl e
      | None \<Rightarrow>
          Inr \<lparr>gi_Role = role, gi_Parts = parts,
               gi_CandidateCount = (if n > 0 then n else 0),
               gi_ResponseModalities = (if geminiImageIsGemini3Model model then [''TEXT'', ''IMAGE''] else []),
               gi_ImageConfig = (if geminiImageIsGemini3Model model
                                 then Some (geminiImageAspectRatio sz, geminiImageSize model quality) else None)\<rparr>)"

definition MapOpenAIImagesToGeminiGenerateContentRequest :: "jobj \<Rightarrow> mapping_error + gemini_image_request" where
  "MapOpenAIImagesToGeminiGenerateContentRequest root =
     gemini_request root [] [PartText (field_string root ''prompt'')]"

definition geminiImageEditMaskInstruction :: string where
  "geminiImageEditMaskInstruction =
     ''Use the provided mask to edit the image. Areas with transparency in the mask indicate where edits should be applied.''"

definition MapOpenAIImagesEditsToGeminiGenerateContentRequest :: "jobj \<Rightarrow> mapping_error + gemini_image_request" where
  "MapOpenAIImagesEditsToGeminiGenerateContentRequest root =
     (let images = inlineFilesAt root ''image''; masks = inlineFilesAt root ''mask''; prompt = field_string root ''prompt'' in
      if images = [] then Inl (missing_field ''image'')
      else
        gemini_request root ''user''
          (map (\<lambda>(ct, data). PartInline ct data) images @
           (case masks of [] \<Rightarrow> [] | (ct, data) # _ \<Rightarrow> [PartInline ct data, PartText geminiImageEditMaskInstruction]) @
           (if prompt \<noteq> [] then [PartText prompt] else [])))"

section \<open>Sizes\<close>

lemma itoa_inj:
  assumes "itoa m = itoa n"
  shows "m = n"
proof -
  have "int m = digits_value (itoa m)" "digits_value (itoa n) = int n" using itoa_digits by metis+
  with assms show ?thesis by simp
qed

lemma digits_append_split:
  assumes "list_all is_digit a" "list_all is_digit b" "\<not> is_digit c" "a @ c # x = b @ c # y"
  shows "a = b \<and> x = y"
proof -
  have "takeWhile is_digit (a @ c # x) = a" "takeWhile is_digit (b @ c # y) = b"
    using assms(1-3) by (simp_all add: list_all_iff takeWhile_append2)
  with assms(4) have "a = b" by metis
  with assms(4) show ?thesis by simp
qed

lemma not_digit_x: "\<not> is_digit (CHR ''x'')"
  by (simp add: is_digit_def)

lemma size_text_inj:
  assumes "0 \<le> w" "0 \<le> h" "0 \<le> w'" "0 \<le> h'" "size_text w h = size_text w' h'"
  shows "w = w' \<and> h = h'"
proof -
  from assms(5) have "itoa (nat w) @ CHR ''x'' # itoa (nat h) = itoa (nat w') @ CHR ''x'' # itoa (nat h')"
    by (simp add: size_text_def)
  then have "itoa (nat w) = itoa (nat w') \<and> itoa (nat h) = itoa (nat h')"
    by (rule digits_append_split[rotated -1]) (simp_all add: itoa_digits not_digit_x)
  then show ?thesis using itoa_inj assms(1-4) by (metis eq_nat_nat_iff)
qed

lemma lower_digit: "is_digit c \<Longrightarrow> lower_byte c = c"
  by (auto simp: is_digit_def lower_byte_def)

lemma normalize_size_text: "normalizeSize (size_text w h) = size_text w h"
proof -
  have d: "list_all is_digit (itoa n)" for n using itoa_digits by blast
  then have vis: "list_all visible (size_text w h)"
    using digit_visible by (auto simp: size_text_def list_all_iff) (simp add: visible_def)
  have "map lower_byte (itoa n) = itoa n" for n
    using d[of n] by (intro map_idI) (auto simp: list_all_iff lower_digit)
  then have "to_lower (size_text w h) = size_text w h"
    by (simp add: to_lower_def size_text_def lower_byte_def)
  moreover have "CHR '' '' \<notin> set (size_text w h)" using vis by (auto simp: list_all_iff visible_def)
  ultimately show ?thesis by (simp add: normalizeSize_def list_all_trim[OF vis] replace_all_absent)
qed

text \<open>The aspect ratio that is documented for given dimensions.\<close>

definition documented_ratio :: "int \<Rightarrow> int \<Rightarrow> string option" where
  "documented_ratio w h = map_option fst (find (\<lambda>(ratio, wh). wh = (w, h)) minimaxImageAspectRatioSizes)"

lemma map_of_size_texts:
  assumes "\<forall>(r, (a, b)) \<in> set tab. 0 \<le> a \<and> 0 \<le> b" "0 \<le> w" "0 \<le> h"
  shows "map_of (map (\<lambda>(ratio, (w, h)). (size_text w h, ratio)) tab) (size_text w h) =
         map_option fst (find (\<lambda>(ratio, wh). wh = (w, h)) tab)"
  using assms(1)
proof (induction tab)
  case (Cons x tab)
  obtain r a b where x: "x = (r, (a, b))" by (metis prod.exhaust)
  have "0 \<le> a" "0 \<le> b" using Cons.prems x by auto
  then have "size_text w h = size_text a b \<longleftrightarrow> (w, h) = (a, b)" using size_text_inj assms(2,3) by blast
  with Cons x show ?case by auto
qed simp

lemma ratio_has_colon: "map_of minimaxImageAspectRatioSizes s \<noteq> None \<Longrightarrow> CHR '':'' \<in> set s"
  by (auto simp: minimaxImageAspectRatioSizes_def split: if_splits)

lemma size_text_chars: "c \<in> set (size_text w h) \<Longrightarrow> is_digit c \<or> c = CHR ''x''"
  using itoa_digits by (auto simp: size_text_def list_all_iff)

lemma split_size_text: "str_split (size_text w h) ''x'' = [itoa (nat w), itoa (nat h)]"
proof -
  have "CHR ''x'' \<notin> set (itoa n)" for n using itoa_digits[of n] not_digit_x by (auto simp: list_all_iff)
  then show ?thesis by (simp add: size_text_def str_split_at str_split_none)
qed

lemma minimax_valid_size:
  assumes "minimaxImageValidDimension w" "minimaxImageValidDimension h"
  shows "minimaxImageSize (size_text w h) =
    Inr (case documented_ratio w h of Some r \<Rightarrow> (r, 0, 0) | None \<Rightarrow> ([], w, h))"
proof -
  have pos: "0 \<le> w" "0 \<le> h" "in_int64 w" "in_int64 h"
    using assms by (auto simp: minimaxImageValidDimension_def in_int64_def)
  then have a: "atoi (itoa (nat w)) = Some w" "atoi (itoa (nat h)) = Some h" by (simp_all add: atoi_itoa)
  have "CHR '':'' \<notin> set (size_text w h)" using size_text_chars by (force simp: is_digit_def)
  then have r: "map_of minimaxImageAspectRatioSizes (size_text w h) = None" using ratio_has_colon by blast
  have p: "map_of minimaxImagePixelAspectRatios (size_text w h) = documented_ratio w h"
    unfolding minimaxImagePixelAspectRatios_def documented_ratio_def
    by (rule map_of_size_texts) (simp_all add: minimaxImageAspectRatioSizes_def pos)
  have "size_text w h \<noteq> []" by (simp add: size_text_def)
  then show ?thesis
    using r assms by (simp add: minimaxImageSize_def Let_def normalize_size_text p split_size_text a split: option.split)
qed

lemma minimax_size_sound:
  assumes "minimaxImageSize s = Inr (ratio, w, h)"
  shows "if ratio = [] then minimaxImageValidDimension w \<and> minimaxImageValidDimension h
         else ratio \<in> fst ` set minimaxImageAspectRatioSizes \<and> w = 0 \<and> h = 0"
proof -
  have pix: "snd ` set minimaxImagePixelAspectRatios = fst ` set minimaxImageAspectRatioSizes"
    by (force simp: minimaxImagePixelAspectRatios_def)
  have ne: "[] \<notin> fst ` set minimaxImageAspectRatioSizes" "''1:1'' \<in> fst ` set minimaxImageAspectRatioSizes"
    by (simp_all add: minimaxImageAspectRatioSizes_def)
  have dom: "map_of minimaxImageAspectRatioSizes n \<noteq> None \<longleftrightarrow> n \<in> fst ` set minimaxImageAspectRatioSizes" for n
    by (simp add: map_of_eq_None_iff)
  have px: "map_of minimaxImagePixelAspectRatios n = Some r \<Longrightarrow> r \<in> fst ` set minimaxImageAspectRatioSizes" for n r
    using map_of_SomeD pix by (metis image_eqI snd_conv)
  from assms ne dom px show ?thesis
    unfolding minimaxImageSize_def Let_def
    by (auto split: if_splits option.splits list.splits)
qed

text \<open>
  Image sizes for Minimax: every size whose width and height lie between 512 and 2048 in steps of 8
  is accepted as it is written, as the documented aspect ratio when it has one and as that width and
  height otherwise; and whatever is accepted yields either a documented aspect ratio and no
  dimensions, or no aspect ratio and dimensions within those bounds.
\<close>
theorem minimax_size_exact:
  "(minimaxImageValidDimension w \<and> minimaxImageValidDimension h \<longrightarrow>
      minimaxImageSize (size_text w h) = Inr (case documented_ratio w h of Some r \<Rightarrow> (r, 0, 0) | None \<Rightarrow> ([], w, h)))
   \<and> (\<forall>s ratio w' h'. minimaxImageSize s = Inr (ratio, w', h') \<longrightarrow>
        (if ratio = [] then minimaxImageValidDimension w' \<and> minimaxImageValidDimension h'
         else ratio \<in> fst ` set minimaxImageAspectRatioSizes \<and> w' = 0 \<and> h' = 0))"
  using minimax_valid_size minimax_size_sound by blast

theorem minimax_size_exact_witness:
  "minimaxImageSize (size_text 1024 520) = Inr ([], 1024, 520) \<and> minimaxImageSize (size_text 1280 720) = Inr (''16:9'', 0, 0)"
proof -
  have "minimaxImageValidDimension 1024" "minimaxImageValidDimension 520" "minimaxImageValidDimension 1280" "minimaxImageValidDimension 720"
    by code_simp+
  moreover have "documented_ratio 1024 520 = None" "documented_ratio 1280 720 = Some ''16:9''" by code_simp+
  ultimately show ?thesis using minimax_size_exact[of 1024 520] minimax_size_exact[of 1280 720] by simp
qed

section \<open>Responses carry what they promise\<close>

definition media_item :: "json \<Rightarrow> bool" where
  "media_item item = (case item of JObj [(k, JStr v)] \<Rightarrow> k \<in> {''b64_json'', ''url''} \<and> v \<noteq> [] \<and> trim_space v = v | _ \<Rightarrow> False)"

definition images_ok :: "jobj \<Rightarrow> bool" where
  "images_ok out = (case map_of out ''data'' of Some (JArr items) \<Rightarrow> items \<noteq> [] \<and> list_all media_item items | _ \<Rightarrow> False)"

definition video_ok :: "jobj \<Rightarrow> bool" where
  "video_ok out =
     (case (map_of out ''status'', map_of out ''progress'') of
        (Some (JStr status), Some (JInt p)) \<Rightarrow>
          0 \<le> p \<and> p \<le> 100 \<and>
          (map_of out ''completed_at'' \<noteq> None \<longleftrightarrow> status = ''completed'' \<or> status = ''failed'') \<and>
          (status = ''completed'' \<longrightarrow> p = 100 \<and> (case map_of out ''video_url'' of Some (JStr u) \<Rightarrow> u \<noteq> [] | _ \<Rightarrow> False))
      | _ \<Rightarrow> False)"

lemma images_response_ok: "images_response now items = Inr out \<Longrightarrow> list_all media_item items \<Longrightarrow> images_ok out"
  by (auto simp: images_response_def images_ok_def split: if_splits)

lemma minimax_items_ok:
  "k \<in> {''b64_json'', ''url''} \<Longrightarrow> list_all media_item (map (\<lambda>raw. JObj [(k, JStr raw)]) (minimaxImageStrings payload f))"
  by (auto simp: list_all_iff minimaxImageStrings_def media_item_def)

lemma qwen_items_ok: "list_all media_item (map (\<lambda>url. JObj [(''url'', JStr url)]) (qwen_image_urls root))"
  by (auto simp: list_all_iff qwen_image_urls_def media_item_def)

lemma minimax_response_ok:
  assumes "MapMinimaxImageToOpenAIImagesResponseObject now root = Inr out"
  shows "images_ok out"
  using assms minimax_items_ok[of "''b64_json''"] minimax_items_ok[of "''url''"]
  by (auto simp: MapMinimaxImageToOpenAIImagesResponseObject_def Let_def split: option.splits if_splits intro: images_response_ok)

lemma qwen_response_ok: "MapQwenImageToOpenAIImagesResponseObject now root = Inr out \<Longrightarrow> images_ok out"
  using qwen_items_ok by (auto simp: MapQwenImageToOpenAIImagesResponseObject_def split: option.splits intro: images_response_ok)

lemma clamp_bounds: "0 \<le> clamp_progress p \<and> clamp_progress p \<le> 100"
  by (simp add: clamp_progress_def Let_def)

lemma ppioTaskStatus_cases:
  "ppioTaskStatus raw = Inr status \<Longrightarrow> status \<in> {''completed'', ''failed'', ''in_progress'', ''queued''}"
  by (auto simp: ppioTaskStatus_def Let_def split: if_splits)

lemma ppio_completed_ok:
  assumes "ppio_completed now root [(''object'', JStr ''video''), (''status'', JStr ''completed''), (''completed_at'', JInt now)] = Inr out"
  shows "video_ok out"
  using assms by (auto simp: ppio_completed_def Let_def video_ok_def split: list.splits if_splits)

lemma ppio_running_ok:
  "status \<noteq> ''completed'' \<Longrightarrow> status \<noteq> ''failed'' \<Longrightarrow>
   video_ok [(''object'', JStr ''video''), (''status'', JStr status), (''progress'', JInt (clamp_progress p))]"
  by (simp add: video_ok_def clamp_bounds)

lemma ppio_result_ok:
  assumes "MapPPIOVideoResultToOpenAIVideoObject now root = Inr out"
  shows "video_ok out"
proof -
  from assms obtain task status where t: "jfield root ''task'' = JObj task" "ppioTaskStatus (field_string task ''status'') = Inr status"
    by (auto simp: MapPPIOVideoResultToOpenAIVideoObject_def bind_res_eq_Inr split: json.splits if_splits)
  have "status \<in> {''completed'', ''failed'', ''in_progress'', ''queued''}" using ppioTaskStatus_cases[OF t(2)] .
  then consider "status = ''completed''" | "status = ''failed''" | "status \<noteq> ''completed'' \<and> status \<noteq> ''failed''" by auto
  then show ?thesis
  proof cases
    case 1
    with assms t show ?thesis
      by (auto simp: MapPPIOVideoResultToOpenAIVideoObject_def Let_def split: if_splits intro: ppio_completed_ok)
  next
    case 2
    with assms t clamp_bounds show ?thesis
      by (auto simp: MapPPIOVideoResultToOpenAIVideoObject_def Let_def video_ok_def split: if_splits)
  next
    case 3
    with assms t ppio_running_ok show ?thesis
      by (simp add: MapPPIOVideoResultToOpenAIVideoObject_def Let_def split: if_splits) blast
  qed
qed

text \<open>
  A response that is mapped as a success carries what it promises: at least one image, each with
  trimmed data or a link that is not empty, for Minimax and Qwen; and for a video of PPIO a progress
  between 0 and 100, a completion time exactly when the task has ended, and for a completed task a
  progress of 100 and a link.
\<close>
theorem media_success_complete:
  "(MapMinimaxImageToOpenAIImagesResponseObject now root = Inr out \<longrightarrow> images_ok out)
   \<and> (MapQwenImageToOpenAIImagesResponseObject now root = Inr out \<longrightarrow> images_ok out)
   \<and> (MapPPIOVideoResultToOpenAIVideoObject now root = Inr out \<longrightarrow> video_ok out)"
  using minimax_response_ok qwen_response_ok ppio_result_ok by blast

definition demo_video :: jobj where
  "demo_video = [(''task'', JObj [(''task_id'', JStr ''t''), (''status'', JStr ''TASK_STATUS_PROCESSING''), (''progress_percent'', JNum 130 ''130'')])]"

definition demo_images :: jobj where
  "demo_images = [(''data'', JObj [(''image_urls'', JArr [JStr '' '', JStr ''u''])])]"

theorem media_success_complete_witness:
  "MapPPIOVideoResultToOpenAIVideoObject 5 demo_video =
     Inr [(''object'', JStr ''video''), (''status'', JStr ''in_progress''), (''progress'', JInt 100)]
   \<and> video_ok [(''object'', JStr ''video''), (''status'', JStr ''in_progress''), (''progress'', JInt 100)]
   \<and> images_ok [(''created'', JInt 5), (''data'', JArr [JObj [(''url'', JStr ''u'')]])]"
proof -
  have v: "MapPPIOVideoResultToOpenAIVideoObject 5 demo_video =
     Inr [(''object'', JStr ''video''), (''status'', JStr ''in_progress''), (''progress'', JInt 100)]" by code_simp
  have i: "MapMinimaxImageToOpenAIImagesResponseObject 5 demo_images = Inr [(''created'', JInt 5), (''data'', JArr [JObj [(''url'', JStr ''u'')]])]"
    by code_simp
  from v i media_success_complete[of 5 demo_video "[(''object'', JStr ''video''), (''status'', JStr ''in_progress''), (''progress'', JInt 100)]"]
    media_success_complete[of 5 demo_images "[(''created'', JInt 5), (''data'', JArr [JObj [(''url'', JStr ''u'')]])]"]
  show ?thesis by blast
qed

end
