(* ===== verification/Request_Transform.thy ===== *)
theory Request_Transform
  imports Dsl_Phases Request_Canon Media_Mapping
begin

text \<open>
  The transformation of a request body, \<^verbatim>\<open>onr-core/pkg/requesttransform\<close>: uploads placed into the request
  root (\<^verbatim>\<open>inline_files.go\<close>) and the pipeline of model mapping, uploads, validation, JSON operations and
  request mapping (\<^verbatim>\<open>requesttransform.go\<close>, \<^verbatim>\<open>Apply\<close>, \<^verbatim>\<open>ApplyReqMap\<close>, \<^verbatim>\<open>marshalBody\<close>).

  The request root is one Go map that the pipeline mutates in place and that its callers keep: what it
  holds at the end is the field \<open>rs_Caller\<close> of the result. A body is \<open>None\<close> where Go has a nil slice.
  \<^verbatim>\<open>encoding/json\<close> and the mappings that go through the typed requests of \<^verbatim>\<open>apitypes\<close> are parameters,
  in \<open>transform_env\<close>; the mappings of images and videos are those of \<open>Media_Mapping\<close>.

  Shown: a body nothing applies to passes through byte for byte; the verdict of validation does not
  depend on the JSON operations; and when the endpoint of a video is chosen by the presence of an
  upload, the payload agrees with it for uploads that are not empty.
\<close>

section \<open>Data\<close>

record 'f transform_env =
  te_mime :: mime_ops
  te_num :: "'f num_ops"
  te_float :: "'f float_ops"
  te_maxPrice :: "(string \<times> 'f) list"
  te_Marshal :: "jobj \<Rightarrow> string option"
  te_typed :: "string \<Rightarrow> jobj \<Rightarrow> string + jobj"
  te_gemini :: "gemini_image_request \<Rightarrow> string + jobj"

record apply_options =
  ao_ContentEncoding :: string
  ao_RequestHeaders :: "header option"
  ao_RawQuery :: string

record transform_result =
  rs_Body :: "string option"
  rs_Root :: "jobj option"
  rs_ContentType :: string
  rs_Caller :: "jobj option"

datatype transform_error =
    UploadRejected canon_error
  | UploadUnreadable canon_error
  | ClientRejected validation_error
  | ValidationPanics
  | OperationFails json_error
  | MappingRejected mapping_error
  | MappingFails string
  | EncodedRequest string
  | UnsupportedMode string
  | BodyNotParsed
  | BodyNotObject
  | MarshalFails

section \<open>Uploads\<close>

definition file_object :: "file_part \<Rightarrow> json" where
  "file_object part = JObj [(''filename'', JStr (fp_Filename part)), (''content_type'', JStr (fp_ContentType part)),
     (''b64'', JStr (b64_encode std_encoding (fp_Data part)))]"

definition place_files :: "(string \<times> file_part list) list \<Rightarrow> jobj \<Rightarrow> jobj" where
  "place_files files root = fold (\<lambda>(name, parts). AList.update name (JArr (map file_object parts))) files root"

definition file_request_of :: "inline_file_rule \<Rightarrow> file_request" where
  "file_request_of rule = \<lparr>fr_Field = if_Field rule, fr_MaxBytes = if_MaxBytes rule, fr_MaxCount = if_MaxCount rule\<rparr>"

definition budget_error :: "canon_error \<Rightarrow> bool" where
  "budget_error e = (case e of FileTooLarge _ _ \<Rightarrow> True | TooManyFiles _ _ \<Rightarrow> True | _ \<Rightarrow> False)"

definition applyInlineFiles ::
    "mime_ops \<Rightarrow> inline_file_rule list \<Rightarrow> string \<Rightarrow> string \<Rightarrow> jobj option \<Rightarrow> transform_error + jobj option" where
  "applyInlineFiles mo rules body contentType root =
     (if rules = [] \<or> \<not> IsMultipartFormData mo contentType then Inr root
      else
        case ExtractMultipartFiles mo body contentType (map file_request_of rules) of
          Inl e \<Rightarrow> Inl (if budget_error e then UploadRejected e else UploadUnreadable e)
        | Inr files \<Rightarrow>
            if files = [] then Inr root
            else Inr (Some (place_files files (case root of None \<Rightarrow> [] | Some ob \<Rightarrow> ob))))"

section \<open>Request mapping\<close>

definition typed_modes :: "string list" where
  "typed_modes = [''openai_chat_to_openai_responses'', ''openai_chat_to_anthropic_messages'',
     ''openai_chat_to_gemini_generate_content'', ''anthropic_to_openai_chat'', ''gemini_to_openai_chat'']"

definition media_modes :: "string list" where
  "media_modes = [''openai_videos_to_ppio'', ''openai_images_to_qwen_image'', ''openai_images_to_minimax_image'',
     ''openai_images_to_gemini_generate_content'', ''openai_images_edits_to_gemini_generate_content'']"

definition marshal :: "'f transform_env \<Rightarrow> jobj \<Rightarrow> transform_error + (string \<times> jobj)" where
  "marshal env dst = (case te_Marshal env dst of None \<Rightarrow> Inl MarshalFails | Some body \<Rightarrow> Inr (body, dst))"

definition applyReqMapObject :: "'f transform_env \<Rightarrow> string \<Rightarrow> jobj \<Rightarrow> transform_error + (string \<times> jobj)" where
  "applyReqMapObject env mode root =
     (let m = to_lower (trim_space mode);
          gemini = (\<lambda>r. bind_res (map_error MappingRejected r) (\<lambda>req. bind_res (map_error MappingFails (te_gemini env req)) (marshal env))) in
      if m \<in> set typed_modes then bind_res (map_error MappingFails (te_typed env m root)) (marshal env)
      else if m = ''openai_videos_to_ppio'' then bind_res (map_error MappingRejected (MapOpenAIVideosToPPIORequest root)) (marshal env)
      else if m = ''openai_images_to_qwen_image'' then bind_res (map_error MappingRejected (MapOpenAIImagesToQwenImageRequest root)) (marshal env)
      else if m = ''openai_images_to_minimax_image'' then bind_res (map_error MappingRejected (MapOpenAIImagesToMinimaxImageRequest root)) (marshal env)
      else if m = ''openai_images_to_gemini_generate_content'' then gemini (MapOpenAIImagesToGeminiGenerateContentRequest root)
      else if m = ''openai_images_edits_to_gemini_generate_content'' then gemini (MapOpenAIImagesEditsToGeminiGenerateContentRequest root)
      else Inl (UnsupportedMode mode))"

definition parseReqMapInputObject :: "'f transform_env \<Rightarrow> string \<Rightarrow> string option \<Rightarrow> transform_error + jobj" where
  "parseReqMapInputObject env mode raw =
     (if to_lower (trim_space mode) \<notin> set (typed_modes @ media_modes) then Inl (UnsupportedMode mode)
      else
        case mo_Unmarshal (te_mime env) (case raw of None \<Rightarrow> [] | Some b \<Rightarrow> b) of
          None \<Rightarrow> Inl BodyNotParsed
        | Some (JObj root) \<Rightarrow> Inr root
        | Some _ \<Rightarrow> Inl BodyNotObject)"

definition ApplyReqMap ::
    "'f transform_env \<Rightarrow> string \<Rightarrow> string option \<Rightarrow> jobj option \<Rightarrow> apply_options \<Rightarrow> transform_error + (string \<times> jobj)" where
  "ApplyReqMap env mode raw out opts =
     (let ce = to_lower (trim_space (ao_ContentEncoding opts)) in
      if ce \<noteq> [] \<and> ce \<noteq> ''identity'' then Inl (EncodedRequest (ao_ContentEncoding opts))
      else
        case out of
          Some root \<Rightarrow> applyReqMapObject env mode root
        | None \<Rightarrow> bind_res (parseReqMapInputObject env mode raw) (applyReqMapObject env mode))"

section \<open>The pipeline\<close>

definition marshalBody :: "'f transform_env \<Rightarrow> string option \<Rightarrow> jobj \<Rightarrow> string \<Rightarrow> transform_error + string option" where
  "marshalBody env originalBody out contentType =
     (if IsMultipartFormData (te_mime env) contentType then Inr originalBody
      else bind_res (marshal env out) (\<lambda>(body, _). Inr (Some body)))"

definition map_model :: "meta \<Rightarrow> jobj \<Rightarrow> bool \<times> jobj" where
  "map_model meta out =
     (let modelMapped = trim_space (mt_DSLModelMapped meta) in
      if modelMapped = [] \<or> map_of out ''model'' = None \<or> map_of out ''model'' = Some (JStr modelMapped) then (False, out)
      else (True, AList.update ''model'' (JStr modelMapped) out))"

definition run_validation ::
    "'f transform_env \<Rightarrow> 'f validation_rule list \<Rightarrow> jobj option \<Rightarrow> header \<Rightarrow> string \<Rightarrow> transform_error option" where
  "run_validation env rules out headers rawQuery =
     (case Validate (te_num env) rules \<lparr>rv_root = out, rv_headers = headers, rv_query = rawQuery\<rparr> of
        outcome.Pass \<Rightarrow> None
      | Reject e \<Rightarrow> Some (ClientRejected e)
      | Panic \<Rightarrow> Some ValidationPanics)"

definition run_ops :: "'f op_env \<Rightarrow> 'f json_op list \<Rightarrow> jobj option \<Rightarrow> transform_error + (bool \<times> jobj option)" where
  "run_ops oe ops out =
     (if out = None \<or> ops = [] then Inr (False, out)
      else bind_res (map_error OperationFails (ApplyJSONOps oe out ops)) (\<lambda>ob. Inr (True, Some ob)))"

definition finish_plain ::
    "'f transform_env \<Rightarrow> 'f op_env \<Rightarrow> 'f json_op list \<Rightarrow> string \<Rightarrow> string option \<Rightarrow> bool \<Rightarrow> jobj option \<Rightarrow> jobj option
     \<Rightarrow> transform_error + transform_result" where
  "finish_plain env oe ops contentType body changed value out =
     bind_res (run_ops oe ops out) (\<lambda>(ch, out'). 
       let result = \<lparr>rs_Body = body, rs_Root = out', rs_ContentType = contentType,
                     rs_Caller = (if value = None then None else out')\<rparr> in
       case out' of
         None \<Rightarrow> Inr result
       | Some ob \<Rightarrow>
           if changed \<or> ch \<or> body = None
           then bind_res (marshalBody env body ob contentType) (\<lambda>b. Inr (result\<lparr>rs_Body := b\<rparr>))
           else Inr result)"

text \<open>After a request mapping the object operated on is new, and the metadata still hold the old one.\<close>

definition detach_root :: "'f op_env \<Rightarrow> jobj option \<Rightarrow> 'f op_env" where
  "detach_root oe out = (case out of None \<Rightarrow> oe | Some ob \<Rightarrow> (see_root oe ob)\<lparr>oe_sharesRoot := False\<rparr>)"

definition finish_mapped ::
    "'f transform_env \<Rightarrow> 'f op_env \<Rightarrow> 'f json_op list \<Rightarrow> string \<Rightarrow> string \<Rightarrow> string option \<Rightarrow> jobj option \<Rightarrow> jobj option \<Rightarrow> apply_options
     \<Rightarrow> transform_error + transform_result" where
  "finish_mapped env oe ops mode contentType body value out opts =
     bind_res (ApplyReqMap env mode body out opts) (\<lambda>(mappedBody, mappedRoot).
       let ct = (if IsMultipartFormData (te_mime env) contentType then ''application/json'' else contentType);
           result = \<lparr>rs_Body = Some mappedBody, rs_Root = Some mappedRoot, rs_ContentType = ct,
                     rs_Caller = (if value = None then None else out)\<rparr> in
       if ops = [] then Inr result
       else
         bind_res (map_error OperationFails (ApplyJSONOps (detach_root oe out) (Some mappedRoot) ops)) (\<lambda>ob.
         bind_res (marshalBody env (Some mappedBody) ob ct) (\<lambda>b. Inr (result\<lparr>rs_Body := b, rs_Root := Some ob\<rparr>))))"

definition map_model_root :: "meta \<Rightarrow> jobj option \<Rightarrow> bool \<times> jobj option" where
  "map_model_root meta value =
     (case value of None \<Rightarrow> (False, None) | Some ob \<Rightarrow> (let (changed, ob') = map_model meta ob in (changed, Some ob')))"

text \<open>The root that validation reads, and what follows once it has passed.\<close>

definition validated_root ::
    "'f transform_env \<Rightarrow> meta \<Rightarrow> string \<Rightarrow> string option \<Rightarrow> jobj option \<Rightarrow> 'f request_transform \<Rightarrow> transform_error + jobj option" where
  "validated_root env meta ct body value t =
     (let out = snd (map_model_root meta value) in
      if rt_InlineFiles t = [] then Inr out
      else applyInlineFiles (te_mime env) (rt_InlineFiles t) (case body of None \<Rightarrow> [] | Some b \<Rightarrow> b) ct out)"

definition rewrite_request ::
    "'f transform_env \<Rightarrow> 'f op_env \<Rightarrow> 'f request_transform \<Rightarrow> string \<Rightarrow> string option \<Rightarrow> bool \<Rightarrow> jobj option \<Rightarrow> jobj option \<Rightarrow> apply_options
     \<Rightarrow> transform_error + transform_result" where
  "rewrite_request env oe t ct body changed value out opts =
     bind_res (run_ops oe (rt_JSONOps t) out) (\<lambda>(ch, out').
       let mode = trim_space (rt_ReqMapMode t) in
       if mode = [] then finish_plain env oe (rt_AfterReqMapJSONOps t) ct body (changed \<or> ch) value out'
       else finish_mapped env oe (rt_AfterReqMapJSONOps t) mode ct body value out' opts)"

definition request_headers :: "header \<Rightarrow> apply_options \<Rightarrow> header" where
  "request_headers metaHeaders opts = (case ao_RequestHeaders opts of Some h \<Rightarrow> h | None \<Rightarrow> metaHeaders)"

definition validation_error_of ::
    "'f transform_env \<Rightarrow> 'f request_transform \<Rightarrow> jobj option \<Rightarrow> header \<Rightarrow> apply_options \<Rightarrow> transform_error option" where
  "validation_error_of env t out headers opts =
     (if rt_ValidationRules t = [] then None
      else run_validation env (rt_ValidationRules t) out headers (ao_RawQuery opts))"

definition transform_Apply ::
    "'f transform_env \<Rightarrow> meta \<Rightarrow> header \<Rightarrow> string \<Rightarrow> string option \<Rightarrow> jobj option \<Rightarrow> 'f request_transform \<Rightarrow> apply_options
     \<Rightarrow> transform_error + transform_result" where
  "transform_Apply env meta metaHeaders contentType body value t opts =
     (let headers = request_headers metaHeaders opts;
          oe = \<lparr>oe_meta = meta, oe_headers = headers, oe_maxPrice = te_maxPrice env, oe_float = te_float env,
                oe_sharesRoot = (value \<noteq> None)\<rparr>;
          ct = trim_space contentType in
      bind_res (validated_root env meta ct body value t) (\<lambda>out.
        case validation_error_of env t out headers opts of
          Some e \<Rightarrow> Inl e
        | None \<Rightarrow> rewrite_request env oe t ct body (fst (map_model_root meta value)) value out opts))"

section \<open>The body follows the root\<close>

lemma bind_res_Inl_iff: "bind_res r f = Inl e \<longleftrightarrow> r = Inl e \<or> (\<exists>x. r = Inr x \<and> f x = Inl e)"
  by (cases r) (simp_all add: bind_res_def)

lemma map_error_Inl: "map_error f r = Inl e \<longleftrightarrow> (\<exists>d. r = Inl d \<and> e = f d)"
  by (cases r) (auto simp: map_error_def)

lemma marshal_Inr: "marshal env ob = Inr x \<Longrightarrow> snd x = ob \<and> te_Marshal env (snd x) = Some (fst x)"
  by (auto simp: marshal_def split: option.splits)

lemma applyReqMapObject_marshals: "applyReqMapObject env mode root = Inr x \<Longrightarrow> te_Marshal env (snd x) = Some (fst x)"
  unfolding applyReqMapObject_def Let_def
  by (auto simp: bind_res_eq_Inr dest!: marshal_Inr split: if_splits)

lemma ApplyReqMap_marshals: "ApplyReqMap env mode raw out opts = Inr x \<Longrightarrow> te_Marshal env (snd x) = Some (fst x)"
  by (auto simp: ApplyReqMap_def Let_def bind_res_eq_Inr split: if_splits option.splits dest: applyReqMapObject_marshals)

lemma marshalBody_Inr:
  "marshalBody env body ob ct = Inr b \<Longrightarrow> if IsMultipartFormData (te_mime env) ct then b = body else b = te_Marshal env ob"
  by (auto simp: marshalBody_def bind_res_eq_Inr dest!: marshal_Inr split: if_splits)

definition body_of_root :: "'f transform_env \<Rightarrow> transform_result \<Rightarrow> bool" where
  "body_of_root env r \<longleftrightarrow> (\<exists>ob. rs_Root r = Some ob \<and> rs_Body r = te_Marshal env ob)"

lemma run_ops_Inr:
  assumes "run_ops oe ops out = Inr (ch, out')"
  shows "(ops = [] \<longrightarrow> \<not> ch \<and> out' = out) \<and> (out' = None \<longleftrightarrow> out = None)"
  using assms by (auto simp: run_ops_def bind_res_eq_Inr split: if_splits)

lemma finish_plain_body:
  assumes "finish_plain env oe ops ct (Some b) changed value out = Inr r"
  shows "(rs_Body r = Some b \<or> body_of_root env r) \<and> (\<not> changed \<and> ops = [] \<longrightarrow> rs_Body r = Some b)"
proof -
  from assms obtain ch out' where ops: "run_ops oe ops out = Inr (ch, out')"
    by (auto simp: finish_plain_def bind_res_eq_Inr)
  note step = assms[unfolded finish_plain_def ops bind_res_simps Let_def prod.case]
  show ?thesis
  proof (cases out')
    case None
    with step show ?thesis by auto
  next
    case (Some ob)
    show ?thesis
    proof (cases "changed \<or> ch")
      case True
      with step Some obtain b' where b': "marshalBody env (Some b) ob ct = Inr b'" "rs_Body r = b'" "rs_Root r = Some ob"
        by (auto simp: bind_res_eq_Inr)
      with True run_ops_Inr[OF ops] marshalBody_Inr[OF b'(1)] show ?thesis
        by (cases "IsMultipartFormData (te_mime env) ct") (auto simp: body_of_root_def)
    next
      case False
      with step Some show ?thesis by auto
    qed
  qed
qed

lemma finish_mapped_body:
  assumes "finish_mapped env oe ops mode ct body value out opts = Inr r"
    and "\<not> IsMultipartFormData (te_mime env) ''application/json''"
  shows "body_of_root env r"
  using assms
  by (auto simp: finish_mapped_def bind_res_eq_Inr Let_def body_of_root_def split: if_splits
      dest!: marshalBody_Inr ApplyReqMap_marshals)

text \<open>Whether the configuration and the request leave the body alone.\<close>

definition untouched :: "meta \<Rightarrow> jobj option \<Rightarrow> 'f request_transform \<Rightarrow> bool" where
  "untouched meta value t \<longleftrightarrow>
     rt_JSONOps t = [] \<and> rt_AfterReqMapJSONOps t = [] \<and> trim_space (rt_ReqMapMode t) = [] \<and>
     (case value of None \<Rightarrow> True
      | Some ob \<Rightarrow> trim_space (mt_DSLModelMapped meta) = [] \<or>
          map_of ob ''model'' \<in> {None, Some (JStr (trim_space (mt_DSLModelMapped meta)))})"

lemma untouched_model: "untouched meta value t \<Longrightarrow> \<not> fst (map_model_root meta value)"
  by (auto simp: untouched_def map_model_root_def map_model_def Let_def split: option.splits)

lemma rewrite_request_body:
  assumes "rewrite_request env oe t ct (Some b) changed value out opts = Inr r"
    and "\<not> IsMultipartFormData (te_mime env) ''application/json''"
  shows "(rs_Body r = Some b \<or> body_of_root env r)
    \<and> (\<not> changed \<and> rt_JSONOps t = [] \<and> rt_AfterReqMapJSONOps t = [] \<and> trim_space (rt_ReqMapMode t) = [] \<longrightarrow> rs_Body r = Some b)"
proof -
  from assms(1) obtain ch out' where ops: "run_ops oe (rt_JSONOps t) out = Inr (ch, out')"
    by (auto simp: rewrite_request_def bind_res_eq_Inr)
  note step = assms(1)[unfolded rewrite_request_def ops bind_res_simps Let_def prod.case]
  show ?thesis
  proof (cases "trim_space (rt_ReqMapMode t) = []")
    case True
    with step have "finish_plain env oe (rt_AfterReqMapJSONOps t) ct (Some b) (changed \<or> ch) value out' = Inr r" by simp
    from finish_plain_body[OF this] run_ops_Inr[OF ops] show ?thesis by auto
  next
    case False
    with step have "finish_mapped env oe (rt_AfterReqMapJSONOps t) (trim_space (rt_ReqMapMode t)) ct (Some b) value out' opts = Inr r" by simp
    from finish_mapped_body[OF this assms(2)] False show ?thesis by simp
  qed
qed

lemma transform_Apply_Inr:
  assumes "transform_Apply env meta hdrs ct body value t opts = Inr r"
  obtains oe out where "rewrite_request env oe t (trim_space ct) body (fst (map_model_root meta value)) value out opts = Inr r"
    "validated_root env meta (trim_space ct) body value t = Inr out"
  using assms by (auto simp: transform_Apply_def Let_def bind_res_eq_Inr split: option.splits)


section \<open>Validation comes first\<close>

lemma no_reject:
  "finish_plain env oe ops ct body changed value out \<noteq> Inl (ClientRejected e)"
  "finish_mapped env oe ops mode ct body value out opts \<noteq> Inl (ClientRejected e)"
  "run_ops oe ops out \<noteq> Inl (ClientRejected e)"
proof -
  have m: "marshal env ob \<noteq> Inl (ClientRejected e)" for ob :: jobj
    by (simp add: marshal_def split: option.split)
  have mb: "marshalBody env body' ob ct' \<noteq> Inl (ClientRejected e)" for body' ob ct'
    using m by (auto simp: marshalBody_def bind_res_Inl_iff)
  have ob: "applyReqMapObject env mode root \<noteq> Inl (ClientRejected e)" for mode root
    using m by (auto simp: applyReqMapObject_def Let_def bind_res_Inl_iff map_error_Inl)
  have rm: "ApplyReqMap env mode body' out opts \<noteq> Inl (ClientRejected e)" for body' out
    using ob by (auto simp: ApplyReqMap_def parseReqMapInputObject_def Let_def bind_res_Inl_iff split: option.splits json.splits)
  show r: "run_ops oe ops out \<noteq> Inl (ClientRejected e)" for oe ops out
    by (auto simp: run_ops_def bind_res_Inl_iff map_error_Inl)
  show "finish_plain env oe ops ct body changed value out \<noteq> Inl (ClientRejected e)"
    using r mb by (auto simp: finish_plain_def bind_res_Inl_iff Let_def split: option.splits)
  show "finish_mapped env oe ops mode ct body value out opts \<noteq> Inl (ClientRejected e)"
    using rm mb by (auto simp: finish_mapped_def bind_res_Inl_iff map_error_Inl Let_def)
qed

lemma no_reject_inline: "applyInlineFiles mo rules body ct out \<noteq> Inl (ClientRejected e)"
  by (auto simp: applyInlineFiles_def split: sum.splits)

lemma no_reject_rewrite: "rewrite_request env oe t ct body changed value out opts \<noteq> Inl (ClientRejected e)"
  by (auto simp: rewrite_request_def bind_res_Inl_iff no_reject Let_def)

lemma no_reject_root: "validated_root env meta ct body value t \<noteq> Inl (ClientRejected e)"
  by (simp add: validated_root_def no_reject_inline Let_def)

lemma transform_rejects_iff:
  "transform_Apply env meta hdrs ct body value t opts = Inl (ClientRejected e) \<longleftrightarrow>
     (\<exists>out. validated_root env meta (trim_space ct) body value t = Inr out \<and>
        validation_error_of env t out (request_headers hdrs opts) opts = Some (ClientRejected e))"
  by (auto simp: transform_Apply_def Let_def bind_res_Inl_iff no_reject_root no_reject_rewrite split: option.splits)

text \<open>
  Validation judges the request before it is rewritten: whether a request is rejected, and with
  which report, is the same for every choice of the JSON operations and of the request mapping.
\<close>
theorem validation_before_operations:
  "transform_Apply env meta hdrs ct body value t opts = Inl (ClientRejected e) \<longleftrightarrow>
   transform_Apply env meta hdrs ct body value (t\<lparr>rt_JSONOps := ops, rt_AfterReqMapJSONOps := ops', rt_ReqMapMode := mode\<rparr>) opts
     = Inl (ClientRejected e)"
  by (simp add: transform_rejects_iff validated_root_def validation_error_of_def Let_def)

lemma map_model_forgets:
  assumes "trim_space (mt_DSLModelMapped meta) \<noteq> []" "map_of ob ''model'' \<noteq> None"
  shows "snd (map_model meta ob) = AList.update ''model'' (JStr (trim_space (mt_DSLModelMapped meta))) ob"
  using assms by (auto simp: map_model_def Let_def update_same)

text \<open>
  A rule on the model of a request never sees the client's model: for a request with a mapped
  model, replacing the model in the body by any other value changes neither whether the request is
  rejected nor the report.
\<close>
theorem validation_ignores_client_model:
  assumes "trim_space (mt_DSLModelMapped meta) \<noteq> []" "map_of ob ''model'' \<noteq> None"
  shows "transform_Apply env meta hdrs ct body (Some ob) t opts = Inl (ClientRejected e) \<longleftrightarrow>
    transform_Apply env meta hdrs ct body (Some (AList.update ''model'' v ob)) t opts = Inl (ClientRejected e)"
proof -
  have "map_of (AList.update ''model'' v ob) ''model'' \<noteq> None" by (simp add: update_conv')
  then have "snd (map_model meta (AList.update ''model'' v ob)) = snd (map_model meta ob)"
    using assms by (simp add: map_model_forgets)
  then have "snd (map_model_root meta (Some (AList.update ''model'' v ob))) = snd (map_model_root meta (Some ob))"
    by (simp add: map_model_root_def case_prod_beta)
  then show ?thesis by (simp add: transform_rejects_iff validated_root_def)
qed

section \<open>Uploads and the text of a form\<close>

lemma inspect_files:
  assumes "inspect_parts parts eof vs model stream files = Inr (root, model', stream', files')"
  shows "files' = files @ map (\<lambda>p. trim_space (pt_FormName p))
    (filter (\<lambda>p. trim_space (pt_FileName p) \<noteq> [] \<and> trim_space (pt_FormName p) \<noteq> []) parts)"
  using assms
  by (induction parts eof vs model stream files rule: inspect_parts.induct)
     (auto simp: Let_def split: if_splits option.splits)

lemma inspect_root:
  assumes "inspect_parts parts eof vs model stream files = Inr (root, model', stream', files')"
  shows "\<exists>vs'. root = multipartValuesRoot vs'"
  using assms
  by (induction parts eof vs model stream files rule: inspect_parts.induct)
     (auto simp: Let_def split: if_splits option.splits)

text \<open>The values of a form hold strings only, so none of them reads as an upload.\<close>

definition no_files :: "json \<Rightarrow> bool" where
  "no_files v \<longleftrightarrow> concat (map inline_entry (as_array v)) = []"

lemma inline_entry_JStr [simp]: "inline_entry (JStr x) = []"
  by (simp add: inline_entry_def)

lemma value_json_no_files: "no_files (value_json vals)"
  by (auto simp: no_files_def value_json_def as_array_def split: list.splits)

lemma form_root_no_files:
  assumes "multipartValuesRoot vs = Some root"
  shows "inlineFilesAt root k = []"
proof -
  have "root = concat (map (\<lambda>(k, vals). if vals = [] then [] else [(k, value_json vals)]) vs)"
    using assms by (auto simp: multipartValuesRoot_def Let_def split: if_splits)
  then have "map_of root k = Some v \<Longrightarrow> \<exists>vals. v = value_json vals" for v
    by (auto dest!: map_of_SomeD split: if_splits)
  then have "no_files (jfield root k)"
    using value_json_no_files by (auto simp: jfield_def no_files_def as_array_def split: option.split)
  then show ?thesis by (simp add: inlineFilesAt_def no_files_def)
qed

lemma extract_distinct:
  assumes "extract_parts mo wanted parts eof out = Inr out'" "distinct (map fst out)"
  shows "distinct (map fst out')"
  using assms
proof (induction parts arbitrary: out)
  case (Cons part parts)
  have "distinct (map fst (append_value n v out))" for n and v :: file_part
    using Cons.prems(2) by (simp add: append_value_def distinct_update)
  with Cons show ?case by (auto simp: Let_def split: option.splits if_splits)
qed (simp split: if_splits)

lemma ExtractMultipartFiles_distinct:
  "ExtractMultipartFiles mo body ct reqs = Inr files \<Longrightarrow> distinct (map fst files)"
  by (auto simp: ExtractMultipartFiles_def Let_def split: if_splits option.splits prod.splits dest: extract_distinct)

lemma map_of_place_files:
  "distinct (map fst files) \<Longrightarrow> map_of (place_files files root) k =
     (case map_of files k of None \<Rightarrow> map_of root k | Some parts \<Rightarrow> Some (JArr (map file_object parts)))"
proof (induction files arbitrary: root)
  case (Cons f files)
  then have "map_of files (fst f) = None" by (simp add: map_of_eq_None_iff)
  with Cons show ?case by (auto simp: place_files_def update_conv' case_prod_beta split: option.split)
qed (simp add: place_files_def)

lemma trim_b64_std [simp]: "trim_space (b64_encode std_encoding s) = b64_encode std_encoding s"
proof (rule list_all_trim)
  have "enc_byte c \<Longrightarrow> visible c" for c by (auto simp: enc_byte_def visible_def byte_in_def)
  with enc_byte_b64_encode[of s] show "list_all visible (b64_encode std_encoding s)" by (auto simp: list_all_iff)
qed

lemma inline_entry_file: "inline_entry (file_object p) = [] \<longleftrightarrow> fp_Data p = []"
  by (simp add: inline_entry_def file_object_def jfield_def CoerceString_def Let_def b64_encode_Nil_iff)

lemma placed_files:
  assumes "distinct (map fst files)"
  shows "inlineFilesAt (place_files files root) k = [] \<longleftrightarrow>
    (if map_of files k = None then inlineFilesAt root k = [] else list_all (\<lambda>d. d = []) (map fp_Data (files_of files k)))"
proof (cases "map_of files k")
  case None
  then show ?thesis by (simp add: inlineFilesAt_def jfield_def map_of_place_files[OF assms])
next
  case (Some parts)
  then show ?thesis
    by (auto simp: inlineFilesAt_def jfield_def map_of_place_files[OF assms] as_array_def files_of_def inline_entry_file list_all_iff)
qed

lemma map_model_inline:
  assumes "k \<noteq> ''model''"
  shows "inlineFilesAt (snd (map_model meta ob)) k = inlineFilesAt ob k"
proof -
  have "map_of (snd (map_model meta ob)) k = map_of ob k"
    using assms by (simp add: map_model_def Let_def update_conv')
  then show ?thesis by (simp add: inlineFilesAt_def jfield_def)
qed

section \<open>Endpoint and payload of a video\<close>

definition reference_field :: string where
  "reference_field = ''input_reference''"

text \<open>The parts of a multipart request, and the metadata that belongs to it.\<close>

definition request_parts :: "mime_ops \<Rightarrow> string \<Rightarrow> string \<Rightarrow> mp_part list" where
  "request_parts mo body ct =
     fst (mo_Parts mo body (the (map_of (snd (the (mo_ParseMediaType mo (trim_space ct)))) ''boundary'')))"

definition meta_of_snapshot :: "meta \<Rightarrow> snapshot \<Rightarrow> bool" where
  "meta_of_snapshot meta sn \<longleftrightarrow>
     mt_RequestRoot meta = (case sn_Root sn of None \<Rightarrow> JNull | Some ob \<Rightarrow> JObj ob) \<and> mt_FileFields meta = sn_FileFields sn"

lemma Inspect_multipart:
  assumes "Inspect mo allow body ct = Inr sn" "IsMultipartFormData mo ct" "trim_space body \<noteq> []"
    and "mo_ParseMediaType mo (trim_space ct) = Some (mt, params)" "map_of params ''boundary'' = Some b" "trim_space b = b"
  shows "(\<exists>vs. sn_Root sn = multipartValuesRoot vs)
    \<and> sn_FileFields sn = map (\<lambda>p. trim_space (pt_FormName p))
        (filter (\<lambda>p. trim_space (pt_FileName p) \<noteq> [] \<and> trim_space (pt_FormName p) \<noteq> []) (request_parts mo body ct))"
proof -
  from assms obtain root model stream files where
    i: "inspectMultipartBody mo body ct = Inr (root, model, stream, files)" "sn_Root sn = root" "sn_FileFields sn = files"
    by (auto simp: Inspect_def Let_def bind_res_eq_Inr)
  from i(1) assms(4-6) have "inspect_parts (request_parts mo body ct) (snd (mo_Parts mo body b)) [] [] False [] = Inr (root, model, stream, files)"
    by (auto simp: inspectMultipartBody_def Let_def request_parts_def split: if_splits prod.splits)
  from inspect_root[OF this] inspect_files[OF this] i(2,3) show ?thesis by simp
qed

lemma reference_upload:
  assumes "meta_of_snapshot meta sn" "Inspect mo allow body ct = Inr sn" "IsMultipartFormData mo ct" "trim_space body \<noteq> []"
    and "mo_ParseMediaType mo (trim_space ct) = Some (mt, params)" "map_of params ''boundary'' = Some b" "trim_space b = b"
  shows "RequestHasUploadedFile meta reference_field \<longleftrightarrow> (\<exists>p \<in> set (request_parts mo body ct). is_upload reference_field p)"
proof -
  have ne: "trim_space reference_field \<noteq> []" "reference_field \<noteq> []" by code_simp+
  have "mt_FileFields meta = map (\<lambda>p. trim_space (pt_FormName p))
      (filter (\<lambda>p. trim_space (pt_FileName p) \<noteq> [] \<and> trim_space (pt_FormName p) \<noteq> []) (request_parts mo body ct))"
    using Inspect_multipart[OF assms(2-)] assms(1) by (simp add: meta_of_snapshot_def)
  with ne show ?thesis unfolding RequestHasUploadedFile_def is_upload_def by (simp add: image_iff) metis
qed

lemma place_reference:
  assumes "ExtractMultipartFiles mo body ct reqs = Inr files" "list_all admissible reqs" "body \<noteq> []" "IsMultipartFormData mo ct"
    and "r \<in> set reqs" "trim_space (fr_Field r) = reference_field" "inlineFilesAt root reference_field = []"
  shows "inlineFilesAt (place_files files root) reference_field \<noteq> [] \<longleftrightarrow>
    (\<exists>p \<in> set (request_parts mo body ct). is_upload reference_field p \<and> pt_Data p \<noteq> [])"
proof -
  have "trim_space (fr_Field r) \<noteq> []" using assms(6) by (simp add: reference_field_def)
  from conjunct1[OF upload_exact[OF assms(1-5) this]] assms(6)
  have data: "map fp_Data (files_of files reference_field) = map pt_Data (filter (is_upload reference_field) (request_parts mo body ct))"
    by (simp add: request_parts_def)
  show ?thesis
  proof (cases "map_of files reference_field")
    case None
    then have "filter (is_upload reference_field) (request_parts mo body ct) = []" using data by (simp add: files_of_def)
    with None assms(7) show ?thesis
      by (auto simp: placed_files[OF ExtractMultipartFiles_distinct[OF assms(1)]] filter_empty_conv)
  next
    case (Some parts)
    then show ?thesis
      by (auto simp: placed_files[OF ExtractMultipartFiles_distinct[OF assms(1)]] data list_all_iff)
  qed
qed

lemma ppio_image_iff:
  "MapOpenAIVideosToPPIORequest root = Inr req \<Longrightarrow> map_of req ''image'' \<noteq> None \<longleftrightarrow> inlineFilesAt root reference_field \<noteq> []"
  by (auto simp: MapOpenAIVideosToPPIORequest_def Let_def reference_field_def split: if_splits list.splits)

text \<open>
  How a video request to PPIO is routed and how it is mapped: for a multipart request whose uploads
  under the reference field are configured to be inlined, the condition that chooses the endpoint
  holds exactly when the field carries text or any upload; the payload is that of an image to video
  request exactly when some upload of the field is not empty. So the two disagree exactly for requests
  that carry only text or only empty uploads under the field.
\<close>
theorem video_endpoint_and_payload:
  assumes "Inspect (te_mime env) True body ct = Inr sn" "meta_of_snapshot meta sn"
    and "IsMultipartFormData (te_mime env) ct" "trim_space ct = ct" "trim_space body \<noteq> []"
    and "mo_ParseMediaType (te_mime env) ct = Some (mt, params)" "map_of params ''boundary'' = Some b" "trim_space b = b"
    and "list_all admissible (map file_request_of (rt_InlineFiles t))"
    and "rule \<in> set (rt_InlineFiles t)" "trim_space (if_Field rule) = ''input_reference''"
    and "validated_root env meta ct (Some body) (sn_Root sn) t = Inr (Some root)"
    and "MapOpenAIVideosToPPIORequest root = Inr req"
  shows "(requestPathPresent meta ''$.input_reference'' \<longleftrightarrow>
       requestPathCarriesValue (mt_RequestRoot meta) ''$.input_reference'' \<or>
       (\<exists>p \<in> set (request_parts (te_mime env) body ct). is_upload ''input_reference'' p))
    \<and> (map_of req ''image'' \<noteq> None \<longleftrightarrow>
       (\<exists>p \<in> set (request_parts (te_mime env) body ct). is_upload ''input_reference'' p \<and> pt_Data p \<noteq> []))"
proof
  let ?mo = "te_mime env"
  have ct: "mo_ParseMediaType ?mo (trim_space ct) = Some (mt, params)" using assms(4,6) by simp
  note up = reference_upload[OF assms(2,1,3,5) ct assms(7,8)]
  have "trim_prefix ''$.input_reference'' ''$.'' = ''input_reference'' \<and> has_prefix ''$.input_reference'' ''$.''" by code_simp
  then show "requestPathPresent meta ''$.input_reference'' \<longleftrightarrow>
       requestPathCarriesValue (mt_RequestRoot meta) ''$.input_reference'' \<or>
       (\<exists>p \<in> set (request_parts ?mo body ct). is_upload ''input_reference'' p)"
    using up by (simp add: requestPathPresent_def reference_field_def)
  let ?v = "snd (map_model_root meta (sn_Root sn))"
  obtain vs where vs: "sn_Root sn = multipartValuesRoot vs" using Inspect_multipart[OF assms(1,3,5) ct assms(7,8)] by blast
  have none: "inlineFilesAt ob reference_field = []" if "?v = Some ob" for ob
  proof -
    from that obtain ob0 where ob0: "sn_Root sn = Some ob0" "ob = snd (map_model meta ob0)"
      by (auto simp: map_model_root_def case_prod_beta split: option.splits)
    have "reference_field \<noteq> ''model''" by (simp add: reference_field_def)
    with ob0 vs form_root_no_files[of vs ob0] show ?thesis by (simp add: map_model_inline)
  qed
  have "rt_InlineFiles t \<noteq> []" using assms(10) by auto
  with assms(12) have "applyInlineFiles ?mo (rt_InlineFiles t) body ct ?v = Inr (Some root)"
    by (simp add: validated_root_def Let_def)
  with assms(3) \<open>rt_InlineFiles t \<noteq> []\<close> obtain files where
    files: "ExtractMultipartFiles ?mo body ct (map file_request_of (rt_InlineFiles t)) = Inr files"
      "(if files = [] then ?v = Some root else root = place_files files (case ?v of None \<Rightarrow> [] | Some ob \<Rightarrow> ob))"
    by (auto simp: applyInlineFiles_def split: sum.splits if_splits)
  let ?ob = "case ?v of None \<Rightarrow> [] | Some ob \<Rightarrow> ob"
  have root: "root = place_files files ?ob" using files(2) by (auto simp: place_files_def split: if_splits)
  have clean: "inlineFilesAt ?ob reference_field = []"
    using none by (cases ?v) (simp_all add: inlineFilesAt_def jfield_def as_array_def)
  have "body \<noteq> []" using assms(5) by auto
  have r: "file_request_of rule \<in> set (map file_request_of (rt_InlineFiles t))" using assms(10) by simp
  have f: "trim_space (fr_Field (file_request_of rule)) = reference_field"
    using assms(11) by (simp add: file_request_of_def reference_field_def)
  show "map_of req ''image'' \<noteq> None \<longleftrightarrow>
       (\<exists>p \<in> set (request_parts ?mo body ct). is_upload ''input_reference'' p \<and> pt_Data p \<noteq> [])"
    using place_reference[OF files(1) assms(9) \<open>body \<noteq> []\<close> assms(3) r f clean] ppio_image_iff[OF assms(13)]
    by (simp add: root reference_field_def)
qed

section \<open>Examples\<close>

definition video_parts :: "mp_part list" where
  "video_parts = map (\<lambda>(name, filename, data). \<lparr>pt_FormName = name, pt_FileName = filename, pt_ContentType = [], pt_Data = data, pt_Broken = False\<rparr>)
     [(''prompt'', [], ''p''), (''seconds'', [], ''4''), (''size'', [], ''1x1''), (''input_reference'', ''a.png'', [])]"

definition video_mime :: mime_ops where
  "video_mime = demo_mime\<lparr>mo_Parts := (\<lambda>_ _. (video_parts, True)),
     mo_ParseMediaType := (\<lambda>s. if s = ''m'' then Some (''multipart/form-data'', [(''boundary'', ''b'')]) else Some (s, []))\<rparr>"

definition video_env :: "int transform_env" where
  "video_env = \<lparr>te_mime = video_mime, te_num = demo_num, te_float = demo_floats, te_maxPrice = [],
     te_Marshal = (\<lambda>ob. Some (concat (map fst ob))), te_typed = (\<lambda>_ _. Inl []), te_gemini = (\<lambda>_. Inl [])\<rparr>"

definition video_transform :: "int request_transform" where
  "video_transform = \<lparr>rt_ModelMap = None, rt_DefaultExpr = [], rt_ValidationRules = [],
     rt_InlineFiles = [\<lparr>if_Field = ''input_reference'', if_MaxBytes = 10, if_MaxCount = 1\<rparr>],
     rt_JSONOps = [], rt_AfterReqMapJSONOps = [], rt_ReqMapMode = ''openai_videos_to_ppio''\<rparr>"

definition video_snapshot :: snapshot where
  "video_snapshot = (case Inspect video_mime True ''body'' ''m'' of Inr sn \<Rightarrow> sn)"

definition video_meta :: meta where
  "video_meta = demo_meta\<lparr>mt_RequestRoot := (case sn_Root video_snapshot of None \<Rightarrow> JNull | Some ob \<Rightarrow> JObj ob),
     mt_FileFields := sn_FileFields video_snapshot\<rparr>"

definition video_root :: jobj where
  "video_root = (case validated_root video_env video_meta ''m'' (Some ''body'') (sn_Root video_snapshot) video_transform of Inr (Some ob) \<Rightarrow> ob)"

definition video_request :: jobj where
  "video_request = [(''prompt'', JStr ''p''), (''duration'', JInt 4), (''size'', JStr ''1*1'')]"

theorem video_endpoint_and_payload_witness:
  "requestPathPresent video_meta ''$.input_reference'' \<and> MapOpenAIVideosToPPIORequest video_root = Inr video_request
   \<and> map_of video_request ''image'' = None"
proof -
  have i: "Inspect (te_mime video_env) True ''body'' ''m'' = Inr video_snapshot" "meta_of_snapshot video_meta video_snapshot"
    "IsMultipartFormData (te_mime video_env) ''m''" "trim_space ''m'' = ''m''" "trim_space ''body'' \<noteq> []"
    "mo_ParseMediaType (te_mime video_env) ''m'' = Some (''multipart/form-data'', [(''boundary'', ''b'')])"
    "map_of [(''boundary'', ''b'')] ''boundary'' = Some ''b''" "trim_space ''b'' = ''b''"
    "list_all admissible (map file_request_of (rt_InlineFiles video_transform))"
    "\<lparr>if_Field = ''input_reference'', if_MaxBytes = 10, if_MaxCount = 1\<rparr> \<in> set (rt_InlineFiles video_transform)"
    "trim_space (if_Field \<lparr>if_Field = ''input_reference'', if_MaxBytes = 10, if_MaxCount = 1\<rparr>) = ''input_reference''"
    "validated_root video_env video_meta ''m'' (Some ''body'') (sn_Root video_snapshot) video_transform = Inr (Some video_root)"
    "MapOpenAIVideosToPPIORequest video_root = Inr video_request"
    by code_simp+
  have p: "\<exists>p \<in> set (request_parts (te_mime video_env) ''body'' ''m''). is_upload ''input_reference'' p"
    "\<not> (\<exists>p \<in> set (request_parts (te_mime video_env) ''body'' ''m''). is_upload ''input_reference'' p \<and> pt_Data p \<noteq> [])"
    by code_simp+
  from video_endpoint_and_payload[OF i] p i(13) show ?thesis by blast
qed

definition plain_transform :: "int request_transform" where
  "plain_transform = video_transform\<lparr>rt_InlineFiles := [], rt_ReqMapMode := [], rt_ValidationRules := demo_compiled\<rparr>"

definition no_options :: apply_options where
  "no_options = \<lparr>ao_ContentEncoding = [], ao_RequestHeaders = None, ao_RawQuery = []\<rparr>"


definition model_rule :: "int validation_rule" where
  "model_rule = (hd demo_compiled)\<lparr>vr_Op := ''enum'', vr_Source := ''body'', vr_Path := ''$.model'', vr_PathParts := [''model''],
     vr_LiteralValues := [LitString ''client'']\<rparr>"

theorem validation_ignores_client_model_witness:
  "\<exists>e. transform_Apply video_env (demo_meta\<lparr>mt_DSLModelMapped := ''mapped''\<rparr>) [] [] (Some []) (Some [(''model'', JStr ''client'')])
      (plain_transform\<lparr>rt_ValidationRules := [model_rule]\<rparr>) no_options = Inl (ClientRejected e)"
proof -
  let ?m = "demo_meta\<lparr>mt_DSLModelMapped := ''mapped''\<rparr>" and ?t = "plain_transform\<lparr>rt_ValidationRules := [model_rule]\<rparr>"
  have "case transform_Apply video_env ?m [] [] (Some []) (Some [(''model'', JStr ''other'')]) ?t no_options of
      Inl (ClientRejected e) \<Rightarrow> True | _ \<Rightarrow> False" by code_simp
  then obtain e where e: "transform_Apply video_env ?m [] [] (Some []) (Some [(''model'', JStr ''other'')]) ?t no_options = Inl (ClientRejected e)"
    by (auto split: sum.splits transform_error.splits)
  have h: "trim_space (mt_DSLModelMapped ?m) \<noteq> []" "map_of [(''model'', JStr ''client'')] ''model'' \<noteq> None" by code_simp+
  have "AList.update ''model'' (JStr ''other'') [(''model'', JStr ''client'')] = [(''model'', JStr ''other'')]" by simp
  with validation_ignores_client_model[OF h, of video_env "[]" "[]" "Some []" ?t no_options e "JStr ''other''"] e show ?thesis by auto
qed

end
