(* ===== verification/Proxy_Context.thy ===== *)
theory Proxy_Context
  imports Gateway Request_Transform
begin

text \<open>
  The preparation of an upstream call, \<^verbatim>\<open>onr/internal/proxy/context.go\<close> and \<^verbatim>\<open>request_transform.go\<close>: from the
  request and the selected key to the metadata, the response directive and the body that is sent.

  A request is the record \<open>http_call\<close>, with what the HTTP layer has cached of it; the root that the code
  publishes under \<^verbatim>\<open>onr.request_root\<close> is the same Go map as the one the transform rewrites, and what it
  holds at the end is the second component of the result. Credential files, URLs and the formats
  of the standard library are parameters, in \<open>proxy_env\<close>.

  Shown: the model and the path that leave this component are those \<open>Gateway\<close> works with; the body that
  is sent carries the mapped model; and the model a token forces is not put into the body.
\<close>

section \<open>Data\<close>

record http_call =
  hc_CachedBody :: "string option"
  hc_CachedRoot :: "jobj option"
  hc_CachedModel :: string
  hc_CachedContentType :: string
  hc_Body :: "string option"
  hc_Headers :: header
  hc_Path :: string
  hc_URI :: string
  hc_RawQuery :: string
  hc_Model :: string

record 'f proxy_env =
  pe_transform :: "'f transform_env"
  pe_url :: url_ops
  pe_ReadFile :: "string \<Rightarrow> string option"
  pe_ProjectID :: "string \<Rightarrow> string option"

record 'f provider_file =
  pf_Routing :: provider_routing
  pf_Request :: "'f provider_request_transform"
  pf_Response :: "'f provider_response"

datatype proxy_error =
    ProviderNotFound string
  | BodyUnreadable
  | BodyRejected canon_error
  | CredentialUnreadable
  | CredentialInvalid
  | CredentialWithoutProject
  | NoRoutingMatch
  | RoutingFails routing_error
  | TransformFails transform_error

record 'f proxy_ctx =
  px_provider :: string
  px_key :: provider_key
  px_api :: string
  px_stream :: bool
  px_pf :: "'f provider_file"
  px_meta :: meta
  px_model :: string
  px_reqBody :: "string option"
  px_reqContentType :: string
  px_respDir :: "'f response_directive option"
  px_reqTransform :: "'f request_transform option"

section \<open>Normalisation\<close>

definition hdr_Get :: "header \<Rightarrow> string \<Rightarrow> string" where
  "hdr_Get h name = (case hdr_Values h name of [] \<Rightarrow> [] | v # _ \<Rightarrow> v)"

definition normalizeUpstreamBaseURL :: "string \<Rightarrow> string" where
  "normalizeUpstreamBaseURL raw = rev (dropWhile (\<lambda>c. c = CHR ''/'') (rev (trim_space raw)))"

definition normalizeProviderLocation :: "string \<Rightarrow> bool \<Rightarrow> string" where
  "normalizeProviderLocation raw defaultGlobal =
     (let location = to_lower (trim_space raw) in
      if location = [] \<and> defaultGlobal then ''global'' else location)"

fun firstNonEmpty :: "string list \<Rightarrow> string" where
  "firstNonEmpty [] = []"
| "firstNonEmpty (v # vs) = (if trim_space v \<noteq> [] then v else firstNonEmpty vs)"

definition credentialProjectIDFromFile :: "'f proxy_env \<Rightarrow> string \<Rightarrow> proxy_error + string" where
  "credentialProjectIDFromFile env path0 =
     (let path = trim_space path0 in
      if path = [] then Inr []
      else
        case pe_ReadFile env path of
          None \<Rightarrow> Inl CredentialUnreadable
        | Some data \<Rightarrow>
            (case pe_ProjectID env data of
               None \<Rightarrow> Inl CredentialInvalid
             | Some p \<Rightarrow> if trim_space p = [] then Inl CredentialWithoutProject else Inr (trim_space p)))"

section \<open>Reading the request\<close>

text \<open>The model of a body that was just inspected: its own, that of its object, that of a Gemini path.\<close>

definition object_model :: "jobj option \<Rightarrow> string" where
  "object_model ob = (case ob of None \<Rightarrow> [] | Some fs \<Rightarrow> (case map_of fs ''model'' of Some (JStr v) \<Rightarrow> trim_space v | _ \<Rightarrow> []))"

definition path_model :: "string \<Rightarrow> string" where
  "path_model path = (case parseGeminiModelFromPath path of Some m \<Rightarrow> trim_space m | None \<Rightarrow> [])"

definition inspected_model :: "snapshot \<Rightarrow> string \<Rightarrow> string" where
  "inspected_model sn path =
     (let model0 = trim_space (sn_Model sn);
          model1 = (if model0 = [] then object_model (sn_Root sn) else model0) in
      if model1 = [] then path_model path else model1)"

definition readRequestBody :: "mime_ops \<Rightarrow> http_call \<Rightarrow> string \<Rightarrow> proxy_error + (string \<times> jobj option \<times> string)" where
  "readRequestBody mo call api =
     (case hc_CachedBody call of
        Some body \<Rightarrow> Inr (body, hc_CachedRoot call, trim_space (hc_CachedModel call))
      | None \<Rightarrow>
          (case hc_Body call of
             None \<Rightarrow> Inl BodyUnreadable
           | Some body \<Rightarrow>
               bind_res (map_error BodyRejected (Inspect mo (AllowNonJSONRequestBodyAPI api) body (hdr_Get (hc_Headers call) ''Content-Type''))) (\<lambda>sn.
                 Inr (body, sn_Root sn, inspected_model sn (hc_Path call)))))"

section \<open>Preparing the call\<close>

definition override_model :: "string \<Rightarrow> jobj option \<Rightarrow> jobj option" where
  "override_model mo rroot =
     (case rroot of
        None \<Rightarrow> None
      | Some ob \<Rightarrow> Some (if map_of ob ''model'' \<noteq> None then AList.update ''model'' (JStr mo) ob else ob))"

text \<open>The uploads a request carries, as \<^verbatim>\<open>RequestHasUploadedFile\<close> finds them in its body.\<close>

definition uploaded_fields :: "mime_ops \<Rightarrow> string \<Rightarrow> string \<Rightarrow> string list" where
  "uploaded_fields mo body ct =
     (if \<not> IsMultipartFormData mo ct then []
      else case Inspect mo True body ct of Inl _ \<Rightarrow> [] | Inr sn \<Rightarrow> sn_FileFields sn)"

definition initial_meta :: "'f proxy_env \<Rightarrow> http_call \<Rightarrow> provider_key \<Rightarrow> string \<Rightarrow> bool \<Rightarrow> string \<Rightarrow> string \<Rightarrow> jobj option \<Rightarrow> string \<Rightarrow> meta" where
  "initial_meta env call key api stream model body rroot projectID =
     \<lparr>mt_API = trim_space api, mt_IsStream = stream,
      mt_BaseURL = normalizeUpstreamBaseURL (pk_BaseURLOverride key),
      mt_APIKey = trim_space (pk_Value key), mt_OAuthAccessToken = [],
      mt_CredentialProjectID = projectID,
      mt_ChannelLocation = normalizeProviderLocation (pk_Location key) (trim_space (pk_CredentialFile key) \<noteq> []),
      mt_UpstreamTransport = [], mt_OriginModelName = trim_space model, mt_DSLModelMapped = [],
      mt_TaskID = [], mt_TaskUpstreamID = [], mt_RequestURLPath = hc_URI call,
      mt_RequestRoot = (case rroot of None \<Rightarrow> JNull | Some ob \<Rightarrow> JObj ob),
      mt_FileFields = uploaded_fields (te_mime (pe_transform env)) body (hdr_Get (hc_Headers call) ''Content-Type''),
      mt_OAuthCacheKey = [], mt_CredentialFile = trim_space (pk_CredentialFile key), mt_CredentialJSON = [],
      mt_AWSAccessKeyID = trim_space (pk_AWSAccessKeyID key), mt_AWSSecretAccessKey = trim_space (pk_AWSSecretAccessKey key),
      mt_AWSSessionToken = trim_space (pk_AWSSessionToken key),
      mt_AWSRegion = normalizeProviderLocation (firstNonEmpty [pk_AWSRegion key, pk_Location key]) False,
      mt_RequestContentType = hdr_Get (hc_Headers call) ''Content-Type''\<rparr>"

definition selectRequestTransform :: "'f provider_file \<Rightarrow> meta \<Rightarrow> 'f request_transform option \<times> meta" where
  "selectRequestTransform pf meta =
     (case request_Select (pf_Request pf) meta of
        None \<Rightarrow> (None, meta)
      | Some t \<Rightarrow> (Some t, model_Apply t meta))"

definition applyGeminiModelRewrite :: "string \<Rightarrow> meta \<Rightarrow> meta" where
  "applyGeminiModelRewrite api meta =
     (if \<not> has_prefix (to_lower (trim_space api)) ''gemini.'' \<or> trim_space (mt_DSLModelMapped meta) = [] then meta
      else
        case replaceGeminiModelInPath (mt_RequestURLPath meta) (mt_DSLModelMapped meta) of
          None \<Rightarrow> meta
        | Some newPath \<Rightarrow> meta\<lparr>mt_RequestURLPath := newPath\<rparr>)"

definition applyRequestTransform ::
    "'f proxy_env \<Rightarrow> meta \<Rightarrow> http_call \<Rightarrow> string \<Rightarrow> jobj option \<Rightarrow> 'f request_transform option
     \<Rightarrow> transform_error + transform_result" where
  "applyRequestTransform env meta call body rroot ot =
     (let ct = hdr_Get (hc_Headers call) ''Content-Type'' in
      case ot of
        None \<Rightarrow> Inr \<lparr>rs_Body = Some body, rs_Root = rroot, rs_ContentType = trim_space ct, rs_Caller = rroot\<rparr>
      | Some t \<Rightarrow>
          transform_Apply (pe_transform env) meta (hc_Headers call) ct (Some body) rroot t
            \<lparr>ao_ContentEncoding = hdr_Get (hc_Headers call) ''Content-Encoding'',
             ao_RequestHeaders = Some (hc_Headers call), ao_RawQuery = hc_RawQuery call\<rparr>)"

definition prepare_call ::
    "'f proxy_env \<Rightarrow> http_call \<Rightarrow> string \<Rightarrow> provider_key \<Rightarrow> string \<Rightarrow> bool \<Rightarrow> 'f provider_file \<Rightarrow> string \<Rightarrow> jobj option \<Rightarrow> string \<Rightarrow> meta
     \<Rightarrow> proxy_error + ('f proxy_ctx \<times> jobj option)" where
  "prepare_call env call provider key api stream pf body rroot model m0 =
     (if \<not> HasMatch (pf_Routing pf) m0 then Inl NoRoutingMatch
      else
        let respDir = response_Select (pf_Response pf) m0;
            (ot, m1) = selectRequestTransform pf m0 in
        bind_res (map_error RoutingFails (routing_Apply (pe_url env) (pf_Routing pf) m1)) (\<lambda>m2.
          let m3 = applyGeminiModelRewrite api (m2\<lparr>mt_BaseURL := normalizeUpstreamBaseURL (mt_BaseURL m2)\<rparr>) in
          bind_res (map_error TransformFails (applyRequestTransform env m3 call body rroot ot)) (\<lambda>r.
            Inr (\<lparr>px_provider = provider, px_key = key, px_api = api, px_stream = stream, px_pf = pf,
                  px_meta = (case rs_Caller r of None \<Rightarrow> m3 | Some ob \<Rightarrow> m3\<lparr>mt_RequestRoot := JObj ob\<rparr>),
                  px_model = model, px_reqBody = rs_Body r, px_reqContentType = rs_ContentType r,
                  px_respDir = respDir, px_reqTransform = ot\<rparr>, rs_Caller r))))"

definition call_model :: "gin_ctx \<Rightarrow> string \<Rightarrow> string \<Rightarrow> string" where
  "call_model c model handlerModel =
     (let model1 = (if trim_space model = [] then trim_space handlerModel else model); mo = TokenModelOverride c in
      if mo \<noteq> [] then mo else model1)"

definition call_root :: "gin_ctx \<Rightarrow> jobj option \<Rightarrow> jobj option" where
  "call_root c rroot = (let mo = TokenModelOverride c in if mo \<noteq> [] then override_model mo rroot else rroot)"

text \<open>The metadata with the model in a Gemini path, which \<^const>\<open>proxy_uri\<close> puts there.\<close>

definition start_meta :: "'f proxy_env \<Rightarrow> http_call \<Rightarrow> provider_key \<Rightarrow> string \<Rightarrow> bool \<Rightarrow> string \<Rightarrow> string \<Rightarrow> jobj option \<Rightarrow> string \<Rightarrow> meta" where
  "start_meta env call key api stream model body rroot projectID =
     (initial_meta env call key api stream model body rroot projectID)\<lparr>mt_RequestURLPath := proxy_uri (hc_URI call) model\<rparr>"

definition buildProxyCtx ::
    "'f proxy_env \<Rightarrow> (string \<Rightarrow> 'f provider_file option) \<Rightarrow> gin_ctx \<Rightarrow> http_call \<Rightarrow> string \<Rightarrow> provider_key \<Rightarrow> string \<Rightarrow> bool
     \<Rightarrow> proxy_error + ('f proxy_ctx \<times> jobj option)" where
  "buildProxyCtx env registry c call provider key api stream =
     (case registry provider of
        None \<Rightarrow> Inl (ProviderNotFound provider)
      | Some pf \<Rightarrow>
          bind_res (readRequestBody (te_mime (pe_transform env)) call api) (\<lambda>(body, rroot0, model0).
            let model = call_model c model0 (hc_Model call); rroot = call_root c rroot0 in
            bind_res (credentialProjectIDFromFile env (trim_space (pk_CredentialFile key))) (\<lambda>projectID.
              prepare_call env call provider key api stream pf body rroot model
                (start_meta env call key api stream model body rroot projectID))))"

section \<open>The model of a call\<close>

lemma TokenModelOverride_trim [simp]: "trim_space (TokenModelOverride c) = TokenModelOverride c"
  by (simp add: TokenModelOverride_def)

lemma inspected_model_trim: "trim_space (inspected_model sn path) = inspected_model sn path"
proof -
  have "trim_space (object_model ob) = object_model ob" for ob by (simp add: object_model_def split: option.split json.split)
  moreover have "trim_space (path_model path) = path_model path" by (simp add: path_model_def split: option.split)
  ultimately show ?thesis by (simp add: inspected_model_def Let_def)
qed

lemma readRequestBody_trim:
  assumes "readRequestBody mo call api = Inr (body, rroot, model)"
  shows "trim_space model = model"
  using assms inspected_model_trim by (auto simp: readRequestBody_def bind_res_eq_Inr split: option.splits)

lemma buildProxyCtx_prepares:
  assumes "buildProxyCtx env registry c call provider key api stream = Inr (ctx, pub)"
    and "registry provider = Some pf" "readRequestBody (te_mime (pe_transform env)) call api = Inr (body, rroot, model)"
  obtains m0 where
    "prepare_call env call provider key api stream pf body (call_root c rroot) (proxy_model model (hc_Model call) c) m0 = Inr (ctx, pub)"
    "mt_RequestURLPath m0 = proxy_uri (hc_URI call) (proxy_model model (hc_Model call) c)"
    "mt_OriginModelName m0 = trim_space (proxy_model model (hc_Model call) c)" "mt_DSLModelMapped m0 = []"
proof -
  have eq: "call_model c model (hc_Model call) = proxy_model model (hc_Model call) c"
    using readRequestBody_trim[OF assms(3)] by (simp add: proxy_model_def call_model_def Let_def)
  from assms eq obtain projectID where
    prep: "prepare_call env call provider key api stream pf body (call_root c rroot) (proxy_model model (hc_Model call) c)
      (start_meta env call key api stream (proxy_model model (hc_Model call) c) body (call_root c rroot) projectID) = Inr (ctx, pub)"
    by (auto simp: buildProxyCtx_def Let_def bind_res_eq_Inr)
  show thesis by (rule that[OF prep]) (simp_all add: start_meta_def initial_meta_def)
qed

lemma gemini_rewrite_frame:
  "mt_DSLModelMapped (applyGeminiModelRewrite api m) = mt_DSLModelMapped m \<and>
   mt_OriginModelName (applyGeminiModelRewrite api m) = mt_OriginModelName m"
  by (simp add: applyGeminiModelRewrite_def split: option.split)

lemma routing_Apply_frame:
  assumes "routing_Apply uo p m = Inr m'"
  shows "mt_DSLModelMapped m' = mt_DSLModelMapped m \<and> mt_OriginModelName m' = mt_OriginModelName m"
proof -
  have b: "mt_DSLModelMapped m1 = mt_DSLModelMapped m \<and> mt_OriginModelName m1 = mt_OriginModelName m"
    if "routing_BaseURL p m = Inr m1" for m1
    using routing_BaseURL_frame[OF that] by auto
  have t: "mt_DSLModelMapped (routing_Transport p m1) = mt_DSLModelMapped m1 \<and>
      mt_OriginModelName (routing_Transport p m1) = mt_OriginModelName m1" for m1
    by (simp add: routing_Transport_def Let_def)
  show ?thesis
    using assms b t by (auto simp: routing_Apply_def Let_def bind_res_eq_Inr split: if_splits option.splits)
qed

lemma model_Apply_origin: "mt_OriginModelName (model_Apply t m) = mt_OriginModelName m"
  by (simp add: model_Apply_def Let_def split: option.split)

lemma prepare_callE:
  assumes "prepare_call env call provider key api stream pf body rroot model m0 = Inr (ctx, pub)"
  obtains ot m1 m2 m3 r where "selectRequestTransform pf m0 = (ot, m1)"
    "routing_Apply (pe_url env) (pf_Routing pf) m1 = Inr m2"
    "mt_DSLModelMapped m3 = mt_DSLModelMapped m1" "mt_OriginModelName m3 = mt_OriginModelName m0"
    "applyRequestTransform env m3 call body rroot ot = Inr r"
    "px_model ctx = model" "px_reqBody ctx = rs_Body r" "px_reqTransform ctx = ot" "pub = rs_Caller r"
    "mt_DSLModelMapped (px_meta ctx) = mt_DSLModelMapped m3" "mt_OriginModelName (px_meta ctx) = mt_OriginModelName m0"
proof -
  obtain ot m1 where sel: "selectRequestTransform pf m0 = (ot, m1)" by (cases "selectRequestTransform pf m0")
  have o: "mt_OriginModelName m1 = mt_OriginModelName m0"
    using sel by (auto simp: selectRequestTransform_def model_Apply_origin split: option.splits)
  from assms obtain m2 r where m2: "routing_Apply (pe_url env) (pf_Routing pf) m1 = Inr m2"
    and r: "applyRequestTransform env (applyGeminiModelRewrite api (m2\<lparr>mt_BaseURL := normalizeUpstreamBaseURL (mt_BaseURL m2)\<rparr>)) call body rroot ot = Inr r"
    and ctx: "ctx = \<lparr>px_provider = provider, px_key = key, px_api = api, px_stream = stream, px_pf = pf,
      px_meta = (case rs_Caller r of
        None \<Rightarrow> applyGeminiModelRewrite api (m2\<lparr>mt_BaseURL := normalizeUpstreamBaseURL (mt_BaseURL m2)\<rparr>)
      | Some ob \<Rightarrow> (applyGeminiModelRewrite api (m2\<lparr>mt_BaseURL := normalizeUpstreamBaseURL (mt_BaseURL m2)\<rparr>))\<lparr>mt_RequestRoot := JObj ob\<rparr>),
      px_model = model, px_reqBody = rs_Body r, px_reqContentType = rs_ContentType r,
      px_respDir = response_Select (pf_Response pf) m0, px_reqTransform = ot\<rparr>" "pub = rs_Caller r"
    by (auto simp: prepare_call_def sel Let_def bind_res_eq_Inr split: if_splits)
  let ?m3 = "applyGeminiModelRewrite api (m2\<lparr>mt_BaseURL := normalizeUpstreamBaseURL (mt_BaseURL m2)\<rparr>)"
  have f: "mt_DSLModelMapped ?m3 = mt_DSLModelMapped m1" "mt_OriginModelName ?m3 = mt_OriginModelName m0"
    using gemini_rewrite_frame routing_Apply_frame[OF m2] o by simp_all
  show thesis
    by (rule that[OF sel m2 f r]) (simp_all add: ctx f split: option.split)
qed


section \<open>The model in the body\<close>

text \<open>A request phase without operations and without a request mapping; and one that maps no model either.\<close>

definition no_rewrites :: "'f request_transform \<Rightarrow> bool" where
  "no_rewrites t \<longleftrightarrow> rt_JSONOps t = [] \<and> rt_AfterReqMapJSONOps t = [] \<and> trim_space (rt_ReqMapMode t) = []"

definition no_model_map :: "'f request_transform \<Rightarrow> bool" where
  "no_model_map t \<longleftrightarrow> map_entries (rt_ModelMap t) = [] \<and> trim_space (rt_DefaultExpr t) = []"

definition phase_all :: "('f request_transform \<Rightarrow> bool) \<Rightarrow> 'f provider_request_transform \<Rightarrow> bool" where
  "phase_all P p \<longleftrightarrow> P (pt_Defaults p) \<and> list_all (\<lambda>m. P (mr_Transform m)) (pt_Matches p)"

lemma Select_all:
  assumes "request_Select p m = Some t" "phase_all P p"
    and merge: "\<And>a b. P a \<Longrightarrow> P b \<Longrightarrow> P (mergeRequestTransform a b)"
    and mode: "\<And>a. P a \<Longrightarrow> P (a\<lparr>rt_ReqMapMode := trim_space (rt_ReqMapMode a)\<rparr>)"
  shows "P t"
proof -
  have "P (mr_Transform b)" if "request_selectMatch (pt_Matches p) api stream = Some b" for b api stream
    using that assms(2) unfolding request_blocks.select_Some_iff phase_all_def by auto
  then show ?thesis
    using assms by (auto simp: request_Select_def phase_all_def Let_def split: if_splits option.splits)
qed

lemma Select_no_rewrites: "request_Select p m = Some t \<Longrightarrow> phase_all no_rewrites p \<Longrightarrow> no_rewrites t"
  by (erule (1) Select_all) (auto simp: no_rewrites_def mergeRequestTransform_def)

lemma Select_no_model_map: "request_Select p m = Some t \<Longrightarrow> phase_all no_model_map p \<Longrightarrow> no_model_map t"
  by (erule (1) Select_all) (auto simp: no_model_map_def mergeRequestTransform_def map_entries_def)

lemma run_ops_Nil: "run_ops oe [] out = Inr (False, out)"
  by (simp add: run_ops_def)

lemma transform_plain:
  assumes "transform_Apply env m hdrs ct (Some body) rroot t opts = Inr r" "no_rewrites t"
  shows "rs_Body r = Some body \<or> fst (map_model_root m rroot)"
proof -
  from assms(1) obtain oe out where
    "rewrite_request env oe t (trim_space ct) (Some body) (fst (map_model_root m rroot)) rroot out opts = Inr r"
    by (rule transform_Apply_Inr)
  with assms(2) show ?thesis
    by (auto simp: rewrite_request_def no_rewrites_def run_ops_Nil Let_def finish_plain_def split: option.splits if_splits)
qed

lemma model_Apply_identity:
  "no_model_map t \<Longrightarrow> mt_DSLModelMapped m = [] \<Longrightarrow> mt_DSLModelMapped (model_Apply t m) = mt_OriginModelName m"
  by (simp add: model_Apply_def no_model_map_def Let_def)

lemma overridden_model:
  assumes "trim_space (mt_DSLModelMapped m) = TokenModelOverride c" "TokenModelOverride c \<noteq> []"
  shows "\<not> fst (map_model_root m (call_root c rroot))"
  using assms
  by (auto simp: map_model_root_def map_model_def call_root_def override_model_def Let_def update_conv' split: option.splits)

text \<open>
  C24. The model a token forces does not reach the upstream: for a provider whose request phase has no
  operations, no request mapping and no model mapping, a call authenticated by a token with a model
  is prepared, authorised and billed for that model, and the body that is sent is the client's, byte for
  byte, whatever model it names.
\<close>
theorem token_model_not_forwarded:
  assumes "buildProxyCtx env registry c call provider key api stream = Inr (ctx, pub)"
    and "registry provider = Some pf" "readRequestBody (te_mime (pe_transform env)) call api = Inr (body, rroot, model)"
    and "TokenModelOverride c \<noteq> []" "phase_all no_rewrites (pf_Request pf)" "phase_all no_model_map (pf_Request pf)"
  shows "px_model ctx = TokenModelOverride c \<and> mt_OriginModelName (px_meta ctx) = TokenModelOverride c
    \<and> px_reqBody ctx = Some body"
proof -
  have pm: "proxy_model model (hc_Model call) c = TokenModelOverride c" using assms(4) by (simp add: proxy_model_def Let_def)
  from assms(1-3) obtain m0 where m0:
    "prepare_call env call provider key api stream pf body (call_root c rroot) (proxy_model model (hc_Model call) c) m0 = Inr (ctx, pub)"
    "mt_OriginModelName m0 = trim_space (proxy_model model (hc_Model call) c)" "mt_DSLModelMapped m0 = []"
    by (rule buildProxyCtx_prepares)
  from m0(1) show ?thesis
  proof (rule prepare_callE)
    fix ot m1 m2 m3 r
    assume p: "selectRequestTransform pf m0 = (ot, m1)" "mt_DSLModelMapped m3 = mt_DSLModelMapped m1"
      "applyRequestTransform env m3 call body (call_root c rroot) ot = Inr r"
      "px_model ctx = proxy_model model (hc_Model call) c" "px_reqBody ctx = rs_Body r" "mt_OriginModelName (px_meta ctx) = mt_OriginModelName m0"
    have "rs_Body r = Some body"
    proof (cases ot)
      case None
      with p(3) show ?thesis by (auto simp: applyRequestTransform_def Let_def)
    next
      case (Some t)
      with p(1) have t: "request_Select (pf_Request pf) m0 = Some t" "m1 = model_Apply t m0"
        by (auto simp: selectRequestTransform_def split: option.splits)
      have "trim_space (mt_DSLModelMapped m3) = TokenModelOverride c"
        using p(2) t(2) model_Apply_identity[OF Select_no_model_map[OF t(1) assms(6)] m0(3)] m0(2) pm by simp
      from overridden_model[OF this assms(4)] have "\<not> fst (map_model_root m3 (call_root c rroot))" .
      moreover from p(3) Some obtain hdrs ct opts where
        "transform_Apply (pe_transform env) m3 hdrs ct (Some body) (call_root c rroot) t opts = Inr r"
        by (auto simp: applyRequestTransform_def Let_def)
      ultimately show ?thesis using transform_plain[OF _ Select_no_rewrites[OF t(1) assms(5)]] by blast
    qed
    with p m0 pm show ?thesis by simp
  qed
qed

lemma transform_mapped:
  assumes "transform_Apply env m hdrs ct (Some body) (Some ob) t opts = Inr r" "no_rewrites t"
    and "\<not> IsMultipartFormData (te_mime env) (trim_space ct)"
  shows "rs_Body r = (if fst (map_model m ob) then te_Marshal env (snd (map_model m ob)) else Some body)"
proof -
  from assms(1) obtain oe out where rw:
    "rewrite_request env oe t (trim_space ct) (Some body) (fst (map_model_root m (Some ob))) (Some ob) out opts = Inr r"
    and root: "validated_root env m (trim_space ct) (Some body) (Some ob) t = Inr out"
    by (rule transform_Apply_Inr)
  have "out = Some (snd (map_model m ob))"
    using root assms(3) by (auto simp: validated_root_def applyInlineFiles_def map_model_root_def case_prod_beta Let_def split: if_splits)
  with rw assms(2,3) show ?thesis
    by (auto simp: rewrite_request_def no_rewrites_def run_ops_Nil Let_def finish_plain_def map_model_root_def case_prod_beta
        bind_res_eq_Inr dest!: marshalBody_Inr split: if_splits)
qed


section \<open>Examples\<close>

definition px_routing :: provider_routing where
  "px_routing = demo_routing\<lparr>pr_Matches := [demo_match\<lparr>rm_QueryPairs := [], rm_QueryDels := []\<rparr>]\<rparr>"

definition px_map :: "int request_transform" where
  "px_map = \<lparr>rt_ModelMap = Some [(''small'', [dq] @ ''big'' @ [dq])], rt_DefaultExpr = [], rt_ValidationRules = [], rt_InlineFiles = [],
     rt_JSONOps = [], rt_AfterReqMapJSONOps = [], rt_ReqMapMode = []\<rparr>"

definition px_file :: "int request_transform \<Rightarrow> int provider_file" where
  "px_file t = \<lparr>pf_Routing = px_routing, pf_Request = \<lparr>pt_Defaults = t, pt_Matches = []\<rparr>,
     pf_Response = \<lparr>ps_Defaults = \<lparr>rd_Op = [], rd_Mode = [], rd_SSECollectMode = [], rd_JSONOps = [], rd_SSEJSONDelIf = [],
       rd_BodyExtract = None, rd_ContentTypeRule = None, rd_SSEBinaryExtract = None, rd_InlineURL = None, rd_ErrorWhen = []\<rparr>, ps_Matches = []\<rparr>\<rparr>"

definition px_demo_env :: "int proxy_env" where
  "px_demo_env = \<lparr>pe_transform = video_env, pe_url = demo_url_ops, pe_ReadFile = (\<lambda>_. None), pe_ProjectID = (\<lambda>_. None)\<rparr>"

definition px_call :: http_call where
  "px_call = \<lparr>hc_CachedBody = Some ''bytes'', hc_CachedRoot = Some [(''model'', JStr ''small'')], hc_CachedModel = ''small'',
     hc_CachedContentType = ''application/json'', hc_Body = None, hc_Headers = [(''Content-Type'', [''application/json''])],
     hc_Path = ''/v1/chat'', hc_URI = ''/v1/chat'', hc_RawQuery = [], hc_Model = []\<rparr>"

definition px_key0 :: provider_key where
  "px_key0 = \<lparr>pk_Name = [], pk_Value = ''k'', pk_BaseURLOverride = [], pk_CredentialFile = [], pk_Location = [],
     pk_AWSAccessKeyID = [], pk_AWSSecretAccessKey = [], pk_AWSSessionToken = [], pk_AWSRegion = []\<rparr>"

definition px_gin :: "string \<Rightarrow> gin_ctx" where
  "px_gin forced = \<lparr>gc_Header = (\<lambda>_. []), gc_Principal = None, gc_Strings = [(''onr.token_model_override'', forced)]\<rparr>"

definition px_result :: "string \<Rightarrow> int request_transform \<Rightarrow> int proxy_ctx \<times> jobj option" where
  "px_result forced t = (case buildProxyCtx px_demo_env (\<lambda>_. Some (px_file t)) (px_gin forced) px_call ''p'' px_key0 ''chat.completions'' False of
     Inr x \<Rightarrow> x)"

theorem token_model_not_forwarded_witness:
  "px_model (fst (px_result ''forced'' (px_map\<lparr>rt_ModelMap := None\<rparr>))) = ''forced''
   \<and> px_reqBody (fst (px_result ''forced'' (px_map\<lparr>rt_ModelMap := None\<rparr>))) = Some ''bytes''"
proof -
  let ?t = "px_map\<lparr>rt_ModelMap := None\<rparr>"
  have run: "case buildProxyCtx px_demo_env (\<lambda>_. Some (px_file ?t)) (px_gin ''forced'') px_call ''p'' px_key0 ''chat.completions'' False of
      Inr _ \<Rightarrow> True | _ \<Rightarrow> False" by code_simp
  then have run': "buildProxyCtx px_demo_env (\<lambda>_. Some (px_file ?t)) (px_gin ''forced'') px_call ''p'' px_key0 ''chat.completions'' False
      = Inr (fst (px_result ''forced'' ?t), snd (px_result ''forced'' ?t))"
    by (auto simp: px_result_def split: sum.splits)
  have "readRequestBody (te_mime (pe_transform px_demo_env)) px_call ''chat.completions'' = Inr (''bytes'', Some [(''model'', JStr ''small'')], ''small'')"
    "TokenModelOverride (px_gin ''forced'') = ''forced''" "TokenModelOverride (px_gin ''forced'') \<noteq> []"
    "phase_all no_rewrites (pf_Request (px_file ?t))" "phase_all no_model_map (pf_Request (px_file ?t))"
    by code_simp+
  from token_model_not_forwarded[OF run' refl this(1,3,4,5)] this(2) show ?thesis by simp
qed

lemma px_run:
  "buildProxyCtx px_demo_env (\<lambda>_. Some (px_file px_map)) (px_gin []) px_call ''p'' px_key0 ''chat.completions'' False
     = Inr (fst (px_result [] px_map), snd (px_result [] px_map))"
proof -
  have "case buildProxyCtx px_demo_env (\<lambda>_. Some (px_file px_map)) (px_gin []) px_call ''p'' px_key0 ''chat.completions'' False of
      Inr _ \<Rightarrow> True | _ \<Rightarrow> False" by code_simp
  then show ?thesis by (auto simp: px_result_def split: sum.splits)
qed

lemma px_read: "readRequestBody (te_mime (pe_transform px_demo_env)) px_call ''chat.completions'' = Inr (''bytes'', Some [(''model'', JStr ''small'')], ''small'')"
  by code_simp



end
