(* ===== verification/Oauth_Config.thy ===== *)
theory Oauth_Config
  imports Dsl_Phases
begin

text \<open>
  The OAuth settings of provider configurations, \<^verbatim>\<open>onr-core/pkg/dslconfig/oauth.go\<close>, and the key under which
  the proxy caches a token, \<^verbatim>\<open>buildOAuthCacheKey\<close> of \<^verbatim>\<open>onr/internal/proxy/oauth.go\<close>.

  SHA-256, the credential files and the \<^verbatim>\<open>token_uri\<close> of a credential document are parameters (\<open>identity_ops\<close>).
  \<^verbatim>\<open>strconv.Quote\<close> is applied to the fixed texts of the built-in templates only, which are printable ASCII; there
  it adds quotes and escapes quotes and backslashes. A form is an association list with distinct keys.

  Shown: merging is associative with the empty configuration as its right unit, resolution gives
  normalised settings in which explicit form fields win, and a cache key determines the provider, the
  upstream key and everything of the settings that shapes a token request.
\<close>

section \<open>Configuration\<close>

record oauth_form_field =
  off_Key :: string
  off_ValueExpr :: string

record oauth_config =
  oc_Mode :: string
  oc_TokenURLExpr :: string
  oc_ClientIDExpr :: string
  oc_ClientSecretExpr :: string
  oc_RefreshTokenExpr :: string
  oc_ScopeExpr :: string
  oc_AudienceExpr :: string
  oc_Method :: string
  oc_ContentType :: string
  oc_TokenPath :: string
  oc_ExpiresInPath :: string
  oc_TokenTypePath :: string
  oc_TimeoutMs :: "int option"
  oc_RefreshSkewSec :: "int option"
  oc_FallbackTTLSeconds :: "int option"
  oc_Form :: "oauth_form_field list"

record resolved_oauth =
  ro_Mode :: string
  ro_TokenURL :: string
  ro_Method :: string
  ro_ContentType :: string
  ro_Form :: "(string \<times> string) list"
  ro_Scope :: string
  ro_BasicAuthUsername :: string
  ro_BasicAuthPassword :: string
  ro_CredentialFile :: string
  ro_CredentialJSON :: string
  ro_TokenPath :: string
  ro_ExpiresInPath :: string
  ro_TokenTypePath :: string
  ro_TimeoutMs :: int
  ro_RefreshSkewSec :: int
  ro_FallbackTTLSec :: int

definition oauth_IsEmpty :: "oauth_config \<Rightarrow> bool" where
  "oauth_IsEmpty c \<longleftrightarrow>
     trim_space (oc_Mode c) = [] \<and> trim_space (oc_TokenURLExpr c) = [] \<and>
     trim_space (oc_ClientIDExpr c) = [] \<and> trim_space (oc_ClientSecretExpr c) = [] \<and>
     trim_space (oc_RefreshTokenExpr c) = [] \<and> trim_space (oc_ScopeExpr c) = [] \<and>
     trim_space (oc_AudienceExpr c) = [] \<and> trim_space (oc_Method c) = [] \<and>
     trim_space (oc_ContentType c) = [] \<and> trim_space (oc_TokenPath c) = [] \<and>
     trim_space (oc_ExpiresInPath c) = [] \<and> trim_space (oc_TokenTypePath c) = [] \<and>
     oc_TimeoutMs c = None \<and> oc_RefreshSkewSec c = None \<and> oc_FallbackTTLSeconds c = None \<and>
     oc_Form c = []"

text \<open>An override that is not blank wins.\<close>

definition override_text :: "string \<Rightarrow> string \<Rightarrow> string" where
  "override_text base v = (if trim_space v \<noteq> [] then v else base)"

definition oauth_Merge :: "oauth_config \<Rightarrow> oauth_config \<Rightarrow> oauth_config" where
  "oauth_Merge c override =
     \<lparr>oc_Mode = override_text (oc_Mode c) (oc_Mode override),
      oc_TokenURLExpr = override_text (oc_TokenURLExpr c) (oc_TokenURLExpr override),
      oc_ClientIDExpr = override_text (oc_ClientIDExpr c) (oc_ClientIDExpr override),
      oc_ClientSecretExpr = override_text (oc_ClientSecretExpr c) (oc_ClientSecretExpr override),
      oc_RefreshTokenExpr = override_text (oc_RefreshTokenExpr c) (oc_RefreshTokenExpr override),
      oc_ScopeExpr = override_text (oc_ScopeExpr c) (oc_ScopeExpr override),
      oc_AudienceExpr = override_text (oc_AudienceExpr c) (oc_AudienceExpr override),
      oc_Method = override_text (oc_Method c) (oc_Method override),
      oc_ContentType = override_text (oc_ContentType c) (oc_ContentType override),
      oc_TokenPath = override_text (oc_TokenPath c) (oc_TokenPath override),
      oc_ExpiresInPath = override_text (oc_ExpiresInPath c) (oc_ExpiresInPath override),
      oc_TokenTypePath = override_text (oc_TokenTypePath c) (oc_TokenTypePath override),
      oc_TimeoutMs = override_opt (oc_TimeoutMs c) (oc_TimeoutMs override),
      oc_RefreshSkewSec = override_opt (oc_RefreshSkewSec c) (oc_RefreshSkewSec override),
      oc_FallbackTTLSeconds = override_opt (oc_FallbackTTLSeconds c) (oc_FallbackTTLSeconds override),
      oc_Form = oc_Form c @ oc_Form override\<rparr>"

section \<open>Built-in templates\<close>

record oauth_template =
  ot_TokenURL :: string
  ot_Method :: string
  ot_ContentType :: string
  ot_TokenPath :: string
  ot_ExpiresInPath :: string
  ot_TokenTypePath :: string
  ot_ClientID :: string
  ot_ClientSecret :: string
  ot_Scope :: string
  ot_Audience :: string
  ot_ClientSecretInForm :: bool
  ot_BasicAuthFromClientCreds :: bool
  ot_TimeoutMs :: int
  ot_RefreshSkewSec :: int
  ot_FallbackTTLSec :: int

definition oauthModeGoogleSA :: string where
  "oauthModeGoogleSA = ''google_service_account_file''"

definition custom_template :: oauth_template where
  "custom_template =
     \<lparr>ot_TokenURL = [], ot_Method = ''POST'', ot_ContentType = ''form'', ot_TokenPath = ''$.access_token'',
      ot_ExpiresInPath = ''$.expires_in'', ot_TokenTypePath = ''$.token_type'', ot_ClientID = [],
      ot_ClientSecret = [], ot_Scope = [], ot_Audience = [], ot_ClientSecretInForm = False,
      ot_BasicAuthFromClientCreds = False, ot_TimeoutMs = 5000, ot_RefreshSkewSec = 300, ot_FallbackTTLSec = 1800\<rparr>"

definition oauthBuiltinTemplates :: "(string \<times> oauth_template) list" where
  "oauthBuiltinTemplates =
     [(''openai'', custom_template\<lparr>ot_TokenURL := ''https://auth.openai.com/oauth/token'',
        ot_ClientID := ''app_EMoamEEZ73f0CkXaXp7hrann''\<rparr>),
      (''gemini'', custom_template\<lparr>ot_TokenURL := ''https://oauth2.googleapis.com/token'', ot_ClientSecretInForm := True\<rparr>),
      (''qwen'', custom_template\<lparr>ot_TokenURL := ''https://chat.qwen.ai/api/v1/oauth2/token'',
        ot_ClientID := ''f0304373b74a44d2b584a3fb70ca9e56''\<rparr>),
      (''claude'', custom_template\<lparr>ot_TokenURL := ''https://console.anthropic.com/v1/oauth/token'',
        ot_ContentType := ''json'', ot_ClientID := ''9d1c250a-e61b-44d9-88ed-5944d1962f5e''\<rparr>),
      (''iflow'', custom_template\<lparr>ot_TokenURL := ''https://iflow.cn/oauth/token'', ot_ClientID := ''10009311001'',
        ot_ClientSecretInForm := True, ot_BasicAuthFromClientCreds := True\<rparr>),
      (''antigravity'', custom_template\<lparr>ot_TokenURL := ''https://oauth2.googleapis.com/token'', ot_ClientSecretInForm := True\<rparr>),
      (''kimi'', custom_template\<lparr>ot_TokenURL := ''https://auth.kimi.com/api/oauth/token'',
        ot_ClientID := ''17e5f671-d194-4dfb-9706-5516cb48c098''\<rparr>),
      (oauthModeGoogleSA, custom_template\<lparr>ot_TokenURL := ''https://oauth2.googleapis.com/token''\<rparr>),
      (''custom'', custom_template)]"

section \<open>Resolution\<close>

definition go_quote :: "string \<Rightarrow> string" where
  "go_quote s = dq # concat (map (\<lambda>c. if c = dq \<or> c = bs then [bs, c] else [c]) s) @ [dq]"

definition quoteIfNeeded :: "string \<Rightarrow> string" where
  "quoteIfNeeded v =
     (let t = trim_space v in
      if t = [] then []
      else if has_prefix t [dq] \<and> has_suffix t [dq] then t
      else go_quote t)"

definition intOrDefault :: "int option \<Rightarrow> int \<Rightarrow> int" where
  "intOrDefault v d = (case v of None \<Rightarrow> d | Some i \<Rightarrow> i)"

definition template_of :: "string \<Rightarrow> oauth_template" where
  "template_of mode = (case map_of oauthBuiltinTemplates mode of Some t \<Rightarrow> t | None \<Rightarrow> custom_template)"

text \<open>The value of an expression that is set, or of the quoted text of the template.\<close>

definition eval_or :: "string \<Rightarrow> string \<Rightarrow> meta \<Rightarrow> string" where
  "eval_or expr alt meta = trim_space (EvalStringExpr (first_nonblank [expr, alt]) meta)"

definition put_nonempty :: "string \<Rightarrow> string \<Rightarrow> (string \<times> string) list \<Rightarrow> (string \<times> string) list" where
  "put_nonempty k v form = (if v \<noteq> [] then AList.update k v form else form)"

definition refresh_form :: "oauth_config \<Rightarrow> oauth_template \<Rightarrow> meta \<Rightarrow> (string \<times> string) list" where
  "refresh_form c tpl meta =
     (let refreshToken = eval_or (oc_RefreshTokenExpr c) ''$channel.key'' meta;
          clientID = eval_or (oc_ClientIDExpr c) (quoteIfNeeded (ot_ClientID tpl)) meta;
          clientSecret = eval_or (oc_ClientSecretExpr c) (quoteIfNeeded (ot_ClientSecret tpl)) meta;
          scope = eval_or (oc_ScopeExpr c) (quoteIfNeeded (ot_Scope tpl)) meta;
          audience = eval_or (oc_AudienceExpr c) (quoteIfNeeded (ot_Audience tpl)) meta in
      put_nonempty ''audience'' audience (put_nonempty ''scope'' scope
        (put_nonempty ''client_secret'' (if ot_ClientSecretInForm tpl then clientSecret else [])
          (put_nonempty ''client_id'' clientID (put_nonempty ''refresh_token'' refreshToken
            [(''grant_type'', ''refresh_token'')])))))"

fun put_fields :: "meta \<Rightarrow> oauth_form_field list \<Rightarrow> (string \<times> string) list \<Rightarrow> (string \<times> string) list" where
  "put_fields meta [] form = form"
| "put_fields meta (f # fs) form =
     (let k = trim_space (off_Key f) in
      put_fields meta fs
        (if k = [] then form else AList.update k (trim_space (EvalStringExpr (off_ValueExpr f) meta)) form))"

definition base_settings :: "oauth_config \<Rightarrow> oauth_template \<Rightarrow> string \<Rightarrow> meta \<Rightarrow> resolved_oauth" where
  "base_settings c tpl mode meta =
     \<lparr>ro_Mode = mode,
      ro_TokenURL = eval_or (oc_TokenURLExpr c) (quoteIfNeeded (ot_TokenURL tpl)) meta,
      ro_Method = to_upper (trim_space (first_nonblank [oc_Method c, ot_Method tpl])),
      ro_ContentType = to_lower (trim_space (first_nonblank [oc_ContentType c, ot_ContentType tpl])),
      ro_Form = [], ro_Scope = [], ro_BasicAuthUsername = [], ro_BasicAuthPassword = [],
      ro_CredentialFile = [], ro_CredentialJSON = [],
      ro_TokenPath = trim_space (first_nonblank [oc_TokenPath c, ot_TokenPath tpl]),
      ro_ExpiresInPath = trim_space (first_nonblank [oc_ExpiresInPath c, ot_ExpiresInPath tpl]),
      ro_TokenTypePath = trim_space (first_nonblank [oc_TokenTypePath c, ot_TokenTypePath tpl]),
      ro_TimeoutMs = intOrDefault (oc_TimeoutMs c) (ot_TimeoutMs tpl),
      ro_RefreshSkewSec = intOrDefault (oc_RefreshSkewSec c) (ot_RefreshSkewSec tpl),
      ro_FallbackTTLSec = intOrDefault (oc_FallbackTTLSeconds c) (ot_FallbackTTLSec tpl)\<rparr>"

text \<open>The part of the settings that depends on the kind of grant.\<close>

definition grant_settings :: "oauth_config \<Rightarrow> oauth_template \<Rightarrow> string \<Rightarrow> meta \<Rightarrow> resolved_oauth \<Rightarrow> resolved_oauth" where
  "grant_settings c tpl mode meta res =
     (if mode = ''custom'' then res
      else if mode = oauthModeGoogleSA then
        res\<lparr>ro_Scope := eval_or (oc_ScopeExpr c) (quoteIfNeeded (ot_Scope tpl)) meta,
            ro_CredentialFile := trim_space (mt_CredentialFile meta),
            ro_CredentialJSON := trim_space (mt_CredentialJSON meta)\<rparr>
      else
        let res1 = res\<lparr>ro_Form := refresh_form c tpl meta\<rparr> in
        if ot_BasicAuthFromClientCreds tpl then
          res1\<lparr>ro_BasicAuthUsername := eval_or (oc_ClientIDExpr c) (quoteIfNeeded (ot_ClientID tpl)) meta,
               ro_BasicAuthPassword := eval_or (oc_ClientSecretExpr c) (quoteIfNeeded (ot_ClientSecret tpl)) meta\<rparr>
        else res1)"

definition oauth_Resolve :: "oauth_config \<Rightarrow> meta \<Rightarrow> resolved_oauth option" where
  "oauth_Resolve c meta =
     (let mode = to_lower (trim_space (oc_Mode c)) in
      if mode = [] then None
      else
        let tpl = template_of mode;
            res = grant_settings c tpl mode meta (base_settings c tpl mode meta) in
        Some (res\<lparr>ro_Form := put_fields meta (oc_Form c) (ro_Form res)\<rparr>))"

section \<open>Identity\<close>

record identity_ops =
  io_sha256 :: "string \<Rightarrow> string"
  io_ReadFile :: "string \<Rightarrow> string option"
  io_TokenURI :: "string \<Rightarrow> string option"

definition hex_nibble :: "nat \<Rightarrow> char" where
  "hex_nibble n = char_of (if n < 10 then 48 + n else 87 + n)"

definition hex_encode :: "string \<Rightarrow> string" where
  "hex_encode s = concat (map (\<lambda>c. [hex_nibble (of_char c div 16), hex_nibble (of_char c mod 16)]) s)"

definition credential_raw :: "identity_ops \<Rightarrow> string \<Rightarrow> string \<Rightarrow> string" where
  "credential_raw ops filePath jsonContent =
     (if trim_space jsonContent \<noteq> [] then jsonContent
      else
        let path = trim_space filePath in
        if path = [] then [] else (case io_ReadFile ops path of None \<Rightarrow> [] | Some b \<Rightarrow> b))"

definition serviceAccountCredentialIdentity :: "identity_ops \<Rightarrow> string \<Rightarrow> string \<Rightarrow> string" where
  "serviceAccountCredentialIdentity ops filePath jsonContent =
     (let raw = credential_raw ops filePath jsonContent in
      if trim_space raw = [] then [] else hex_encode (io_sha256 ops raw))"

definition serviceAccountTokenURIForIdentity :: "identity_ops \<Rightarrow> string \<Rightarrow> string \<Rightarrow> string \<Rightarrow> string" where
  "serviceAccountTokenURIForIdentity ops filePath jsonContent fallback =
     (let raw = credential_raw ops filePath jsonContent in
      if trim_space raw = [] then trim_space fallback
      else
        case io_TokenURI ops raw of
          None \<Rightarrow> trim_space fallback
        | Some uri \<Rightarrow> if trim_space uri \<noteq> [] then trim_space uri else trim_space fallback)"

text \<open>The fields of the text that is hashed, which the code separates by bars.\<close>

definition form_parts :: "(string \<times> string) list \<Rightarrow> string list" where
  "form_parts form =
     map (\<lambda>k. k @ ''='' @ (case map_of form k of Some v \<Rightarrow> v | None \<Rightarrow> [])) (slice_stable bytes_less (map fst form))"

definition fixed_parts :: "resolved_oauth \<Rightarrow> string list" where
  "fixed_parts r =
     [to_lower (ro_Mode r), to_upper (ro_Method r), to_lower (ro_ContentType r), ro_TokenURL r,
      ro_BasicAuthUsername r, ro_BasicAuthPassword r, ro_TokenPath r, ro_ExpiresInPath r, ro_TokenTypePath r,
      int_text (ro_TimeoutMs r), int_text (ro_RefreshSkewSec r), int_text (ro_FallbackTTLSec r)]"

definition account_parts :: "identity_ops \<Rightarrow> resolved_oauth \<Rightarrow> string list" where
  "account_parts ops r =
     (if equal_fold (trim_space (ro_Mode r)) oauthModeGoogleSA then
        [''scope='' @ ro_Scope r,
         ''credential='' @ serviceAccountCredentialIdentity ops (ro_CredentialFile r) (ro_CredentialJSON r),
         ''token_uri='' @ serviceAccountTokenURIForIdentity ops (ro_CredentialFile r) (ro_CredentialJSON r) (ro_TokenURL r)]
      else [])"

definition identity_parts :: "identity_ops \<Rightarrow> resolved_oauth \<Rightarrow> string list" where
  "identity_parts ops r = fixed_parts r @ form_parts (ro_Form r) @ account_parts ops r"

definition CacheIdentity :: "identity_ops \<Rightarrow> resolved_oauth \<Rightarrow> string" where
  "CacheIdentity ops r = ''sha256:'' @ hex_encode (io_sha256 ops (str_join ''|'' (identity_parts ops r)))"

definition buildOAuthCacheKey :: "identity_ops \<Rightarrow> string \<Rightarrow> string \<Rightarrow> string \<Rightarrow> string" where
  "buildOAuthCacheKey ops provider identity apiKey =
     to_lower provider @ ''|'' @ trim_space identity @ ''|'' @ hex_encode (io_sha256 ops (trim_space apiKey))"

section \<open>Merging\<close>

lemma override_text_assoc: "override_text (override_text a b) c = override_text a (override_text b c)"
  by (simp add: override_text_def)

lemma override_opt_assoc: "override_opt (override_opt a b) c = override_opt a (override_opt b c)"
  by (cases c) (simp_all add: override_opt_def)

lemma oauth_Merge_assoc: "oauth_Merge (oauth_Merge a b) c = oauth_Merge a (oauth_Merge b c)"
  by (simp add: oauth_Merge_def override_text_assoc override_opt_assoc)

lemma oauth_Merge_empty: "oauth_IsEmpty e \<Longrightarrow> oauth_Merge c e = c"
  by (simp add: oauth_Merge_def oauth_IsEmpty_def override_text_def override_opt_def)

section \<open>Resolved settings\<close>

lemma put_nonempty_keys: "set (map fst (put_nonempty k v form)) \<subseteq> insert k (set (map fst form))"
  by (auto simp: put_nonempty_def dom_update)

lemma distinct_put_nonempty: "distinct (map fst form) \<Longrightarrow> distinct (map fst (put_nonempty k v form))"
  by (simp add: put_nonempty_def distinct_update)

lemma distinct_put_fields: "distinct (map fst form) \<Longrightarrow> distinct (map fst (put_fields meta fs form))"
  by (induction meta fs form rule: put_fields.induct) (simp add: Let_def distinct_update)+

lemma distinct_refresh_form: "distinct (map fst (refresh_form c tpl meta))"
  by (simp add: refresh_form_def Let_def distinct_put_nonempty)

text \<open>The last explicit field with a key, if the key is not blank.\<close>

definition explicit_field :: "meta \<Rightarrow> oauth_form_field list \<Rightarrow> string \<Rightarrow> string option" where
  "explicit_field meta fs k =
     (if k = [] then None
      else map_option (\<lambda>f. trim_space (EvalStringExpr (off_ValueExpr f) meta)) (List.find (\<lambda>f. trim_space (off_Key f) = k) (rev fs)))"

lemma find_append: "List.find P (xs @ ys) = (case List.find P xs of Some x \<Rightarrow> Some x | None \<Rightarrow> List.find P ys)"
  by (induction xs) auto

lemma map_of_put_fields:
  "map_of (put_fields meta fs form) k = (case explicit_field meta fs k of Some v \<Rightarrow> Some v | None \<Rightarrow> map_of form k)"
proof (induction meta fs form rule: put_fields.induct)
  case (2 meta f fs form)
  then show ?case
    by (auto simp: Let_def explicit_field_def find_append update_conv' split: option.split)
qed (simp add: explicit_field_def)

lemma grant_settings_frame:
  "fixed_parts (grant_settings c tpl mode meta r)
     = (fixed_parts r)[4 := ro_BasicAuthUsername (grant_settings c tpl mode meta r),
                       5 := ro_BasicAuthPassword (grant_settings c tpl mode meta r)]"
  by (simp add: grant_settings_def fixed_parts_def Let_def)

lemma to_upper_idem [simp]: "to_upper (to_upper s) = to_upper s"
proof -
  have "upper_byte (upper_byte c) = upper_byte c" for c
  proof -
    have "((of_char c :: nat) - 32) mod 256 = of_char c - 32" using nat_of_char_less_256[of c] by (intro mod_less) linarith
    then show ?thesis by (auto simp: upper_byte_def Let_def)
  qed
  then show ?thesis by (simp add: to_upper_def o_def)
qed

lemma ResolveE:
  assumes "oauth_Resolve c meta = Some r"
  obtains res where "res = grant_settings c (template_of (ro_Mode r)) (ro_Mode r) meta
      (base_settings c (template_of (ro_Mode r)) (ro_Mode r) meta)"
    "r = res\<lparr>ro_Form := put_fields meta (oc_Form c) (ro_Form res)\<rparr>" "ro_Mode r = to_lower (trim_space (oc_Mode c))"
proof -
  let ?m = "to_lower (trim_space (oc_Mode c))"
  let ?res = "grant_settings c (template_of ?m) ?m meta (base_settings c (template_of ?m) ?m meta)"
  from assms have r: "r = ?res\<lparr>ro_Form := put_fields meta (oc_Form c) (ro_Form ?res)\<rparr>"
    by (simp add: oauth_Resolve_def Let_def del: to_lower_Nil_iff split: if_splits)
  moreover have "ro_Mode ?res = ?m" by (simp add: grant_settings_def base_settings_def Let_def)
  ultimately have "ro_Mode r = ?m" by simp
  with r that show thesis by metis
qed

lemma Resolve_normal:
  assumes "oauth_Resolve c meta = Some r"
  shows "to_lower (ro_Mode r) = ro_Mode r" "trim_space (ro_Mode r) = ro_Mode r" "to_upper (ro_Method r) = ro_Method r"
    "to_lower (ro_ContentType r) = ro_ContentType r" "distinct (map fst (ro_Form r))"
    "ro_Mode r \<noteq> oauthModeGoogleSA \<Longrightarrow> ro_Scope r = []"
proof -
  from assms obtain res where res: "res = grant_settings c (template_of (ro_Mode r)) (ro_Mode r) meta
      (base_settings c (template_of (ro_Mode r)) (ro_Mode r) meta)"
    and r: "r = res\<lparr>ro_Form := put_fields meta (oc_Form c) (ro_Form res)\<rparr>" and mode: "ro_Mode r = to_lower (trim_space (oc_Mode c))"
    by (rule ResolveE)
  show "to_lower (ro_Mode r) = ro_Mode r" "trim_space (ro_Mode r) = ro_Mode r"
    by (simp_all add: mode trim_space_to_lower)
  have m: "ro_Method r = ro_Method res" "ro_ContentType r = ro_ContentType res" "ro_Scope r = ro_Scope res"
    "ro_Form r = put_fields meta (oc_Form c) (ro_Form res)"
    by (subst r, simp)+
  show "to_upper (ro_Method r) = ro_Method r" "to_lower (ro_ContentType r) = ro_ContentType r"
    unfolding m by (simp_all add: res grant_settings_def base_settings_def Let_def)
  have "distinct (map fst (ro_Form res))" by (simp add: res grant_settings_def base_settings_def Let_def distinct_refresh_form)
  then show "distinct (map fst (ro_Form r))" unfolding m by (rule distinct_put_fields)
  show "ro_Mode r \<noteq> oauthModeGoogleSA \<Longrightarrow> ro_Scope r = []"
    unfolding m by (simp add: res grant_settings_def base_settings_def Let_def)
qed

section \<open>Hexadecimal text\<close>

lemma hex_nibble_code: "n < 16 \<Longrightarrow> (of_char (hex_nibble n) :: nat) = (if n < 10 then 48 + n else 87 + n)"
  by (simp add: hex_nibble_def)

lemma hex_nibble_inj: "m < 16 \<Longrightarrow> n < 16 \<Longrightarrow> hex_nibble m = hex_nibble n \<Longrightarrow> m = n"
proof -
  assume mn: "m < 16" "n < 16" "hex_nibble m = hex_nibble n"
  from mn(3) have "(of_char (hex_nibble m) :: nat) = of_char (hex_nibble n)" by (rule arg_cong)
  with mn(1,2) show "m = n" by (auto simp: hex_nibble_code split: if_splits)
qed

lemma nibbles: "(of_char (c :: char) :: nat) div 16 < 16" "(of_char c :: nat) mod 16 < 16"
  using nat_of_char_less_256[of c] by (simp_all add: div_less_iff_less_mult)

lemma hex_encode_inj: "hex_encode s = hex_encode t \<Longrightarrow> s = t"
proof (induction s arbitrary: t)
  case Nil
  then show ?case by (cases t) (simp_all add: hex_encode_def)
next
  case (Cons a s)
  then obtain b t' where t: "t = b # t'" by (cases t) (simp_all add: hex_encode_def)
  have "hex_nibble (of_char a div 16) = hex_nibble (of_char b div 16)"
    "hex_nibble (of_char a mod 16) = hex_nibble (of_char b mod 16)" "hex_encode s = hex_encode t'"
    using Cons.prems t by (simp_all add: hex_encode_def)
  with nibbles hex_nibble_inj have "(of_char a :: nat) div 16 = of_char b div 16" "(of_char a :: nat) mod 16 = of_char b mod 16"
    by blast+
  then have "(of_char a :: nat) = of_char b" by (metis div_mult_mod_eq)
  with Cons.IH[OF \<open>hex_encode s = hex_encode t'\<close>] t show ?case by simp
qed

definition hex_char :: "char \<Rightarrow> bool" where
  "hex_char c \<longleftrightarrow> byte_in 48 57 c \<or> byte_in 97 102 c"

lemma hex_nibble_char: "n < 16 \<Longrightarrow> hex_char (hex_nibble n)"
  by (simp add: hex_char_def byte_in_def hex_nibble_code)

lemma hex_encode_chars: "list_all hex_char (hex_encode s)"
  by (induction s) (simp_all add: hex_encode_def hex_nibble_char nibbles)

lemma hex_char_visible: "hex_char c \<Longrightarrow> c \<noteq> CHR ''|'' \<and> \<not> digit7 c \<and> \<not> is_ascii_space c"
  by (auto simp: hex_char_def byte_in_def digit7_iff is_ascii_space_iff)

lemma hex_encode_no_bar [simp]: "CHR ''|'' \<notin> set (hex_encode s)"
  using hex_encode_chars[of s] hex_char_visible by (auto simp: list_all_iff)

lemma trim_sha_identity [simp]: "trim_space (''sha256:'' @ hex_encode s) = ''sha256:'' @ hex_encode s"
proof (rule trim_space_id)
  have "hex_encode s \<noteq> [] \<Longrightarrow> hex_char (last (hex_encode s))"
    using hex_encode_chars[of s] by (simp add: list_all_iff)
  then have *: "hex_encode s \<noteq> [] \<Longrightarrow> \<not> digit7 (last (hex_encode s)) \<and> \<not> is_ascii_space (last (hex_encode s))"
    using hex_char_visible by blast
  show "\<not> digit7 (last (''sha256:'' @ hex_encode s))" "\<not> is_ascii_space (last (''sha256:'' @ hex_encode s))"
    using * by (cases "hex_encode s = []"; simp add: is_ascii_space_def)+
qed (simp_all add: is_ascii_space_def)

section \<open>Cache keys\<close>

lemma join3: "str_join ''|'' [a, b, c] = a @ ''|'' @ b @ ''|'' @ c"
  by simp

lemma cache_key_parts:
  assumes "buildOAuthCacheKey ops p1 (CacheIdentity ops r1) k1 = buildOAuthCacheKey ops p2 (CacheIdentity ops r2) k2"
    and "CHR ''|'' \<notin> set (to_lower p1)" "CHR ''|'' \<notin> set (to_lower p2)"
  shows "to_lower p1 = to_lower p2" "CacheIdentity ops r1 = CacheIdentity ops r2"
    "io_sha256 ops (trim_space k1) = io_sha256 ops (trim_space k2)"
proof -
  let ?l = "\<lambda>p r k. [to_lower p, CacheIdentity ops r, hex_encode (io_sha256 ops (trim_space k))]"
  have key: "buildOAuthCacheKey ops p (CacheIdentity ops r) k = str_join ''|'' (?l p r k)" for p r k
    unfolding buildOAuthCacheKey_def CacheIdentity_def trim_sha_identity join3 ..
  have inv: "str_split (str_join ''|'' (?l p r k)) ''|'' = ?l p r k" if "CHR ''|'' \<notin> set (to_lower p)" for p r k
  proof (rule split_join)
    show "\<forall>x \<in> set (?l p r k). CHR ''|'' \<notin> set x" using that by (simp add: CacheIdentity_def)
  qed simp
  have "str_join ''|'' (?l p1 r1 k1) = str_join ''|'' (?l p2 r2 k2)" using assms(1) unfolding key .
  then have "?l p1 r1 k1 = ?l p2 r2 k2" using inv[OF assms(2), of r1 k1] inv[OF assms(3), of r2 k2] by simp
  then show "to_lower p1 = to_lower p2" "CacheIdentity ops r1 = CacheIdentity ops r2"
    "io_sha256 ops (trim_space k1) = io_sha256 ops (trim_space k2)"
    by (auto dest: hex_encode_inj)
qed

lemma int_text_inj: "int_text a = int_text b \<Longrightarrow> a = b"
proof -
  assume eq: "int_text a = int_text b"
  have i: "itoa m = itoa n \<Longrightarrow> m = n" for m n using itoa_digits[of m] itoa_digits[of n] by (metis of_nat_eq_iff)
  have "itoa n \<noteq> CHR ''-'' # s" for n s
    using itoa_digits[of n] by (auto simp: is_digit_def)
  note ne = this this[symmetric]
  show "a = b"
  proof (cases "a < 0"; cases "b < 0")
    assume "a < 0" "b < 0"
    with eq have "itoa (nat (- a)) = itoa (nat (- b))" by (simp add: int_text_def)
    with \<open>a < 0\<close> \<open>b < 0\<close> show ?thesis by (auto dest: i)
  next
    assume "\<not> a < 0" "\<not> b < 0"
    with eq have "itoa (nat a) = itoa (nat b)" by (simp add: int_text_def)
    with \<open>\<not> a < 0\<close> \<open>\<not> b < 0\<close> show ?thesis by (auto dest: i)
  qed (use eq ne in \<open>simp_all add: int_text_def\<close>)
qed

lemma key_value_inj:
  assumes "k1 @ ''='' @ v1 = k2 @ ''='' @ v2" "CHR ''='' \<notin> set k1" "CHR ''='' \<notin> set k2"
  shows "k1 = k2 \<and> v1 = v2"
proof -
  have "takeWhile (\<lambda>c. c \<noteq> CHR ''='') (k @ ''='' @ v) = k \<and> dropWhile (\<lambda>c. c \<noteq> CHR ''='') (k @ ''='' @ v) = ''='' @ v"
    if "CHR ''='' \<notin> set k" for k v :: string
    using that by (induction k) auto
  with assms have "k1 = k2" by metis
  with assms(1) show ?thesis by simp
qed

lemma form_parts_value:
  "x \<in> set (form_parts form) \<longleftrightarrow> (\<exists>k v. map_of form k = Some v \<and> x = k @ ''='' @ v)"
proof
  assume "x \<in> set (form_parts form)"
  then obtain k where "k \<in> fst ` set form" "x = k @ ''='' @ (case map_of form k of Some v \<Rightarrow> v | None \<Rightarrow> [])"
    by (auto simp: form_parts_def)
  then show "\<exists>k v. map_of form k = Some v \<and> x = k @ ''='' @ v" by (cases "map_of form k") (auto simp: map_of_eq_None_iff)
next
  assume "\<exists>k v. map_of form k = Some v \<and> x = k @ ''='' @ v"
  then obtain k v where kv: "map_of form k = Some v" "x = k @ ''='' @ v" by blast
  then have "k \<in> fst ` set form" by (metis domI dom_map_of_conv_image_fst)
  then have "(\<lambda>k. k @ ''='' @ (case map_of form k of Some v \<Rightarrow> v | None \<Rightarrow> [])) k \<in> set (form_parts form)"
    unfolding form_parts_def by (simp only: set_map set_slice_stable) (rule imageI)
  with kv show "x \<in> set (form_parts form)" by simp
qed

definition plain_form_keys :: "(string \<times> string) list \<Rightarrow> bool" where
  "plain_form_keys form \<longleftrightarrow> list_all (\<lambda>p. CHR ''='' \<notin> set (fst p)) form"

lemma form_parts_inj:
  assumes "form_parts f = form_parts g" "plain_form_keys f" "plain_form_keys g"
  shows "map_of f = map_of g"
proof -
  have key: "CHR ''='' \<notin> set k" if "map_of h k = Some v" "plain_form_keys h" for h k v
    using that map_of_SomeD by (fastforce simp: plain_form_keys_def list_all_iff)
  have sub: "map_of h k = Some v" if "set (form_parts g) \<subseteq> set (form_parts h)" "map_of g k = Some v"
      "plain_form_keys g" "plain_form_keys h" for g h k v
  proof -
    from that(1,2) form_parts_value[of "k @ ''='' @ v"] obtain k' v' where
      kv: "map_of h k' = Some v'" "k @ ''='' @ v = k' @ ''='' @ v'" by blast
    with key_value_inj[OF kv(2) key[OF that(2,3)] key[OF kv(1) that(4)]] show ?thesis by simp
  qed
  show ?thesis
  proof
    fix k
    show "map_of f k = map_of g k"
      using sub[of f g k] sub[of g f k] assms by (cases "map_of f k"; cases "map_of g k") auto
  qed
qed

text \<open>The settings that shape a token request, with the credential as the document it names.\<close>

definition same_token_request :: "identity_ops \<Rightarrow> resolved_oauth \<Rightarrow> resolved_oauth \<Rightarrow> bool" where
  "same_token_request ops r s \<longleftrightarrow>
     ro_Mode r = ro_Mode s \<and> ro_TokenURL r = ro_TokenURL s \<and> ro_Method r = ro_Method s \<and> ro_ContentType r = ro_ContentType s \<and>
     map_of (ro_Form r) = map_of (ro_Form s) \<and> ro_Scope r = ro_Scope s \<and>
     ro_BasicAuthUsername r = ro_BasicAuthUsername s \<and> ro_BasicAuthPassword r = ro_BasicAuthPassword s \<and>
     ro_TokenPath r = ro_TokenPath s \<and> ro_ExpiresInPath r = ro_ExpiresInPath s \<and> ro_TokenTypePath r = ro_TokenTypePath s \<and>
     ro_TimeoutMs r = ro_TimeoutMs s \<and> ro_RefreshSkewSec r = ro_RefreshSkewSec s \<and> ro_FallbackTTLSec r = ro_FallbackTTLSec s \<and>
     (ro_Mode r = oauthModeGoogleSA \<longrightarrow>
        credential_raw ops (ro_CredentialFile r) (ro_CredentialJSON r) = credential_raw ops (ro_CredentialFile s) (ro_CredentialJSON s) \<or>
        trim_space (credential_raw ops (ro_CredentialFile r) (ro_CredentialJSON r)) = [] \<and>
        trim_space (credential_raw ops (ro_CredentialFile s) (ro_CredentialJSON s)) = [])"

definition bar_free :: "identity_ops \<Rightarrow> resolved_oauth \<Rightarrow> bool" where
  "bar_free ops r \<longleftrightarrow> list_all (\<lambda>x. CHR ''|'' \<notin> set x) (identity_parts ops r) \<and> plain_form_keys (ro_Form r)"

text \<open>SHA-256 does not collide on the texts that are compared, and its sums are not empty.\<close>

definition no_collision :: "identity_ops \<Rightarrow> string \<Rightarrow> string \<Rightarrow> bool" where
  "no_collision ops s t \<longleftrightarrow> (io_sha256 ops s = io_sha256 ops t \<longrightarrow> s = t) \<and> io_sha256 ops s \<noteq> [] \<and> io_sha256 ops t \<noteq> []"

lemma identity_parts_eq:
  assumes "CacheIdentity ops r = CacheIdentity ops s" "bar_free ops r" "bar_free ops s"
    and "no_collision ops (str_join ''|'' (identity_parts ops r)) (str_join ''|'' (identity_parts ops s))"
  shows "identity_parts ops r = identity_parts ops s"
proof -
  from assms(1) have "io_sha256 ops (str_join ''|'' (identity_parts ops r)) = io_sha256 ops (str_join ''|'' (identity_parts ops s))"
    unfolding CacheIdentity_def by (auto dest: hex_encode_inj)
  with assms(4) have j: "str_join ''|'' (identity_parts ops r) = str_join ''|'' (identity_parts ops s)"
    by (simp only: no_collision_def)
  have "str_split (str_join ''|'' (identity_parts ops t)) ''|'' = identity_parts ops t" if "bar_free ops t" for t
    using that by (intro split_join) (auto simp: bar_free_def list_all_iff identity_parts_def fixed_parts_def)
  with j assms(2,3) show ?thesis by metis
qed

lemma account_parts_length:
  "ro_Mode r = ro_Mode s \<Longrightarrow> length (account_parts ops r) = length (account_parts ops s)"
  by (simp add: account_parts_def)

lemma parts_split:
  assumes "identity_parts ops r = identity_parts ops s" "to_lower (ro_Mode r) = ro_Mode r" "to_lower (ro_Mode s) = ro_Mode s"
  shows "fixed_parts r = fixed_parts s" "form_parts (ro_Form r) = form_parts (ro_Form s)" "account_parts ops r = account_parts ops s"
proof -
  have len: "length (fixed_parts r) = length (fixed_parts s)" by (simp add: fixed_parts_def)
  from assms(1) have rest: "fixed_parts r = fixed_parts s"
    "form_parts (ro_Form r) @ account_parts ops r = form_parts (ro_Form s) @ account_parts ops s"
    unfolding identity_parts_def append_eq_append_conv[OF disjI1[OF len]] by blast+
  then show "fixed_parts r = fixed_parts s" by simp
  from rest(1) assms(2,3) have "ro_Mode r = ro_Mode s" by (simp add: fixed_parts_def)
  then have "length (account_parts ops r) = length (account_parts ops s)" by (rule account_parts_length)
  with rest(2) show "form_parts (ro_Form r) = form_parts (ro_Form s)" "account_parts ops r = account_parts ops s"
    by simp_all
qed

lemma credential_identity_eq:
  assumes "serviceAccountCredentialIdentity ops f j = serviceAccountCredentialIdentity ops f' j'"
    and "no_collision ops (credential_raw ops f j) (credential_raw ops f' j')"
  shows "credential_raw ops f j = credential_raw ops f' j' \<or>
    trim_space (credential_raw ops f j) = [] \<and> trim_space (credential_raw ops f' j') = []"
proof -
  have ne: "hex_encode s \<noteq> []" if "s \<noteq> []" for s using that by (cases s) (simp_all add: hex_encode_def)
  show ?thesis
    using assms ne[of "io_sha256 ops (credential_raw ops f j)"] ne[of "io_sha256 ops (credential_raw ops f' j')"]
    by (auto simp: serviceAccountCredentialIdentity_def Let_def no_collision_def split: if_splits dest: hex_encode_inj)
qed

lemma account_parts_eq:
  assumes "account_parts ops r = account_parts ops s" "ro_Mode r = ro_Mode s" "trim_space (ro_Mode r) = ro_Mode r"
    and "ro_Mode r = oauthModeGoogleSA"
  shows "ro_Scope r = ro_Scope s"
    "serviceAccountCredentialIdentity ops (ro_CredentialFile r) (ro_CredentialJSON r) =
     serviceAccountCredentialIdentity ops (ro_CredentialFile s) (ro_CredentialJSON s)"
  using assms by (simp_all add: account_parts_def equal_fold_def)

text \<open>
  C31. A cache key stands for one token request: when two calls compute the same key, they are for the
  same provider and the same upstream key, and their resolved settings send the same token request,
  as far as SHA-256 does not collide. The settings must not contain bars, nor form keys equals signs,
  because the code joins the fields without escaping.
\<close>
theorem cache_key_determines_request:
  assumes "oauth_Resolve c1 m1 = Some r1" "oauth_Resolve c2 m2 = Some r2"
    and "buildOAuthCacheKey ops p1 (CacheIdentity ops r1) k1 = buildOAuthCacheKey ops p2 (CacheIdentity ops r2) k2"
    and "CHR ''|'' \<notin> set (to_lower p1)" "CHR ''|'' \<notin> set (to_lower p2)" "bar_free ops r1" "bar_free ops r2"
    and "no_collision ops (str_join ''|'' (identity_parts ops r1)) (str_join ''|'' (identity_parts ops r2))"
    and "no_collision ops (trim_space k1) (trim_space k2)"
    and "no_collision ops (credential_raw ops (ro_CredentialFile r1) (ro_CredentialJSON r1))
      (credential_raw ops (ro_CredentialFile r2) (ro_CredentialJSON r2))"
  shows "to_lower p1 = to_lower p2 \<and> trim_space k1 = trim_space k2 \<and> same_token_request ops r1 r2"
proof -
  note key = cache_key_parts[OF assms(3-5)]
  note n1 = Resolve_normal[OF assms(1)] and n2 = Resolve_normal[OF assms(2)]
  note eq = parts_split[OF identity_parts_eq[OF key(2) assms(6-8)] n1(1) n2(1)]
  from eq(1) have ints: "int_text (ro_TimeoutMs r1) = int_text (ro_TimeoutMs r2)"
    "int_text (ro_RefreshSkewSec r1) = int_text (ro_RefreshSkewSec r2)"
    "int_text (ro_FallbackTTLSec r1) = int_text (ro_FallbackTTLSec r2)"
    and mode: "ro_Mode r1 = ro_Mode r2"
    and rest: "ro_Method r1 = ro_Method r2 \<and> ro_ContentType r1 = ro_ContentType r2 \<and> ro_TokenURL r1 = ro_TokenURL r2 \<and>
      ro_BasicAuthUsername r1 = ro_BasicAuthUsername r2 \<and> ro_BasicAuthPassword r1 = ro_BasicAuthPassword r2 \<and>
      ro_TokenPath r1 = ro_TokenPath r2 \<and> ro_ExpiresInPath r1 = ro_ExpiresInPath r2 \<and> ro_TokenTypePath r1 = ro_TokenTypePath r2"
    by (simp_all add: fixed_parts_def n1 n2)
  have form: "map_of (ro_Form r1) = map_of (ro_Form r2)"
    using form_parts_inj[OF eq(2)] assms(6,7) by (simp add: bar_free_def)
  have scope: "ro_Scope r1 = ro_Scope r2"
    using account_parts_eq(1)[OF eq(3) mode n1(2)] n1(6) n2(6) mode by (cases "ro_Mode r1 = oauthModeGoogleSA") simp_all
  note cred = credential_identity_eq[OF account_parts_eq(2)[OF eq(3) mode n1(2)] assms(10)]
  from key(3) assms(9) have "trim_space k1 = trim_space k2" by (simp add: no_collision_def)
  with key(1) mode rest form scope cred ints[THEN int_text_inj] show ?thesis
    by (simp add: same_token_request_def)
qed

definition demo_oauth :: oauth_config where
  "demo_oauth =
     \<lparr>oc_Mode = '' Custom'', oc_TokenURLExpr = [dq] @ ''https://a/t'' @ [dq], oc_ClientIDExpr = [], oc_ClientSecretExpr = [],
      oc_RefreshTokenExpr = [], oc_ScopeExpr = [], oc_AudienceExpr = [], oc_Method = [], oc_ContentType = ''json'',
      oc_TokenPath = [], oc_ExpiresInPath = [], oc_TokenTypePath = [], oc_TimeoutMs = Some 7, oc_RefreshSkewSec = Some 5,
      oc_FallbackTTLSeconds = Some 9, oc_Form = [\<lparr>off_Key = ''key'', off_ValueExpr = ''$channel.key''\<rparr>]\<rparr>"

definition demo_resolved :: resolved_oauth where
  "demo_resolved =
     \<lparr>ro_Mode = ''custom'', ro_TokenURL = ''https://a/t'', ro_Method = ''POST'', ro_ContentType = ''json'',
      ro_Form = [(''key'', trim_space (mt_APIKey demo_meta))], ro_Scope = [], ro_BasicAuthUsername = [], ro_BasicAuthPassword = [],
      ro_CredentialFile = [], ro_CredentialJSON = [], ro_TokenPath = ''$.access_token'', ro_ExpiresInPath = ''$.expires_in'',
      ro_TokenTypePath = ''$.token_type'', ro_TimeoutMs = 7, ro_RefreshSkewSec = 5, ro_FallbackTTLSec = 9\<rparr>"

definition demo_identity :: identity_ops where
  "demo_identity = \<lparr>io_sha256 = (\<lambda>s. CHR ''h'' # s), io_ReadFile = (\<lambda>_. None), io_TokenURI = (\<lambda>_. None)\<rparr>"

lemma demo_no_collision: "no_collision demo_identity s t"
  by (simp add: no_collision_def demo_identity_def)

lemma demo_resolves: "oauth_Resolve demo_oauth demo_meta = Some demo_resolved"
  by code_simp

theorem cache_key_determines_request_witness:
  "to_lower ''OpenAI'' = to_lower ''openai'' \<and> trim_space '' k'' = trim_space ''k''
    \<and> same_token_request demo_identity demo_resolved demo_resolved"
proof -
  have b: "CHR ''|'' \<notin> set (to_lower ''OpenAI'')" "CHR ''|'' \<notin> set (to_lower ''openai'')" by code_simp+
  have f: "bar_free demo_identity demo_resolved" by code_simp
  have k: "buildOAuthCacheKey demo_identity ''OpenAI'' (CacheIdentity demo_identity demo_resolved) '' k'' =
      buildOAuthCacheKey demo_identity ''openai'' (CacheIdentity demo_identity demo_resolved) ''k''"
  proof -
    have "to_lower ''OpenAI'' = to_lower ''openai''" "trim_space '' k'' = trim_space ''k''" by code_simp+
    then show ?thesis by (simp only: buildOAuthCacheKey_def)
  qed
  show ?thesis
    by (rule cache_key_determines_request[OF demo_resolves demo_resolves k b f f demo_no_collision demo_no_collision demo_no_collision])
qed

end
