(* ===== verification/Oauth_Client.thy ===== *)
theory Oauth_Client
  imports Oauth_Config
begin

text \<open>
  The OAuth token client, \<^verbatim>\<open>onr-core/pkg/oauthclient/client.go\<close>: acquisition of tokens with a cache in memory,
  tokens persisted in files, and one token request at a time for each cache key.

  Go code that runs under the mutex is one step; everything between two critical sections, and every
  file access, is a step of its own, so that the interleavings of concurrent calls of \<^verbatim>\<open>GetToken\<close> are the
  sequences of steps of \<open>oauth_step\<close>. \<open>GetToken\<close> is the same code for a call that is not interfered with.
  A flight is an index into the list of all flights, as a Go pointer is an address. Times are nanoseconds;
  a \<^verbatim>\<open>time.Duration\<close> is a 64-bit integer.

  Parameters, in \<open>oauth_env\<close>: SHA-256, RSA and PEM, JSON coding, file names, credential files and floating-point
  numbers. \<open>world\<close> is what a step sees of its surroundings: the clock, the answer of the token endpoint
  and whether the file system accepts a write.
\<close>

section \<open>Data\<close>

record token =
  tk_AccessToken :: string
  tk_TokenType :: string
  tk_ExpiresAt :: int

record sa_credential =
  sa_ProjectID :: string
  sa_ClientEmail :: string
  sa_PrivateKey :: string
  sa_PrivateKeyID :: string
  sa_TokenURI :: string

record sa_info =
  si_ProjectID :: string
  si_ClientEmail :: string
  si_TokenURI :: string

record acquire_input =
  ai_CacheKey :: string
  ai_Mode :: string
  ai_TokenURL :: string
  ai_Method :: string
  ai_ContentType :: string
  ai_Form :: "(string \<times> string) list"
  ai_CredentialFile :: string
  ai_CredentialJSON :: string
  ai_Scope :: string
  ai_BasicAuthUsername :: string
  ai_BasicAuthPassword :: string
  ai_TokenPath :: string
  ai_ExpiresInPath :: string
  ai_TokenTypePath :: string
  ai_Timeout :: int
  ai_RefreshSkew :: int
  ai_FallbackTTL :: int

datatype oauth_error =
    CacheKeyEmpty
  | TokenURLEmpty
  | UnsupportedMethod string
  | SaMethod string
  | SaCredentialEmpty
  | SaCredentialUnreadable
  | SaCredentialInvalid
  | SaMissing string
  | SaScopeEmpty
  | SaKeyNotPem
  | SaKeyNotRSA
  | SaKeyInvalid
  | SaSignFails
  | TokenURLInvalid
  | EndpointFails
  | EndpointStatus int
  | EndpointNotJSON
  | TokenNotFound string

record flight =
  fl_done :: bool
  fl_token :: token
  fl_err :: "oauth_error option"

record client =
  cl_persistEnabled :: bool
  cl_persistDir :: string
  cl_cache :: "(string \<times> token) list"
  cl_inFlight :: "(string \<times> nat) list"
  cl_flights :: "flight list"
  cl_files :: "(string \<times> string) list"

record ('f, 'k) oauth_env =
  ov_sha256 :: "string \<Rightarrow> string"
  ov_ReadFile :: "string \<Rightarrow> string option"
  ov_Credential :: "string \<Rightarrow> sa_credential option"
  ov_PemDecode :: "string \<Rightarrow> string option"
  ov_PKCS8 :: "string \<Rightarrow> 'k option option"
  ov_PKCS1 :: "string \<Rightarrow> 'k option"
  ov_Sign :: "'k \<Rightarrow> string \<Rightarrow> string option"
  ov_Marshal :: "jobj \<Rightarrow> string"
  ov_Decode :: "string \<Rightarrow> jobj option"
  ov_url :: url_ops
  ov_Join :: "string \<Rightarrow> string \<Rightarrow> string"
  ov_PersistEnc :: "string \<times> string \<times> int \<Rightarrow> string"
  ov_PersistDec :: "string \<Rightarrow> (string \<times> string \<times> int) option"
  ov_float :: "'f float_ops"
  ov_zero :: 'f
  ov_add :: "'f \<Rightarrow> 'f \<Rightarrow> 'f"
  ov_int :: "'f \<Rightarrow> int"

record token_request =
  tr_Method :: string
  tr_URL :: string
  tr_Body :: "string option"
  tr_Header :: header

record world =
  wd_signed :: int
  wd_now :: int
  wd_Do :: "token_request \<Rightarrow> (int \<times> string) option"
  wd_writes :: bool

definition second_ns :: int where
  "second_ns = 1000000000"

section \<open>Service accounts\<close>

definition usesServiceAccount :: "acquire_input \<Rightarrow> bool" where
  "usesServiceAccount inp \<longleftrightarrow> equal_fold (trim_space (ai_Mode inp)) oauthModeGoogleSA"

definition parseServiceAccountCredential :: "('f, 'k) oauth_env \<Rightarrow> string \<Rightarrow> oauth_error + sa_credential" where
  "parseServiceAccountCredential env raw =
     (case ov_Credential env raw of
        None \<Rightarrow> Inl SaCredentialInvalid
      | Some cred \<Rightarrow>
          if trim_space (sa_ProjectID cred) = [] then Inl (SaMissing ''project_id'')
          else if trim_space (sa_ClientEmail cred) = [] then Inl (SaMissing ''client_email'')
          else if trim_space (sa_PrivateKey cred) = [] then Inl (SaMissing ''private_key'')
          else Inr cred)"

definition loadServiceAccountCredential :: "('f, 'k) oauth_env \<Rightarrow> string \<Rightarrow> string \<Rightarrow> oauth_error + sa_credential" where
  "loadServiceAccountCredential env filePath jsonContent =
     (let raw = trim_space jsonContent in
      if raw \<noteq> [] then parseServiceAccountCredential env raw
      else
        let path = trim_space filePath in
        if path = [] then Inl SaCredentialEmpty
        else
          case ov_ReadFile env path of
            None \<Rightarrow> Inl SaCredentialUnreadable
          | Some b \<Rightarrow> parseServiceAccountCredential env (trim_space b))"

definition LoadServiceAccountCredentialInfo :: "('f, 'k) oauth_env \<Rightarrow> string \<Rightarrow> string \<Rightarrow> oauth_error + sa_info" where
  "LoadServiceAccountCredentialInfo env filePath jsonContent =
     bind_res (loadServiceAccountCredential env filePath jsonContent) (\<lambda>cred.
       Inr \<lparr>si_ProjectID = trim_space (sa_ProjectID cred), si_ClientEmail = trim_space (sa_ClientEmail cred),
            si_TokenURI = trim_space (sa_TokenURI cred)\<rparr>)"

definition parseRSAPrivateKey :: "('f, 'k) oauth_env \<Rightarrow> string \<Rightarrow> oauth_error + 'k" where
  "parseRSAPrivateKey env raw =
     (case ov_PemDecode env raw of
        None \<Rightarrow> Inl SaKeyNotPem
      | Some block \<Rightarrow>
          (case ov_PKCS8 env block of
             Some (Some key) \<Rightarrow> Inr key
           | Some None \<Rightarrow> Inl SaKeyNotRSA
           | None \<Rightarrow> (case ov_PKCS1 env block of Some key \<Rightarrow> Inr key | None \<Rightarrow> Inl SaKeyInvalid)))"

definition jwt_header :: "sa_credential \<Rightarrow> jobj" where
  "jwt_header cred =
     [(''alg'', JStr ''RS256''), (''typ'', JStr ''JWT'')] @
     (let kid = trim_space (sa_PrivateKeyID cred) in if kid \<noteq> [] then [(''kid'', JStr kid)] else [])"

definition jwt_claims :: "sa_credential \<Rightarrow> string \<Rightarrow> string \<Rightarrow> int \<Rightarrow> jobj" where
  "jwt_claims cred scope audience now =
     [(''iss'', JStr (trim_space (sa_ClientEmail cred))), (''scope'', JStr (trim_space scope)),
      (''aud'', JStr (trim_space audience)), (''iat'', JInt (now div second_ns)),
      (''exp'', JInt ((now + 3600 * second_ns) div second_ns))]"

definition signServiceAccountJWT ::
    "('f, 'k) oauth_env \<Rightarrow> sa_credential \<Rightarrow> string \<Rightarrow> string \<Rightarrow> int \<Rightarrow> oauth_error + string" where
  "signServiceAccountJWT env cred scope audience now =
     bind_res (parseRSAPrivateKey env (sa_PrivateKey cred)) (\<lambda>key.
       let signingInput = b64_encode raw_url_encoding (ov_Marshal env (jwt_header cred)) @ ''.'' @
             b64_encode raw_url_encoding (ov_Marshal env (jwt_claims cred scope audience now)) in
       case ov_Sign env key (ov_sha256 env signingInput) of
         None \<Rightarrow> Inl SaSignFails
       | Some sig \<Rightarrow> Inr (signingInput @ ''.'' @ b64_encode raw_url_encoding sig))"

definition defaultGoogleTokenURI :: string where
  "defaultGoogleTokenURI = ''https://oauth2.googleapis.com/token''"

definition form_content_type :: string where
  "form_content_type = ''application/x-www-form-urlencoded''"

type_synonym request_body = "string option \<times> string \<times> (string \<times> string) list"

definition buildServiceAccountJWTBearerBody ::
    "('f, 'k) oauth_env \<Rightarrow> int \<Rightarrow> string \<Rightarrow> string \<Rightarrow> acquire_input \<Rightarrow> oauth_error + (request_body \<times> string)" where
  "buildServiceAccountJWTBearerBody env now method tokenURL inp =
     (if to_upper (trim_space method) \<noteq> ''POST'' then Inl (SaMethod method)
      else
        bind_res (loadServiceAccountCredential env (ai_CredentialFile inp) (ai_CredentialJSON inp)) (\<lambda>cred.
          let target = first_nonblank [trim_space (sa_TokenURI cred), trim_space tokenURL, defaultGoogleTokenURI];
              scope = trim_space (ai_Scope inp) in
          if scope = [] then Inl SaScopeEmpty
          else
            bind_res (signServiceAccountJWT env cred scope target now) (\<lambda>assertion.
              let values = query_Set ''assertion'' assertion
                    (query_Set ''grant_type'' ''urn:ietf:params:oauth:grant-type:jwt-bearer'' []) in
              Inr ((Some (query_Encode values), form_content_type, values), target))))"

section \<open>Request bodies\<close>

fun form_values :: "(string \<times> string) list \<Rightarrow> (string \<times> string) list \<Rightarrow> (string \<times> string) list" where
  "form_values [] vals = vals"
| "form_values ((k, v) # form) vals =
     (let key = trim_space k in form_values form (if key = [] then vals else query_Set key v vals))"

definition valuesToMap :: "(string \<times> string) list \<Rightarrow> jobj" where
  "valuesToMap vals = map (\<lambda>(k, v). (k, JStr v)) vals"

definition buildBody ::
    "('f, 'k) oauth_env \<Rightarrow> string \<Rightarrow> string \<Rightarrow> (string \<times> string) list \<Rightarrow> oauth_error + request_body" where
  "buildBody env method contentType form =
     (let m = to_upper (trim_space method);
          ct0 = to_lower (trim_space contentType);
          ct = (if ct0 = [] then ''form'' else ct0);
          vals = form_values form [] in
      if m = ''GET'' then Inr (None, [], vals)
      else if m = ''POST'' then
        (if ct = ''json'' then Inr (Some (ov_Marshal env (valuesToMap vals)), ''application/json'', vals)
         else Inr (Some (query_Encode vals), form_content_type, vals))
      else Inl (UnsupportedMethod method))"

definition buildOAuthRequestBody ::
    "('f, 'k) oauth_env \<Rightarrow> int \<Rightarrow> string \<Rightarrow> string \<Rightarrow> string \<Rightarrow> acquire_input \<Rightarrow> oauth_error + (request_body \<times> string)" where
  "buildOAuthRequestBody env now method contentType tokenURL inp =
     (if usesServiceAccount inp then buildServiceAccountJWTBearerBody env now method tokenURL inp
      else bind_res (buildBody env method contentType (ai_Form inp)) (\<lambda>b. Inr (b, tokenURL)))"

definition query_target :: "('f, 'k) oauth_env \<Rightarrow> string \<Rightarrow> (string \<times> string) list \<Rightarrow> string \<Rightarrow> oauth_error + string" where
  "query_target env method vals target =
     (if method = ''GET'' \<and> vals \<noteq> [] then
        (case uo_Parse (ov_url env) target of
           None \<Rightarrow> Inl TokenURLInvalid
         | Some u \<Rightarrow>
             Inr (uo_String (ov_url env) (u\<lparr>u_RawQuery :=
               query_Encode (fold (\<lambda>(k, v). query_Set k v) vals (query_values (u_RawQuery u)))\<rparr>)))
      else Inr target)"

definition basic_auth :: "string \<Rightarrow> string \<Rightarrow> string" where
  "basic_auth user pass = ''Basic '' @ b64_encode std_encoding (user @ '':'' @ pass)"

definition request_header :: "acquire_input \<Rightarrow> string \<Rightarrow> header" where
  "request_header inp contentType =
     (let h0 = hdr_Set ''Accept'' ''application/json'' [];
          h1 = (if contentType \<noteq> [] then hdr_Set ''Content-Type'' contentType h0 else h0) in
      if trim_space (ai_BasicAuthUsername inp) \<noteq> [] \<or> trim_space (ai_BasicAuthPassword inp) \<noteq> []
      then hdr_Set ''Authorization'' (basic_auth (ai_BasicAuthUsername inp) (ai_BasicAuthPassword inp)) h1 else h1)"

definition build_request :: "('f, 'k) oauth_env \<Rightarrow> int \<Rightarrow> acquire_input \<Rightarrow> oauth_error + token_request" where
  "build_request env now inp =
     (let method = to_upper (trim_space (ai_Method inp)) in
      bind_res (buildOAuthRequestBody env now method (to_lower (trim_space (ai_ContentType inp))) (trim_space (ai_TokenURL inp)) inp)
        (\<lambda>((body, contentType, vals), target0).
          bind_res (query_target env method vals target0) (\<lambda>target.
            if uo_Parse (ov_url env) target = None then Inl TokenURLInvalid
            else Inr \<lparr>tr_Method = method, tr_URL = target, tr_Body = body, tr_Header = request_header inp contentType\<rparr>)))"

section \<open>Responses\<close>

definition GetFloatByPath :: "('f, 'k) oauth_env \<Rightarrow> json \<Rightarrow> string \<Rightarrow> 'f" where
  "GetFloatByPath env rt path =
     (case GetValuesByPath rt path of
        None \<Rightarrow> ov_zero env
      | Some vals \<Rightarrow>
          foldl (\<lambda>sum v. ov_add env sum (case fo_CoerceFloatOK (ov_float env) v of Some f \<Rightarrow> f | None \<Rightarrow> ov_zero env))
            (ov_zero env) vals)"

text \<open>At most a mebibyte of the body is read.\<close>

definition read_mebibyte :: "string \<Rightarrow> string" where
  "read_mebibyte s = (if int (length s) \<le> 1048576 then s else take (nat 1048576) s)"

text \<open>\<^verbatim>\<open>time.Duration(expiresIn) * time.Second\<close> is 64-bit arithmetic.\<close>

definition lifetime :: "('f, 'k) oauth_env \<Rightarrow> json \<Rightarrow> acquire_input \<Rightarrow> int" where
  "lifetime env rt inp =
     (let e0 = ov_int env (GetFloatByPath env rt (first_nonblank [trim_space (ai_ExpiresInPath inp), ''$.expires_in'']));
          e1 = (if e0 \<le> 0 then ai_FallbackTTL inp div second_ns else e0);
          e2 = (if e1 \<le> 0 then 1800 else e1) in
      wrap64 (e2 * second_ns))"

definition parse_token :: "('f, 'k) oauth_env \<Rightarrow> int \<Rightarrow> acquire_input \<Rightarrow> string \<Rightarrow> oauth_error + token" where
  "parse_token env now inp body =
     (case ov_Decode env body of
        None \<Rightarrow> Inl EndpointNotJSON
      | Some ob \<Rightarrow>
          let tokenPath = first_nonblank [trim_space (ai_TokenPath inp), ''$.access_token''];
              typePath = first_nonblank [trim_space (ai_TokenTypePath inp), ''$.token_type''];
              access = trim_space (GetStringByPath (JObj ob) tokenPath);
              ty = trim_space (GetStringByPath (JObj ob) typePath) in
          if access = [] then Inl (TokenNotFound tokenPath)
          else Inr \<lparr>tk_AccessToken = access, tk_TokenType = (if ty = [] then ''Bearer'' else ty),
                    tk_ExpiresAt = now + lifetime env (JObj ob) inp\<rparr>)"

definition requestToken :: "('f, 'k) oauth_env \<Rightarrow> world \<Rightarrow> acquire_input \<Rightarrow> oauth_error + token" where
  "requestToken env w inp =
     bind_res (build_request env (wd_signed w) inp) (\<lambda>req.
       case wd_Do w req of
         None \<Rightarrow> Inl EndpointFails
       | Some (status, body) \<Rightarrow>
           if status < 200 \<or> status \<ge> 300 then Inl (EndpointStatus status)
           else parse_token env (wd_now w) inp (read_mebibyte body))"

section \<open>Cache and files\<close>

definition client_New :: "bool \<Rightarrow> string \<Rightarrow> (string \<times> string) list \<Rightarrow> client" where
  "client_New persistEnabled persistDir files =
     \<lparr>cl_persistEnabled = persistEnabled, cl_persistDir = trim_space persistDir, cl_cache = [], cl_inFlight = [],
      cl_flights = [], cl_files = files\<rparr>"

definition Invalidate :: "string \<Rightarrow> client \<Rightarrow> client" where
  "Invalidate cacheKey cl =
     (let key = trim_space cacheKey in
      if key = [] then cl else cl\<lparr>cl_cache := AList.delete key (cl_cache cl)\<rparr>)"

definition fresh_at :: "int \<Rightarrow> int \<Rightarrow> token \<Rightarrow> bool" where
  "fresh_at now skew tok \<longleftrightarrow> now + skew < tk_ExpiresAt tok"

definition getCachedValid :: "int \<Rightarrow> client \<Rightarrow> string \<Rightarrow> int \<Rightarrow> token option" where
  "getCachedValid now cl key skew =
     (case map_of (cl_cache cl) key of
        None \<Rightarrow> None
      | Some tok \<Rightarrow>
          if trim_space (tk_AccessToken tok) = [] then None
          else if fresh_at now skew tok then Some tok else None)"

definition persistPath :: "('f, 'k) oauth_env \<Rightarrow> client \<Rightarrow> string \<Rightarrow> string" where
  "persistPath env cl key =
     (let dir = trim_space (cl_persistDir cl) in
      if dir = [] then [] else ov_Join env dir (hex_encode (ov_sha256 env (trim_space key)) @ ''.json''))"

definition loadPersistedValid :: "('f, 'k) oauth_env \<Rightarrow> int \<Rightarrow> client \<Rightarrow> string \<Rightarrow> int \<Rightarrow> token option" where
  "loadPersistedValid env now cl key skew =
     (let path = persistPath env cl key in
      if path = [] then None
      else
        case map_of (cl_files cl) path of
          None \<Rightarrow> None
        | Some b \<Rightarrow>
            (case ov_PersistDec env b of
               None \<Rightarrow> None
             | Some (access, ty, expires) \<Rightarrow>
                 if trim_space access = [] \<or> expires \<le> 0 then None
                 else
                   let tok = \<lparr>tk_AccessToken = access, tk_TokenType = ty, tk_ExpiresAt = expires * second_ns\<rparr> in
                   if fresh_at now skew tok then Some tok else None))"

text \<open>A write that fails leaves at most a temporary file behind, which nothing reads.\<close>

definition savePersisted :: "('f, 'k) oauth_env \<Rightarrow> bool \<Rightarrow> string \<Rightarrow> token \<Rightarrow> client \<Rightarrow> client" where
  "savePersisted env writes key tok cl =
     (let path = persistPath env cl key in
      if path = [] \<or> \<not> writes then cl
      else cl\<lparr>cl_files := AList.update path
             (ov_PersistEnc env (tk_AccessToken tok, tk_TokenType tok, tk_ExpiresAt tok div second_ns)) (cl_files cl)\<rparr>)"

definition no_token :: token where
  "no_token = \<lparr>tk_AccessToken = [], tk_TokenType = [], tk_ExpiresAt = 0\<rparr>"

definition beginFlight :: "string \<Rightarrow> client \<Rightarrow> (nat \<times> bool) \<times> client" where
  "beginFlight key cl =
     (case map_of (cl_inFlight cl) key of
        Some f \<Rightarrow> ((f, False), cl)
      | None \<Rightarrow>
          let f = length (cl_flights cl) in
          ((f, True), cl\<lparr>cl_flights := cl_flights cl @ [\<lparr>fl_done = False, fl_token = no_token, fl_err = None\<rparr>],
                         cl_inFlight := AList.update key f (cl_inFlight cl)\<rparr>))"

text \<open>\<^verbatim>\<open>endFlight\<close> first removes the entry under the mutex, then closes the channel.\<close>

definition remove_flight :: "string \<Rightarrow> nat \<Rightarrow> client \<Rightarrow> client" where
  "remove_flight key f cl =
     (if map_of (cl_inFlight cl) key = Some f then cl\<lparr>cl_inFlight := AList.delete key (cl_inFlight cl)\<rparr> else cl)"

definition upd_flight :: "nat \<Rightarrow> (flight \<Rightarrow> flight) \<Rightarrow> client \<Rightarrow> client" where
  "upd_flight f g cl = cl\<lparr>cl_flights := (cl_flights cl)[f := g (cl_flights cl ! f)]\<rparr>"

definition close_flight :: "nat \<Rightarrow> client \<Rightarrow> client" where
  "close_flight f cl = upd_flight f (\<lambda>fl. fl\<lparr>fl_done := True\<rparr>) cl"

definition put_cache :: "string \<Rightarrow> token \<Rightarrow> client \<Rightarrow> client" where
  "put_cache key tok cl = cl\<lparr>cl_cache := AList.update key tok (cl_cache cl)\<rparr>"

definition flight_result :: "flight \<Rightarrow> oauth_error + token" where
  "flight_result fl = (case fl_err fl of Some e \<Rightarrow> Inl e | None \<Rightarrow> Inr (fl_token fl))"

section \<open>Acquisition\<close>

definition normalize_input :: "acquire_input \<Rightarrow> acquire_input" where
  "normalize_input inp =
     inp\<lparr>ai_Method := (if trim_space (ai_Method inp) = [] then ''POST'' else ai_Method inp),
         ai_Timeout := (if ai_Timeout inp \<le> 0 then 5 * second_ns else ai_Timeout inp),
         ai_RefreshSkew := (if ai_RefreshSkew inp < 0 then 0 else ai_RefreshSkew inp),
         ai_FallbackTTL := (if ai_FallbackTTL inp \<le> 0 then 1800 * second_ns else ai_FallbackTTL inp)\<rparr>"

definition check_input :: "acquire_input \<Rightarrow> oauth_error + (string \<times> acquire_input)" where
  "check_input inp =
     (let key = trim_space (ai_CacheKey inp) in
      if key = [] then Inl CacheKeyEmpty
      else if trim_space (ai_TokenURL inp) = [] \<and> \<not> usesServiceAccount inp then Inl TokenURLEmpty
      else Inr (key, normalize_input inp))"

text \<open>The flight of an owner: the request, the cache, the file, the result and the end.\<close>

definition fly :: "('f, 'k) oauth_env \<Rightarrow> world \<Rightarrow> string \<Rightarrow> acquire_input \<Rightarrow> nat \<Rightarrow> client \<Rightarrow> client \<times> (oauth_error + token)" where
  "fly env w key inp f cl =
     (case requestToken env w inp of
        Inl e \<Rightarrow>
          (close_flight f (remove_flight key f (upd_flight f (\<lambda>fl. fl\<lparr>fl_err := Some e\<rparr>) cl)), Inl e)
      | Inr tok \<Rightarrow>
          let cl1 = put_cache key tok cl;
              cl2 = (if cl_persistEnabled cl1 then savePersisted env (wd_writes w) key tok cl1 else cl1);
              cl3 = upd_flight f (\<lambda>fl. fl\<lparr>fl_token := tok\<rparr>) cl2 in
          (close_flight f (remove_flight key f cl3), Inr tok))"

text \<open>
  A call that no other call interferes with; \<open>None\<close> when it has to wait for the flight of another.
\<close>

definition GetToken :: "('f, 'k) oauth_env \<Rightarrow> world \<Rightarrow> client \<Rightarrow> acquire_input \<Rightarrow> (client \<times> (oauth_error + token)) option" where
  "GetToken env w cl inp0 =
     (case check_input inp0 of
        Inl e \<Rightarrow> Some (cl, Inl e)
      | Inr (key, inp) \<Rightarrow>
          (case getCachedValid (wd_now w) cl key (ai_RefreshSkew inp) of
             Some tok \<Rightarrow> Some (cl, Inr tok)
           | None \<Rightarrow>
               (case (if cl_persistEnabled cl then loadPersistedValid env (wd_now w) cl key (ai_RefreshSkew inp) else None) of
                  Some tok \<Rightarrow> Some (put_cache key tok cl, Inr tok)
                | None \<Rightarrow>
                    let ((f, owner), cl1) = beginFlight key cl in
                    if owner then Some (fly env w key inp f cl1)
                    else if fl_done (cl_flights cl1 ! f) then Some (cl1, flight_result (cl_flights cl1 ! f))
                    else None)))"

section \<open>Concurrent calls\<close>

datatype pc =
    CheckCache
  | LoadFile
  | StoreLoaded token
  | BeginFlight
  | Await nat
  | Request nat
  | StoreToken nat token
  | SaveToken nat token
  | Publish nat token
  | EndFlight nat "oauth_error + token"
  | CloseFlight nat "oauth_error + token"
  | Returned "oauth_error + token"

record call =
  ca_key :: string
  ca_in :: acquire_input
  ca_pc :: pc

definition goto :: "call \<Rightarrow> pc \<Rightarrow> call" where
  "goto c p = c\<lparr>ca_pc := p\<rparr>"

definition start_call :: "acquire_input \<Rightarrow> call" where
  "start_call inp0 =
     (case check_input inp0 of
        Inl e \<Rightarrow> \<lparr>ca_key = trim_space (ai_CacheKey inp0), ca_in = inp0, ca_pc = Returned (Inl e)\<rparr>
      | Inr (key, inp) \<Rightarrow> \<lparr>ca_key = key, ca_in = inp, ca_pc = CheckCache\<rparr>)"

text \<open>The next step of a call; \<open>None\<close> while it waits for a flight and once it has returned.\<close>

definition advance :: "('f, 'k) oauth_env \<Rightarrow> world \<Rightarrow> client \<Rightarrow> call \<Rightarrow> (client \<times> call) option" where
  "advance env w cl c =
     (let key = ca_key c; inp = ca_in c in
      case ca_pc c of
        CheckCache \<Rightarrow>
          Some (cl, goto c (case getCachedValid (wd_now w) cl key (ai_RefreshSkew inp) of
                              Some tok \<Rightarrow> Returned (Inr tok)
                            | None \<Rightarrow> if cl_persistEnabled cl then LoadFile else BeginFlight))
      | LoadFile \<Rightarrow>
          Some (cl, goto c (case loadPersistedValid env (wd_now w) cl key (ai_RefreshSkew inp) of
                              Some tok \<Rightarrow> StoreLoaded tok
                            | None \<Rightarrow> BeginFlight))
      | StoreLoaded tok \<Rightarrow> Some (put_cache key tok cl, goto c (Returned (Inr tok)))
      | BeginFlight \<Rightarrow>
          (let ((f, owner), cl') = beginFlight key cl in Some (cl', goto c (if owner then Request f else Await f)))
      | Await f \<Rightarrow>
          if fl_done (cl_flights cl ! f) then Some (cl, goto c (Returned (flight_result (cl_flights cl ! f)))) else None
      | Request f \<Rightarrow>
          (case requestToken env w inp of
             Inl e \<Rightarrow> Some (upd_flight f (\<lambda>fl. fl\<lparr>fl_err := Some e\<rparr>) cl, goto c (EndFlight f (Inl e)))
           | Inr tok \<Rightarrow> Some (cl, goto c (StoreToken f tok)))
      | StoreToken f tok \<Rightarrow>
          Some (put_cache key tok cl, goto c (if cl_persistEnabled cl then SaveToken f tok else Publish f tok))
      | SaveToken f tok \<Rightarrow> Some (savePersisted env (wd_writes w) key tok cl, goto c (Publish f tok))
      | Publish f tok \<Rightarrow> Some (upd_flight f (\<lambda>fl. fl\<lparr>fl_token := tok\<rparr>) cl, goto c (EndFlight f (Inr tok)))
      | EndFlight f r \<Rightarrow> Some (remove_flight key f cl, goto c (CloseFlight f r))
      | CloseFlight f r \<Rightarrow> Some (close_flight f cl, goto c (Returned r))
      | Returned r \<Rightarrow> None)"

text \<open>
  The whole system: the client, the calls that were made, the clock, and a record of the tokens that the
  token endpoint has issued, each with the cache key it was requested for.
\<close>

record system =
  sy_client :: client
  sy_calls :: "nat \<rightharpoonup> call"
  sy_now :: int
  sy_issued :: "(string \<times> string \<times> string) list"

definition issued_by :: "call \<Rightarrow> call \<Rightarrow> (string \<times> string \<times> string) list" where
  "issued_by c c' =
     (case (ca_pc c, ca_pc c') of
        (Request _, StoreToken _ tok) \<Rightarrow> [(ca_key c, tk_AccessToken tok, tk_TokenType tok)]
      | _ \<Rightarrow> [])"

inductive oauth_step :: "('f, 'k) oauth_env \<Rightarrow> system \<Rightarrow> system \<Rightarrow> bool" for env where
  enter: "sy_calls s i = None \<Longrightarrow> oauth_step env s (s\<lparr>sy_calls := (sy_calls s)(i \<mapsto> start_call inp)\<rparr>)"
| run: "sy_calls s i = Some c \<Longrightarrow> wd_now w = sy_now s \<Longrightarrow> wd_signed w \<le> sy_now s \<Longrightarrow>
     advance env w (sy_client s) c = Some (cl, c') \<Longrightarrow>
     oauth_step env s (s\<lparr>sy_client := cl, sy_calls := (sy_calls s)(i \<mapsto> c'), sy_issued := sy_issued s @ issued_by c c'\<rparr>)"
| invalidate: "oauth_step env s (s\<lparr>sy_client := Invalidate key (sy_client s)\<rparr>)"
| tick: "sy_now s \<le> now \<Longrightarrow> oauth_step env s (s\<lparr>sy_now := now\<rparr>)"

definition initial :: "system \<Rightarrow> bool" where
  "initial s \<longleftrightarrow> (\<exists>enabled dir files. sy_client s = client_New enabled dir files) \<and> sy_calls s = Map.empty"

inductive reach :: "('f, 'k) oauth_env \<Rightarrow> system \<Rightarrow> system \<Rightarrow> bool" for env s0 where
  reach_refl: "reach env s0 s0"
| reach_step: "reach env s0 s \<Longrightarrow> oauth_step env s t \<Longrightarrow> reach env s0 t"

section \<open>Own steps of a call\<close>

fun pc_rank :: "pc \<Rightarrow> nat" where
  "pc_rank CheckCache = 10"
| "pc_rank LoadFile = 9"
| "pc_rank (StoreLoaded _) = 1"
| "pc_rank BeginFlight = 8"
| "pc_rank (Await _) = 1"
| "pc_rank (Request _) = 7"
| "pc_rank (StoreToken _ _) = 6"
| "pc_rank (SaveToken _ _) = 5"
| "pc_rank (Publish _ _) = 4"
| "pc_rank (EndFlight _ _) = 3"
| "pc_rank (CloseFlight _ _) = 2"
| "pc_rank (Returned _) = 0"

lemma goto_simps [simp]: "ca_pc (goto c p) = p" "ca_key (goto c p) = ca_key c" "ca_in (goto c p) = ca_in c"
  by (simp_all add: goto_def)

lemma advance_rank: "advance env w cl c = Some (cl', c') \<Longrightarrow> pc_rank (ca_pc c') < pc_rank (ca_pc c)"
  by (auto simp: advance_def Let_def split: pc.splits option.splits sum.splits if_splits prod.splits)

lemma advance_keeps: "advance env w cl c = Some (cl', c') \<Longrightarrow> ca_key c' = ca_key c \<and> ca_in c' = ca_in c"
  by (auto simp: advance_def Let_def split: pc.splits option.splits sum.splits if_splits prod.splits)

lemma advance_stuck:
  "advance env w cl c = None \<longleftrightarrow>
     (\<exists>r. ca_pc c = Returned r) \<or> (\<exists>f. ca_pc c = Await f \<and> \<not> fl_done (cl_flights cl ! f))"
  by (auto simp: advance_def Let_def split: pc.splits option.splits sum.splits prod.splits)

text \<open>The flight a call owns: registered until \<open>EndFlight\<close> is done, open until \<open>CloseFlight\<close> is done.\<close>

fun owned :: "pc \<Rightarrow> nat option" where
  "owned (Request f) = Some f"
| "owned (StoreToken f _) = Some f"
| "owned (SaveToken f _) = Some f"
| "owned (Publish f _) = Some f"
| "owned (EndFlight f _) = Some f"
| "owned _ = None"

fun holds :: "pc \<Rightarrow> nat option" where
  "holds (CloseFlight f _) = Some f"
| "holds p = owned p"

lemma owned_holds: "owned p = Some f \<Longrightarrow> holds p = Some f"
  by (cases p) auto

section \<open>One flight for each key\<close>

text \<open>
  What the calls own (\<open>R\<close>, while registered), hold (\<open>H\<close>, until closed) and await (\<open>W\<close>), as pairs of a key and a
  flight, against the table of flights \<open>F\<close>, their number and which are closed.
\<close>

definition flights_ok ::
    "(nat \<rightharpoonup> string \<times> nat) \<Rightarrow> (nat \<rightharpoonup> string \<times> nat) \<Rightarrow> (nat \<rightharpoonup> string \<times> nat) \<Rightarrow> (string \<rightharpoonup> nat) \<Rightarrow> nat \<Rightarrow> (nat \<Rightarrow> bool) \<Rightarrow> bool" where
  "flights_ok R H W F n closed \<longleftrightarrow>
     (\<forall>i x. R i = Some x \<longrightarrow> H i = Some x) \<and>
     (\<forall>i k f. R i = Some (k, f) \<longrightarrow> F k = Some f) \<and>
     (\<forall>k f. F k = Some f \<longrightarrow> (\<exists>i. R i = Some (k, f))) \<and>
     (\<forall>i k f. H i = Some (k, f) \<longrightarrow> f < n \<and> \<not> closed f) \<and>
     (\<forall>i j k k' f. H i = Some (k, f) \<longrightarrow> H j = Some (k', f) \<longrightarrow> i = j) \<and>
     (\<forall>i k f. W i = Some (k, f) \<longrightarrow> f < n \<and> (closed f \<or> (\<exists>j. H j = Some (k, f))))"

lemma flights_okD:
  assumes "flights_ok R H W F n closed"
  shows "R i = Some x \<Longrightarrow> H i = Some x" "R i = Some (k, f) \<Longrightarrow> F k = Some f"
    "F k = Some f \<Longrightarrow> \<exists>i. R i = Some (k, f)" "H i = Some (k, f) \<Longrightarrow> f < n \<and> \<not> closed f"
    "H i = Some (k, f) \<Longrightarrow> H j = Some (k', f) \<Longrightarrow> i = j"
    "W i = Some (k, f) \<Longrightarrow> f < n \<and> (closed f \<or> (\<exists>j. H j = Some (k, f)))"
  using assms unfolding flights_ok_def by blast+

lemma flights_okI:
  assumes "\<And>i x. R i = Some x \<Longrightarrow> H i = Some x" "\<And>i k f. R i = Some (k, f) \<Longrightarrow> F k = Some f"
    "\<And>k f. F k = Some f \<Longrightarrow> \<exists>i. R i = Some (k, f)" "\<And>i k f. H i = Some (k, f) \<Longrightarrow> f < n \<and> \<not> closed f"
    "\<And>i j k k' f. H i = Some (k, f) \<Longrightarrow> H j = Some (k', f) \<Longrightarrow> i = j"
    "\<And>i k f. W i = Some (k, f) \<Longrightarrow> f < n \<and> (closed f \<or> (\<exists>j. H j = Some (k, f)))"
  shows "flights_ok R H W F n closed"
  using assms unfolding flights_ok_def by blast

lemma flights_open:
  assumes "flights_ok R H W F n closed" "F k = None" "H i = None" "\<And>g. g < n \<Longrightarrow> closed' g = closed g" "\<not> closed' n"
  shows "flights_ok (R(i \<mapsto> (k, n))) (H(i \<mapsto> (k, n))) W (F(k \<mapsto> n)) (Suc n) closed'"
proof (rule flights_okI)
  note D = flights_okD[OF assms(1)]
  show "(H(i \<mapsto> (k, n))) i' = Some x" if "(R(i \<mapsto> (k, n))) i' = Some x" for i' x
    using that D(1) by (auto split: if_splits)
  show "(F(k \<mapsto> n)) k' = Some f" if "(R(i \<mapsto> (k, n))) i' = Some (k', f)" for i' k' f
    using that D(2)[of i' k' f] assms(2) by (auto split: if_splits)
  show "\<exists>i'. (R(i \<mapsto> (k, n))) i' = Some (k', f)" if "(F(k \<mapsto> n)) k' = Some f" for k' f
  proof (cases "k' = k")
    case False
    with that D(3)[of k' f] obtain j where "R j = Some (k', f)" by auto
    moreover from this D(1) assms(3) have "j \<noteq> i" by fastforce
    ultimately show ?thesis by (intro exI[of _ j]) simp
  qed (use that in auto)
  show "f < Suc n \<and> \<not> closed' f" if "(H(i \<mapsto> (k, n))) i' = Some (k', f)" for i' k' f
    using that D(4)[of i' k' f] assms(4,5) by (auto split: if_splits)
  show "a = b" if "(H(i \<mapsto> (k, n))) a = Some (k1, f)" "(H(i \<mapsto> (k, n))) b = Some (k2, f)" for a b k1 k2 f
    using that D(5)[of a k1 f b k2] D(4)[of a k1 f] D(4)[of b k2 f] by (auto split: if_splits)
  show "f < Suc n \<and> (closed' f \<or> (\<exists>j. (H(i \<mapsto> (k, n))) j = Some (k', f)))" if "W i' = Some (k', f)" for i' k' f
  proof -
    from D(6)[OF that] have f: "f < n" "closed f \<or> (\<exists>j. H j = Some (k', f))" by auto
    then have "closed' f \<or> (\<exists>j. j \<noteq> i \<and> H j = Some (k', f))" using assms(3,4) by (metis option.distinct(1))
    with f(1) show ?thesis by auto
  qed
qed

lemma flights_wait:
  assumes "flights_ok R H W F n closed" "F k = Some f"
  shows "flights_ok R H (W(i \<mapsto> (k, f))) F n closed"
proof -
  note D = flights_okD[OF assms(1)]
  from D(3)[OF assms(2)] obtain j where "H j = Some (k, f)" using D(1) by blast
  with D(4) show ?thesis using D by (intro flights_okI) (auto split: if_splits)
qed

lemma flights_wake: "flights_ok R H W F n closed \<Longrightarrow> flights_ok R H (W(i := None)) F n closed"
  unfolding flights_ok_def by auto

lemma flights_unregister:
  assumes "flights_ok R H W F n closed" "R i = Some (k, f)"
  shows "flights_ok (R(i := None)) H W (F(k := None)) n closed"
proof -
  note D = flights_okD[OF assms(1)]
  have same: "j = i" if "R j = Some (k, g)" for j g
    using D(5)[OF D(1)[OF that] ] D(1)[OF assms(2)] D(2)[OF that] D(2)[OF assms(2)] by simp
  show ?thesis
  proof (rule flights_okI)
    show "H j = Some x" if "(R(i := None)) j = Some x" for j x using that D(1) by (auto split: if_splits)
    show "(F(k := None)) k' = Some g" if "(R(i := None)) j = Some (k', g)" for j k' g
      using that D(2)[of j k' g] same[of j g] by (auto split: if_splits)
    show "\<exists>j. (R(i := None)) j = Some (k', g)" if "(F(k := None)) k' = Some g" for k' g
    proof -
      from that have "k' \<noteq> k" "F k' = Some g" by (auto split: if_splits)
      from D(3)[OF this(2)] obtain j where "R j = Some (k', g)" by blast
      with assms(2) \<open>k' \<noteq> k\<close> show ?thesis by (intro exI[of _ j]) auto
    qed
  qed (use D in blast)+
qed

lemma flights_close:
  assumes "flights_ok R H W F n closed" "H i = Some (k, f)" "R i = None" "\<And>g. closed' g = (g = f \<or> closed g)"
  shows "flights_ok R (H(i := None)) W F n closed'"
proof -
  note D = flights_okD[OF assms(1)]
  show ?thesis
  proof (rule flights_okI)
    show "(H(i := None)) j = Some x" if "R j = Some x" for j x
      using that D(1) assms(3) by (cases "j = i") auto
    show "g < n \<and> \<not> closed' g" if "(H(i := None)) j = Some (k', g)" for j k' g
      using that D(4)[of j k' g] D(5)[OF assms(2), of j] assms(4) by (auto split: if_splits)
    show "a = b" if "(H(i := None)) a = Some (k1, g)" "(H(i := None)) b = Some (k2, g)" for a b k1 k2 g
      using that D(5) by (auto split: if_splits)
    show "g < n \<and> (closed' g \<or> (\<exists>j. (H(i := None)) j = Some (k', g)))" if "W j = Some (k', g)" for j k' g
    proof -
      from D(6)[OF that] consider "g < n" "closed g" | h where "g < n" "H h = Some (k', g)" by blast
      then show ?thesis
      proof cases
        case (2 h)
        then show ?thesis using assms(2,4) by (cases "h = i") auto
      qed (simp add: assms(4))
    qed
  qed (use D in blast)+
qed

section \<open>The invariant of the flights\<close>

definition regs :: "(nat \<rightharpoonup> call) \<Rightarrow> nat \<rightharpoonup> string \<times> nat" where
  "regs calls i = (case calls i of None \<Rightarrow> None | Some c \<Rightarrow> map_option (Pair (ca_key c)) (owned (ca_pc c)))"

definition holders :: "(nat \<rightharpoonup> call) \<Rightarrow> nat \<rightharpoonup> string \<times> nat" where
  "holders calls i = (case calls i of None \<Rightarrow> None | Some c \<Rightarrow> map_option (Pair (ca_key c)) (holds (ca_pc c)))"

fun awaited :: "pc \<Rightarrow> nat option" where
  "awaited (Await f) = Some f"
| "awaited _ = None"

definition waiters :: "(nat \<rightharpoonup> call) \<Rightarrow> nat \<rightharpoonup> string \<times> nat" where
  "waiters calls i = (case calls i of None \<Rightarrow> None | Some c \<Rightarrow> map_option (Pair (ca_key c)) (awaited (ca_pc c)))"

lemma role_upd [simp]:
  "regs (calls(i \<mapsto> c)) = (regs calls)(i := map_option (Pair (ca_key c)) (owned (ca_pc c)))"
  "holders (calls(i \<mapsto> c)) = (holders calls)(i := map_option (Pair (ca_key c)) (holds (ca_pc c)))"
  "waiters (calls(i \<mapsto> c)) = (waiters calls)(i := map_option (Pair (ca_key c)) (awaited (ca_pc c)))"
  by (auto simp: regs_def holders_def waiters_def)

lemma role_at:
  assumes "calls i = Some c"
  shows "regs calls i = map_option (Pair (ca_key c)) (owned (ca_pc c))"
    "holders calls i = map_option (Pair (ca_key c)) (holds (ca_pc c))"
    "waiters calls i = map_option (Pair (ca_key c)) (awaited (ca_pc c))"
  using assms by (simp_all add: regs_def holders_def waiters_def)

definition flight_closed :: "client \<Rightarrow> nat \<Rightarrow> bool" where
  "flight_closed cl f = fl_done (cl_flights cl ! f)"

definition flight_inv :: "client \<Rightarrow> (nat \<rightharpoonup> call) \<Rightarrow> bool" where
  "flight_inv cl calls \<longleftrightarrow>
     flights_ok (regs calls) (holders calls) (waiters calls) (map_of (cl_inFlight cl)) (length (cl_flights cl)) (flight_closed cl)"

lemma flight_inv_quiet:
  assumes "flight_inv cl calls" "calls i = Some c" "ca_key c' = ca_key c"
    and "map_of (cl_inFlight cl') = map_of (cl_inFlight cl)" "length (cl_flights cl') = length (cl_flights cl)"
    and "flight_closed cl' = flight_closed cl"
    and "owned (ca_pc c') = owned (ca_pc c)" "holds (ca_pc c') = holds (ca_pc c)" "awaited (ca_pc c') = awaited (ca_pc c)"
  shows "flight_inv cl' (calls(i \<mapsto> c'))"
proof -
  have "(regs calls)(i := map_option (Pair (ca_key c)) (owned (ca_pc c))) = regs calls"
    "(holders calls)(i := map_option (Pair (ca_key c)) (holds (ca_pc c))) = holders calls"
    "(waiters calls)(i := map_option (Pair (ca_key c)) (awaited (ca_pc c))) = waiters calls"
    unfolding role_at[where calls = calls and i = i, OF assms(2), symmetric] by (rule fun_upd_triv)+
  with assms show ?thesis unfolding flight_inv_def role_upd by simp
qed

lemma flight_closed_upd:
  "flight_closed (upd_flight f g cl) h =
     (if h = f \<and> f < length (cl_flights cl) then fl_done (g (cl_flights cl ! f)) else flight_closed cl h)"
  by (cases "f < length (cl_flights cl)"; cases "h = f") (simp_all add: flight_closed_def upd_flight_def list_update_beyond)

lemma flight_closed_keep:
  "(\<And>fl. fl_done (g fl) = fl_done fl) \<Longrightarrow> flight_closed (upd_flight f g cl) = flight_closed cl"
  by (rule ext) (simp add: flight_closed_upd, simp add: flight_closed_def)

lemma client_frames [simp]:
  "cl_inFlight (put_cache k t cl) = cl_inFlight cl" "cl_flights (put_cache k t cl) = cl_flights cl"
  "cl_files (put_cache k t cl) = cl_files cl" "cl_persistDir (put_cache k t cl) = cl_persistDir cl"
  "cl_persistEnabled (put_cache k t cl) = cl_persistEnabled cl"
  "cl_inFlight (savePersisted env b k t cl) = cl_inFlight cl" "cl_flights (savePersisted env b k t cl) = cl_flights cl"
  "cl_cache (savePersisted env b k t cl) = cl_cache cl" "cl_persistDir (savePersisted env b k t cl) = cl_persistDir cl"
  "cl_inFlight (upd_flight f g cl) = cl_inFlight cl" "length (cl_flights (upd_flight f g cl)) = length (cl_flights cl)"
  "cl_cache (upd_flight f g cl) = cl_cache cl" "cl_files (upd_flight f g cl) = cl_files cl"
  "cl_persistDir (upd_flight f g cl) = cl_persistDir cl" "cl_persistEnabled (upd_flight f g cl) = cl_persistEnabled cl"
  "cl_flights (remove_flight k f cl) = cl_flights cl" "cl_cache (remove_flight k f cl) = cl_cache cl"
  "cl_files (remove_flight k f cl) = cl_files cl" "cl_persistDir (remove_flight k f cl) = cl_persistDir cl"
  "cl_inFlight (Invalidate k cl) = cl_inFlight cl" "cl_flights (Invalidate k cl) = cl_flights cl"
  "cl_files (Invalidate k cl) = cl_files cl" "cl_persistDir (Invalidate k cl) = cl_persistDir cl"
  by (simp_all add: put_cache_def savePersisted_def upd_flight_def remove_flight_def Invalidate_def Let_def)

lemma flight_closed_frames [simp]:
  "flight_closed (put_cache k t cl) = flight_closed cl" "flight_closed (savePersisted env b k t cl) = flight_closed cl"
  "flight_closed (remove_flight k f cl) = flight_closed cl" "flight_closed (Invalidate k cl) = flight_closed cl"
  by (simp_all add: flight_closed_def fun_eq_iff)

lemma begin_flight_inv:
  assumes "flight_inv cl calls" "calls i = Some c" "ca_pc c = BeginFlight" "beginFlight (ca_key c) cl = ((f, owner), cl')"
  shows "flight_inv cl' (calls(i \<mapsto> goto c (if owner then Request f else Await f)))"
proof -
  note ok = assms(1)[unfolded flight_inv_def] and at = role_at[where calls = calls and i = i, OF assms(2), unfolded assms(3), simplified]
  show ?thesis
  proof (cases "map_of (cl_inFlight cl) (ca_key c)")
    case None
    with assms(4) have f: "f = length (cl_flights cl)" "owner"
      and cl': "cl_inFlight cl' = AList.update (ca_key c) f (cl_inFlight cl)"
        "cl_flights cl' = cl_flights cl @ [\<lparr>fl_done = False, fl_token = no_token, fl_err = None\<rparr>]"
      by (auto simp: beginFlight_def Let_def)
    have closed: "flight_closed cl' g = flight_closed cl g" if "g < f" for g
      using that by (simp add: flight_closed_def cl' f nth_append)
    have "\<not> flight_closed cl' f" by (simp add: flight_closed_def cl' f nth_append)
    from flights_open[OF ok None at(2) closed[unfolded f] this[unfolded f]] f cl'
    show ?thesis unfolding flight_inv_def role_upd using at(3) fun_upd_triv[of "waiters calls" i]
      by (simp add: update_conv')
  next
    case (Some g)
    with assms(4) have *: "f = g" "\<not> owner" "cl' = cl" by (auto simp: beginFlight_def)
    from flights_wait[OF ok Some, of i] show ?thesis
      unfolding flight_inv_def role_upd using * at fun_upd_triv[of "regs calls" i] fun_upd_triv[of "holders calls" i] by simp
  qed
qed

lemma end_flight_inv:
  assumes "flight_inv cl calls" "calls i = Some c" "ca_pc c = EndFlight f r"
  shows "flight_inv (remove_flight (ca_key c) f cl) (calls(i \<mapsto> goto c (CloseFlight f r)))"
proof -
  note ok = assms(1)[unfolded flight_inv_def] and at = role_at[where calls = calls and i = i, OF assms(2), unfolded assms(3), simplified]
  have "map_of (cl_inFlight cl) (ca_key c) = Some f" by (rule flights_okD(2)[OF ok at(1)])
  with flights_unregister[OF ok at(1)] at(2,3) show ?thesis
    unfolding flight_inv_def role_upd using fun_upd_triv[of "holders calls" i] fun_upd_triv[of "waiters calls" i]
    by (simp add: remove_flight_def delete_conv' flight_closed_def[abs_def])
qed

lemma close_flight_inv:
  assumes "flight_inv cl calls" "calls i = Some c" "ca_pc c = CloseFlight f r"
  shows "flight_inv (close_flight f cl) (calls(i \<mapsto> goto c (Returned r)))"
proof -
  note ok = assms(1)[unfolded flight_inv_def] and at = role_at[where calls = calls and i = i, OF assms(2), unfolded assms(3), simplified]
  from flights_okD(4)[OF ok at(2)] have "f < length (cl_flights cl)" by blast
  then have "flight_closed (close_flight f cl) g = (g = f \<or> flight_closed cl g)" for g
    by (simp add: close_flight_def flight_closed_upd)
  from flights_close[OF ok at(2,1) this] show ?thesis
    unfolding flight_inv_def role_upd using at fun_upd_triv[of "regs calls" i] fun_upd_triv[of "waiters calls" i]
    by (simp add: close_flight_def)
qed

lemma wake_inv:
  assumes "flight_inv cl calls" "calls i = Some c" "ca_pc c = Await f"
  shows "flight_inv cl (calls(i \<mapsto> goto c (Returned r)))"
proof -
  note ok = assms(1)[unfolded flight_inv_def] and at = role_at[where calls = calls and i = i, OF assms(2), unfolded assms(3), simplified]
  from flights_wake[OF ok, of i] show ?thesis
    unfolding flight_inv_def role_upd using at fun_upd_triv[of "regs calls" i] fun_upd_triv[of "holders calls" i] by simp
qed

lemma advance_flight_inv:
  assumes inv: "flight_inv cl calls" and c: "calls i = Some c" and adv: "advance env w cl c = Some (cl', c')"
  shows "flight_inv cl' (calls(i \<mapsto> c'))"
proof (cases "ca_pc c")
  case BeginFlight
  then show ?thesis
    using adv begin_flight_inv[OF inv c BeginFlight] by (auto simp: advance_def Let_def split: prod.splits)
next
  case (EndFlight f r)
  then show ?thesis using adv end_flight_inv[OF inv c EndFlight] by (auto simp: advance_def)
next
  case (CloseFlight f r)
  then show ?thesis using adv close_flight_inv[OF inv c CloseFlight] by (auto simp: advance_def)
next
  case (Await f)
  then show ?thesis using adv wake_inv[OF inv c Await] by (auto simp: advance_def split: if_splits)
qed (use adv in \<open>auto simp: advance_def Let_def flight_closed_keep intro!: flight_inv_quiet[OF inv c] split: option.splits sum.splits\<close>)

lemma initial_flight_inv: "initial s \<Longrightarrow> flight_inv (sy_client s) (sy_calls s)"
  by (auto simp: initial_def client_New_def flight_inv_def flights_ok_def regs_def holders_def waiters_def)

lemma enter_flight_inv:
  assumes "flight_inv cl calls" "calls i = None"
  shows "flight_inv cl (calls(i \<mapsto> start_call inp))"
proof -
  have "owned (ca_pc (start_call inp)) = None" "holds (ca_pc (start_call inp)) = None" "awaited (ca_pc (start_call inp)) = None"
    by (simp_all add: start_call_def split: sum.split prod.split)
  moreover have "regs calls i = None" "holders calls i = None" "waiters calls i = None"
    using assms(2) by (simp_all add: regs_def holders_def waiters_def)
  ultimately show ?thesis
    using assms(1) fun_upd_triv[of "regs calls" i] fun_upd_triv[of "holders calls" i] fun_upd_triv[of "waiters calls" i]
    unfolding flight_inv_def role_upd by simp
qed

lemma step_flight_inv: "oauth_step env s t \<Longrightarrow> flight_inv (sy_client s) (sy_calls s) \<Longrightarrow> flight_inv (sy_client t) (sy_calls t)"
proof (induction rule: oauth_step.induct)
  case (enter s i inp)
  with enter_flight_inv[of "sy_client s" "sy_calls s" i inp] show ?case by (simp add: fun_upd_def)
next
  case (run s i c w cl c')
  with advance_flight_inv[of "sy_client s" "sy_calls s" i c env w cl c'] show ?case by (simp add: fun_upd_def)
next
  case (invalidate s key)
  then show ?case by (simp add: flight_inv_def)
qed simp

lemma reach_flight_inv: "reach env s0 s \<Longrightarrow> initial s0 \<Longrightarrow> flight_inv (sy_client s) (sy_calls s)"
  by (induction rule: reach.induct) (auto intro: initial_flight_inv step_flight_inv)

section \<open>The invariant of the results\<close>

definition tok_ok :: "(string \<times> string \<times> string) list \<Rightarrow> string \<Rightarrow> token \<Rightarrow> bool" where
  "tok_ok issued key tok \<longleftrightarrow>
     trim_space (tk_AccessToken tok) \<noteq> [] \<and> (key, tk_AccessToken tok, tk_TokenType tok) \<in> set issued"

definition res_ok :: "(string \<times> string \<times> string) list \<Rightarrow> string \<Rightarrow> oauth_error + token \<Rightarrow> bool" where
  "res_ok issued key r \<longleftrightarrow> (\<forall>tok. r = Inr tok \<longrightarrow> tok_ok issued key tok)"

fun pc_ok :: "client \<Rightarrow> (string \<times> string \<times> string) list \<Rightarrow> string \<Rightarrow> pc \<Rightarrow> bool" where
  "pc_ok cl issued key (StoreLoaded tok) \<longleftrightarrow> tok_ok issued key tok"
| "pc_ok cl issued key (Await f) \<longleftrightarrow> (flight_closed cl f \<longrightarrow> res_ok issued key (flight_result (cl_flights cl ! f)))"
| "pc_ok cl issued key (Request f) \<longleftrightarrow> fl_err (cl_flights cl ! f) = None"
| "pc_ok cl issued key (StoreToken f tok) \<longleftrightarrow> fl_err (cl_flights cl ! f) = None \<and> tok_ok issued key tok"
| "pc_ok cl issued key (SaveToken f tok) \<longleftrightarrow> fl_err (cl_flights cl ! f) = None \<and> tok_ok issued key tok"
| "pc_ok cl issued key (Publish f tok) \<longleftrightarrow> fl_err (cl_flights cl ! f) = None \<and> tok_ok issued key tok"
| "pc_ok cl issued key (EndFlight f r) \<longleftrightarrow> flight_result (cl_flights cl ! f) = r \<and> res_ok issued key r"
| "pc_ok cl issued key (CloseFlight f r) \<longleftrightarrow> flight_result (cl_flights cl ! f) = r \<and> res_ok issued key r"
| "pc_ok cl issued key (Returned r) \<longleftrightarrow> res_ok issued key r"
| "pc_ok cl issued key _ \<longleftrightarrow> True"

text \<open>A file named after one of the keys \<open>K\<close> holds a token that was issued for that key.\<close>

definition files_sound :: "('f, 'k) oauth_env \<Rightarrow> string set \<Rightarrow> client \<Rightarrow> (string \<times> string \<times> string) list \<Rightarrow> bool" where
  "files_sound env K cl issued \<longleftrightarrow>
     (\<forall>key \<in> K. \<forall>b access ty expires. map_of (cl_files cl) (persistPath env cl key) = Some b \<longrightarrow>
        ov_PersistDec env b = Some (access, ty, expires) \<longrightarrow> (key, access, ty) \<in> set issued)"

text \<open>Distinct keys have distinct files, and the tokens survive their encoding.\<close>

definition persist_laws :: "('f, 'k) oauth_env \<Rightarrow> string set \<Rightarrow> client \<Rightarrow> (string \<times> string \<times> string) list \<Rightarrow> bool" where
  "persist_laws env K cl issued \<longleftrightarrow>
     (\<forall>k \<in> K. \<forall>k' \<in> K. persistPath env cl k = persistPath env cl k' \<longrightarrow> persistPath env cl k \<noteq> [] \<longrightarrow> k = k') \<and>
     (\<forall>key access ty e. (key, access, ty) \<in> set issued \<longrightarrow> ov_PersistDec env (ov_PersistEnc env (access, ty, e)) = Some (access, ty, e))"

definition keys_in :: "string set \<Rightarrow> (nat \<rightharpoonup> call) \<Rightarrow> bool" where
  "keys_in K calls \<longleftrightarrow> (\<forall>i c. calls i = Some c \<longrightarrow> ca_key c \<in> K)"

definition results_inv :: "('f, 'k) oauth_env \<Rightarrow> string set \<Rightarrow> client \<Rightarrow> (nat \<rightharpoonup> call) \<Rightarrow> (string \<times> string \<times> string) list \<Rightarrow> bool" where
  "results_inv env K cl calls issued \<longleftrightarrow>
     (\<forall>key tok. map_of (cl_cache cl) key = Some tok \<longrightarrow> tok_ok issued key tok) \<and>
     (\<forall>i c. calls i = Some c \<longrightarrow> pc_ok cl issued (ca_key c) (ca_pc c)) \<and> files_sound env K cl issued"

lemma tok_ok_mono: "tok_ok issued key tok \<Longrightarrow> tok_ok (issued @ more_issued) key tok"
  by (simp add: tok_ok_def)

lemma res_ok_mono: "res_ok issued key r \<Longrightarrow> res_ok (issued @ more_issued) key r"
  by (simp add: res_ok_def tok_ok_mono)

lemma files_sound_mono: "files_sound env K cl issued \<Longrightarrow> files_sound env K cl (issued @ more_issued)"
  unfolding files_sound_def by fastforce

lemma pc_ok_frame:
  assumes "pc_ok cl issued key p" "\<And>f. holds p = Some f \<Longrightarrow> cl_flights cl' ! f = cl_flights cl ! f"
    and "\<And>f. awaited p = Some f \<Longrightarrow> flight_closed cl' f \<Longrightarrow> res_ok (issued @ more_issued) key (flight_result (cl_flights cl' ! f))"
  shows "pc_ok cl' (issued @ more_issued) key p"
  using assms by (cases p) (auto simp: tok_ok_mono res_ok_mono)

lemma persistPath_dir: "cl_persistDir cl' = cl_persistDir cl \<Longrightarrow> persistPath env cl' = persistPath env cl"
  by (simp add: persistPath_def fun_eq_iff)

lemma files_sound_frame:
  "files_sound env K cl issued \<Longrightarrow> cl_files cl' = cl_files cl \<Longrightarrow> cl_persistDir cl' = cl_persistDir cl \<Longrightarrow> files_sound env K cl' issued"
  by (simp add: files_sound_def persistPath_dir[of cl' cl])

lemma flights_other:
  assumes "flight_inv cl calls" "calls i = Some c" "holds (ca_pc c) = Some f" "calls j = Some d" "j \<noteq> i"
  shows "holds (ca_pc d) \<noteq> Some f" "awaited (ca_pc d) = Some f \<Longrightarrow> ca_key d = ca_key c" "\<not> flight_closed cl f" "f < length (cl_flights cl)"
proof -
  note D = flights_okD[OF assms(1)[unfolded flight_inv_def]]
  have hi: "holders calls i = Some (ca_key c, f)" using assms(2,3) by (simp add: holders_def)
  show nf: "\<not> flight_closed cl f" "f < length (cl_flights cl)" using D(4)[OF hi] by auto
  show "holds (ca_pc d) \<noteq> Some f"
    using D(5)[OF hi, of j "ca_key d"] assms(4,5) by (auto simp: holders_def)
  show "ca_key d = ca_key c" if "awaited (ca_pc d) = Some f"
  proof -
    have "waiters calls j = Some (ca_key d, f)" using assms(4) that by (simp add: waiters_def)
    from D(6)[OF this] nf obtain h where "holders calls h = Some (ca_key d, f)" by blast
    with D(5)[OF this hi] hi show ?thesis by simp
  qed
qed

lemma others_quiet:
  assumes "results_inv env K cl calls issued" "calls j = Some d" "cl_flights cl' = cl_flights cl"
  shows "pc_ok cl' (issued @ more_issued) (ca_key d) (ca_pc d)"
proof -
  from assms have p: "pc_ok cl issued (ca_key d) (ca_pc d)" by (simp add: results_inv_def)
  show ?thesis
  proof (rule pc_ok_frame[OF p])
    fix f assume "awaited (ca_pc d) = Some f" "flight_closed cl' f"
    with p assms(3) show "res_ok (issued @ more_issued) (ca_key d) (flight_result (cl_flights cl' ! f))"
      by (cases "ca_pc d") (auto simp: flight_closed_def res_ok_mono)
  qed (simp add: assms(3))
qed

lemma others_update:
  assumes "results_inv env K cl calls issued" "flight_inv cl calls" "calls i = Some c" "holds (ca_pc c) = Some f"
    and "calls j = Some d" "j \<noteq> i"
    and "fl_done (g (cl_flights cl ! f)) \<Longrightarrow> res_ok issued (ca_key c) (flight_result (g (cl_flights cl ! f)))"
  shows "pc_ok (upd_flight f g cl) (issued @ more_issued) (ca_key d) (ca_pc d)"
proof -
  note o = flights_other[OF assms(2-6)]
  from assms have p: "pc_ok cl issued (ca_key d) (ca_pc d)" by (simp add: results_inv_def)
  show ?thesis
  proof (rule pc_ok_frame[OF p])
    fix h assume "holds (ca_pc d) = Some h"
    with o(1) show "cl_flights (upd_flight f g cl) ! h = cl_flights cl ! h" by (auto simp: upd_flight_def)
  next
    fix h assume h: "awaited (ca_pc d) = Some h" "flight_closed (upd_flight f g cl) h"
    show "res_ok (issued @ more_issued) (ca_key d) (flight_result (cl_flights (upd_flight f g cl) ! h))"
    proof (cases "h = f")
      case True
      with h o assms(7) show ?thesis by (simp add: flight_closed_upd) (simp add: upd_flight_def res_ok_mono)
    next
      case False
      with h p show ?thesis by (cases "ca_pc d") (auto simp: flight_closed_upd, auto simp: upd_flight_def res_ok_mono)
    qed
  qed
qed

lemma results_pc: "results_inv env K cl calls issued \<Longrightarrow> calls i = Some c \<Longrightarrow> pc_ok cl issued (ca_key c) (ca_pc c)"
  by (simp add: results_inv_def)

lemma results_step:
  assumes "results_inv env K cl calls issued"
    and "\<And>key tok. map_of (cl_cache cl') key = Some tok \<Longrightarrow> map_of (cl_cache cl) key = Some tok \<or> tok_ok (issued @ more_issued) key tok"
    and "\<And>j d. j \<noteq> i \<Longrightarrow> calls j = Some d \<Longrightarrow> pc_ok cl' (issued @ more_issued) (ca_key d) (ca_pc d)"
    and "pc_ok cl' (issued @ more_issued) (ca_key c') (ca_pc c')" "files_sound env K cl' (issued @ more_issued)"
  shows "results_inv env K cl' (calls(i \<mapsto> c')) (issued @ more_issued)"
proof -
  have "tok_ok (issued @ more_issued) key tok" if "map_of (cl_cache cl') key = Some tok" for key tok
    using assms(1,2) that tok_ok_mono unfolding results_inv_def by blast
  with assms(3-5) show ?thesis unfolding results_inv_def by (auto split: if_splits)
qed

lemma results_quiet:
  assumes inv: "results_inv env K cl calls issued" and "cl_flights cl' = cl_flights cl" "cl_files cl' = cl_files cl"
    and "cl_persistDir cl' = cl_persistDir cl" "pc_ok cl' (issued @ more_issued) (ca_key c') (ca_pc c')"
    and "\<And>key tok. map_of (cl_cache cl') key = Some tok \<Longrightarrow> map_of (cl_cache cl) key = Some tok \<or> tok_ok (issued @ more_issued) key tok"
  shows "results_inv env K cl' (calls(i \<mapsto> c')) (issued @ more_issued)"
proof (rule results_step[OF inv])
  show "files_sound env K cl' (issued @ more_issued)"
    using inv assms(3,4) by (auto simp: results_inv_def intro: files_sound_frame files_sound_mono)
qed (use assms others_quiet[OF inv] in auto)

lemma results_update:
  assumes inv: "results_inv env K cl calls issued" and "flight_inv cl calls" "calls i = Some c" "holds (ca_pc c) = Some f"
    and "fl_done (g (cl_flights cl ! f)) \<Longrightarrow> res_ok issued (ca_key c) (flight_result (g (cl_flights cl ! f)))"
    and "pc_ok (upd_flight f g cl) issued (ca_key c') (ca_pc c')"
  shows "results_inv env K (upd_flight f g cl) (calls(i \<mapsto> c')) issued"
proof -
  have "results_inv env K (upd_flight f g cl) (calls(i \<mapsto> c')) (issued @ [])"
  proof (rule results_step[OF inv])
    show "files_sound env K (upd_flight f g cl) (issued @ [])"
      using inv by (auto simp: results_inv_def intro: files_sound_frame)
    show "pc_ok (upd_flight f g cl) (issued @ []) (ca_key d) (ca_pc d)" if "j \<noteq> i" "calls j = Some d" for j d
      using others_update[OF inv assms(2-4) that(2,1)] assms(5) by blast
  qed (use assms(6) in auto)
  then show ?thesis by simp
qed

lemma held_bounds:
  assumes "flight_inv cl calls" "calls i = Some c" "holds (ca_pc c) = Some f"
  shows "f < length (cl_flights cl)" "\<not> flight_closed cl f"
proof -
  have "holders calls i = Some (ca_key c, f)" using assms(2,3) by (simp add: holders_def)
  from flights_okD(4)[OF assms(1)[unfolded flight_inv_def] this]
  show "f < length (cl_flights cl)" "\<not> flight_closed cl f" by auto
qed

lemma registered_open:
  assumes "flight_inv cl calls" "map_of (cl_inFlight cl) key = Some f"
  shows "\<not> flight_closed cl f"
proof -
  note D = flights_okD[OF assms(1)[unfolded flight_inv_def]]
  from D(3)[OF assms(2)] obtain i where "regs calls i = Some (key, f)" by blast
  from D(4)[OF D(1)[OF this]] show ?thesis by simp
qed

lemma parse_token_nonblank: "parse_token env now inp b = Inr tok \<Longrightarrow> trim_space (tk_AccessToken tok) \<noteq> []"
  by (auto simp: parse_token_def Let_def simp del: first_nonblank.simps split: option.splits if_splits)

lemma requestToken_nonblank: "requestToken env w inp = Inr tok \<Longrightarrow> trim_space (tk_AccessToken tok) \<noteq> []"
  by (auto simp: requestToken_def bind_res_eq_Inr split: option.splits if_splits prod.splits dest: parse_token_nonblank)

lemma cached_ok:
  assumes "results_inv env K cl calls issued" "getCachedValid now cl key skew = Some tok"
  shows "tok_ok issued key tok"
  using assms by (auto simp: results_inv_def getCachedValid_def split: option.splits if_splits)

lemma loaded_ok:
  assumes "results_inv env K cl calls issued" "loadPersistedValid env now cl key skew = Some tok" "key \<in> K"
  shows "tok_ok issued key tok"
proof -
  from assms(2) obtain b access ty e where
    "map_of (cl_files cl) (persistPath env cl key) = Some b" "ov_PersistDec env b = Some (access, ty, e)"
    "trim_space access \<noteq> []" "tk_AccessToken tok = access" "tk_TokenType tok = ty"
    by (auto simp: loadPersistedValid_def Let_def split: option.splits if_splits prod.splits)
  with assms(1,3) show ?thesis unfolding results_inv_def files_sound_def tok_ok_def by blast
qed

lemma saved_sound:
  assumes "files_sound env K cl issued" "persist_laws env K cl issued" "tok_ok issued key tok" "key \<in> K"
  shows "files_sound env K (savePersisted env b key tok cl) issued"
  unfolding files_sound_def
proof (intro ballI allI impI)
  fix k raw access ty e
  let ?cl = "savePersisted env b key tok cl"
  assume k: "k \<in> K" and raw: "map_of (cl_files ?cl) (persistPath env ?cl k) = Some raw"
    and dec: "ov_PersistDec env raw = Some (access, ty, e)"
  have path: "persistPath env ?cl = persistPath env cl" by (rule persistPath_dir) simp
  note raw' = raw[unfolded path]
  show "(k, access, ty) \<in> set issued"
  proof (cases "persistPath env cl key = [] \<or> \<not> b \<or> persistPath env cl k \<noteq> persistPath env cl key")
    case True
    with raw' have "map_of (cl_files cl) (persistPath env cl k) = Some raw"
      by (auto simp: savePersisted_def Let_def update_conv' split: if_splits)
    with assms(1) k dec show ?thesis unfolding files_sound_def by blast
  next
    case False
    then have "k = key" using assms(2,4) k unfolding persist_laws_def by metis
    moreover from False raw' have "raw = ov_PersistEnc env (tk_AccessToken tok, tk_TokenType tok, tk_ExpiresAt tok div second_ns)"
      by (auto simp: savePersisted_def Let_def update_conv' split: if_splits)
    moreover have "ov_PersistDec env (ov_PersistEnc env (tk_AccessToken tok, tk_TokenType tok, e')) =
        Some (tk_AccessToken tok, tk_TokenType tok, e')" for e'
      using assms(2,3) unfolding persist_laws_def tok_ok_def by blast
    ultimately show ?thesis using dec assms(3) by (auto simp: tok_ok_def)
  qed
qed

lemma begin_results:
  assumes inv: "results_inv env K cl calls issued" and fi: "flight_inv cl calls"
    and "beginFlight (ca_key c) cl = ((f, owner), cl')"
  shows "results_inv env K cl' (calls(i \<mapsto> goto c (if owner then Request f else Await f))) issued"
proof (cases "map_of (cl_inFlight cl) (ca_key c)")
  case (Some g)
  with assms(3) have *: "f = g" "\<not> owner" "cl' = cl" by (auto simp: beginFlight_def)
  have "results_inv env K cl (calls(i \<mapsto> goto c (Await f))) (issued @ [])"
    by (rule results_quiet[OF inv]) (use registered_open[OF fi Some] * in auto)
  with * show ?thesis by simp
next
  case None
  with assms(3) have f: "f = length (cl_flights cl)" "owner" and cl': "cl_cache cl' = cl_cache cl" "cl_files cl' = cl_files cl"
      "cl_persistDir cl' = cl_persistDir cl"
      "cl_flights cl' = cl_flights cl @ [\<lparr>fl_done = False, fl_token = no_token, fl_err = None\<rparr>]"
    by (auto simp: beginFlight_def Let_def)
  note D = flights_okD[OF fi[unfolded flight_inv_def]]
  have "results_inv env K cl' (calls(i \<mapsto> goto c (Request f))) (issued @ [])"
  proof (rule results_step[OF inv])
    show "files_sound env K cl' (issued @ [])"
      using inv cl' by (auto simp: results_inv_def intro: files_sound_frame)
    fix j d assume d: "calls j = Some d"
    with inv have p: "pc_ok cl issued (ca_key d) (ca_pc d)" by (simp add: results_inv_def)
    show "pc_ok cl' (issued @ []) (ca_key d) (ca_pc d)"
    proof (rule pc_ok_frame[OF p])
      fix h assume "holds (ca_pc d) = Some h"
      from held_bounds(1)[OF fi d this] show "cl_flights cl' ! h = cl_flights cl ! h" by (simp add: cl' nth_append)
    next
      fix h assume h: "awaited (ca_pc d) = Some h" "flight_closed cl' h"
      have "waiters calls j = Some (ca_key d, h)" using d h(1) by (simp add: waiters_def)
      from D(6)[OF this] have "cl_flights cl' ! h = cl_flights cl ! h" by (auto simp: cl' nth_append)
      with h p show "res_ok (issued @ []) (ca_key d) (flight_result (cl_flights cl' ! h))"
        by (cases "ca_pc d") (auto simp: flight_closed_def)
    qed
  qed (auto simp: cl' f)
  with f show ?thesis by simp
qed

lemma close_results:
  assumes inv: "results_inv env K cl calls issued" and fi: "flight_inv cl calls" and c: "calls i = Some c" "ca_pc c = CloseFlight f r"
  shows "results_inv env K (close_flight f cl) (calls(i \<mapsto> goto c (Returned r))) issued"
  unfolding close_flight_def
proof (rule results_update[OF inv fi c(1)])
  from results_pc[of env K cl calls issued i c, OF inv c(1)] c(2)
  have "flight_result (cl_flights cl ! f) = r" "res_ok issued (ca_key c) r" by auto
  then show "res_ok issued (ca_key c) (flight_result ((cl_flights cl ! f)\<lparr>fl_done := True\<rparr>))"
    "pc_ok (upd_flight f (\<lambda>fl. fl\<lparr>fl_done := True\<rparr>) cl) issued (ca_key (goto c (Returned r))) (ca_pc (goto c (Returned r)))"
    by (auto simp: flight_result_def split: option.splits)
qed (simp add: c)

lemma flight_after: "f < length (cl_flights cl) \<Longrightarrow> cl_flights (upd_flight f g cl) ! f = g (cl_flights cl ! f)"
  by (simp add: upd_flight_def)

lemma set_result:
  assumes inv: "results_inv env K cl calls issued" and fi: "flight_inv cl calls" and c: "calls i = Some c" "holds (ca_pc c) = Some f"
    and g: "\<And>fl. fl_done (g fl) = fl_done fl" "flight_result (g (cl_flights cl ! f)) = r" "res_ok issued (ca_key c) r"
  shows "results_inv env K (upd_flight f g cl) (calls(i \<mapsto> goto c (EndFlight f r))) issued"
proof (rule results_update[OF inv fi c])
  note b = held_bounds[OF fi c]
  show "fl_done (g (cl_flights cl ! f)) \<Longrightarrow> res_ok issued (ca_key c) (flight_result (g (cl_flights cl ! f)))"
    using b by (simp add: g flight_closed_def)
  show "pc_ok (upd_flight f g cl) issued (ca_key (goto c (EndFlight f r))) (ca_pc (goto c (EndFlight f r)))"
    using b(1) by (simp add: flight_after g)
qed

lemma request_results:
  assumes inv: "results_inv env K cl calls issued" and fi: "flight_inv cl calls" and c: "calls i = Some c" "ca_pc c = Request f"
    and adv: "advance env w cl c = Some (cl', c')"
  shows "results_inv env K cl' (calls(i \<mapsto> c')) (issued @ issued_by c c')"
proof (cases "requestToken env w (ca_in c)")
  case (Inl e)
  with adv c have e: "cl' = upd_flight f (\<lambda>fl. fl\<lparr>fl_err := Some e\<rparr>) cl" "c' = goto c (EndFlight f (Inl e))" by (auto simp: advance_def)
  have "results_inv env K cl' (calls(i \<mapsto> c')) issued"
    unfolding e by (rule set_result[OF inv fi c(1)]) (simp_all add: c flight_result_def res_ok_def)
  then show ?thesis by (simp add: issued_by_def c e)
next
  case (Inr tok)
  with adv c have e: "cl' = cl" "c' = goto c (StoreToken f tok)" by (auto simp: advance_def)
  have "fl_err (cl_flights cl ! f) = None" using results_pc[of env K cl calls issued i c, OF inv c(1)] c(2) by simp
  then show ?thesis unfolding e
    by (intro results_quiet[OF inv]) (simp_all add: issued_by_def c tok_ok_def requestToken_nonblank[OF Inr])
qed

lemma advance_results:
  assumes inv: "results_inv env K cl calls issued" and fi: "flight_inv cl calls" and c: "calls i = Some c"
    and adv: "advance env w cl c = Some (cl', c')"
    and laws: "persist_laws env K cl' (issued @ issued_by c c')" and k: "ca_key c \<in> K"
  shows "results_inv env K cl' (calls(i \<mapsto> c')) (issued @ issued_by c c')"
proof -
  have ok: "pc_ok cl issued (ca_key c) (ca_pc c)" by (rule results_pc[of env K cl calls issued i c, OF inv c])
  have put: "map_of (cl_cache (put_cache key tok cl)) k' = Some t \<Longrightarrow> tok_ok iss key tok \<Longrightarrow>
      map_of (cl_cache cl) k' = Some t \<or> tok_ok iss k' t" for key tok k' t iss
    by (auto simp: put_cache_def update_conv' split: if_splits)
  show ?thesis
  proof (cases "ca_pc c")
    case CheckCache
    then show ?thesis using adv ok cached_ok[OF inv]
      by (auto simp: advance_def Let_def issued_by_def res_ok_def tok_ok_mono intro!: results_quiet[OF inv, where more_issued = "[]", simplified] split: option.splits)
  next
    case LoadFile
    then show ?thesis using adv ok loaded_ok[OF inv _ k]
      by (auto simp: advance_def Let_def issued_by_def intro!: results_quiet[OF inv, where more_issued = "[]", simplified] split: option.splits)
  next
    case (StoreLoaded tok)
    then show ?thesis using adv ok put[of "ca_key c" tok]
      by (auto simp: advance_def issued_by_def res_ok_def intro!: results_quiet[OF inv, where more_issued = "[]", simplified])
  next
    case BeginFlight
    then show ?thesis using adv begin_results[OF inv fi, of c]
      by (auto simp: advance_def Let_def issued_by_def split: prod.splits if_splits)
  next
    case (Await f)
    then show ?thesis using adv ok
      by (auto simp: advance_def issued_by_def flight_closed_def intro!: results_quiet[OF inv, where more_issued = "[]", simplified] split: if_splits)
  next
    case (Request f)
    then show ?thesis by (rule request_results[OF inv fi c _ adv])
  next
    case (StoreToken f tok)
    then show ?thesis using adv ok put[of "ca_key c" tok]
      by (auto simp: advance_def issued_by_def intro!: results_quiet[OF inv, where more_issued = "[]", simplified])
  next
    case (SaveToken f tok)
    then have e: "cl' = savePersisted env (wd_writes w) (ca_key c) tok cl" "c' = goto c (Publish f tok)" "issued_by c c' = []"
      using adv by (auto simp: advance_def issued_by_def)
    have "persist_laws env K cl issued"
      using laws unfolding e persist_laws_def by (simp add: persistPath_dir[of "savePersisted env (wd_writes w) (ca_key c) tok cl" cl])
    then have "files_sound env K cl' (issued @ [])"
      using saved_sound[of env K cl issued "ca_key c" tok] inv ok SaveToken k by (simp add: e results_inv_def)
    then have "results_inv env K cl' (calls(i \<mapsto> c')) (issued @ [])"
      by (rule results_step[OF inv, rotated -1]) (use ok SaveToken e others_quiet[OF inv, where more_issued = "[]", simplified] in auto)
    then show ?thesis unfolding e(3) .
  next
    case (Publish f tok)
    then have e: "cl' = upd_flight f (\<lambda>fl. fl\<lparr>fl_token := tok\<rparr>) cl" "c' = goto c (EndFlight f (Inr tok))" "issued_by c c' = []"
      using adv by (auto simp: advance_def issued_by_def)
    show ?thesis
      unfolding e(3) append_Nil2 unfolding e(1,2) using ok Publish by (intro set_result[OF inv fi c]) (auto simp: flight_result_def res_ok_def)
  next
    case (EndFlight f r)
    then show ?thesis using adv ok
      by (auto simp: advance_def issued_by_def intro!: results_quiet[OF inv, where more_issued = "[]", simplified])
  next
    case (CloseFlight f r)
    then show ?thesis using adv close_results[OF inv fi c] by (auto simp: advance_def issued_by_def)
  next
    case (Returned r)
    then show ?thesis using adv by (simp add: advance_def)
  qed
qed

lemma enter_results:
  assumes "results_inv env K cl calls issued" "calls i = None"
  shows "results_inv env K cl (calls(i \<mapsto> start_call inp)) issued"
  using assms by (auto simp: results_inv_def start_call_def res_ok_def split: sum.split)

lemma invalidate_results: "results_inv env K cl calls issued \<Longrightarrow> results_inv env K (Invalidate key cl) calls issued"
proof -
  assume inv: "results_inv env K cl calls issued"
  have "pc_ok (Invalidate key cl) issued k p = pc_ok cl issued k p" for k p by (cases p) simp_all
  moreover have "map_of (cl_cache (Invalidate key cl)) k = Some t \<Longrightarrow> map_of (cl_cache cl) k = Some t" for k t
    by (auto simp: Invalidate_def Let_def delete_conv' split: if_splits)
  ultimately show ?thesis using inv files_sound_frame[of env K cl issued "Invalidate key cl"]
    unfolding results_inv_def by auto
qed

lemma advance_dir: "advance env w cl c = Some (cl', c') \<Longrightarrow> cl_persistDir cl' = cl_persistDir cl"
  by (auto simp: advance_def Let_def beginFlight_def close_flight_def split: pc.splits option.splits sum.splits if_splits prod.splits)

lemma keys_in_upd:
  assumes "keys_in K (calls(i \<mapsto> c))" and "\<And>d. calls i = Some d \<Longrightarrow> ca_key d = ca_key c"
  shows "keys_in K calls" "ca_key c \<in> K"
proof -
  have k: "ca_key d \<in> K" if "(calls(i \<mapsto> c)) j = Some d" for j d
    using assms(1) that unfolding keys_in_def by blast
  from k[of i c] show c: "ca_key c \<in> K" by simp
  show "keys_in K calls"
    unfolding keys_in_def
  proof (intro allI impI)
    fix j d assume d: "calls j = Some d"
    show "ca_key d \<in> K"
    proof (cases "j = i")
      case True
      with d assms(2)[of d] c show ?thesis by simp
    next
      case False
      with d k[of j d] show ?thesis by simp
    qed
  qed
qed

lemma step_mono:
  assumes "oauth_step env s t"
  shows "keys_in K (sy_calls t) \<Longrightarrow> keys_in K (sy_calls s)"
    and "persist_laws env K (sy_client t) (sy_issued t) \<Longrightarrow> persist_laws env K (sy_client s) (sy_issued s)"
proof -
  have "keys_in K (sy_calls t) \<longrightarrow> keys_in K (sy_calls s)"
    using assms
  proof (induction rule: oauth_step.induct)
    case (enter s i inp)
    then show ?case using keys_in_upd(1)[of K "sy_calls s" i "start_call inp"] by (simp add: fun_upd_def)
  next
    case (run s i c w cl c')
    then have "ca_key c' = ca_key c" using advance_keeps by blast
    with run keys_in_upd(1)[of K "sy_calls s" i c'] show ?case by (simp add: fun_upd_def)
  qed simp_all
  then show "keys_in K (sy_calls t) \<Longrightarrow> keys_in K (sy_calls s)" by blast
  have "cl_persistDir (sy_client t) = cl_persistDir (sy_client s) \<and> set (sy_issued s) \<subseteq> set (sy_issued t)"
    using assms by (induction rule: oauth_step.induct) (auto dest: advance_dir)
  then show "persist_laws env K (sy_client t) (sy_issued t) \<Longrightarrow> persist_laws env K (sy_client s) (sy_issued s)"
    unfolding persist_laws_def using persistPath_dir[of "sy_client t" "sy_client s" env] by auto
qed

lemma step_results:
  assumes "oauth_step env s t" "results_inv env K (sy_client s) (sy_calls s) (sy_issued s)" "flight_inv (sy_client s) (sy_calls s)"
    and "keys_in K (sy_calls t)" "persist_laws env K (sy_client t) (sy_issued t)"
  shows "results_inv env K (sy_client t) (sy_calls t) (sy_issued t)"
  using assms
proof (induction rule: oauth_step.induct)
  case (enter s i inp)
  with enter_results[of env K "sy_client s" "sy_calls s" "sy_issued s" i inp] show ?case by (simp add: fun_upd_def)
next
  case (run s i c w cl c')
  then have "ca_key c \<in> K"
    using advance_keeps[OF run(4)] keys_in_upd(2)[of K "sy_calls s" i c'] by (simp add: fun_upd_def)
  with run advance_results[of env K "sy_client s" "sy_calls s" "sy_issued s" i c w cl c'] show ?case by (simp add: fun_upd_def)
next
  case (invalidate s key)
  then show ?case by (simp add: invalidate_results)
qed simp

lemma reach_results:
  assumes "reach env s0 s" "initial s0" "files_sound env K (sy_client s0) (sy_issued s0)"
    and "keys_in K (sy_calls s)" "persist_laws env K (sy_client s) (sy_issued s)"
  shows "results_inv env K (sy_client s) (sy_calls s) (sy_issued s)"
  using assms
proof (induction rule: reach.induct)
  case reach_refl
  then show ?case by (auto simp: results_inv_def initial_def client_New_def)
next
  case (reach_step s t)
  note m = step_mono[OF reach_step.hyps(2)]
  from reach_step show ?case
    by (intro step_results[OF reach_step.hyps(2)]) (auto intro: m reach_flight_inv)
qed

section \<open>Calls that run to their end\<close>

fun run_alone :: "('f, 'k) oauth_env \<Rightarrow> world \<Rightarrow> nat \<Rightarrow> client \<Rightarrow> call \<Rightarrow> client \<times> call" where
  "run_alone env w 0 cl c = (cl, c)"
| "run_alone env w (Suc n) cl c =
     (case advance env w cl c of None \<Rightarrow> (cl, c) | Some (cl', c') \<Rightarrow> run_alone env w n cl' c')"

lemma reach_trans: "reach env t u \<Longrightarrow> reach env s t \<Longrightarrow> reach env s u"
  by (induction rule: reach.induct) (auto intro: reach_step)

lemma run_alone_reach:
  assumes "sy_calls s i = Some c" "wd_now w = sy_now s" "wd_signed w \<le> sy_now s"
  shows "\<exists>t. reach env s t \<and> sy_client t = fst (run_alone env w n (sy_client s) c) \<and> sy_now t = sy_now s \<and>
    sy_calls t = (sy_calls s)(i \<mapsto> snd (run_alone env w n (sy_client s) c))"
  using assms
proof (induction n arbitrary: s c)
  case 0
  then show ?case by (intro exI[of _ s]) (auto simp: fun_upd_idem intro: reach_refl)
next
  case (Suc n)
  show ?case
  proof (cases "advance env w (sy_client s) c")
    case None
    with Suc.prems show ?thesis by (intro exI[of _ s]) (auto simp: fun_upd_idem intro: reach_refl)
  next
    case (Some p)
    obtain cl' c' where p: "p = (cl', c')" by (cases p)
    define s1 where "s1 = s\<lparr>sy_client := cl', sy_calls := (sy_calls s)(i \<mapsto> c'), sy_issued := sy_issued s @ issued_by c c'\<rparr>"
    have step: "reach env s s1"
      unfolding s1_def by (rule reach_step[OF reach_refl oauth_step.run]) (use Suc.prems Some p in auto)
    have s1: "sy_client s1 = cl'" "sy_calls s1 = (sy_calls s)(i \<mapsto> c')" "sy_now s1 = sy_now s"
      by (simp_all add: s1_def fun_upd_def)
    have "\<exists>t. reach env s1 t \<and> sy_client t = fst (run_alone env w n (sy_client s1) c') \<and> sy_now t = sy_now s1 \<and>
        sy_calls t = (sy_calls s1)(i \<mapsto> snd (run_alone env w n (sy_client s1) c'))"
      by (rule Suc.IH) (use Suc.prems in \<open>simp_all add: s1\<close>)
    then obtain t where t: "reach env s1 t" "sy_client t = fst (run_alone env w n cl' c')" "sy_now t = sy_now s"
      "sy_calls t = (sy_calls s)(i \<mapsto> snd (run_alone env w n cl' c'))"
      unfolding s1 fun_upd_upd by blast
    have "run_alone env w (Suc n) (sy_client s) c = run_alone env w n cl' c'" using Some p by simp
    with t reach_trans[OF t(1) step] show ?thesis by metis
  qed
qed

text \<open>Enough steps bring a call that need not wait to its return.\<close>

lemma run_alone_end:
  assumes "pc_rank (ca_pc c) \<le> n"
  obtains cl' c' where "run_alone env w n cl c = (cl', c')" "advance env w cl' c' = None" "ca_key c' = ca_key c"
  using assms
proof (induction n arbitrary: cl c thesis)
  case 0
  from 0(2) obtain r where "ca_pc c = Returned r" by (cases "ca_pc c") simp_all
  then have "advance env w cl c = None" by (simp add: advance_def)
  with 0(1)[of cl c] show ?case by simp
next
  case (Suc n)
  show ?case
  proof (cases "advance env w cl c")
    case None
    then show ?thesis using Suc.prems(1) by auto
  next
    case (Some p)
    obtain cl' c' where p: "p = (cl', c')" by (cases p)
    from advance_rank[OF Some[unfolded p]] Suc.prems(2) have "pc_rank (ca_pc c') \<le> n" by simp
    from Suc.IH[OF _ this, of cl'] obtain cl2 c2 where "run_alone env w n cl' c' = (cl2, c2)"
      "advance env w cl2 c2 = None" "ca_key c2 = ca_key c'" by blast
    with Suc.prems(1)[of cl2 c2] Some p advance_keeps[OF Some[unfolded p]] show ?thesis by simp
  qed
qed

lemma pc_rank_bound: "pc_rank p \<le> 10"
  by (cases p) auto

lemma holds_not_await: "holds p = Some f \<Longrightarrow> advance env w cl c = Some (cl', c') \<Longrightarrow> ca_pc c = p \<Longrightarrow> awaited (ca_pc c') = None"
  by (cases p) (auto simp: advance_def Let_def split: sum.splits if_splits)

lemma run_alone_holder:
  assumes "holds (ca_pc c) = Some f \<or> (\<exists>r. ca_pc c = Returned r)" "run_alone env w n cl c = (cl', c')"
  shows "holds (ca_pc c') = Some f \<or> (\<exists>r. ca_pc c' = Returned r)"
  using assms
proof (induction n arbitrary: cl c)
  case (Suc n)
  show ?case
  proof (cases "advance env w cl c")
    case (Some p)
    obtain cl1 c1 where p: "p = (cl1, c1)" by (cases p)
    have "holds (ca_pc c1) = Some f \<or> (\<exists>r. ca_pc c1 = Returned r)"
      using Suc.prems(1) Some p by (cases "ca_pc c") (auto simp: advance_def Let_def split: sum.splits if_splits)
    with Suc.IH[of c1 cl1] Suc.prems(2) Some p show ?thesis by simp
  qed (use Suc.prems in auto)
qed simp

lemma return_of_stuck:
  assumes "advance env w cl c = None" "\<not> (\<exists>f. ca_pc c = Await f \<and> \<not> fl_done (cl_flights cl ! f))"
  obtains r where "ca_pc c = Returned r"
  using assms advance_stuck[of env w cl c] by blast

lemma holder_returns:
  assumes "reach env s0 s" "initial s0" "sy_calls s j = Some d" "holds (ca_pc d) = Some f"
  obtains t d' r where "reach env s t" "sy_calls t = (sy_calls s)(j \<mapsto> d')" "ca_pc d' = Returned r"
proof -
  let ?w = "\<lparr>wd_signed = sy_now s, wd_now = sy_now s, wd_Do = \<lambda>_. None, wd_writes = True\<rparr>"
  obtain cl' d' where r: "run_alone env ?w 10 (sy_client s) d = (cl', d')" "advance env ?w cl' d' = None"
    using run_alone_end[of d 10] pc_rank_bound by blast
  from run_alone_holder[OF _ r(1), of f] assms(4) have "holds (ca_pc d') = Some f \<or> (\<exists>r. ca_pc d' = Returned r)" by blast
  with r(2) obtain res where res: "ca_pc d' = Returned res"
    by (cases "ca_pc d'") (auto simp: advance_stuck)
  from run_alone_reach[where n = 10, OF assms(3), of ?w env] r(1) obtain t where
    "reach env s t" "sy_calls t = (sy_calls s)(j \<mapsto> d')" by auto
  with res that show thesis by blast
qed

lemma awaited_closes:
  assumes "flight_inv (sy_client t) (sy_calls t)" "sy_calls t i = Some c" "ca_pc c = Await f"
    and "\<And>h d. sy_calls t h = Some d \<Longrightarrow> holds (ca_pc d) \<noteq> Some f"
  shows "fl_done (cl_flights (sy_client t) ! f)"
proof -
  have "waiters (sy_calls t) i = Some (ca_key c, f)" using assms(2,3) by (simp add: waiters_def)
  from flights_okD(6)[OF assms(1)[unfolded flight_inv_def] this]
  show ?thesis using assms(4) by (auto simp: flight_closed_def holders_def split: option.splits)
qed

lemma waiter_returns:
  assumes reach: "reach env s0 s" "initial s0" and c: "sy_calls s i = Some c" "ca_pc c = Await f"
  shows "\<exists>t. reach env s t \<and> sy_calls t i = Some c \<and> fl_done (cl_flights (sy_client t) ! f)"
proof (cases "\<exists>h d. sy_calls s h = Some d \<and> holds (ca_pc d) = Some f")
  case False
  with awaited_closes[OF reach_flight_inv[OF reach] c] c show ?thesis by (blast intro: reach_refl)
next
  case True
  then obtain j d where d: "sy_calls s j = Some d" "holds (ca_pc d) = Some f" by blast
  from holder_returns[OF reach d] obtain t d' r where
    t: "reach env s t" "sy_calls t = (sy_calls s)(j \<mapsto> d')" "ca_pc d' = Returned r" .
  have "j \<noteq> i" using c d by auto
  with t(2) c have ci: "sy_calls t i = Some c" by simp
  have "holds (ca_pc e) \<noteq> Some f" if "sy_calls t h = Some e" for h e
  proof (cases "h = j")
    case False
    with that t(2) have "sy_calls s h = Some e" by simp
    with flights_other(1)[OF reach_flight_inv[OF reach] d this False] show ?thesis by simp
  qed (use that t in auto)
  with awaited_closes[OF reach_flight_inv[OF reach_trans[OF t(1) reach(1)] reach(2)] ci c(2)] t(1) ci show ?thesis by blast
qed

text \<open>
  C28. A call of \<^verbatim>\<open>GetToken\<close> is never blocked for good: from every reachable state, whatever the other calls
  are doing, there are steps after which the call has returned. A waiting call always waits for a
  flight whose owner is still on its way or has closed it.
\<close>
theorem every_call_can_return:
  assumes "initial s0" "reach env s0 s" "sy_calls s i = Some c"
  shows "\<exists>t c' r. reach env s t \<and> sy_calls t i = Some c' \<and> ca_pc c' = Returned r"
proof -
  have waited: "\<exists>t c' r. reach env s t \<and> sy_calls t i = Some c' \<and> ca_pc c' = Returned r"
    if r: "reach env s0 s" and c: "sy_calls s i = Some c" "ca_pc c = Await f" for s c f
  proof -
    from waiter_returns[OF r assms(1) c] obtain t where
      t: "reach env s t" "sy_calls t i = Some c" "fl_done (cl_flights (sy_client t) ! f)" by blast
    let ?w = "\<lparr>wd_signed = sy_now t, wd_now = sy_now t, wd_Do = \<lambda>_. None, wd_writes = True\<rparr>"
    have "run_alone env ?w 1 (sy_client t) c = (sy_client t, goto c (Returned (flight_result (cl_flights (sy_client t) ! f))))"
      using c(2) t(3) by (simp add: advance_def)
    with run_alone_reach[where n = 1, OF t(2), of ?w env] obtain u where
      "reach env t u" "sy_calls u i = Some (goto c (Returned (flight_result (cl_flights (sy_client t) ! f))))" by auto
    with reach_trans[OF _ t(1)] show ?thesis by (metis goto_simps(1))
  qed
  let ?w = "\<lparr>wd_signed = sy_now s, wd_now = sy_now s, wd_Do = \<lambda>_. None, wd_writes = True\<rparr>"
  obtain cl' c' where r: "run_alone env ?w 10 (sy_client s) c = (cl', c')" "advance env ?w cl' c' = None"
    using run_alone_end[of c 10] pc_rank_bound by blast
  from run_alone_reach[where n = 10, OF assms(3), of ?w env] r(1) obtain t where
    t: "reach env s t" "sy_calls t i = Some c'" by auto
  from r(2) advance_stuck[of env ?w cl' c'] consider r where "ca_pc c' = Returned r" | f where "ca_pc c' = Await f" by blast
  then show ?thesis
  proof cases
    case 2
    from waited[OF reach_trans[OF t(1) assms(2)] t(2) 2] reach_trans[OF _ t(1)] show ?thesis by blast
  qed (use t in blast)
qed


text \<open>
  C29. Tokens do not cross keys: whatever way a call got its token (from the cache, from a file, from its own
  request or from the flight of another call), it is not blank and the endpoint issued it for the
  cache key of that call. Keys must have distinct files, and tokens must survive their encoding.
\<close>
theorem token_belongs_to_key:
  assumes "initial s0" "files_sound env K (sy_client s0) (sy_issued s0)" "reach env s0 s"
    and "keys_in K (sy_calls s)" "persist_laws env K (sy_client s) (sy_issued s)"
    and "sy_calls s i = Some c" "ca_pc c = Returned (Inr tok)"
  shows "trim_space (tk_AccessToken tok) \<noteq> [] \<and> (ca_key c, tk_AccessToken tok, tk_TokenType tok) \<in> set (sy_issued s)"
proof -
  have "pc_ok (sy_client s) (sy_issued s) (ca_key c) (Returned (Inr tok))"
    using results_pc[OF reach_results[OF assms(3,1,2,4,5)], of i c] assms(6,7) by simp
  then show ?thesis by (simp add: res_ok_def tok_ok_def)
qed

section \<open>A call without interference\<close>

lemma fly_alone:
  assumes "ca_pc c = Request f" "fly env w (ca_key c) (ca_in c) f cl = (cl', r)"
  shows "\<exists>c'. run_alone env w 6 cl c = (cl', c') \<and> ca_pc c' = Returned r"
proof -
  have n: "run_alone env w 6 cl c = run_alone env w (Suc (Suc (Suc (Suc (Suc (Suc 0)))))) cl c" by (simp add: eval_nat_numeral)
  show ?thesis
  proof (cases "requestToken env w (ca_in c)")
    case (Inl e)
    from assms(2) Inl have "cl' = close_flight f (remove_flight (ca_key c) f (upd_flight f (\<lambda>fl. fl\<lparr>fl_err := Some e\<rparr>) cl))" "r = Inl e"
      by (simp_all add: fly_def)
    with assms(1) Inl show ?thesis unfolding n by (simp add: advance_def)
  next
    case (Inr tok)
    with assms(2) have "r = Inr tok" by (simp add: fly_def Let_def)
    with assms Inr show ?thesis unfolding n by (cases "cl_persistEnabled cl") (simp_all add: advance_def fly_def Let_def)
  qed
qed

lemma run_alone_add:
  "run_alone env w m cl c = (cl1, c1) \<Longrightarrow> run_alone env w (m + n) cl c = run_alone env w n cl1 c1"
proof (induction m arbitrary: cl c)
  case (Suc m)
  show ?case
  proof (cases "advance env w cl c")
    case None
    with Suc.prems show ?thesis by (cases n) auto
  next
    case (Some p)
    with Suc show ?thesis by (cases p) simp
  qed
qed simp

lemma run_alone_returned: "ca_pc c = Returned r \<Longrightarrow> run_alone env w n cl c = (cl, c)"
  by (cases n) (simp_all add: advance_def)

lemma begin_alone:
  assumes "ca_pc c = BeginFlight" "beginFlight (ca_key c) cl = ((f, owner), cl1)"
    and "(if owner then Some (fly env w (ca_key c) (ca_in c) f cl1)
      else if fl_done (cl_flights cl1 ! f) then Some (cl1, flight_result (cl_flights cl1 ! f)) else None) = Some (cl', r)"
  shows "\<exists>c'. run_alone env w 7 cl c = (cl', c') \<and> ca_pc c' = Returned r"
proof -
  have adv: "advance env w cl c = Some (cl1, goto c (if owner then Request f else Await f))"
    using assms(1,2) by (simp add: advance_def)
  then have n: "run_alone env w 7 cl c = run_alone env w 6 cl1 (goto c (if owner then Request f else Await f))"
    by (simp add: eval_nat_numeral)
  show ?thesis
  proof (cases owner)
    case True
    with assms(3) have "fly env w (ca_key (goto c (Request f))) (ca_in (goto c (Request f))) f cl1 = (cl', r)" by simp
    from fly_alone[OF _ this] True n show ?thesis by simp
  next
    case False
    with assms(3) have "fl_done (cl_flights cl1 ! f)" "cl' = cl1" "r = flight_result (cl_flights cl1 ! f)"
      by (auto split: if_splits)
    with False n show ?thesis by (simp add: eval_nat_numeral advance_def)
  qed
qed


section \<open>Freshness and lifetimes\<close>

lemma getCachedValid_fresh: "getCachedValid now cl key skew = Some tok \<Longrightarrow> fresh_at now skew tok"
  by (auto simp: getCachedValid_def split: option.splits if_splits)

lemma loadPersistedValid_fresh: "loadPersistedValid env now cl key skew = Some tok \<Longrightarrow> fresh_at now skew tok"
  by (auto simp: loadPersistedValid_def Let_def split: option.splits if_splits prod.splits)

lemma fly_result: "snd (fly env w key inp f cl) = requestToken env w inp"
  by (simp add: fly_def Let_def split: sum.split)

lemma GetToken_cases:
  assumes "GetToken env w cl inp = Some (cl', Inr tok)" "check_input inp = Inr (key, inp')" "map_of (cl_inFlight cl) key = None"
  shows "fresh_at (wd_now w) (ai_RefreshSkew inp') tok \<or> requestToken env w inp' = Inr tok"
proof -
  have "beginFlight key cl = ((f, owner), cl1) \<Longrightarrow> owner" for f owner cl1
    using assms(3) by (auto simp: beginFlight_def Let_def)
  with assms(1,2) fly_result[of env w key inp'] show ?thesis
    by (auto simp: GetToken_def Let_def split: option.splits if_splits prod.splits
        dest: getCachedValid_fresh loadPersistedValid_fresh) (metis snd_conv)+
qed

lemma check_input_ttl: "check_input inp = Inr (key, inp') \<Longrightarrow> 0 < ai_FallbackTTL inp'"
  by (auto simp: check_input_def normalize_input_def Let_def second_ns_def split: if_splits)

text \<open>
  A token lives as long as the endpoint says: a positive \<^verbatim>\<open>expires_in\<close> that fits a \<^verbatim>\<open>time.Duration\<close> is added to the
  clock in seconds, and a missing or non-positive one is replaced by the fallback, so that the expiry always
  lies in the future. From 9223372037 seconds on the 64-bit product wraps around.
\<close>
theorem token_lifetime_exact:
  assumes "check_input inp = Inr (key, inp')" "parse_token env now inp' body = Inr tok" "ov_Decode env body = Some ob"
    and "e = ov_int env (GetFloatByPath env (JObj ob) (first_nonblank [trim_space (ai_ExpiresInPath inp'), ''$.expires_in'']))"
    and "e \<le> 9223372036" "ai_FallbackTTL inp' < 2 ^ 63"
  shows "now < tk_ExpiresAt tok
    \<and> tk_ExpiresAt tok = now + second_ns * (if 0 < e then e else if second_ns \<le> ai_FallbackTTL inp' then ai_FallbackTTL inp' div second_ns else 1800)"
proof -
  have ttl: "0 < ai_FallbackTTL inp'" by (rule check_input_ttl[OF assms(1)])
  let ?s = "if 0 < e then e else if second_ns \<le> ai_FallbackTTL inp' then ai_FallbackTTL inp' div second_ns else 1800"
  have "ai_FallbackTTL inp' div second_ns \<le> 9223372036" "0 \<le> ai_FallbackTTL inp' div second_ns"
    "second_ns \<le> ai_FallbackTTL inp' \<longleftrightarrow> 0 < ai_FallbackTTL inp' div second_ns"
    using assms(6) ttl by (simp_all add: second_ns_def pos_imp_zdiv_pos_iff)
  then have s: "0 < ?s" "?s \<le> 9223372036" using assms(5) by auto
  then have "in_int64 (?s * second_ns)" by (auto simp: in_int64_def second_ns_def)
  moreover have "lifetime env (JObj ob) inp' = wrap64 (?s * second_ns)"
    unfolding lifetime_def Let_def assms(4)[symmetric]
    using \<open>second_ns \<le> ai_FallbackTTL inp' \<longleftrightarrow> 0 < ai_FallbackTTL inp' div second_ns\<close> by (auto simp: not_le)
  ultimately have l: "lifetime env (JObj ob) inp' = ?s * second_ns" by (simp add: wrap64_id)
  from assms(2,3) have "tk_ExpiresAt tok = now + lifetime env (JObj ob) inp'"
    by (auto simp: parse_token_def Let_def simp del: first_nonblank.simps split: if_splits)
  with l s show ?thesis by (simp add: second_ns_def mult.commute)
qed

section \<open>Signed assertions\<close>

lemma b64_alphabet_all:
  assumes "list_all P (b64_alphabet raw_url_encoding)"
  shows "list_all P (b64_encode raw_url_encoding s)"
proof -
  have "length (b64_alphabet raw_url_encoding) = 64" by (simp add: raw_url_encoding_def raw_url_strict_def)
  with assms have "d < 64 \<Longrightarrow> P (b64_char raw_url_encoding d)" for d by (simp add: b64_char_def list_all_length)
  moreover have "\<not> b64_padding raw_url_encoding" by (simp add: raw_url_encoding_def raw_url_strict_def)
  ultimately show ?thesis
    by (induction raw_url_encoding s rule: b64_encode.induct) (simp_all add: Let_def pad_chars_def byte_split)
qed

lemma b64_no_dot: "CHR ''.'' \<notin> set (b64_encode raw_url_encoding s)"
proof -
  have "list_all (\<lambda>c. c \<noteq> CHR ''.'') (b64_alphabet raw_url_encoding)" by code_simp
  from b64_alphabet_all[OF this, of s] show ?thesis by (auto simp: list_all_iff)
qed

text \<open>
  The assertion of a service account is a well-formed JSON Web Token: it falls apart at its dots into
  the encoded header, the encoded claims and the encoded signature, and the signature is one of the
  digest of the first two with the key of the credential.
\<close>
theorem jwt_round_trip:
  assumes "signServiceAccountJWT env cred scope audience now = Inr jwt"
  shows "\<exists>h c s key sig. str_split jwt ''.'' = [h, c, s] \<and>
    b64_decode raw_url_strict h = Some (ov_Marshal env (jwt_header cred)) \<and>
    b64_decode raw_url_strict c = Some (ov_Marshal env (jwt_claims cred scope audience now)) \<and>
    b64_decode raw_url_strict s = Some sig \<and> parseRSAPrivateKey env (sa_PrivateKey cred) = Inr key \<and>
    ov_Sign env key (ov_sha256 env (h @ ''.'' @ c)) = Some sig"
proof -
  let ?h = "b64_encode raw_url_encoding (ov_Marshal env (jwt_header cred))"
  let ?c = "b64_encode raw_url_encoding (ov_Marshal env (jwt_claims cred scope audience now))"
  from assms obtain key sig where key: "parseRSAPrivateKey env (sa_PrivateKey cred) = Inr key"
    and sig: "ov_Sign env key (ov_sha256 env (?h @ ''.'' @ ?c)) = Some sig"
    and jwt: "jwt = (?h @ ''.'' @ ?c) @ ''.'' @ b64_encode raw_url_encoding sig"
    by (auto simp: signServiceAccountJWT_def bind_res_eq_Inr Let_def split: option.splits)
  let ?l = "[?h, ?c, b64_encode raw_url_encoding sig]"
  have "jwt = str_join ''.'' ?l" by (simp add: jwt)
  moreover have "str_split (str_join ''.'' ?l) ''.'' = ?l" by (rule split_join) (simp_all add: b64_no_dot)
  ultimately have "str_split jwt ''.'' = ?l" by (simp only:)
  with key sig b64_decode_raw_url show ?thesis by blast
qed

section \<open>Witnesses\<close>

definition demo_enc :: "string \<times> string \<times> int \<Rightarrow> string" where
  "demo_enc p =
     (let (a, t, e) = p in
      (if e < 0 then CHR ''-'' else CHR ''+'') # replicate (nat \<bar>e\<bar>) (CHR ''x'') @ CHR ''!'' #
      replicate (length a) (CHR ''x'') @ CHR ''!'' # a @ t)"

definition demo_dec :: "string \<Rightarrow> (string \<times> string \<times> int) option" where
  "demo_dec b =
     (let r1 = tl b; n = length (takeWhile (\<lambda>c. c = CHR ''x'') r1); r2 = drop (Suc n) r1;
          m = length (takeWhile (\<lambda>c. c = CHR ''x'') r2); r3 = drop (Suc m) r2 in
      if b = [] then None else Some (take m r3, drop m r3, if hd b = CHR ''-'' then - int n else int n))"

lemma demo_run: "takeWhile (\<lambda>c. c = CHR ''x'') (replicate n (CHR ''x'') @ CHR ''!'' # s) = replicate n (CHR ''x'')"
  by (induction n) auto

lemma demo_dec_enc: "demo_dec (demo_enc (a, t, e)) = Some (a, t, e)"
  by (simp add: demo_dec_def demo_enc_def Let_def demo_run)

definition demo_account :: sa_credential where
  "demo_account = \<lparr>sa_ProjectID = ''p'', sa_ClientEmail = ''e'', sa_PrivateKey = ''k'', sa_PrivateKeyID = [], sa_TokenURI = []\<rparr>"

definition token_env :: "(int, int) oauth_env" where
  "token_env =
     \<lparr>ov_sha256 = (\<lambda>s. s), ov_ReadFile = (\<lambda>_. None), ov_Credential = (\<lambda>_. Some demo_account), ov_PemDecode = Some,
      ov_PKCS8 = (\<lambda>_. Some (Some 1)), ov_PKCS1 = (\<lambda>_. None), ov_Sign = (\<lambda>k s. Some ''sig''),
      ov_Marshal = (\<lambda>ob. ''{}''), ov_Decode = (\<lambda>b. Some [(''access_token'', JStr b), (''expires_in'', JInt 60)]),
      ov_url = \<lparr>uo_Parse = (\<lambda>s. Some \<lparr>u_Path = s, u_RawQuery = [], u_Other = []\<rparr>), uo_String = u_Path\<rparr>,
      ov_Join = (\<lambda>d n. d @ ''/'' @ n), ov_PersistEnc = demo_enc, ov_PersistDec = demo_dec,
      ov_float = demo_floats, ov_zero = 0, ov_add = (+), ov_int = (\<lambda>f. f)\<rparr>"

definition token_world :: "string \<Rightarrow> world" where
  "token_world answer = \<lparr>wd_signed = 0, wd_now = 0, wd_Do = (\<lambda>_. Some (200, answer)), wd_writes = True\<rparr>"

definition token_input :: acquire_input where
  "token_input =
     \<lparr>ai_CacheKey = ''k'', ai_Mode = ''custom'', ai_TokenURL = ''u'', ai_Method = ''POST'', ai_ContentType = ''form'',
      ai_Form = [], ai_CredentialFile = [], ai_CredentialJSON = [], ai_Scope = [], ai_BasicAuthUsername = [],
      ai_BasicAuthPassword = [], ai_TokenPath = [], ai_ExpiresInPath = [], ai_TokenTypePath = [], ai_Timeout = 1,
      ai_RefreshSkew = 0, ai_FallbackTTL = 1\<rparr>"

definition demo_token :: token where
  "demo_token = \<lparr>tk_AccessToken = ''t'', tk_TokenType = ''Bearer'', tk_ExpiresAt = 60000000000\<rparr>"

definition token_client :: client where
  "token_client = client_New True ''d'' []"

text \<open>The client after a call that fetched the token and stored it in the cache and in a file.\<close>

definition token_after :: client where
  "token_after = \<lparr>cl_persistEnabled = True, cl_persistDir = ''d'', cl_cache = [(''k'', demo_token)], cl_inFlight = [],
     cl_flights = [\<lparr>fl_done = True, fl_token = demo_token, fl_err = None\<rparr>],
     cl_files = [(''d/6b.json'', demo_enc (''t'', ''Bearer'', 60))]\<rparr>"

lemma demo_GetToken: "GetToken token_env (token_world ''t'') token_client token_input = Some (token_after, Inr demo_token)"
  by code_simp


definition demo_call :: "pc \<Rightarrow> call" where
  "demo_call p = \<lparr>ca_key = ''k'', ca_in = normalize_input token_input, ca_pc = p\<rparr>"

lemma demo_runs:
  "run_alone token_env (token_world ''t'') 9 token_client (start_call token_input) = (token_after, demo_call (Returned (Inr demo_token)))"
  by code_simp

lemma demo_requests: "snd (run_alone token_env (token_world ''t'') 3 token_client (start_call token_input)) = demo_call (Request 0)"
  by code_simp

text \<open>The system in which call 0 has entered an empty client and run alone for some steps.\<close>

definition start_system :: system where
  "start_system = \<lparr>sy_client = token_client, sy_calls = Map.empty, sy_now = 0, sy_issued = []\<rparr>"

lemma start_initial: "initial start_system"
  by (auto simp: initial_def start_system_def token_client_def)

lemma demo_run_reach:
  obtains s where "reach token_env start_system s" "sy_client s = fst (run_alone token_env (token_world ''t'') n token_client (start_call token_input))"
    "sy_calls s = [0 \<mapsto> snd (run_alone token_env (token_world ''t'') n token_client (start_call token_input))]"
proof -
  define s1 where "s1 = start_system\<lparr>sy_calls := (sy_calls start_system)(0 \<mapsto> start_call token_input)\<rparr>"
  have s1: "reach token_env start_system s1"
    unfolding s1_def by (rule reach_step[OF reach_refl oauth_step.enter]) (simp add: start_system_def)
  have "sy_client s1 = token_client" "sy_calls s1 = [0 \<mapsto> start_call token_input]" "sy_now s1 = 0"
    by (simp_all add: s1_def start_system_def)
  with run_alone_reach[of s1 0 "start_call token_input" "token_world ''t''" token_env n] obtain t where
    "reach token_env s1 t" "sy_client t = fst (run_alone token_env (token_world ''t'') n token_client (start_call token_input))"
    "sy_calls t = [0 \<mapsto> snd (run_alone token_env (token_world ''t'') n token_client (start_call token_input))]"
    by (auto simp: token_world_def)
  with reach_trans[OF _ s1] that show thesis by blast
qed

lemma demo_path_inj: "persistPath token_env cl k = persistPath token_env cl k' \<Longrightarrow> persistPath token_env cl k \<noteq> [] \<Longrightarrow> trim_space k = trim_space k'"
  by (auto simp: persistPath_def Let_def token_env_def dest: hex_encode_inj split: if_splits)

theorem token_belongs_to_key_witness:
  "\<exists>s c. reach token_env start_system s \<and> sy_calls s 0 = Some c \<and> ca_pc c = Returned (Inr demo_token) \<and>
     trim_space ''t'' \<noteq> [] \<and> (ca_key c, ''t'', ''Bearer'') \<in> set (sy_issued s)"
proof -
  let ?c = "demo_call (Returned (Inr demo_token))"
  obtain s where s: "reach token_env start_system s" "sy_calls s = [0 \<mapsto> ?c]"
    using demo_run_reach[of 9] demo_runs by auto
  have laws: "persist_laws token_env {''k''} (sy_client s) (sy_issued s)"
    by (simp add: persist_laws_def) (simp add: token_env_def demo_dec_enc)
  have files: "files_sound token_env {''k''} (sy_client start_system) (sy_issued start_system)"
    by (simp add: files_sound_def start_system_def token_client_def client_New_def)
  have keys: "keys_in {''k''} (sy_calls s)" using s(2) by (simp add: keys_in_def demo_call_def)
  have c: "sy_calls s 0 = Some ?c" "ca_pc ?c = Returned (Inr demo_token)" using s(2) by (simp_all add: demo_call_def)
  from token_belongs_to_key[OF start_initial files s(1) keys laws c] s(1) c show ?thesis
    by (auto simp: demo_token_def)
qed


theorem every_call_can_return_witness:
  "\<exists>s t c' r. reach token_env start_system s \<and> sy_calls s 0 = Some (demo_call (Request 0)) \<and>
     reach token_env s t \<and> sy_calls t 0 = Some c' \<and> ca_pc c' = Returned r"
proof -
  obtain s where s: "reach token_env start_system s" "sy_calls s = [0 \<mapsto> demo_call (Request 0)]"
    using demo_run_reach[of 3] demo_requests by auto
  then have c: "sy_calls s 0 = Some (demo_call (Request 0))" by simp
  from every_call_can_return[OF start_initial s(1) c] s(1) c show ?thesis by blast
qed

theorem token_lifetime_exact_witness:
  "0 < tk_ExpiresAt demo_token \<and> tk_ExpiresAt demo_token = 0 + second_ns * 60"
proof -
  have c: "check_input token_input = Inr (''k'', normalize_input token_input)" by code_simp
  have p: "parse_token token_env 0 (normalize_input token_input) ''t'' = Inr demo_token" by code_simp
  have d: "ov_Decode token_env ''t'' = Some [(''access_token'', JStr ''t''), (''expires_in'', JInt 60)]" by code_simp
  have e: "60 = ov_int token_env (GetFloatByPath token_env (JObj [(''access_token'', JStr ''t''), (''expires_in'', JInt 60)])
      (first_nonblank [trim_space (ai_ExpiresInPath (normalize_input token_input)), ''$.expires_in'']))" by code_simp
  have f: "ai_FallbackTTL (normalize_input token_input) < 2 ^ 63" by code_simp
  from token_lifetime_exact[OF c p d e _ f] show ?thesis by simp
qed

theorem jwt_round_trip_witness:
  "\<exists>h c s key sig. str_split (''e30.e30.c2ln'') ''.'' = [h, c, s] \<and>
    b64_decode raw_url_strict h = Some (ov_Marshal token_env (jwt_header demo_account)) \<and>
    b64_decode raw_url_strict c = Some (ov_Marshal token_env (jwt_claims demo_account ''s'' ''a'' 0)) \<and>
    b64_decode raw_url_strict s = Some sig \<and> parseRSAPrivateKey token_env (sa_PrivateKey demo_account) = Inr key \<and>
    ov_Sign token_env key (ov_sha256 token_env (h @ ''.'' @ c)) = Some sig"
proof -
  have "signServiceAccountJWT token_env demo_account ''s'' ''a'' 0 = Inr ''e30.e30.c2ln''" by code_simp
  then show ?thesis by (rule jwt_round_trip)
qed

end
