(* ===== verification/Upstream.thy ===== *)
theory Upstream
  imports Proxy_Context Oauth_Client
begin

text \<open>
  The call of the upstream, \<^verbatim>\<open>onr/internal/proxy/upstream.go\<close>, with the OAuth token it carries,
  \<^verbatim>\<open>onr/internal/proxy/oauth.go\<close>: the choice of the HTTP client, the request with its headers, the second attempt
  after an unauthorised answer and the identifier the upstream gave to the request.

  The exchange with the upstream and the token endpoint are parameters of each attempt, as are the
  parsing of proxy URLs, SOCKS dialers and the transport through the AWS SDK (\<open>upstream_env\<close>). A call that has to
  wait for the token request of another call has no result in this sequential reading.
\<close>

section \<open>Data\<close>

record proxy_url =
  pu_Scheme :: string
  pu_Host :: string
  pu_User :: "(string \<times> string) option"
  pu_String :: string

datatype http_client =
    BaseClient
  | HTTPProxy string
  | SOCKSProxy string "(string \<times> string) option"

record up_request =
  ur_Method :: string
  ur_URL :: string
  ur_Header :: header
  ur_Body :: "string option"

record up_response =
  us_Status :: int
  us_Header :: header
  us_Body :: string

datatype up_error =
    BaseURLEmpty
  | ProxyInvalid string
  | ProxyScheme string
  | DialerFails
  | RequestInvalid
  | OAuthFails oauth_error
  | UpstreamFails

record upstream_file =
  uf_Headers :: "oauth_config provider_headers"
  uf_RequestIDHeaders :: "string list option"
  uf_RequestIDPath :: "string option"

text \<open>The part of the proxy client that a call reads and changes.\<close>

record proxy_state =
  ps_oauth :: "client option"
  ps_persistEnabled :: bool
  ps_persistDir :: string
  ps_files :: "(string \<times> string) list"
  ps_proxies :: "(string \<times> string) list"
  ps_httpByProxy :: "(string \<times> http_client) list"

record ('f, 'k) upstream_env =
  ue_oauth :: "('f, 'k) oauth_env"
  ue_TokenURI :: "string \<Rightarrow> string option"
  ue_url :: url_ops
  ue_ParseProxy :: "string \<Rightarrow> proxy_url option"
  ue_Dialer :: "string \<Rightarrow> bool"
  ue_world :: "nat \<Rightarrow> world"
  ue_Do :: "nat \<Rightarrow> http_client \<Rightarrow> up_request \<Rightarrow> up_response option"
  ue_bedrock :: "meta \<Rightarrow> string option \<Rightarrow> up_error + up_response"

section \<open>HTTP clients\<close>

definition proxied_client :: "('f, 'k) upstream_env \<Rightarrow> proxy_url \<Rightarrow> up_error + http_client" where
  "proxied_client env u =
     (let scheme = to_lower (pu_Scheme u) in
      if scheme = ''http'' \<or> scheme = ''https'' then Inr (HTTPProxy (pu_String u))
      else if scheme = ''socks5'' \<or> scheme = ''socks5h'' then
        (let auth = (case pu_User u of
              None \<Rightarrow> None
            | Some (user, pass) \<Rightarrow> if trim_space user \<noteq> [] then Some (trim_space user, pass) else None) in
         if ue_Dialer env (pu_Host u) then Inr (SOCKSProxy (pu_Host u) auth) else Inl DialerFails)
      else Inl (ProxyScheme (pu_Scheme u)))"

definition httpClientForProvider ::
    "('f, 'k) upstream_env \<Rightarrow> string \<Rightarrow> proxy_state \<Rightarrow> up_error + (http_client \<times> proxy_state)" where
  "httpClientForProvider env provider ps =
     (let raw = (case map_of (ps_proxies ps) (to_lower provider) of None \<Rightarrow> [] | Some v \<Rightarrow> v) in
      if raw = [] then Inr (BaseClient, ps)
      else
        case ue_ParseProxy env raw of
          None \<Rightarrow> Inl (ProxyInvalid raw)
        | Some u \<Rightarrow>
            if pu_Scheme u = [] \<or> pu_Host u = [] then Inl (ProxyInvalid raw)
            else
              case map_of (ps_httpByProxy ps) (pu_String u) of
                Some hc \<Rightarrow> Inr (hc, ps)
              | None \<Rightarrow>
                  bind_res (proxied_client env u) (\<lambda>hc.
                    Inr (hc, ps\<lparr>ps_httpByProxy := AList.update (pu_String u) hc (ps_httpByProxy ps)\<rparr>)))"

section \<open>Tokens\<close>

definition oauthTokenClient :: "proxy_state \<Rightarrow> client" where
  "oauthTokenClient ps =
     (case ps_oauth ps of
        Some cl \<Rightarrow> cl
      | None \<Rightarrow> client_New (ps_persistEnabled ps) (ps_persistDir ps) (ps_files ps))"

definition invalidateOAuthCache :: "string \<Rightarrow> proxy_state \<Rightarrow> proxy_state" where
  "invalidateOAuthCache key ps = ps\<lparr>ps_oauth := Some (Invalidate key (oauthTokenClient ps))\<rparr>"

definition identity_of :: "('f, 'k) upstream_env \<Rightarrow> identity_ops" where
  "identity_of env = \<lparr>io_sha256 = ov_sha256 (ue_oauth env), io_ReadFile = ov_ReadFile (ue_oauth env), io_TokenURI = ue_TokenURI env\<rparr>"

definition millisecond_ns :: int where
  "millisecond_ns = 1000000"

definition acquire_of :: "string \<Rightarrow> resolved_oauth \<Rightarrow> acquire_input" where
  "acquire_of cacheKey r =
     \<lparr>ai_CacheKey = cacheKey, ai_Mode = ro_Mode r, ai_TokenURL = ro_TokenURL r, ai_Method = ro_Method r,
      ai_ContentType = ro_ContentType r, ai_Form = ro_Form r, ai_CredentialFile = ro_CredentialFile r,
      ai_CredentialJSON = ro_CredentialJSON r, ai_Scope = ro_Scope r, ai_BasicAuthUsername = ro_BasicAuthUsername r,
      ai_BasicAuthPassword = ro_BasicAuthPassword r, ai_TokenPath = ro_TokenPath r, ai_ExpiresInPath = ro_ExpiresInPath r,
      ai_TokenTypePath = ro_TokenTypePath r, ai_Timeout = wrap64 (ro_TimeoutMs r * millisecond_ns),
      ai_RefreshSkew = wrap64 (ro_RefreshSkewSec r * second_ns), ai_FallbackTTL = wrap64 (ro_FallbackTTLSec r * second_ns)\<rparr>"

definition token_of_call ::
    "('f, 'k) upstream_env \<Rightarrow> nat \<Rightarrow> string \<Rightarrow> resolved_oauth \<Rightarrow> meta \<Rightarrow> proxy_state
     \<Rightarrow> ((up_error + meta) \<times> proxy_state) option" where
  "token_of_call env n provider r meta ps =
     (let cacheKey = buildOAuthCacheKey (identity_of env) provider (CacheIdentity (identity_of env) r) (mt_APIKey meta) in
      case GetToken (ue_oauth env) (ue_world env n) (oauthTokenClient ps) (acquire_of cacheKey r) of
        None \<Rightarrow> None
      | Some (cl, Inl e) \<Rightarrow> Some (Inl (OAuthFails e), ps\<lparr>ps_oauth := Some cl\<rparr>)
      | Some (cl, Inr tok) \<Rightarrow>
          Some (Inr (meta\<lparr>mt_OAuthCacheKey := cacheKey, mt_OAuthAccessToken := trim_space (tk_AccessToken tok)\<rparr>),
                ps\<lparr>ps_oauth := Some cl\<rparr>))"

definition prepareOAuthForUpstream ::
    "('f, 'k) upstream_env \<Rightarrow> nat \<Rightarrow> string \<Rightarrow> upstream_file \<Rightarrow> meta \<Rightarrow> proxy_state
     \<Rightarrow> ((up_error + meta) \<times> proxy_state) option" where
  "prepareOAuthForUpstream env n provider uf meta ps =
     (case Effective oauth_Merge (uf_Headers uf) meta of
        None \<Rightarrow> Some (Inr meta, ps)
      | Some phase \<Rightarrow>
          (case oauth_Resolve (ph_OAuth phase) meta of
             None \<Rightarrow> Some (Inr (meta\<lparr>mt_OAuthAccessToken := [], mt_OAuthCacheKey := []\<rparr>), ps)
           | Some r \<Rightarrow> token_of_call env n provider r meta ps))"

section \<open>Request identifiers of the upstream\<close>

definition setUpstreamRequestID :: "string \<Rightarrow> string option \<Rightarrow> string option" where
  "setUpstreamRequestID val0 current =
     (let val = trim_space val0 in
      if val = [] then current else Some (if length val > 256 then take 256 val else val))"

fun first_request_id :: "header \<Rightarrow> string list \<Rightarrow> string" where
  "first_request_id hdr [] = []"
| "first_request_id hdr (name # names) =
     (let v = trim_space (hdr_Get hdr name) in if v \<noteq> [] then v else first_request_id hdr names)"

definition recordUpstreamRequestID :: "upstream_file \<Rightarrow> up_response \<Rightarrow> string option \<Rightarrow> string option" where
  "recordUpstreamRequestID uf resp current =
     (case uf_RequestIDHeaders uf of
        None \<Rightarrow> current
      | Some names \<Rightarrow> setUpstreamRequestID (first_request_id (us_Header resp) names) current)"

section \<open>Attempts\<close>

definition request_content_type :: "string \<Rightarrow> header \<Rightarrow> string" where
  "request_content_type reqContentType hdr =
     (if trim_space reqContentType \<noteq> [] then trim_space reqContentType
      else if trim_space (hdr_Get hdr ''Content-Type'') \<noteq> [] then trim_space (hdr_Get hdr ''Content-Type'')
      else ''application/json'')"

definition upstream_request ::
    "upstream_file \<Rightarrow> string \<Rightarrow> http_call \<Rightarrow> meta \<Rightarrow> string option \<Rightarrow> string \<Rightarrow> up_request" where
  "upstream_request uf method call meta reqBody reqContentType =
     \<lparr>ur_Method = method, ur_URL = mt_BaseURL meta @ mt_RequestURLPath meta,
      ur_Header = headers_Apply oauth_Merge (uf_Headers uf) meta (hc_Headers call)
        (hdr_Set ''Content-Type'' (request_content_type reqContentType (hc_Headers call)) []),
      ur_Body = reqBody\<rparr>"

record outcome_state =
  os_result :: "up_error + up_response"
  os_meta :: meta
  os_state :: proxy_state
  os_sent :: "up_request list"
  os_requestID :: "string option"

definition failed :: "up_error \<Rightarrow> meta \<Rightarrow> proxy_state \<Rightarrow> up_request list \<Rightarrow> string option \<Rightarrow> outcome_state" where
  "failed e meta ps sent rid = \<lparr>os_result = Inl e, os_meta = meta, os_state = ps, os_sent = sent, os_requestID = rid\<rparr>"

text \<open>
  The loop over the attempts: \<open>left\<close> of them remain, \<open>lastResp\<close> is the answer of the previous one. The
  requests that were sent are collected.
\<close>

fun upstream_attempts ::
    "('f, 'k) upstream_env \<Rightarrow> string \<Rightarrow> upstream_file \<Rightarrow> string \<Rightarrow> http_call \<Rightarrow> string option \<Rightarrow> string \<Rightarrow> http_client
     \<Rightarrow> nat \<Rightarrow> nat \<Rightarrow> up_response option \<Rightarrow> meta \<Rightarrow> proxy_state \<Rightarrow> up_request list
     \<Rightarrow> string option \<Rightarrow> outcome_state option" where
  "upstream_attempts env provider uf method call reqBody ct hc 0 attempt lastResp meta ps sent rid =
     (case lastResp of
        None \<Rightarrow> Some (failed UpstreamFails meta ps sent rid)
      | Some resp \<Rightarrow> Some \<lparr>os_result = Inr resp, os_meta = meta, os_state = ps, os_sent = sent, os_requestID = rid\<rparr>)"
| "upstream_attempts env provider uf method call reqBody ct hc (Suc left) attempt lastResp meta ps sent rid =
     (if uo_Parse (ue_url env) (mt_BaseURL meta @ mt_RequestURLPath meta) = None
      then Some (failed RequestInvalid meta ps sent rid)
      else
        case prepareOAuthForUpstream env attempt provider uf meta ps of
          None \<Rightarrow> None
        | Some (Inl e, ps1) \<Rightarrow> Some (failed e meta ps1 sent rid)
        | Some (Inr meta1, ps1) \<Rightarrow>
            let req = upstream_request uf method call meta1 reqBody ct in
            case ue_Do env attempt hc req of
              None \<Rightarrow> Some (failed UpstreamFails meta1 ps1 (sent @ [req]) rid)
            | Some resp \<Rightarrow>
                if attempt = 0 \<and> us_Status resp = 401 \<and> trim_space (mt_OAuthCacheKey meta1) \<noteq> [] then
                  upstream_attempts env provider uf method call reqBody ct hc left (Suc attempt) (Some resp)
                    (meta1\<lparr>mt_OAuthAccessToken := []\<rparr>) (invalidateOAuthCache (mt_OAuthCacheKey meta1) ps1) (sent @ [req]) rid
                else Some \<lparr>os_result = Inr resp, os_meta = meta1, os_state = ps1, os_sent = sent @ [req],
                       os_requestID = recordUpstreamRequestID uf resp rid\<rparr>)"

declare upstream_attempts.simps(2) [simp del]

definition doUpstreamRequest ::
    "('f, 'k) upstream_env \<Rightarrow> string \<Rightarrow> upstream_file \<Rightarrow> string \<Rightarrow> http_call \<Rightarrow> meta \<Rightarrow> string option \<Rightarrow> string \<Rightarrow> proxy_state
     \<Rightarrow> string option \<Rightarrow> outcome_state option" where
  "doUpstreamRequest env provider uf method call meta reqBody ct ps rid =
     (if equal_fold (trim_space (mt_UpstreamTransport meta)) ''aws_sdk'' then
        Some \<lparr>os_result = ue_bedrock env meta reqBody, os_meta = meta, os_state = ps, os_sent = [],
              os_requestID = (case ue_bedrock env meta reqBody of Inl _ \<Rightarrow> rid | Inr resp \<Rightarrow> recordUpstreamRequestID uf resp rid)\<rparr>
      else if mt_BaseURL meta = [] then Some (failed BaseURLEmpty meta ps [] rid)
      else
        case httpClientForProvider env provider ps of
          Inl e \<Rightarrow> Some (failed e meta ps [] rid)
        | Inr (hc, ps1) \<Rightarrow> upstream_attempts env provider uf method call reqBody ct hc 2 0 None meta ps1 [] rid)"

section \<open>What the response phase reads\<close>

definition recordUpstreamRequestIDFromJSON ::
    "(string \<Rightarrow> jobj option) \<Rightarrow> upstream_file \<Rightarrow> string \<Rightarrow> string option \<Rightarrow> string option" where
  "recordUpstreamRequestIDFromJSON decode uf body current =
     (if current \<noteq> None then current
      else
        case uf_RequestIDPath uf of
          None \<Rightarrow> current
        | Some path \<Rightarrow>
            if body = [] then current
            else
              case decode body of
                None \<Rightarrow> current
              | Some ob \<Rightarrow> setUpstreamRequestID (GetStringByPath (JObj ob) path) current)"

definition shouldCollectSSE :: "'f response_directive option \<Rightarrow> up_response \<Rightarrow> bool" where
  "shouldCollectSSE respDir resp \<longleftrightarrow>
     (case respDir of
        None \<Rightarrow> False
      | Some d \<Rightarrow> trim_space (rd_SSECollectMode d) \<noteq> [] \<and>
          str_contains (to_lower (hdr_Get (us_Header resp) ''Content-Type'')) ''text/event-stream'')"

definition isEffectiveStream :: "bool \<Rightarrow> up_response \<Rightarrow> 'f response_directive option \<Rightarrow> bool" where
  "isEffectiveStream clientStream resp respDir \<longleftrightarrow>
     clientStream \<or>
     (\<not> shouldCollectSSE respDir resp \<and>
      str_contains (to_lower (hdr_Get (us_Header resp) ''Content-Type'')) ''text/event-stream'')"

section \<open>Expressions do not read the cache key\<close>

lemma builtin_key: "evalBuiltinStringVariable e (meta\<lparr>mt_OAuthCacheKey := k\<rparr>) = evalBuiltinStringVariable e meta"
  by (simp add: evalBuiltinStringVariable_def Let_def)

lemma template_key: "evalTemplateString (meta\<lparr>mt_OAuthCacheKey := k\<rparr>) req t = evalTemplateString meta req t"
proof (induction meta req t rule: evalTemplateString.induct)
  case (1 meta req t)
  let ?name = "trim_space (takeWhile (\<lambda>c. c \<noteq> CHR ''}'') (drop 2 t))"
  note simps = evalTemplateString.simps[of _ req t]
  show ?case
  proof (cases "t = [] \<or> has_prefix t ([bs] @ ''${'') \<or> \<not> has_prefix t ''${'' \<or> CHR ''}'' \<notin> set (drop 2 t)")
    case True
    then show ?thesis unfolding simps using 1(1,2) by auto
  next
    case False
    then show ?thesis
      unfolding simps using 1(3,4) by (cases "normalizeTemplateVariable ?name") (simp_all add: builtin_key Let_def)
  qed
qed

lemma present_key: "requestPathPresent (meta\<lparr>mt_OAuthCacheKey := k\<rparr>) path = requestPathPresent meta path"
  by (simp add: requestPathPresent_def RequestHasUploadedFile_def)

lemma expr_key: "evalStringExprValue (meta\<lparr>mt_OAuthCacheKey := k\<rparr>) req e = evalStringExprValue meta req e"
proof (induction meta req e rule: evalStringExprValue.induct)
  case (1 meta req e)
  have "map_res (evalStringExprValue (meta\<lparr>mt_OAuthCacheKey := k\<rparr>) req) (call_args ''concat('' (trim_space e)) =
      map_res (evalStringExprValue meta req) (call_args ''concat('' (trim_space e))"
    if "trim_space e \<noteq> []" "\<not> (has_prefix (trim_space e) ''template('' \<and> has_suffix (trim_space e) '')'')"
      "\<not> isIfPresentExpr (trim_space e)" "has_prefix (trim_space e) ''concat('' \<and> has_suffix (trim_space e) '')''"
    by (rule map_res_cong[OF refl]) (use that 1(2) in simp)
  then show ?case
    by (subst (1 2) evalStringExprValue.simps) (auto simp: 1(1) builtin_key template_key present_key Let_def)
qed

lemma EvalStringExpr_key [simp]: "EvalStringExpr e (meta\<lparr>mt_OAuthCacheKey := k\<rparr>) = EvalStringExpr e meta"
  by (simp add: EvalStringExpr_def expr_key)

lemma put_fields_key [simp]: "put_fields (meta\<lparr>mt_OAuthCacheKey := k\<rparr>) fs form = put_fields meta fs form"
  by (induction fs arbitrary: form) (simp_all add: Let_def)

lemma oauth_Resolve_key [simp]: "oauth_Resolve c (meta\<lparr>mt_OAuthCacheKey := k\<rparr>) = oauth_Resolve c meta"
  by (simp add: oauth_Resolve_def grant_settings_def base_settings_def refresh_form_def eval_or_def Let_def)

lemma Effective_key [simp]: "Effective m p (meta\<lparr>mt_OAuthCacheKey := k\<rparr>) = Effective m p meta"
  by (simp add: Effective_def Let_def)

lemma Effective_token [simp]: "Effective m p (meta\<lparr>mt_OAuthAccessToken := k\<rparr>) = Effective m p meta"
  by (simp add: Effective_def Let_def)

lemma apply_header_op_key [simp]: "apply_header_op (meta\<lparr>mt_OAuthCacheKey := k\<rparr>) src op = apply_header_op meta src op"
  by (rule ext) (simp add: apply_header_op_def Let_def)

section \<open>One token for an attempt\<close>

lemma prepareOAuth_meta:
  assumes "prepareOAuthForUpstream env n provider uf meta ps = Some (Inr meta1, ps1)"
  obtains k t where "meta1 = meta\<lparr>mt_OAuthCacheKey := k, mt_OAuthAccessToken := t\<rparr>"
proof -
  from assms consider "meta1 = meta" | "meta1 = meta\<lparr>mt_OAuthAccessToken := [], mt_OAuthCacheKey := []\<rparr>"
    | k t where "meta1 = meta\<lparr>mt_OAuthCacheKey := k, mt_OAuthAccessToken := t\<rparr>"
    unfolding prepareOAuthForUpstream_def token_of_call_def Let_def
    by (auto split: option.splits sum.splits prod.splits)
  then show thesis
  proof cases
    case 1
    then show thesis by (intro that[where k = "mt_OAuthCacheKey meta" and t = "mt_OAuthAccessToken meta"]) simp
  next
    case 2
    then show thesis by (intro that[of "[]" "[]"]) simp
  next
    case (3 k t)
    then show thesis by (rule that)
  qed
qed

lemma upstream_request_fixed:
  "ur_Method (upstream_request uf method call meta body ct) = method"
  "ur_URL (upstream_request uf method call meta body ct) = mt_BaseURL meta @ mt_RequestURLPath meta"
  "ur_Body (upstream_request uf method call meta body ct) = body"
  by (simp_all add: upstream_request_def)

text \<open>The last attempt sends at most one more request.\<close>

lemma last_attempt:
  assumes "upstream_attempts env provider uf method call body ct hc (Suc 0) (Suc 0) resp0 meta ps sent rid = Some out"
  shows "os_sent out = sent \<or> (\<exists>k t. os_sent out = sent @ [upstream_request uf method call (meta\<lparr>mt_OAuthCacheKey := k, mt_OAuthAccessToken := t\<rparr>) body ct])"
proof (cases "uo_Parse (ue_url env) (mt_BaseURL meta @ mt_RequestURLPath meta)")
  case None
  then show ?thesis using assms by (auto simp: upstream_attempts.simps failed_def)
next
  case (Some u)
  show ?thesis
  proof (cases "prepareOAuthForUpstream env (Suc 0) provider uf meta ps")
    case None
    then show ?thesis using assms Some by (simp add: upstream_attempts.simps)
  next
    case (Some p)
    obtain r ps1 where p: "p = (r, ps1)" by (cases p)
    show ?thesis
    proof (cases r)
      case (Inl e)
      then show ?thesis using assms Some p \<open>uo_Parse _ _ = Some u\<close> by (auto simp: upstream_attempts.simps failed_def)
    next
      case (Inr meta1)
      with Some p have "prepareOAuthForUpstream env (Suc 0) provider uf meta ps = Some (Inr meta1, ps1)" by simp
      from prepareOAuth_meta[OF this] obtain k t where m: "meta1 = meta\<lparr>mt_OAuthCacheKey := k, mt_OAuthAccessToken := t\<rparr>" .
      have "os_sent out = sent @ [upstream_request uf method call meta1 body ct]"
        using assms Some p Inr \<open>uo_Parse _ _ = Some u\<close> by (auto simp: upstream_attempts.simps failed_def Let_def split: option.splits)
      with m show ?thesis by blast
    qed
  qed
qed

lemma first_attempt:
  assumes "upstream_attempts env provider uf method call body ct hc 2 0 None meta ps [] rid = Some out"
  obtains (none) "os_sent out = []"
    | (once) k t where "os_sent out = [upstream_request uf method call (meta\<lparr>mt_OAuthCacheKey := k, mt_OAuthAccessToken := t\<rparr>) body ct]"
    | (again) k t ps1 req resp where
      "prepareOAuthForUpstream env 0 provider uf meta ps = Some (Inr (meta\<lparr>mt_OAuthCacheKey := k, mt_OAuthAccessToken := t\<rparr>), ps1)"
      "req = upstream_request uf method call (meta\<lparr>mt_OAuthCacheKey := k, mt_OAuthAccessToken := t\<rparr>) body ct"
      "ue_Do env 0 hc req = Some resp" "us_Status resp = 401" "trim_space k \<noteq> []"
      "upstream_attempts env provider uf method call body ct hc (Suc 0) (Suc 0) (Some resp)
         (meta\<lparr>mt_OAuthCacheKey := k, mt_OAuthAccessToken := []\<rparr>) (invalidateOAuthCache k ps1) [req] rid = Some out"
proof (cases "uo_Parse (ue_url env) (mt_BaseURL meta @ mt_RequestURLPath meta)")
  case None
  then show ?thesis using assms none by (auto simp: numeral_2_eq_2 upstream_attempts.simps failed_def)
next
  case (Some u)
  note step = assms[unfolded numeral_2_eq_2, unfolded upstream_attempts.simps(2)[of _ _ _ _ _ _ _ _ "Suc 0"]]
  show ?thesis
  proof (cases "prepareOAuthForUpstream env 0 provider uf meta ps")
    case None
    then show ?thesis using step Some by simp
  next
    case (Some p)
    obtain r ps1 where p: "p = (r, ps1)" by (cases p)
    show ?thesis
    proof (cases r)
      case (Inl e)
      then show ?thesis using step Some p \<open>uo_Parse _ _ = Some u\<close> none by (auto simp: failed_def)
    next
      case (Inr meta1)
      with Some p have prep: "prepareOAuthForUpstream env 0 provider uf meta ps = Some (Inr meta1, ps1)" by simp
      from prepareOAuth_meta[OF this] obtain k t where m: "meta1 = meta\<lparr>mt_OAuthCacheKey := k, mt_OAuthAccessToken := t\<rparr>" .
      define req where "req = upstream_request uf method call meta1 body ct"
      note go = step[unfolded prep option.case sum.case prod.case Let_def append_Nil, folded req_def]
      show ?thesis
      proof (cases "ue_Do env 0 hc req")
        case None
        then show ?thesis using go \<open>uo_Parse _ _ = Some u\<close> once[where k = k and t = t] by (auto simp: failed_def req_def m)
      next
        case (Some resp)
        show ?thesis
        proof (cases "us_Status resp = 401 \<and> trim_space k \<noteq> []")
          case True
          then show ?thesis
            using go \<open>uo_Parse _ _ = Some u\<close> Some again[OF prep[unfolded m] req_def[unfolded m]] by (simp add: m)
        next
          case False
          then have "os_sent out = [req]" using go \<open>uo_Parse _ _ = Some u\<close> Some by (auto simp: m)
          then show ?thesis by (intro once[where k = k and t = t]) (simp add: req_def m)
        qed
      qed
    qed
  qed
qed

section \<open>The second attempt\<close>

text \<open>
  A request goes upstream at most twice, and a second time only when the first answer was an
  unauthorised status and the call carries an OAuth token; both times the method, the URL and the body
  are those that were prepared.
\<close>
theorem upstream_retry_bounded:
  assumes "doUpstreamRequest env provider uf method call meta body ct ps rid = Some out"
  shows "length (os_sent out) \<le> 2
    \<and> (\<forall>q \<in> set (os_sent out). ur_Method q = method \<and> ur_URL q = mt_BaseURL meta @ mt_RequestURLPath meta \<and> ur_Body q = body)
    \<and> (\<forall>a b. os_sent out = [a, b] \<longrightarrow> (\<exists>hc resp. ue_Do env 0 hc a = Some resp \<and> us_Status resp = 401))"
proof (cases "os_sent out = []")
  case False
  with assms obtain hc ps1 where
    att: "upstream_attempts env provider uf method call body ct hc 2 0 None meta ps1 [] rid = Some out"
    by (auto simp: doUpstreamRequest_def failed_def split: if_splits sum.splits prod.splits)
  from att show ?thesis
  proof (cases rule: first_attempt)
    case (again k t ps2 req resp)
    have "\<exists>hc resp. ue_Do env 0 hc req = Some resp \<and> us_Status resp = 401" using again(3,4) by blast
    with last_attempt[OF again(6)] again(2) show ?thesis by (auto simp: upstream_request_fixed) blast
  qed (use False in \<open>simp_all add: upstream_request_fixed\<close>)
qed simp

lemma GetToken_persist: "GetToken env w cl inp = Some (cl', r) \<Longrightarrow> cl_persistEnabled cl' = cl_persistEnabled cl"
  by (auto simp: GetToken_def fly_def beginFlight_def close_flight_def remove_flight_def savePersisted_def Let_def
      split: sum.splits option.splits prod.splits if_splits)

lemma fly_inFlight:
  assumes "beginFlight key cl = ((f, True), cl1)"
  shows "map_of (cl_inFlight (fst (fly env w key inp f cl1))) = (map_of (cl_inFlight cl))(key := None)"
  using assms by (auto simp: beginFlight_def fly_def close_flight_def remove_flight_def Let_def update_conv' delete_conv' fun_eq_iff
      split: option.splits sum.splits if_splits)

lemma GetToken_inFlight:
  assumes "GetToken env w cl inp = Some (cl', r)" "map_of (cl_inFlight cl) = Map.empty"
  shows "map_of (cl_inFlight cl') = Map.empty"
proof -
  have own: "beginFlight key cl = ((f, owner), cl1) \<Longrightarrow> owner" for key f owner cl1
    using assms(2) by (auto simp: beginFlight_def Let_def)
  show ?thesis
    using assms own fly_inFlight[of _ cl _ _ env w]
    by (auto simp: GetToken_def Let_def split: sum.splits option.splits prod.splits if_splits)
       (metis (no_types, lifting) fst_conv fun_upd_triv)+
qed

lemma GetToken_after_invalidate:
  assumes "check_input inp = Inr (key, inp')" "map_of (cl_inFlight cl) = Map.empty" "\<not> cl_persistEnabled cl"
    and "GetToken env w (Invalidate (ai_CacheKey inp) cl) inp = Some (cl', r)"
  shows "r = requestToken env w inp'"
proof -
  let ?cl = "Invalidate (ai_CacheKey inp) cl"
  from assms(1) have key: "key = trim_space (ai_CacheKey inp)" "key \<noteq> []"
    by (auto simp: check_input_def Let_def split: if_splits)
  then have "map_of (cl_cache ?cl) key = None" by (simp add: Invalidate_def Let_def delete_conv')
  then have "getCachedValid (wd_now w) ?cl key (ai_RefreshSkew inp') = None" by (simp add: getCachedValid_def)
  moreover have "\<not> cl_persistEnabled ?cl" using assms(3) by (simp add: Invalidate_def Let_def)
  moreover obtain f cl1 where "beginFlight key ?cl = ((f, True), cl1)"
    using assms(2) by (auto simp: beginFlight_def Let_def)
  ultimately show ?thesis using assms(1,4) fly_result[of env w key inp' f cl1] by (auto simp: GetToken_def)
qed

lemma GetToken_persisted_again:
  assumes "check_input inp = Inr (key, inp')" "cl_persistEnabled cl"
    and "loadPersistedValid env (wd_now w) cl key (ai_RefreshSkew inp') = Some tok"
  shows "GetToken env w (Invalidate (ai_CacheKey inp) cl) inp = Some (put_cache key tok (Invalidate (ai_CacheKey inp) cl), Inr tok)"
proof -
  let ?cl = "Invalidate (ai_CacheKey inp) cl"
  from assms(1) have key: "key = trim_space (ai_CacheKey inp)" "key \<noteq> []"
    by (auto simp: check_input_def Let_def split: if_splits)
  then have "map_of (cl_cache ?cl) key = None" by (simp add: Invalidate_def Let_def delete_conv')
  then have "getCachedValid (wd_now w) ?cl key (ai_RefreshSkew inp') = None" by (simp add: getCachedValid_def)
  moreover have "cl_persistEnabled ?cl" using assms(2) by (simp add: Invalidate_def Let_def)
  moreover have "loadPersistedValid env (wd_now w) ?cl key (ai_RefreshSkew inp') = Some tok"
    using assms(3) by (simp add: loadPersistedValid_def Let_def persistPath_dir[of ?cl cl] split: if_splits)
  ultimately show ?thesis using assms(1) by (simp add: GetToken_def)
qed

text \<open>The attempt of a call whose header phase has OAuth settings.\<close>

definition oauth_settings :: "upstream_file \<Rightarrow> meta \<Rightarrow> resolved_oauth option" where
  "oauth_settings uf meta =
     (case Effective oauth_Merge (uf_Headers uf) meta of None \<Rightarrow> None | Some phase \<Rightarrow> oauth_Resolve (ph_OAuth phase) meta)"

lemma oauth_settings_key [simp]: "oauth_settings uf (meta\<lparr>mt_OAuthCacheKey := k\<rparr>) = oauth_settings uf meta"
  by (simp add: oauth_settings_def split: option.split)

definition call_key :: "('f, 'k) upstream_env \<Rightarrow> string \<Rightarrow> resolved_oauth \<Rightarrow> meta \<Rightarrow> string" where
  "call_key env provider r meta = buildOAuthCacheKey (identity_of env) provider (CacheIdentity (identity_of env) r) (mt_APIKey meta)"

lemma prepare_with_settings:
  assumes "oauth_settings uf meta = Some r"
  shows "prepareOAuthForUpstream env n provider uf meta ps = token_of_call env n provider r meta ps"
  using assms by (auto simp: oauth_settings_def prepareOAuthForUpstream_def split: option.splits)

lemma token_of_callD:
  assumes "token_of_call env n provider r meta ps = Some (Inr meta1, ps1)"
  obtains cl tok where "GetToken (ue_oauth env) (ue_world env n) (oauthTokenClient ps) (acquire_of (call_key env provider r meta) r) = Some (cl, Inr tok)"
    "meta1 = meta\<lparr>mt_OAuthCacheKey := call_key env provider r meta, mt_OAuthAccessToken := trim_space (tk_AccessToken tok)\<rparr>"
    "ps1 = ps\<lparr>ps_oauth := Some cl\<rparr>"
  using assms by (auto simp: token_of_call_def call_key_def Let_def split: option.splits sum.splits prod.splits)

lemma oauthTokenClient_put [simp]: "oauthTokenClient (ps\<lparr>ps_oauth := Some cl\<rparr>) = cl"
  by (simp add: oauthTokenClient_def)

lemma oauthTokenClient_invalidate [simp]: "oauthTokenClient (invalidateOAuthCache k ps) = Invalidate k (oauthTokenClient ps)"
  by (simp add: invalidateOAuthCache_def)

lemma httpClient_oauth: "httpClientForProvider env provider ps = Inr (hc, ps1) \<Longrightarrow> oauthTokenClient ps1 = oauthTokenClient ps"
  by (auto simp: httpClientForProvider_def Let_def bind_res_eq_Inr oauthTokenClient_def split: if_splits option.splits)

text \<open>What a call that was retried has done, with the settings \<open>r\<close> that both attempts resolve.\<close>

lemma retried_call:
  assumes "doUpstreamRequest env provider uf method call meta body ct ps rid = Some out" "os_sent out = [a, b]"
    and "oauth_settings uf meta = Some r" "mt_OAuthAccessToken meta = []"
  obtains key cl0 tok0 cl1 tok1 where "key = call_key env provider r meta"
    "GetToken (ue_oauth env) (ue_world env 0) (oauthTokenClient ps) (acquire_of key r) = Some (cl0, Inr tok0)"
    "GetToken (ue_oauth env) (ue_world env 1) (Invalidate key cl0) (acquire_of key r) = Some (cl1, Inr tok1)"
    "a = upstream_request uf method call (meta\<lparr>mt_OAuthCacheKey := key, mt_OAuthAccessToken := trim_space (tk_AccessToken tok0)\<rparr>) body ct"
    "b = upstream_request uf method call (meta\<lparr>mt_OAuthCacheKey := key, mt_OAuthAccessToken := trim_space (tk_AccessToken tok1)\<rparr>) body ct"
proof -
  let ?key = "call_key env provider r meta"
  from assms(1,2) obtain hc ps1 where hc: "httpClientForProvider env provider ps = Inr (hc, ps1)"
    and att: "upstream_attempts env provider uf method call body ct hc 2 0 None meta ps1 [] rid = Some out"
    by (auto simp: doUpstreamRequest_def failed_def split: if_splits sum.splits prod.splits)
  from att show thesis
  proof (cases rule: first_attempt)
    case (again k t ps2 req resp)
    from again(1) prepare_with_settings[OF assms(3), of env 0 provider ps1]
    have "token_of_call env 0 provider r meta ps1 = Some (Inr (meta\<lparr>mt_OAuthCacheKey := k, mt_OAuthAccessToken := t\<rparr>), ps2)" by simp
    then obtain cl0 tok0 where g0: "GetToken (ue_oauth env) (ue_world env 0) (oauthTokenClient ps1) (acquire_of ?key r) = Some (cl0, Inr tok0)"
      and m: "meta\<lparr>mt_OAuthCacheKey := k, mt_OAuthAccessToken := t\<rparr> =
        meta\<lparr>mt_OAuthCacheKey := ?key, mt_OAuthAccessToken := trim_space (tk_AccessToken tok0)\<rparr>"
      and ps2: "ps2 = ps1\<lparr>ps_oauth := Some cl0\<rparr>"
      by (rule token_of_callD)
    from arg_cong[OF m, of mt_OAuthCacheKey] have k: "k = ?key" by simp
    let ?m = "meta\<lparr>mt_OAuthCacheKey := ?key\<rparr>"
    have m1: "meta\<lparr>mt_OAuthCacheKey := ?key, mt_OAuthAccessToken := []\<rparr> = ?m" using assms(4) by simp
    note att2 = again(6)[unfolded k, unfolded m1]
    have set: "oauth_settings uf ?m = Some r" using assms(3) by simp
    note prep = prepare_with_settings[OF set, of env "Suc 0" provider "invalidateOAuthCache ?key ps2"]
    show thesis
    proof (cases "\<exists>meta2 ps3. prepareOAuthForUpstream env (Suc 0) provider uf ?m (invalidateOAuthCache ?key ps2) = Some (Inr meta2, ps3)")
      case False
      then have "os_sent out = [req]"
        using att2 by (auto simp: upstream_attempts.simps failed_def split: if_splits option.splits sum.splits prod.splits)
      with assms(2) show thesis by simp
    next
      case True
      then obtain meta2 ps3 where p2: "prepareOAuthForUpstream env (Suc 0) provider uf ?m (invalidateOAuthCache ?key ps2) = Some (Inr meta2, ps3)" by blast
      with prep have "token_of_call env (Suc 0) provider r ?m (invalidateOAuthCache ?key ps2) = Some (Inr meta2, ps3)" by simp
      then obtain cl1 tok1 where g1: "GetToken (ue_oauth env) (ue_world env 1) (Invalidate ?key cl0) (acquire_of ?key r) = Some (cl1, Inr tok1)"
        and m2: "meta2 = meta\<lparr>mt_OAuthCacheKey := ?key, mt_OAuthAccessToken := trim_space (tk_AccessToken tok1)\<rparr>"
        by (rule token_of_callD) (simp add: ps2 call_key_def)
      have "os_sent out = [req] \<or> os_sent out = [req, upstream_request uf method call meta2 body ct]"
        using att2 p2 by (auto simp: upstream_attempts.simps failed_def Let_def split: if_splits option.splits)
      with assms(2) have ab: "a = req" "b = upstream_request uf method call meta2 body ct" by auto
      show thesis
        by (rule that[OF refl g0[unfolded httpClient_oauth[OF hc]] g1]) (simp_all add: ab again(2) m m2)
    qed
  qed (use assms(2) in auto)
qed

text \<open>
  C32. Without persisted tokens the second attempt carries a new token: it is the one that the token endpoint
  issues to the second attempt, never the one that was just refused.
\<close>
theorem retry_uses_new_token:
  assumes "doUpstreamRequest env provider uf method call meta body ct ps rid = Some out" "os_sent out = [a, b]"
    and "oauth_settings uf meta = Some r" "mt_OAuthAccessToken meta = []"
    and "\<not> cl_persistEnabled (oauthTokenClient ps)" "map_of (cl_inFlight (oauthTokenClient ps)) = Map.empty"
  shows "\<exists>key inp tok. check_input (acquire_of key r) = Inr (trim_space key, inp)
    \<and> requestToken (ue_oauth env) (ue_world env 1) inp = Inr tok
    \<and> b = upstream_request uf method call (meta\<lparr>mt_OAuthCacheKey := key, mt_OAuthAccessToken := trim_space (tk_AccessToken tok)\<rparr>) body ct"
  using assms(1-4)
proof (rule retried_call)
  fix key cl0 tok0 cl1 tok1
  assume g0: "GetToken (ue_oauth env) (ue_world env 0) (oauthTokenClient ps) (acquire_of key r) = Some (cl0, Inr tok0)"
    and g1: "GetToken (ue_oauth env) (ue_world env 1) (Invalidate key cl0) (acquire_of key r) = Some (cl1, Inr tok1)"
    and b: "b = upstream_request uf method call (meta\<lparr>mt_OAuthCacheKey := key, mt_OAuthAccessToken := trim_space (tk_AccessToken tok1)\<rparr>) body ct"
  from g0 obtain inp where c: "check_input (acquire_of key r) = Inr (trim_space key, inp)"
    by (auto simp: GetToken_def check_input_def Let_def acquire_of_def split: if_splits)
  have k: "ai_CacheKey (acquire_of key r) = key" by (simp add: acquire_of_def)
  from GetToken_after_invalidate[OF c, unfolded k, OF GetToken_inFlight[OF g0 assms(6)] _ g1] GetToken_persist[OF g0] assms(5)
  have "requestToken (ue_oauth env) (ue_world env 1) inp = Inr tok1" by simp
  with c b show ?thesis by blast
qed

text \<open>
  C33. With persisted tokens the second attempt is lost: \<^verbatim>\<open>Invalidate\<close> forgets the token in memory but leaves its
  file, so that the second attempt finds the refused token there, as long as it is not about to expire,
  and sends the same request again.
\<close>
theorem retry_repeats_persisted_token:
  assumes "doUpstreamRequest env provider uf method call meta body ct ps rid = Some out" "os_sent out = [a, b]"
    and "oauth_settings uf meta = Some r" "mt_OAuthAccessToken meta = []" "key = call_key env provider r meta"
    and "GetToken (ue_oauth env) (ue_world env 0) (oauthTokenClient ps) (acquire_of key r) = Some (cl0, Inr tok0)"
    and "cl_persistEnabled (oauthTokenClient ps)" "check_input (acquire_of key r) = Inr (trim_space key, inp)"
    and "loadPersistedValid (ue_oauth env) (wd_now (ue_world env 1)) cl0 (trim_space key) (ai_RefreshSkew inp) = Some tok1"
    and "tk_AccessToken tok1 = tk_AccessToken tok0"
  shows "a = b"
  using assms(1-4)
proof (rule retried_call)
  fix key' cl0' tok0' cl1 tok1'
  assume k': "key' = call_key env provider r meta"
    and g0: "GetToken (ue_oauth env) (ue_world env 0) (oauthTokenClient ps) (acquire_of key' r) = Some (cl0', Inr tok0')"
    and g1: "GetToken (ue_oauth env) (ue_world env 1) (Invalidate key' cl0') (acquire_of key' r) = Some (cl1, Inr tok1')"
    and a: "a = upstream_request uf method call (meta\<lparr>mt_OAuthCacheKey := key', mt_OAuthAccessToken := trim_space (tk_AccessToken tok0')\<rparr>) body ct"
    and b: "b = upstream_request uf method call (meta\<lparr>mt_OAuthCacheKey := key', mt_OAuthAccessToken := trim_space (tk_AccessToken tok1')\<rparr>) body ct"
  from g0 assms(5,6) k' have same: "key' = key" "cl0' = cl0" "tok0' = tok0" by auto
  have k: "ai_CacheKey (acquire_of key r) = key" by (simp add: acquire_of_def)
  from GetToken_persist[OF assms(6)] assms(7) have "cl_persistEnabled cl0" by simp
  from GetToken_persisted_again[OF assms(8) this assms(9), unfolded k] g1 same have "tok1' = tok1" by simp
  with a b same assms(10) show ?thesis by simp
qed

section \<open>Outbound proxies\<close>

definition proxy_cache_ok :: "('f, 'k) upstream_env \<Rightarrow> proxy_state \<Rightarrow> bool" where
  "proxy_cache_ok env ps \<longleftrightarrow>
     (\<forall>s hc. map_of (ps_httpByProxy ps) s = Some hc \<longrightarrow> (\<exists>u. pu_String u = s \<and> proxied_client env u = Inr hc))"

lemma proxied_not_base: "proxied_client env u = Inr hc \<Longrightarrow> hc \<noteq> BaseClient"
  by (auto simp: proxied_client_def Let_def split: if_splits)


section \<open>Witnesses\<close>

text \<open>A call whose first answer is unauthorised does send the second request.\<close>

lemma retry_happens:
  assumes "\<not> equal_fold (trim_space (mt_UpstreamTransport meta)) ''aws_sdk''" "mt_BaseURL meta \<noteq> []"
    and "httpClientForProvider env provider ps = Inr (hc, ps1)" "uo_Parse (ue_url env) (mt_BaseURL meta @ mt_RequestURLPath meta) = Some u"
    and "oauth_settings uf meta = Some r" "mt_OAuthAccessToken meta = []"
    and "key = call_key env provider r meta" "trim_space key \<noteq> []"
    and "GetToken (ue_oauth env) (ue_world env 0) (oauthTokenClient ps) (acquire_of key r) = Some (cl0, Inr tok0)"
    and "GetToken (ue_oauth env) (ue_world env 1) (Invalidate key cl0) (acquire_of key r) = Some (cl1, Inr tok1)"
    and "\<And>q. \<exists>resp. ue_Do env 0 hc q = Some resp \<and> us_Status resp = 401" "\<And>q. \<exists>resp. ue_Do env 1 hc q = Some resp"
  shows "\<exists>out. doUpstreamRequest env provider uf method call meta body ct ps rid = Some out \<and>
    os_sent out = [upstream_request uf method call (meta\<lparr>mt_OAuthCacheKey := key, mt_OAuthAccessToken := trim_space (tk_AccessToken tok0)\<rparr>) body ct,
      upstream_request uf method call (meta\<lparr>mt_OAuthCacheKey := key, mt_OAuthAccessToken := trim_space (tk_AccessToken tok1)\<rparr>) body ct]"
proof -
  let ?m0 = "meta\<lparr>mt_OAuthCacheKey := key, mt_OAuthAccessToken := trim_space (tk_AccessToken tok0)\<rparr>"
  let ?m1 = "meta\<lparr>mt_OAuthCacheKey := key, mt_OAuthAccessToken := trim_space (tk_AccessToken tok1)\<rparr>"
  let ?q0 = "upstream_request uf method call ?m0 body ct" and ?q1 = "upstream_request uf method call ?m1 body ct"
  let ?ps0 = "ps1\<lparr>ps_oauth := Some cl0\<rparr>"
  have k: "buildOAuthCacheKey (identity_of env) provider (CacheIdentity (identity_of env) r) (mt_APIKey meta) = key"
    using assms(7) by (simp add: call_key_def)
  have p0: "prepareOAuthForUpstream env 0 provider uf meta ps1 = Some (Inr ?m0, ?ps0)"
    unfolding prepare_with_settings[OF assms(5)] using assms(9)
    by (simp add: token_of_call_def k httpClient_oauth[OF assms(3)])
  have set: "oauth_settings uf (meta\<lparr>mt_OAuthCacheKey := key\<rparr>) = Some r" using assms(5) by simp
  have p1: "prepareOAuthForUpstream env (Suc 0) provider uf (meta\<lparr>mt_OAuthCacheKey := key\<rparr>) (invalidateOAuthCache key ?ps0)
      = Some (Inr ?m1, (invalidateOAuthCache key ?ps0)\<lparr>ps_oauth := Some cl1\<rparr>)"
    unfolding prepare_with_settings[OF set] using assms(10) by (simp add: token_of_call_def k)
  have restored: "?m0\<lparr>mt_OAuthAccessToken := []\<rparr> = meta\<lparr>mt_OAuthCacheKey := key\<rparr>" using assms(6) by simp
  obtain r0 r1 where d: "ue_Do env 0 hc ?q0 = Some r0" "us_Status r0 = 401" "ue_Do env (Suc 0) hc ?q1 = Some r1"
    using assms(11)[of ?q0] assms(12)[of ?q1] by auto
  have "doUpstreamRequest env provider uf method call meta body ct ps rid =
      upstream_attempts env provider uf method call body ct hc (Suc 0) (Suc 0) (Some r0) (meta\<lparr>mt_OAuthCacheKey := key\<rparr>)
        (invalidateOAuthCache key ?ps0) [?q0] rid"
    using assms(1-4,8) p0 d(1,2) restored by (simp add: doUpstreamRequest_def numeral_2_eq_2 upstream_attempts.simps Let_def)
  then show ?thesis using assms(4) p1 d(3) by (simp add: upstream_attempts.simps Let_def)
qed

definition retry_phase :: "oauth_config phase_headers" where
  "retry_phase =
     \<lparr>ph_Auth = [\<lparr>ho_Op = ''header_set'', ho_NameExpr = [dq] @ ''Authorization'' @ [dq], ho_ValueExpr = ''$oauth.access_token'',
        ho_Patterns = [], ho_Separator = []\<rparr>], ph_Request = [], ph_OAuth = demo_oauth, ph_AWSSigV4 = False\<rparr>"

definition retry_file :: upstream_file where
  "retry_file = \<lparr>uf_Headers = \<lparr>pvh_Defaults = retry_phase, pvh_Matches = []\<rparr>, uf_RequestIDHeaders = None, uf_RequestIDPath = None\<rparr>"

definition retry_meta :: meta where
  "retry_meta = demo_meta\<lparr>mt_BaseURL := ''u'', mt_OAuthAccessToken := []\<rparr>"

definition retry_oauth_env :: "(int, int) oauth_env" where
  "retry_oauth_env = token_env\<lparr>ov_sha256 := (\<lambda>_. ''h''), ov_PersistEnc := fst, ov_PersistDec := (\<lambda>b. Some (b, ''Bearer'', 60))\<rparr>"

text \<open>The endpoint issues a new token to each attempt; the upstream refuses the first one.\<close>

definition retry_env :: "(int, int) upstream_env" where
  "retry_env =
     \<lparr>ue_oauth = retry_oauth_env, ue_TokenURI = (\<lambda>_. None),
      ue_url = \<lparr>uo_Parse = (\<lambda>s. Some \<lparr>u_Path = s, u_RawQuery = [], u_Other = []\<rparr>), uo_String = u_Path\<rparr>,
      ue_ParseProxy = (\<lambda>s. Some \<lparr>pu_Scheme = ''HTTP'', pu_Host = s, pu_User = None, pu_String = s\<rparr>),
      ue_Dialer = (\<lambda>_. True), ue_world = (\<lambda>n. token_world (if n = 0 then ''t'' else ''n'')),
      ue_Do = (\<lambda>n hc q. Some \<lparr>us_Status = (if n = 0 then 401 else 200), us_Header = [], us_Body = []\<rparr>),
      ue_bedrock = (\<lambda>_ _. Inl UpstreamFails)\<rparr>"

definition retry_state :: "bool \<Rightarrow> proxy_state" where
  "retry_state persist = \<lparr>ps_oauth = None, ps_persistEnabled = persist, ps_persistDir = ''d'', ps_files = [],
     ps_proxies = [(''a'', ''p'')], ps_httpByProxy = []\<rparr>"

definition retry_call :: http_call where
  "retry_call = \<lparr>hc_CachedBody = None, hc_CachedRoot = None, hc_CachedModel = [], hc_CachedContentType = [], hc_Body = None,
     hc_Headers = [], hc_Path = [], hc_URI = [], hc_RawQuery = [], hc_Model = []\<rparr>"

lemma retry_settings: "oauth_settings retry_file retry_meta = Some demo_resolved"
  by code_simp

definition retry_key :: string where
  "retry_key = ''a|sha256:68|68''"

lemma retry_call_key: "call_key retry_env ''a'' demo_resolved retry_meta = retry_key"
  by code_simp

definition retry_input :: acquire_input where
  "retry_input = acquire_of retry_key demo_resolved"

lemma retry_key_trim: "trim_space retry_key = retry_key" "retry_key \<noteq> []"
  by code_simp+

lemma retry_check: "check_input retry_input = Inr (retry_key, normalize_input retry_input)"
  by code_simp

definition new_token :: "string \<Rightarrow> token" where
  "new_token t = \<lparr>tk_AccessToken = t, tk_TokenType = ''Bearer'', tk_ExpiresAt = 60000000000\<rparr>"

lemma retry_requests:
  "requestToken retry_oauth_env (token_world ''t'') (normalize_input retry_input) = Inr (new_token ''t'')"
  "requestToken retry_oauth_env (token_world ''n'') (normalize_input retry_input) = Inr (new_token ''n'')"
  by code_simp+

definition retry_after :: "bool \<Rightarrow> client" where
  "retry_after persist =
     \<lparr>cl_persistEnabled = persist, cl_persistDir = ''d'', cl_cache = [(retry_key, new_token ''t'')], cl_inFlight = [],
      cl_flights = [\<lparr>fl_done = True, fl_token = new_token ''t'', fl_err = None\<rparr>],
      cl_files = (if persist then [(''d/68.json'', ''t'')] else [])\<rparr>"

lemma retry_start: "oauthTokenClient (retry_state persist) = client_New persist ''d'' []"
  by (simp add: oauthTokenClient_def retry_state_def)

lemma retry_path: "cl_persistDir cl = ''d'' \<Longrightarrow> persistPath retry_oauth_env cl k = ''d/68.json''"
proof -
  have "trim_space ''d'' = ''d''" "hex_encode ''h'' = ''68''" by code_simp+
  then show "cl_persistDir cl = ''d'' \<Longrightarrow> persistPath retry_oauth_env cl k = ''d/68.json''"
    by (simp add: persistPath_def retry_oauth_env_def token_env_def)
qed

lemma retry_first:
  "GetToken retry_oauth_env (token_world ''t'') (client_New persist ''d'' []) retry_input = Some (retry_after persist, Inr (new_token ''t''))"
proof -
  have d: "trim_space ''d'' = ''d''" by code_simp
  show ?thesis
    by (simp add: GetToken_def retry_check client_New_def getCachedValid_def loadPersistedValid_def beginFlight_def fly_def
        retry_requests Let_def savePersisted_def put_cache_def upd_flight_def remove_flight_def close_flight_def retry_path d)
       (simp add: retry_after_def retry_oauth_env_def token_world_def new_token_def)
qed

lemma retry_loaded:
  "loadPersistedValid retry_oauth_env 0 (retry_after True) retry_key (ai_RefreshSkew (normalize_input retry_input)) = Some (new_token ''t'')"
  by code_simp

lemma retry_second:
  "\<exists>cl1. GetToken retry_oauth_env (token_world ''n'') (Invalidate retry_key (retry_after False)) retry_input = Some (cl1, Inr (new_token ''n''))"
proof -
  have key: "ai_CacheKey retry_input = retry_key" by (simp add: retry_input_def acquire_of_def)
  let ?cl = "Invalidate retry_key (retry_after False)"
  have miss: "getCachedValid now ?cl retry_key skew = None" for now skew
    by (simp add: getCachedValid_def Invalidate_def retry_key_trim retry_after_def)
  obtain f cl1 where b: "beginFlight retry_key ?cl = ((f, True), cl1)" by (auto simp: beginFlight_def retry_after_def Let_def)
  have off: "\<not> cl_persistEnabled ?cl" by (simp add: Invalidate_def retry_after_def Let_def)
  have fly: "snd (fly retry_oauth_env (token_world ''n'') retry_key (normalize_input retry_input) f cl1) = Inr (new_token ''n'')"
    unfolding fly_result retry_requests ..
  have "GetToken retry_oauth_env (token_world ''n'') ?cl retry_input =
      Some (fly retry_oauth_env (token_world ''n'') retry_key (normalize_input retry_input) f cl1)"
    by (simp add: GetToken_def retry_check miss off b)
  with fly show ?thesis by (metis prod.collapse)
qed

lemma retry_env_simps:
  "ue_oauth retry_env = retry_oauth_env" "ue_world retry_env 0 = token_world ''t''" "ue_world retry_env 1 = token_world ''n''"
  by (simp_all add: retry_env_def)

lemma retry_again:
  assumes "GetToken retry_oauth_env (token_world ''t'') (client_New persist ''d'' []) retry_input = Some (cl0, Inr tok0)"
    and "GetToken retry_oauth_env (token_world ''n'') (Invalidate retry_key cl0) retry_input = Some (cl1, Inr tok1)"
  shows "\<exists>out a b. doUpstreamRequest retry_env ''a'' retry_file ''POST'' retry_call retry_meta None [] (retry_state persist) None = Some out
    \<and> os_sent out = [a, b]"
proof -
  obtain ps1 where hc: "httpClientForProvider retry_env ''a'' (retry_state persist) = Inr (HTTPProxy ''p'', ps1)"
  proof -
    have "to_lower ''a'' = ''a''" "to_lower ''HTTP'' = ''http''" by code_simp+
    then show thesis using that
      by (simp add: httpClientForProvider_def retry_state_def retry_env_def proxied_client_def Let_def)
  qed
  have t: "\<not> equal_fold (trim_space (mt_UpstreamTransport retry_meta)) ''aws_sdk''" "mt_BaseURL retry_meta \<noteq> []"
    "mt_OAuthAccessToken retry_meta = []"
    by code_simp+
  have u: "\<exists>u. uo_Parse (ue_url retry_env) (mt_BaseURL retry_meta @ mt_RequestURLPath retry_meta) = Some u" by (simp add: retry_env_def)
  have d: "\<exists>resp. ue_Do retry_env 0 hc q = Some resp \<and> us_Status resp = 401" "\<exists>resp. ue_Do retry_env 1 hc q = Some resp" for hc q
    by (simp_all add: retry_env_def)
  from u obtain u' where u': "uo_Parse (ue_url retry_env) (mt_BaseURL retry_meta @ mt_RequestURLPath retry_meta) = Some u'" by blast
  have k: "trim_space retry_key \<noteq> []" using retry_key_trim by simp
  note go = retry_happens[OF t(1,2) hc u' retry_settings t(3) retry_call_key[symmetric] k _ _ d,
    unfolded retry_env_simps retry_start retry_input_def[symmetric], OF assms]
  show ?thesis using go[of "''POST''" retry_call None "[]" None] by blast
qed

theorem upstream_retry_bounded_witness:
  "\<exists>out a b. doUpstreamRequest retry_env ''a'' retry_file ''POST'' retry_call retry_meta None [] (retry_state True) None = Some out
    \<and> os_sent out = [a, b] \<and> length (os_sent out) \<le> 2 \<and> ur_Method b = ''POST'' \<and> (\<exists>hc resp. ue_Do retry_env 0 hc a = Some resp \<and> us_Status resp = 401)"
proof -
  have "ai_CacheKey retry_input = retry_key" by (simp add: retry_input_def acquire_of_def)
  note g1 = GetToken_persisted_again[OF retry_check, of "retry_after True" retry_oauth_env "token_world ''n''", unfolded this]
  have "cl_persistEnabled (retry_after True)" by (simp add: retry_after_def)
  from retry_again[OF retry_first[of True] g1[OF this]] retry_loaded obtain out a b where
    o: "doUpstreamRequest retry_env ''a'' retry_file ''POST'' retry_call retry_meta None [] (retry_state True) None = Some out" "os_sent out = [a, b]"
    by (auto simp: token_world_def)
  from upstream_retry_bounded[OF o(1)] o show ?thesis by auto
qed

theorem retry_uses_new_token_witness:
  "\<exists>(out :: outcome_state) a b key inp tok. os_sent out = [a, b] \<and> check_input (acquire_of key demo_resolved) = Inr (trim_space key, inp)
    \<and> requestToken retry_oauth_env (token_world ''n'') inp = Inr tok
    \<and> b = upstream_request retry_file ''POST'' retry_call (retry_meta\<lparr>mt_OAuthCacheKey := key, mt_OAuthAccessToken := trim_space (tk_AccessToken tok)\<rparr>) None []"
proof -
  obtain cl1 where g1: "GetToken retry_oauth_env (token_world ''n'') (Invalidate retry_key (retry_after False)) retry_input = Some (cl1, Inr (new_token ''n''))"
    using retry_second by blast
  obtain out a b where
    o: "doUpstreamRequest retry_env ''a'' retry_file ''POST'' retry_call retry_meta None [] (retry_state False) None = Some out" "os_sent out = [a, b]"
    using retry_again[OF retry_first[of False] g1] by blast
  have m: "mt_OAuthAccessToken retry_meta = []" by (simp add: retry_meta_def)
  have p: "\<not> cl_persistEnabled (oauthTokenClient (retry_state False))" "map_of (cl_inFlight (oauthTokenClient (retry_state False))) = Map.empty"
    by (simp_all add: retry_start client_New_def)
  from retry_uses_new_token[OF o retry_settings m p] o(2) show ?thesis unfolding retry_env_simps by blast
qed

theorem retry_repeats_persisted_token_witness:
  "\<exists>out a. doUpstreamRequest retry_env ''a'' retry_file ''POST'' retry_call retry_meta None [] (retry_state True) None = Some out
    \<and> os_sent out = [a, a]"
proof -
  have k: "ai_CacheKey retry_input = retry_key" by (simp add: retry_input_def acquire_of_def)
  have on: "cl_persistEnabled (retry_after True)" by (simp add: retry_after_def)
  have now: "wd_now (token_world ''n'') = 0" by (simp add: token_world_def)
  note g1 = GetToken_persisted_again[OF retry_check on, of retry_oauth_env "token_world ''n''" "new_token ''t''", unfolded k now, OF retry_loaded]
  from retry_again[OF retry_first[of True] g1] obtain out a b where
    o: "doUpstreamRequest retry_env ''a'' retry_file ''POST'' retry_call retry_meta None [] (retry_state True) None = Some out" "os_sent out = [a, b]"
    by blast
  have m: "mt_OAuthAccessToken retry_meta = []" by (simp add: retry_meta_def)
  have p: "cl_persistEnabled (oauthTokenClient (retry_state True))" by (simp add: retry_start client_New_def)
  have "a = b"
    by (rule retry_repeats_persisted_token[OF o retry_settings m retry_call_key[symmetric], unfolded retry_env_simps retry_start retry_key_trim(1)
          retry_input_def[symmetric] now, OF retry_first[of True] p[unfolded retry_start] retry_check retry_loaded]) (rule refl)
  with o show ?thesis by blast
qed


end
