(* ===== verification/Resp_Inline.thy ===== *)
theory Resp_Inline
  imports Dsl_Phases "HOL-Library.Multiset"
begin

text \<open>
  Inlining of linked assets (\<^verbatim>\<open>onr-core/pkg/respinline/respinline.go\<close>): the addresses a response contains are
  fetched by a bounded pool of workers, and each object that held one gets the content instead.

  The code keeps a reference to every object it will change. Here a reference is the way from the root
  to the object (\<open>addr\<close>), and \<open>visitAddrs\<close> walks a path as \<^const>\<open>visitPathValues\<close> does, collecting references.
  The workers are a step relation: a worker takes a free slot, fetches, and stores its result under
  the mutex, in any order. What a fetch answers is a parameter.

  Shown: no schedule has more fetches under way than the rule allows or can get stuck; the order in which
  fetches end does not matter; each object is changed exactly when its own fetch succeeded.
\<close>

section \<open>References into a document\<close>

datatype addr_step = Key string | Idx nat

type_synonym addr = "addr_step list"

fun step_into :: "addr_step \<Rightarrow> json \<Rightarrow> json option" where
  "step_into (Key k) (JObj m) = map_of m k"
| "step_into (Idx i) (JArr xs) = (if i < length xs then Some (xs ! i) else None)"
| "step_into _ _ = None"

fun value_at :: "json \<Rightarrow> addr \<Rightarrow> json option" where
  "value_at v [] = Some v"
| "value_at v (s # a) = (case step_into s v of None \<Rightarrow> None | Some w \<Rightarrow> value_at w a)"

fun update_step :: "addr_step \<Rightarrow> (json \<Rightarrow> json) \<Rightarrow> json \<Rightarrow> json" where
  "update_step (Key k) f (JObj m) = JObj (AList.map_entry k f m)"
| "update_step (Idx i) f (JArr xs) = JArr (if i < length xs then xs[i := f (xs ! i)] else xs)"
| "update_step _ f v = v"

fun update_at :: "addr \<Rightarrow> (json \<Rightarrow> json) \<Rightarrow> json \<Rightarrow> json" where
  "update_at [] f v = f v"
| "update_at (s # a) f v = update_step s (update_at a f) v"

text \<open>Two references are apart when they part at some step, so neither leads into the other.\<close>

fun apart :: "addr \<Rightarrow> addr \<Rightarrow> bool" where
  "apart (s # a) (t # b) \<longleftrightarrow> (if s = t then apart a b else True)"
| "apart _ _ \<longleftrightarrow> False"

text \<open>\<^verbatim>\<open>VisitValuesByPath\<close>, with the way to each value it visits.\<close>

definition field_addr :: "path_part \<Rightarrow> addr" where
  "field_addr p = (if pp_name p \<noteq> [] then [Key (pp_name p)] else [])"

fun visitAddrs :: "json \<Rightarrow> path_part list \<Rightarrow> bool \<times> addr list" where
  "visitAddrs cur [] = (True, [[]])"
| "visitAddrs cur (p # rest) =
     (case enter_field p cur of
        None \<Rightarrow> (False, [])
      | Some cur' \<Rightarrow>
          let pre = field_addr p in
          if \<not> pp_hasIdx p then (fst (visitAddrs cur' rest), map ((@) pre) (snd (visitAddrs cur' rest)))
          else
            case cur' of
              JArr arr \<Rightarrow>
                if pp_hasFilter p then
                  (True, concat (map (\<lambda>(i, item). map (\<lambda>a. pre @ Idx i # a) (snd (visitAddrs item rest)))
                     (filter (\<lambda>(i, item). matchesFilter item (pp_filterField p) (pp_filterValue p)) (enumerate 0 arr))))
                else if pp_isStar p then
                  (True, concat (map (\<lambda>(i, item). map (\<lambda>a. pre @ Idx i # a) (snd (visitAddrs item rest))) (enumerate 0 arr)))
                else if pp_idx p < 0 \<or> pp_idx p \<ge> int (length arr) then (False, [])
                else (fst (visitAddrs (arr ! nat (pp_idx p)) rest),
                      map (\<lambda>a. pre @ Idx (nat (pp_idx p)) # a) (snd (visitAddrs (arr ! nat (pp_idx p)) rest)))
            | _ \<Rightarrow> (False, []))"

section \<open>Rules and targets\<close>

record target =
  tg_owner :: addr
  tg_field :: string
  tg_url :: string

definition splitTrailingField :: "string \<Rightarrow> (string \<times> string) option" where
  "splitTrailingField path =
     (let trimmed = trim_space path;
          field = rev (takeWhile (\<lambda>c. c \<noteq> CHR ''.'') (rev trimmed));
          idx = int (length trimmed) - int (length field) - 1 in
      if idx \<le> 0 \<or> field = [] \<or> list_ex (\<lambda>c. c \<in> set ''[]*$'') field then None
      else Some (take (nat idx) trimmed, field))"

definition owned_url :: "jobj \<Rightarrow> string \<Rightarrow> addr \<Rightarrow> target option" where
  "owned_url root field a =
     (case value_at (JObj root) a of
        Some (JObj owner) \<Rightarrow>
          let raw = trim_space (case map_of owner field of None \<Rightarrow> [] | Some v \<Rightarrow> CoerceString v) in
          if raw = [] then None else Some \<lparr>tg_owner = a, tg_field = field, tg_url = raw\<rparr>
      | _ \<Rightarrow> None)"

definition collectTargets :: "jobj \<Rightarrow> string \<Rightarrow> target list" where
  "collectTargets root path =
     (case splitTrailingField path of
        None \<Rightarrow> []
      | Some (arrayPath, field) \<Rightarrow>
          case compilePath arrayPath of
            None \<Rightarrow> []
          | Some parts \<Rightarrow>
              (let (ok, as) = visitAddrs (JObj root) parts in
               if ok then List.map_filter (owned_url root field) as else []))"

definition gateAllows :: "jobj option \<Rightarrow> inline_url_rule \<Rightarrow> bool" where
  "gateAllows requestRoot rule \<longleftrightarrow>
     (let path = trim_space (iu_WhenRequestPath rule) in
      path = [] \<or>
      (case requestRoot of
         None \<Rightarrow> False
       | Some root \<Rightarrow> equal_fold (trim_space (GetStringByPath (JObj root) path)) (trim_space (iu_WhenEquals rule))))"

section \<open>One fetch\<close>

text \<open>
  What the HTTP client does with a request: it fails, panics, returns nothing, or answers with a status, the
  bytes that arrive and whether reading them ends without an error.
\<close>

datatype fetch_answer = DoFails | DoPanics | NoAnswer | Answer int string bool

datatype fetch_error =
    UrlNotParsed
  | SchemeRefused string
  | RequestNotBuilt
  | FetchFails
  | FetchPanicked
  | NoResponse
  | FetchStatus int
  | ReadFails
  | TooLarge int

record inline_env =
  ie_Scheme :: "string \<Rightarrow> string option"
  ie_Builds :: "string \<Rightarrow> bool"
  ie_Do :: "nat \<Rightarrow> string \<Rightarrow> int \<Rightarrow> fetch_answer"

definition respInlineDefaultMaxBytes :: int where
  "respInlineDefaultMaxBytes = 10485760"

definition doFetch :: "fetch_answer \<Rightarrow> fetch_error + (int \<times> string \<times> bool)" where
  "doFetch r =
     (case r of
        DoFails \<Rightarrow> Inl FetchFails
      | DoPanics \<Rightarrow> Inl FetchPanicked
      | NoAnswer \<Rightarrow> Inl NoResponse
      | Answer status body whole \<Rightarrow> Inr (status, body, whole))"

text \<open>\<^verbatim>\<open>io.ReadAll\<close> on a reader limited to \<open>n\<close> bytes: an error after them is not seen.\<close>

definition read_upto :: "int \<Rightarrow> string \<Rightarrow> bool \<Rightarrow> string option" where
  "read_upto n body whole =
     (if n \<le> 0 then Some [] else if int (length body) \<ge> n then Some (take (nat n) body) else if whole then Some body else None)"

definition fetchBase64 :: "inline_env \<Rightarrow> nat \<Rightarrow> string \<Rightarrow> inline_url_rule \<Rightarrow> fetch_error + string" where
  "fetchBase64 env worker rawURL rule =
     (case ie_Scheme env rawURL of
        None \<Rightarrow> Inl UrlNotParsed
      | Some scheme \<Rightarrow>
          if to_lower scheme \<noteq> ''http'' \<and> to_lower scheme \<noteq> ''https'' then Inl (SchemeRefused scheme)
          else if \<not> ie_Builds env rawURL then Inl RequestNotBuilt
          else
            bind_res (doFetch (ie_Do env worker rawURL (iu_TimeoutMS rule))) (\<lambda>(status, body, whole).
              if status \<noteq> 200 then Inl (FetchStatus status)
              else
                (let limit = (if iu_MaxBytes rule \<le> 0 then respInlineDefaultMaxBytes else iu_MaxBytes rule) in
                 case read_upto (wrap64 (limit + 1)) body whole of
                   None \<Rightarrow> Inl ReadFails
                 | Some b \<Rightarrow> if int (length b) > limit then Inl (TooLarge limit) else Inr (b64_encode std_encoding b))))"

section \<open>The pool of workers\<close>

record inline_result =
  ir_Attempted :: int
  ir_Inlined :: int
  ir_Failed :: int
  ir_FirstError :: "fetch_error option"

definition no_inline :: inline_result where
  "no_inline = \<lparr>ir_Attempted = 0, ir_Inlined = 0, ir_Failed = 0, ir_FirstError = None\<rparr>"

definition set_content :: "string \<Rightarrow> string \<Rightarrow> string \<Rightarrow> json \<Rightarrow> json" where
  "set_content setField field encoded v =
     (case v of JObj owner \<Rightarrow> JObj (AList.delete field (AList.update setField (JStr encoded) owner)) | _ \<Rightarrow> v)"

text \<open>What a worker does under the mutex when its fetch has ended.\<close>

definition finish_one ::
    "inline_env \<Rightarrow> inline_url_rule \<Rightarrow> target list \<Rightarrow> nat \<Rightarrow> json \<times> inline_result \<Rightarrow> json \<times> inline_result" where
  "finish_one env rule targets i rr =
     (let (root, res) = rr; t = targets ! i in
      case fetchBase64 env i (tg_url t) rule of
        Inl e \<Rightarrow> (root, res\<lparr>ir_Failed := ir_Failed res + 1,
                          ir_FirstError := (case ir_FirstError res of None \<Rightarrow> Some e | Some e' \<Rightarrow> Some e')\<rparr>)
      | Inr encoded \<Rightarrow> (update_at (tg_owner t) (set_content (iu_SetField rule) (tg_field t) encoded) root,
                        res\<lparr>ir_Inlined := ir_Inlined res + 1\<rparr>))"

definition worker_slots :: "inline_url_rule \<Rightarrow> nat \<Rightarrow> int" where
  "worker_slots rule n =
     (let concurrency = (if iu_Concurrency rule \<le> 0 then 1 else iu_Concurrency rule) in
      if concurrency > int n then int n else concurrency)"

record pool =
  pl_running :: "nat list"
  pl_done :: "nat list"
  pl_state :: "json \<times> inline_result"

inductive pool_step :: "inline_env \<Rightarrow> inline_url_rule \<Rightarrow> target list \<Rightarrow> pool \<Rightarrow> pool \<Rightarrow> bool"
  for env rule targets where
  acquire: "i < length targets \<Longrightarrow> i \<notin> set (pl_running p) \<Longrightarrow> i \<notin> set (pl_done p) \<Longrightarrow>
     int (length (pl_running p)) < worker_slots rule (length targets) \<Longrightarrow>
     pool_step env rule targets p (p\<lparr>pl_running := i # pl_running p\<rparr>)"
| release: "i \<in> set (pl_running p) \<Longrightarrow>
     pool_step env rule targets p
       (p\<lparr>pl_running := remove1 i (pl_running p), pl_done := pl_done p @ [i], pl_state := finish_one env rule targets i (pl_state p)\<rparr>)"

inductive pool_reach :: "inline_env \<Rightarrow> inline_url_rule \<Rightarrow> target list \<Rightarrow> pool \<Rightarrow> pool \<Rightarrow> bool"
  for env rule targets p0 where
  start: "pool_reach env rule targets p0 p0"
| more_steps: "pool_reach env rule targets p0 p \<Longrightarrow> pool_step env rule targets p q \<Longrightarrow> pool_reach env rule targets p0 q"

definition pool_start :: "jobj \<Rightarrow> target list \<Rightarrow> pool" where
  "pool_start root targets =
     \<lparr>pl_running = [], pl_done = [], pl_state = (JObj root, no_inline\<lparr>ir_Attempted := int (length targets)\<rparr>)\<rparr>"

definition all_done :: "target list \<Rightarrow> pool \<Rightarrow> bool" where
  "all_done targets p \<longleftrightarrow> pl_running p = [] \<and> (\<forall>i\<in>{0..<length targets}. i \<in> set (pl_done p))"

text \<open>
  The rule as a function, for the schedule in which the fetches end in the order \<open>order\<close> of the targets.
\<close>

definition inline_Apply ::
    "inline_env \<Rightarrow> (nat \<Rightarrow> nat list) \<Rightarrow> jobj \<Rightarrow> jobj option \<Rightarrow> inline_url_rule \<Rightarrow> json \<times> inline_result" where
  "inline_Apply env order root requestRoot rule =
     (let targets = collectTargets root (iu_Path rule) in
      if \<not> gateAllows requestRoot rule \<or> targets = [] then (JObj root, no_inline)
      else fold (finish_one env rule targets) (order (length targets)) (pl_state (pool_start root targets)))"

section \<open>Stores whose parts can be changed independently\<close>

locale addressed_store =
  fixes read_at :: "'s \<Rightarrow> 'a \<Rightarrow> 'v option"
    and modify :: "'a \<Rightarrow> ('v \<Rightarrow> 'v) \<Rightarrow> 's \<Rightarrow> 's"
    and separate :: "'a \<Rightarrow> 'a \<Rightarrow> bool"
  assumes separate_sym: "separate a b \<Longrightarrow> separate b a"
    and read_modify: "read_at (modify a f s) a = map_option f (read_at s a)"
    and read_separate: "separate a b \<Longrightarrow> read_at (modify b f s) a = read_at s a"
    and modify_commute: "separate a b \<Longrightarrow> modify a f (modify b g s) = modify b g (modify a f s)"
begin

lemma modify_all_order:
  assumes "sorted_wrt (\<lambda>x y. separate (fst x) (fst y)) xs" "mset xs = mset ys"
  shows "fold (\<lambda>(a, f). modify a f) xs = fold (\<lambda>(a, f). modify a f) ys"
proof (rule fold_multiset_equiv[OF _ assms(2)])
  fix x y
  assume "x \<in> set xs" "y \<in> set xs"
  with assms(1) have "x = y \<or> separate (fst x) (fst y)"
    by (metis in_set_conv_nth separate_sym sorted_wrt_iff_nth_less linorder_neqE_nat)
  then show "(\<lambda>(a, f). modify a f) x \<circ> (\<lambda>(a, f). modify a f) y = (\<lambda>(a, f). modify a f) y \<circ> (\<lambda>(a, f). modify a f) x"
    by (auto simp: fun_eq_iff case_prod_unfold intro: modify_commute)
qed

lemma read_modify_all_separate:
  "list_all (\<lambda>x. separate a (fst x)) xs \<Longrightarrow> read_at (fold (\<lambda>(a, f). modify a f) xs s) a = read_at s a"
  by (induction xs arbitrary: s) (auto simp: read_separate)

lemma read_modify_all:
  "sorted_wrt (\<lambda>x y. separate (fst x) (fst y)) xs \<Longrightarrow> (a, f) \<in> set xs \<Longrightarrow>
    read_at (fold (\<lambda>(a, f). modify a f) xs s) a = map_option f (read_at s a)"
proof (induction xs arbitrary: s)
  case (Cons x xs)
  show ?case
  proof (cases "x = (a, f)")
    case True
    with Cons.prems have "list_all (\<lambda>x. separate a (fst x)) xs" by (auto simp: list_all_iff)
    with True show ?thesis by (simp add: read_modify_all_separate read_modify)
  next
    case False
    with Cons.prems have "(a, f) \<in> set xs" "separate (fst x) a" by auto
    with Cons show ?thesis by (cases x) (auto simp: read_separate dest: separate_sym)
  qed
qed simp

end

section \<open>Documents are such stores\<close>

lemma map_entry_twice: "AList.map_entry k f (AList.map_entry k g m) = AList.map_entry k (f \<circ> g) m"
  by (induction m) auto

lemma map_entry_other:
  "j \<noteq> k \<Longrightarrow> AList.map_entry j f (AList.map_entry k g m) = AList.map_entry k g (AList.map_entry j f m)"
  by (induction m) auto

lemma step_into_update: "step_into s (update_step s f v) = map_option f (step_into s v)"
  by (cases s; cases v) (auto simp: map_of_map_entry split: option.splits)

lemma step_into_other: "s \<noteq> t \<Longrightarrow> step_into s (update_step t f v) = step_into s v"
  by (cases s; cases t; cases v) (auto simp: map_of_map_entry)

lemma update_step_twice: "update_step s f (update_step s g v) = update_step s (f \<circ> g) v"
  by (cases s; cases v) (auto simp: map_entry_twice)

lemma update_step_other: "s \<noteq> t \<Longrightarrow> update_step s f (update_step t g v) = update_step t g (update_step s f v)"
  by (cases s; cases t; cases v) (auto simp: map_entry_other list_update_swap)

lemma apart_sym: "apart a b \<Longrightarrow> apart b a"
  by (induction a b rule: apart.induct) (auto split: if_splits)

lemma value_at_update: "value_at (update_at a f v) a = map_option f (value_at v a)"
  by (induction a arbitrary: v) (auto simp: step_into_update split: option.splits)

lemma value_at_apart: "apart a b \<Longrightarrow> value_at (update_at b f v) a = value_at v a"
proof (induction a b arbitrary: v rule: apart.induct)
  case (1 s a t b)
  then show ?case
    by (cases "s = t") (auto simp: step_into_update step_into_other split: option.splits)
qed auto

lemma update_at_commute: "apart a b \<Longrightarrow> update_at a f (update_at b g v) = update_at b g (update_at a f v)"
proof (induction a b arbitrary: v rule: apart.induct)
  case (1 s a t b)
  show ?case
  proof (cases "s = t")
    case True
    with 1 have "update_at a f \<circ> update_at b g = update_at b g \<circ> update_at a f" by (simp add: fun_eq_iff)
    with True show ?thesis by (simp add: update_step_twice)
  next
    case False
    then show ?thesis by (simp add: update_step_other)
  qed
qed auto

interpretation doc: addressed_store value_at update_at apart
  by unfold_locales (simp_all add: apart_sym value_at_update value_at_apart update_at_commute)

section \<open>The references of a path\<close>

lemma apart_prefix: "apart (p @ a) (p @ b) = apart a b"
  by (induction p) auto

lemma value_at_append: "value_at v (a @ b) = (case value_at v a of None \<Rightarrow> None | Some w \<Rightarrow> value_at w b)"
  by (induction a arbitrary: v) (auto split: option.splits)

lemma enter_field_at:
  "enter_field p cur = Some cur' \<Longrightarrow> value_at cur (field_addr p) = Some cur'"
  by (auto simp: enter_field_def field_addr_def split: if_splits json.splits)

lemma sorted_wrt_concat:
  "(\<And>x. x \<in> set xs \<Longrightarrow> sorted_wrt P (f x)) \<Longrightarrow> sorted_wrt (\<lambda>x y. \<forall>a\<in>set (f x). \<forall>b\<in>set (f y). P a b) xs \<Longrightarrow>
    sorted_wrt P (concat (map f xs))"
  by (induction xs) (auto simp: sorted_wrt_append)

lemma enumerate_distinct_index: "sorted_wrt (\<lambda>x y. fst x \<noteq> fst y) (enumerate n xs)"
  by (induction xs arbitrary: n) (auto simp: in_set_enumerate_eq)

lemma branch_apart:
  assumes "\<And>item. sorted_wrt apart (visit item)"
  shows "sorted_wrt apart (concat (map (\<lambda>(i, item). map (\<lambda>a. pre @ Idx i # a) (visit item)) (filter P (enumerate n xs))))"
proof (rule sorted_wrt_concat)
  fix x :: "nat \<times> 'a"
  show "sorted_wrt apart (case x of (i, item) \<Rightarrow> map (\<lambda>a. pre @ Idx i # a) (visit item))"
    using assms by (cases x) (simp add: sorted_wrt_map apart_prefix)
next
  show "sorted_wrt (\<lambda>x y. \<forall>a\<in>set (case x of (i, item) \<Rightarrow> map (\<lambda>a. pre @ Idx i # a) (visit item)).
      \<forall>b\<in>set (case y of (i, item) \<Rightarrow> map (\<lambda>a. pre @ Idx i # a) (visit item)). apart a b) (filter P (enumerate n xs))"
    by (rule sorted_wrt_mono_rel[OF _ sorted_wrt_filter[OF enumerate_distinct_index]])
       (auto simp: apart_prefix)
qed

lemma visitAddrs_apart: "sorted_wrt apart (snd (visitAddrs cur parts))"
proof (induction parts arbitrary: cur)
  case (Cons p rest)
  note branches = branch_apart[where visit = "\<lambda>item. snd (visitAddrs item rest)", OF Cons.IH]
  have all: "sorted_wrt apart (concat (map (\<lambda>(i, item). map (\<lambda>a. field_addr p @ Idx i # a) (snd (visitAddrs item rest)))
      (enumerate 0 arr)))" for arr
    using branches[where P = "\<lambda>_. True"] by simp
  show ?case
    by (auto simp: Let_def Cons.IH branches all sorted_wrt_map apart_prefix split: option.splits json.splits)
qed simp

lemma branch_values:
  assumes "value_at cur pre = Some (JArr arr)" "\<And>item. map (value_at item) (visit item) = map Some (vals item)"
  shows "map (value_at cur) (concat (map (\<lambda>(i, item). map (\<lambda>a. pre @ Idx i # a) (visit item)) (filter (\<lambda>(i, item). Q item) (enumerate 0 arr)))) =
    map Some (concat (map vals (filter Q arr)))"
proof -
  have "map (value_at cur) (concat (map (\<lambda>(i, item). map (\<lambda>a. pre @ Idx i # a) (visit item)) (filter (\<lambda>(i, item). Q item) (enumerate 0 arr))))
      = concat (map (\<lambda>(i, item). map (\<lambda>a. value_at cur (pre @ Idx i # a)) (visit item)) (filter (\<lambda>(i, item). Q item) (enumerate 0 arr)))"
    by (simp add: map_concat o_def case_prod_unfold)
  also have "\<dots> = concat (map (\<lambda>(i, item). map Some (vals item)) (filter (\<lambda>(i, item). Q item) (enumerate 0 arr)))"
    by (rule arg_cong[where f = concat], rule map_cong[OF refl])
       (auto simp: value_at_append assms in_set_enumerate_eq simp flip: assms(2))
  also have "\<dots> = concat (map (map Some \<circ> vals) (map snd (filter (Q \<circ> snd) (enumerate 0 arr))))"
    by (simp add: case_prod_unfold o_def)
  also have "map snd (filter (Q \<circ> snd) (enumerate 0 arr)) = filter Q arr"
    by (simp flip: filter_map)
  finally show ?thesis by (simp add: map_concat o_def)
qed

text \<open>The references are those of the values \<^verbatim>\<open>GetValuesByPath\<close> returns, in the same order.\<close>

lemma visitAddrs_values:
  "fst (visitAddrs cur parts) = fst (visitPathValues cur parts) \<and>
   map (value_at cur) (snd (visitAddrs cur parts)) = map Some (snd (visitPathValues cur parts))"
proof (induction parts arbitrary: cur)
  case (Cons p rest)
  let ?visit = "\<lambda>item. snd (visitAddrs item rest)" and ?vals = "\<lambda>item. snd (visitPathValues item rest)"
  show ?case
  proof (cases "enter_field p cur")
    case (Some cur')
    note at = enter_field_at[OF this]
    show ?thesis
    proof (cases cur')
      case (JArr arr)
      note branch = branch_values[where visit = ?visit and vals = ?vals, OF at[unfolded JArr] conjunct2[OF Cons.IH]]
      have all: "map (value_at cur) (concat (map (\<lambda>(i, item). map (\<lambda>a. field_addr p @ Idx i # a) (?visit item)) (enumerate 0 arr))) =
          map Some (concat (map ?vals arr))"
        using branch[where Q = "\<lambda>_. True"] by (simp add: case_prod_unfold)
      have star: "concat (map ?vals arr) = arr" if "rest = []" using that by simp
      show ?thesis
        using at Cons.IH all star branch JArr Some
        by (auto simp: Let_def o_def value_at_append simp del: map_concat)
    qed (use at Cons.IH Some in \<open>auto simp: Let_def o_def value_at_append\<close>)
  qed simp
qed simp

section \<open>Targets\<close>

lemma owned_urlD:
  assumes "owned_url root field a = Some t"
  obtains owner where "value_at (JObj root) a = Some (JObj owner)"
    "t = \<lparr>tg_owner = a, tg_field = field, tg_url = trim_space (case map_of owner field of None \<Rightarrow> [] | Some v \<Rightarrow> CoerceString v)\<rparr>"
  using assms by (auto simp: owned_url_def Let_def split: option.splits json.splits if_splits)

lemma owned_url_owner: "owned_url root field a \<noteq> None \<Longrightarrow> tg_owner (the (owned_url root field a)) = a"
  by (auto simp: owned_url_def Let_def split: option.splits json.splits if_splits)

lemma map_filter_owned: "sorted_wrt apart as \<Longrightarrow> sorted_wrt (\<lambda>t u. apart (tg_owner t) (tg_owner u)) (List.map_filter (owned_url root field) as)"
  unfolding List.map_filter_def sorted_wrt_map
  by (rule sorted_wrt_mono_rel[OF _ sorted_wrt_filter]) (simp_all add: owned_url_owner)

lemma collectTargets_apart: "sorted_wrt (\<lambda>t u. apart (tg_owner t) (tg_owner u)) (collectTargets root path)"
proof -
  have "sorted_wrt apart as" if "visitAddrs (JObj root) parts = (ok, as)" for parts ok as
    using visitAddrs_apart[of "JObj root" parts] that by simp
  then show ?thesis
    by (auto simp: collectTargets_def map_filter_owned split: option.splits prod.splits)
qed

lemma collectTargets_owner:
  assumes "t \<in> set (collectTargets root path)"
  obtains owner where "value_at (JObj root) (tg_owner t) = Some (JObj owner)"
    "tg_url t = trim_space (case map_of owner (tg_field t) of None \<Rightarrow> [] | Some v \<Rightarrow> CoerceString v)"
  using assms
  by (fastforce simp: collectTargets_def List.map_filter_def split: option.splits prod.splits if_splits elim: owned_urlD)

section \<open>What the workers store\<close>

definition changes :: "inline_env \<Rightarrow> inline_url_rule \<Rightarrow> target list \<Rightarrow> nat list \<Rightarrow> (addr \<times> (json \<Rightarrow> json)) list" where
  "changes env rule targets is =
     List.map_filter (\<lambda>i. case fetchBase64 env i (tg_url (targets ! i)) rule of
         Inl _ \<Rightarrow> None
       | Inr encoded \<Rightarrow> Some (tg_owner (targets ! i), set_content (iu_SetField rule) (tg_field (targets ! i)) encoded)) is"

definition fetched :: "inline_env \<Rightarrow> inline_url_rule \<Rightarrow> target list \<Rightarrow> nat \<Rightarrow> bool" where
  "fetched env rule targets i \<longleftrightarrow> isl (fetchBase64 env i (tg_url (targets ! i)) rule) = False"

lemma finish_all:
  "fst (fold (finish_one env rule targets) is s) = fold (\<lambda>(a, f). update_at a f) (changes env rule targets is) (fst s) \<and>
   ir_Inlined (snd (fold (finish_one env rule targets) is s)) = ir_Inlined (snd s) + int (length (filter (fetched env rule targets) is)) \<and>
   ir_Failed (snd (fold (finish_one env rule targets) is s)) = ir_Failed (snd s) + int (length (filter (\<lambda>i. \<not> fetched env rule targets i) is)) \<and>
   ir_Attempted (snd (fold (finish_one env rule targets) is s)) = ir_Attempted (snd s)"
  by (induction "is" arbitrary: s)
     (auto simp: changes_def List.map_filter_simps finish_one_def fetched_def Let_def case_prod_unfold split: sum.splits)

lemma mset_changes: "mset is = mset js \<Longrightarrow> mset (changes env rule targets is) = mset (changes env rule targets js)"
  unfolding changes_def List.map_filter_def by simp

lemma changes_apart:
  assumes "sorted_wrt (\<lambda>t u. apart (tg_owner t) (tg_owner u)) targets"
  shows "sorted_wrt (\<lambda>x y. apart (fst x) (fst y)) (changes env rule targets [0..<length targets])"
proof -
  have "sorted_wrt (\<lambda>i j. i < j) (filter P [0..<length targets])" for P
    by (rule sorted_wrt_filter) (rule sorted_wrt_upt)
  then have *: "sorted_wrt (\<lambda>i j. apart (tg_owner (targets ! i)) (tg_owner (targets ! j))) (filter P [0..<length targets])" for P
    by (rule sorted_wrt_mono_rel[rotated]) (use assms in \<open>auto simp: sorted_wrt_iff_nth_less\<close>)
  show ?thesis
    unfolding changes_def List.map_filter_def sorted_wrt_map
    by (rule sorted_wrt_mono_rel[OF _ *]) (auto split: sum.splits)
qed

text \<open>The document and the counts do not depend on the order in which the fetches end.\<close>

lemma finish_any_order:
  assumes "mset is = mset [0..<length targets]" "sorted_wrt (\<lambda>t u. apart (tg_owner t) (tg_owner u)) targets"
  shows "fst (fold (finish_one env rule targets) is s) =
      fold (\<lambda>(a, f). update_at a f) (changes env rule targets [0..<length targets]) (fst s)"
    "ir_Inlined (snd (fold (finish_one env rule targets) is s)) =
      ir_Inlined (snd s) + int (length (filter (fetched env rule targets) [0..<length targets]))"
    "ir_Failed (snd (fold (finish_one env rule targets) is s)) =
      ir_Failed (snd s) + int (length (filter (\<lambda>i. \<not> fetched env rule targets i) [0..<length targets]))"
    "ir_Attempted (snd (fold (finish_one env rule targets) is s)) = ir_Attempted (snd s)"
proof -
  have len: "length (filter P is) = length (filter P [0..<length targets])" for P
    using assms(1) by (metis mset_filter size_mset)
  show "fst (fold (finish_one env rule targets) is s) =
      fold (\<lambda>(a, f). update_at a f) (changes env rule targets [0..<length targets]) (fst s)"
    using doc.modify_all_order[OF changes_apart[OF assms(2)] mset_changes[OF assms(1)[symmetric]]] finish_all[of env rule targets "is" s]
    by (metis (no_types, lifting))
qed (use assms(1) finish_all[of env rule targets "is" s] in \<open>simp_all, (metis mset_filter size_mset)+\<close>)

section \<open>Schedules\<close>

definition pool_inv :: "inline_env \<Rightarrow> inline_url_rule \<Rightarrow> target list \<Rightarrow> jobj \<Rightarrow> pool \<Rightarrow> bool" where
  "pool_inv env rule targets root p \<longleftrightarrow>
     distinct (pl_running p @ pl_done p) \<and> set (pl_running p @ pl_done p) \<subseteq> {0..<length targets} \<and>
     int (length (pl_running p)) \<le> worker_slots rule (length targets) \<and>
     pl_state p = fold (finish_one env rule targets) (pl_done p) (pl_state (pool_start root targets))"

lemma pool_inv_start: "pool_inv env rule targets root (pool_start root targets)"
  by (simp add: pool_inv_def pool_start_def worker_slots_def Let_def)

lemma pool_inv_step: "pool_step env rule targets p q \<Longrightarrow> pool_inv env rule targets root p \<Longrightarrow> pool_inv env rule targets root q"
  by (induction rule: pool_step.induct)
     (auto simp: pool_inv_def length_remove1 dest: notin_set_remove1 split: if_splits)

lemma pool_inv_reach: "pool_reach env rule targets p q \<Longrightarrow> pool_inv env rule targets root p \<Longrightarrow> pool_inv env rule targets root q"
  by (induction rule: pool_reach.induct) (auto intro: pool_inv_step)

lemma pool_reach_first:
  assumes "pool_step env rule targets p q" "pool_reach env rule targets q r"
  shows "pool_reach env rule targets p r"
  using assms(2) by induction (use assms(1) in \<open>auto intro: pool_reach.intros\<close>)

lemma pool_order:
  assumes "pool_inv env rule targets root p" "all_done targets p"
  shows "mset (pl_done p) = mset [0..<length targets]"
proof -
  have "set (pl_done p) = set [0..<length targets]" using assms by (auto simp: pool_inv_def all_done_def)
  moreover have "distinct (pl_done p)" using assms(1) by (simp add: pool_inv_def)
  ultimately show ?thesis by (metis distinct_upt set_eq_iff_mset_eq_distinct)
qed

lemma pool_progress:
  assumes inv: "pool_inv env rule targets root p" and left: "\<not> all_done targets p"
  obtains q where "pool_step env rule targets p q"
    "2 * length (pl_done p) + length (pl_running p) < 2 * length (pl_done q) + length (pl_running q)"
proof (cases "pl_running p")
  case Nil
  with left obtain i where "i < length targets" "i \<notin> set (pl_done p)" by (auto simp: all_done_def)
  moreover from this have "0 < worker_slots rule (length targets)" by (auto simp: worker_slots_def Let_def)
  ultimately show ?thesis
    using that[OF pool_step.acquire[of i targets p rule env]] Nil by simp
next
  case (Cons i others)
  then show ?thesis using that[OF pool_step.release[of i p env rule targets]] by simp
qed

lemma pool_terminates:
  "pool_inv env rule targets root p \<Longrightarrow> \<exists>q. pool_reach env rule targets p q \<and> all_done targets q"
proof (induction "2 * length targets - (2 * length (pl_done p) + length (pl_running p))" arbitrary: p rule: less_induct)
  case less
  show ?case
  proof (cases "all_done targets p")
    case False
    with less.prems obtain q where q: "pool_step env rule targets p q"
      "2 * length (pl_done p) + length (pl_running p) < 2 * length (pl_done q) + length (pl_running q)"
      by (rule pool_progress)
    have inv: "pool_inv env rule targets root q" by (rule pool_inv_step[OF q(1) less.prems])
    then have "length (pl_running q @ pl_done q) \<le> card {0..<length targets}"
      by (metis pool_inv_def card_mono distinct_card finite_atLeastLessThan)
    with q(2) less.hyps[OF _ inv] show ?thesis using pool_reach_first[OF q(1)] by fastforce
  qed (auto intro: pool_reach.start)
qed

text \<open>
  C39. In every schedule of the workers, at most as many fetches are under way as the rule allows, the
  workers can finish, and when all have finished the document and the counts are those of the
  rule as a function, whatever order that function assumes.
\<close>

theorem inline_schedules_agree:
  assumes "pool_reach env rule (collectTargets root (iu_Path rule)) (pool_start root (collectTargets root (iu_Path rule))) p"
    and "gateAllows requestRoot rule"
    and "mset (order (length (collectTargets root (iu_Path rule)))) = mset [0..<length (collectTargets root (iu_Path rule))]"
  shows "int (length (pl_running p)) \<le> max 1 (iu_Concurrency rule) \<and>
    (\<exists>q. pool_reach env rule (collectTargets root (iu_Path rule)) p q \<and> all_done (collectTargets root (iu_Path rule)) q) \<and>
    (all_done (collectTargets root (iu_Path rule)) p \<longrightarrow>
      fst (pl_state p) = fst (inline_Apply env order root requestRoot rule) \<and>
      ir_Inlined (snd (pl_state p)) = ir_Inlined (snd (inline_Apply env order root requestRoot rule)) \<and>
      ir_Failed (snd (pl_state p)) = ir_Failed (snd (inline_Apply env order root requestRoot rule)))"
proof -
  let ?ts = "collectTargets root (iu_Path rule)"
  have inv: "pool_inv env rule ?ts root p" by (rule pool_inv_reach[OF assms(1) pool_inv_start])
  then have "int (length (pl_running p)) \<le> max 1 (iu_Concurrency rule)"
    by (auto simp: pool_inv_def worker_slots_def Let_def split: if_splits)
  moreover have "fst (pl_state p) = fst (inline_Apply env order root requestRoot rule) \<and>
      ir_Inlined (snd (pl_state p)) = ir_Inlined (snd (inline_Apply env order root requestRoot rule)) \<and>
      ir_Failed (snd (pl_state p)) = ir_Failed (snd (inline_Apply env order root requestRoot rule))" if "all_done ?ts p"
  proof -
    note any = finish_any_order[OF _ collectTargets_apart, where s = "pl_state (pool_start root ?ts)"]
    have run: "inline_Apply env order root requestRoot rule =
        fold (finish_one env rule ?ts) (order (length ?ts)) (pl_state (pool_start root ?ts))" if "?ts \<noteq> []"
      using that assms(2) by (simp add: inline_Apply_def Let_def)
    have "pl_state p = fold (finish_one env rule ?ts) (pl_done p) (pl_state (pool_start root ?ts))"
      using inv by (simp add: pool_inv_def)
    moreover have "inline_Apply env order root requestRoot rule = pl_state (pool_start root ?ts) \<and> pl_done p = []" if "?ts = []"
      using that inv by (auto simp: inline_Apply_def pool_start_def pool_inv_def no_inline_def)
    ultimately show ?thesis
      using run any[OF pool_order[OF inv that]] any[OF assms(3)] by (cases "?ts = []") simp_all
  qed
  ultimately show ?thesis using pool_terminates[OF inv] by blast
qed

section \<open>The effect of the rule\<close>

lemma fetch_whole:
  assumes "fetchBase64 env i url rule = Inr encoded" "iu_MaxBytes rule < 2 ^ 63 - 1"
  obtains scheme content where "ie_Scheme env url = Some scheme" "to_lower scheme \<in> {''http'', ''https''}"
    "ie_Do env i url (iu_TimeoutMS rule) = Answer 200 content True"
    "int (length content) \<le> (if iu_MaxBytes rule \<le> 0 then respInlineDefaultMaxBytes else iu_MaxBytes rule)"
    "encoded = b64_encode std_encoding content"
proof -
  let ?limit = "if iu_MaxBytes rule \<le> 0 then respInlineDefaultMaxBytes else iu_MaxBytes rule"
  have "wrap64 (?limit + 1) = ?limit + 1" "0 < ?limit"
    using assms(2) by (auto simp: respInlineDefaultMaxBytes_def in_int64_def intro!: wrap64_id)
  then show thesis
    using assms(1) that
    by (auto simp: fetchBase64_def doFetch_def bind_res_eq_Inr Let_def read_upto_def
        split: option.splits if_splits fetch_answer.splits)
qed

text \<open>
  C40. The rule changes exactly the objects whose own fetch succeeded: the content under the new field is that of
  a complete answer within the limit to a request for an http or https address, and the field that held the
  address is gone. After a failed fetch the object is as the upstream sent it, and nothing outside
  the objects of the path changes.
\<close>

theorem inline_changes_exact:
  assumes "gateAllows requestRoot rule" "i < length (collectTargets root (iu_Path rule))"
    and "mset (order (length (collectTargets root (iu_Path rule)))) = mset [0..<length (collectTargets root (iu_Path rule))]"
    and "iu_MaxBytes rule < 2 ^ 63 - 1"
  shows "\<exists>owner. value_at (JObj root) (tg_owner (collectTargets root (iu_Path rule) ! i)) = Some (JObj owner) \<and>
      (case fetchBase64 env i (tg_url (collectTargets root (iu_Path rule) ! i)) rule of
         Inl e \<Rightarrow> value_at (fst (inline_Apply env order root requestRoot rule)) (tg_owner (collectTargets root (iu_Path rule) ! i)) = Some (JObj owner)
       | Inr encoded \<Rightarrow>
           (\<exists>owner'. value_at (fst (inline_Apply env order root requestRoot rule)) (tg_owner (collectTargets root (iu_Path rule) ! i)) = Some (JObj owner') \<and>
              map_of owner' = (map_of owner)(iu_SetField rule \<mapsto> JStr encoded, tg_field (collectTargets root (iu_Path rule) ! i) := None)) \<and>
           (\<exists>scheme content. ie_Scheme env (tg_url (collectTargets root (iu_Path rule) ! i)) = Some scheme \<and> to_lower scheme \<in> {''http'', ''https''} \<and>
              ie_Do env i (tg_url (collectTargets root (iu_Path rule) ! i)) (iu_TimeoutMS rule) = Answer 200 content True \<and>
              int (length content) \<le> (if iu_MaxBytes rule \<le> 0 then respInlineDefaultMaxBytes else iu_MaxBytes rule) \<and>
              b64_decode std_encoding encoded = Some content)) \<and>
      (\<forall>a. list_all (\<lambda>t. apart a (tg_owner t)) (collectTargets root (iu_Path rule)) \<longrightarrow>
         value_at (fst (inline_Apply env order root requestRoot rule)) a = value_at (JObj root) a)"
proof -
  define ts where "ts = collectTargets root (iu_Path rule)"
  let ?cs = "changes env rule ts [0..<length ts]"
  have sorted: "sorted_wrt (\<lambda>t u. apart (tg_owner t) (tg_owner u)) ts" unfolding ts_def by (rule collectTargets_apart)
  have final: "fst (inline_Apply env order root requestRoot rule) = fold (\<lambda>(a, f). update_at a f) ?cs (JObj root)"
    using finish_any_order(1)[OF assms(3)[folded ts_def] sorted, of env rule "pl_state (pool_start root ts)"] assms(1,2)
    by (auto simp: inline_Apply_def Let_def pool_start_def simp flip: ts_def)
  obtain owner where owner: "value_at (JObj root) (tg_owner (ts ! i)) = Some (JObj owner)"
    using collectTargets_owner[of "ts ! i" root "iu_Path rule"] assms(2) by (auto simp: ts_def)
  have members: "x \<in> set ?cs \<longleftrightarrow> (\<exists>j<length ts. \<exists>enc. fetchBase64 env j (tg_url (ts ! j)) rule = Inr enc \<and>
      x = (tg_owner (ts ! j), set_content (iu_SetField rule) (tg_field (ts ! j)) enc))" for x
    by (force simp: changes_def List.map_filter_def split: sum.splits)
  have outside: "value_at (fst (inline_Apply env order root requestRoot rule)) a = value_at (JObj root) a"
    if "list_all (\<lambda>t. apart a (tg_owner t)) ts" for a
    unfolding final using that by (intro doc.read_modify_all_separate) (auto simp: list_all_iff members)
  have inside: "case fetchBase64 env i (tg_url (ts ! i)) rule of
      Inl e \<Rightarrow> value_at (fst (inline_Apply env order root requestRoot rule)) (tg_owner (ts ! i)) = Some (JObj owner)
    | Inr encoded \<Rightarrow> \<exists>owner'. value_at (fst (inline_Apply env order root requestRoot rule)) (tg_owner (ts ! i)) = Some (JObj owner') \<and>
        map_of owner' = (map_of owner)(iu_SetField rule \<mapsto> JStr encoded, tg_field (ts ! i) := None)"
  proof (cases "fetchBase64 env i (tg_url (ts ! i)) rule")
    case (Inl e)
    have "apart (tg_owner (ts ! i)) (fst x)" if "x \<in> set ?cs" for x
      using that sorted assms(2) Inl unfolding members ts_def[symmetric]
      by (metis Inl_Inr_False apart_sym fst_conv linorder_neqE_nat sorted_wrt_iff_nth_less)
    then have "list_all (\<lambda>x. apart (tg_owner (ts ! i)) (fst x)) ?cs" by (simp add: list_all_iff)
    with Inl owner show ?thesis unfolding final by (simp add: doc.read_modify_all_separate)
  next
    case (Inr encoded)
    then have "(tg_owner (ts ! i), set_content (iu_SetField rule) (tg_field (ts ! i)) encoded) \<in> set ?cs"
      unfolding members using assms(2) by (auto simp: ts_def)
    note doc.read_modify_all[OF changes_apart[OF sorted] this, of "JObj root"]
    with Inr owner show ?thesis
      unfolding final by (auto simp: set_content_def AList.delete_conv AList.update_conv)
  qed
  have "\<exists>scheme content. ie_Scheme env (tg_url (ts ! i)) = Some scheme \<and> to_lower scheme \<in> {''http'', ''https''} \<and>
      ie_Do env i (tg_url (ts ! i)) (iu_TimeoutMS rule) = Answer 200 content True \<and>
      int (length content) \<le> (if iu_MaxBytes rule \<le> 0 then respInlineDefaultMaxBytes else iu_MaxBytes rule) \<and>
      b64_decode std_encoding encoded = Some content" if "fetchBase64 env i (tg_url (ts ! i)) rule = Inr encoded" for encoded
    using fetch_whole[OF that assms(4)] by (metis b64_decode_encode good_std)
  with inside outside owner show ?thesis
    unfolding ts_def[symmetric] by (intro exI[of _ owner]) (auto split: sum.splits)
qed

section \<open>A concrete response\<close>

definition inline_root :: jobj where
  "inline_root = [(''data'', JArr [JObj [(''url'', JStr ''http:a'')], JObj [(''url'', JStr ''ftp:b'')]])]"

definition inline_rule :: inline_url_rule where
  "inline_rule = \<lparr>iu_Path = ''$.data[*].url'', iu_SetField = ''b64'', iu_WhenRequestPath = [], iu_WhenEquals = [],
     iu_MaxBytes = 4, iu_TimeoutMS = 0, iu_Concurrency = 1\<rparr>"

definition inline_demo_env :: inline_env where
  "inline_demo_env = \<lparr>ie_Scheme = (\<lambda>u. Some (takeWhile (\<lambda>c. c \<noteq> CHR '':'') u)), ie_Builds = (\<lambda>_. True),
     ie_Do = (\<lambda>_ _ _. Answer 200 ''hi'' True)\<rparr>"

lemma inline_demo_targets:
  "collectTargets inline_root (iu_Path inline_rule) =
     [\<lparr>tg_owner = [Key ''data'', Idx 0], tg_field = ''url'', tg_url = ''http:a''\<rparr>,
      \<lparr>tg_owner = [Key ''data'', Idx 1], tg_field = ''url'', tg_url = ''ftp:b''\<rparr>]"
  by code_simp

lemma inline_demo_fetch:
  "fetchBase64 inline_demo_env 0 ''http:a'' inline_rule = Inr ''aGk=''"
  "fetchBase64 inline_demo_env 1 ''ftp:b'' inline_rule = Inl (SchemeRefused ''ftp'')"
  by code_simp+

lemma inline_demo_rule: "iu_SetField inline_rule = ''b64''" "iu_MaxBytes inline_rule < 2 ^ 63 - 1"
  by (simp_all add: inline_rule_def)

lemma inline_demo_gate: "gateAllows None inline_rule"
  by code_simp

definition last_first :: "nat \<Rightarrow> nat list" where
  "last_first n = rev [0..<n]"

lemma inline_demo_order: "mset (last_first n) = mset [0..<n]"
  by (simp add: last_first_def)

lemma inline_demo_start:
  "pool_reach inline_demo_env inline_rule (collectTargets inline_root (iu_Path inline_rule))
     (pool_start inline_root (collectTargets inline_root (iu_Path inline_rule)))
     (pool_start inline_root (collectTargets inline_root (iu_Path inline_rule)))"
  by (rule pool_reach.start)

theorem inline_schedules_agree_witness:
  "\<exists>q. pool_reach inline_demo_env inline_rule (collectTargets inline_root (iu_Path inline_rule))
      (pool_start inline_root (collectTargets inline_root (iu_Path inline_rule))) q \<and>
     all_done (collectTargets inline_root (iu_Path inline_rule)) q"
  using inline_schedules_agree[where order = last_first, OF inline_demo_start inline_demo_gate inline_demo_order] by blast

theorem inline_changes_exact_witness:
  "\<exists>owner'. value_at (fst (inline_Apply inline_demo_env last_first inline_root None inline_rule)) [Key ''data'', Idx 0] = Some (JObj owner') \<and>
     map_of owner' ''b64'' = Some (JStr ''aGk='') \<and> map_of owner' ''url'' = None"
  using inline_changes_exact[where i = 0 and order = last_first, OF inline_demo_gate _ inline_demo_order inline_demo_rule(2), of inline_root inline_demo_env]
  by (auto simp: inline_demo_targets inline_demo_fetch inline_demo_rule simp del: value_at.simps)

end
