(* ===== verification/Sse_Lines.thy ===== *)
theory Sse_Lines
  imports Prelude
begin

text \<open>
  Line assembly, which every consumer of a byte stream in the program repeats: bytes arrive in chunks
  of any size, are kept until a line feed and then handed on as a line. The interface \<open>line_assembler\<close>
  states what such a consumer does with a chunk; proved once from it, the chunks do not matter, only
  the lines of their concatenation do. The stream tap and the event transformer interpret it.
\<close>

abbreviation (input) nl :: char where "nl \<equiv> CHR 0x0A"
abbreviation (input) cr :: char where "cr \<equiv> CHR 0x0D"

text \<open>\<^verbatim>\<open>bytes.TrimRight\<close> with the cutset of a carriage return, and \<^verbatim>\<open>bytes.TrimSuffix\<close> of one.\<close>

definition trim_cr :: "string \<Rightarrow> string" where
  "trim_cr s = rev (dropWhile (\<lambda>c. c = cr) (rev s))"

definition trim_one_cr :: "string \<Rightarrow> string" where
  "trim_one_cr s = (if s \<noteq> [] \<and> last s = cr then butlast s else s)"

lemma trim_cr_one:
  assumes "\<not> has_suffix s [cr, cr]"
  shows "trim_cr s = trim_one_cr s"
proof (cases s rule: rev_cases)
  case (snoc s' c)
  show ?thesis
  proof (cases s' rule: rev_cases)
    case (snoc s'' d)
    with \<open>s = s' @ [c]\<close> have "s = s'' @ [d, c]" by simp
    with assms show ?thesis by (auto simp: trim_cr_def trim_one_cr_def has_suffix_def suffix_def butlast_append)
  qed (use \<open>s = s' @ [c]\<close> in \<open>auto simp: trim_cr_def trim_one_cr_def\<close>)
qed (simp add: trim_cr_def trim_one_cr_def)

section \<open>Fallible folds\<close>

fun fold_res :: "('a \<Rightarrow> 's \<Rightarrow> 'e + 's) \<Rightarrow> 'a list \<Rightarrow> 's \<Rightarrow> 'e + 's" where
  "fold_res f [] s = Inr s"
| "fold_res f (x # xs) s = bind_res (f x s) (fold_res f xs)"

lemma bind_res_cong [cong]: "r = r' \<Longrightarrow> (\<And>x. r' = Inr x \<Longrightarrow> f x = g x) \<Longrightarrow> bind_res r f = bind_res r' g"
  by (cases r') simp_all

lemma bind_res_assoc: "bind_res (bind_res r f) g = bind_res r (\<lambda>x. bind_res (f x) g)"
  by (cases r) simp_all

lemma bind_res_Inr [simp]: "bind_res r Inr = r"
  by (cases r) simp_all

lemma fold_res_append: "fold_res f (xs @ ys) s = bind_res (fold_res f xs s) (fold_res f ys)"
  by (induction xs arbitrary: s) (simp_all add: bind_res_assoc)

lemma fold_res_total: "fold_res (\<lambda>x s. Inr (f x s)) xs s = Inr (fold f xs s)"
  by (induction xs arbitrary: s) simp_all

lemma fold_res_map: "fold_res f (map g xs) s = fold_res (\<lambda>x. f (g x)) xs s"
  by (induction xs arbitrary: s) simp_all

lemma fold_res_cong:
  "(\<And>x. x \<in> set xs \<Longrightarrow> f x = g x) \<Longrightarrow> fold_res f xs = fold_res g xs"
  by (induction xs) (auto simp: fun_eq_iff)

section \<open>Assembling lines\<close>

lemma split_pieces_ne [simp]: "str_split s [c] \<noteq> []"
  by (subst str_split.simps) (simp split: option.splits)

locale line_assembler =
  fixes pending :: "'s \<Rightarrow> string"
    and keep :: "string \<Rightarrow> 's \<Rightarrow> 's"
    and handle :: "string \<Rightarrow> 's \<Rightarrow> 'e + 's"
    and feed :: "string \<Rightarrow> 's \<Rightarrow> 'e + 's"
  assumes pending_keep: "pending (keep b s) = b"
    and keep_keep: "keep b (keep c s) = keep b s"
    and keep_pending: "keep (pending s) s = s"
    and handle_keep: "handle l (keep b s) = handle l s"
    and handle_pending: "handle l s = Inr s' \<Longrightarrow> pending s' = []"
    and feed_plain: "nl \<notin> set p \<Longrightarrow> feed p s = Inr (keep (pending s @ p) s)"
    and feed_line: "nl \<notin> set l \<Longrightarrow> feed (l @ nl # r) s = bind_res (handle (pending s @ l) s) (feed r)"
begin

text \<open>From an empty buffer, every line but the last piece is handled and the last piece is kept.\<close>

lemma feed_pieces:
  "pending s = [] \<Longrightarrow>
     feed p s = bind_res (fold_res handle (butlast (str_split p [nl])) s) (\<lambda>s'. Inr (keep (last (str_split p [nl])) s'))"
proof (induction "length p" arbitrary: p s rule: less_induct)
  case less
  show ?case
  proof (cases "nl \<in> set p")
    case False
    then show ?thesis by (simp add: str_split_none feed_plain less.prems)
  next
    case True
    then obtain l r where p: "p = l @ nl # r" "nl \<notin> set l" by (meson split_list_first)
    have "feed r s1 = bind_res (fold_res handle (butlast (str_split r [nl])) s1) (\<lambda>s'. Inr (keep (last (str_split r [nl])) s'))"
      if "handle l s = Inr s1" for s1
      using less.hyps[of r s1] p(1) handle_pending[OF that] by simp
    then show ?thesis
      unfolding p(1) feed_line[OF p(2)] str_split_at[OF p(2)] less.prems by (simp add: bind_res_assoc)
  qed
qed

lemma feed_append: "feed (p @ q) s = bind_res (feed p s) (feed q)"
proof (induction "length p" arbitrary: p s rule: less_induct)
  case less
  show ?case
  proof (cases "nl \<in> set p")
    case True
    then obtain l r where p: "p = l @ nl # r" "nl \<notin> set l" by (meson split_list_first)
    then have "feed (r @ q) s1 = bind_res (feed r s1) (feed q)" for s1 using less by simp
    then show ?thesis using p by (simp add: feed_line bind_res_assoc fun_eq_iff)
  next
    case plain: False
    show ?thesis
    proof (cases "nl \<in> set q")
      case True
      then obtain l r where q: "q = l @ nl # r" "nl \<notin> set l" by (meson split_list_first)
      then have "feed (p @ q) s = bind_res (handle (pending s @ p @ l) s) (feed r)"
        using feed_line[of "p @ l" r s] plain by simp
      then show ?thesis using q plain
        by (simp add: feed_plain feed_line pending_keep handle_keep)
    qed (simp add: feed_plain plain pending_keep keep_keep)
  qed
qed

lemma feeds: "fold_res feed chunks s = feed (concat chunks) s"
proof (induction chunks arbitrary: s)
  case Nil
  show ?case by (simp add: feed_plain keep_pending)
next
  case (Cons p ps)
  then show ?case by (simp add: feed_append fun_eq_iff)
qed

lemmas feeds_pieces = feed_pieces[of _ "concat chunks" for chunks, folded feeds]

end

end
