(* ===== verification/Sse_Tap.thy ===== *)
theory Sse_Tap
  imports Sse_Lines
begin

text \<open>
  The tap on server-sent event streams, \<^verbatim>\<open>onr-core/pkg/ssemetrics/tap.go\<close>: bytes are collected into
  lines, lines into events, and every complete event is handed to the handlers with its name and its
  joined data. The handlers are the log of the calls they receive; a tap has at least one handler.

  Shown: what the handlers receive depends only on the bytes of the stream and not on how the
  transport cuts them into writes, and it is what a reading of the stream line by line and event by
  event says.
\<close>

section \<open>State\<close>

record tap =
  tp_lineBuf :: string
  tp_curEvent :: string
  tp_curData :: "string list"
  tp_log :: "(string \<times> string) list"

definition new_tap :: tap where
  "new_tap = \<lparr>tp_lineBuf = [], tp_curEvent = [], tp_curData = [], tp_log = []\<rparr>"

section \<open>Operations\<close>

definition tap_flush :: "tap \<Rightarrow> tap" where
  "tap_flush t =
     (if tp_curData t = [] then t\<lparr>tp_curEvent := []\<rparr>
      else
        let payload = trim_space (str_join [CHR 0x0A] (tp_curData t));
            t' = t\<lparr>tp_curData := []\<rparr> in
        if payload = [] \<or> payload = ''[DONE]'' then t'\<lparr>tp_curEvent := []\<rparr>
        else t'\<lparr>tp_log := tp_log t' @ [(tp_curEvent t', payload)], tp_curEvent := []\<rparr>)"

definition processLineBytes :: "string \<Rightarrow> tap \<Rightarrow> tap" where
  "processLineBytes line t =
     (if trim_space line = [] then tap_flush t
      else if has_prefix line ''event:'' then
        t\<lparr>tp_curEvent := trim_space (trim_prefix line ''event:'')\<rparr>
      else if has_prefix line ''data:'' then
        t\<lparr>tp_curData := tp_curData t @ [trim_space (trim_prefix line ''data:'')]\<rparr>
      else t)"

definition write_byte :: "char \<Rightarrow> tap \<Rightarrow> tap" where
  "write_byte b t =
     (if b = CHR 0x0A then (processLineBytes (trim_cr (tp_lineBuf t)) t)\<lparr>tp_lineBuf := []\<rparr>
      else t\<lparr>tp_lineBuf := tp_lineBuf t @ [b]\<rparr>)"

definition tap_Write :: "string \<Rightarrow> tap \<Rightarrow> tap" where
  "tap_Write p t = fold write_byte p t"

definition ProcessLine :: "string \<Rightarrow> tap \<Rightarrow> tap" where
  "ProcessLine line t = processLineBytes (trim_cr line) t"

definition tap_Finish :: "tap \<Rightarrow> tap" where
  "tap_Finish t =
     (let t' = (if tp_lineBuf t \<noteq> [] then (processLineBytes (trim_cr (tp_lineBuf t)) t)\<lparr>tp_lineBuf := []\<rparr> else t) in
      tap_flush t')"

section \<open>The meaning of a stream\<close>

text \<open>The fields of a line, the blocks between blank lines, and the event of a block.\<close>

datatype field = Event string | Data string | Blank | Other

definition line_field :: "string \<Rightarrow> field" where
  "line_field line =
     (if trim_space line = [] then Blank
      else if has_prefix line ''event:'' then Event (trim_space (trim_prefix line ''event:''))
      else if has_prefix line ''data:'' then Data (trim_space (trim_prefix line ''data:''))
      else Other)"

fun blocks :: "field list \<Rightarrow> field list list" where
  "blocks [] = [[]]"
| "blocks (f # fs) = (if f = Blank then [] # blocks fs else (case blocks fs of b # bs \<Rightarrow> (f # b) # bs | [] \<Rightarrow> [[f]]))"

definition block_name :: "field list \<Rightarrow> string" where
  "block_name b = foldl (\<lambda>n f. case f of Event e \<Rightarrow> e | _ \<Rightarrow> n) [] b"

definition block_data :: "field list \<Rightarrow> string list" where
  "block_data b = concat (map (\<lambda>f. case f of Data d \<Rightarrow> [d] | _ \<Rightarrow> []) b)"

definition block_event :: "field list \<Rightarrow> (string \<times> string) list" where
  "block_event b =
     (let payload = trim_space (str_join [CHR 0x0A] (block_data b)) in
      if block_data b = [] \<or> payload = [] \<or> payload = ''[DONE]'' then [] else [(block_name b, payload)])"

definition stream_lines :: "string \<Rightarrow> string list" where
  "stream_lines s = (let ls = str_split s [CHR 0x0A] in if last ls = [] then butlast ls else ls)"

definition stream_events :: "string \<Rightarrow> (string \<times> string) list" where
  "stream_events s = concat (map block_event (blocks (map (\<lambda>l. line_field (trim_cr l)) (stream_lines s))))"

section \<open>Writes\<close>

lemma lineBuf_simps [simp]:
  "processLineBytes l (t\<lparr>tp_lineBuf := b\<rparr>) = (processLineBytes l t)\<lparr>tp_lineBuf := b\<rparr>"
  "tp_lineBuf (processLineBytes l t) = tp_lineBuf t"
  "tap_flush (t\<lparr>tp_lineBuf := b\<rparr>) = (tap_flush t)\<lparr>tp_lineBuf := b\<rparr>"
  "tp_lineBuf (tap_flush t) = tp_lineBuf t"
  by (simp_all add: processLineBytes_def tap_flush_def Let_def)

lemma write_plain:
  "CHR 0x0A \<notin> set p \<Longrightarrow> tap_Write p t = t\<lparr>tp_lineBuf := tp_lineBuf t @ p\<rparr>"
  by (induction p arbitrary: t) (auto simp: tap_Write_def write_byte_def)

lemma write_line:
  "CHR 0x0A \<notin> set l \<Longrightarrow> tap_Write (l @ CHR 0x0A # r) t = tap_Write r ((ProcessLine (tp_lineBuf t @ l) t)\<lparr>tp_lineBuf := []\<rparr>)"
  using write_plain[of l t] by (simp add: tap_Write_def write_byte_def ProcessLine_def)

interpretation tap_lines: line_assembler tp_lineBuf "\<lambda>b t. t\<lparr>tp_lineBuf := b\<rparr>"
  "\<lambda>l t. Inr ((ProcessLine l t)\<lparr>tp_lineBuf := []\<rparr>) :: unit + tap" "\<lambda>p t. Inr (tap_Write p t)"
  by unfold_locales (auto simp: write_plain write_line ProcessLine_def)

lemma ProcessLine_lineBuf [simp]: "tp_lineBuf (ProcessLine l t) = tp_lineBuf t"
  by (simp add: ProcessLine_def)

text \<open>Feeding a stream and finishing is processing its lines one by one and flushing.\<close>

lemma fold_lines_reset:
  "tp_lineBuf t = [] \<Longrightarrow> fold (\<lambda>l t. (ProcessLine l t)\<lparr>tp_lineBuf := []\<rparr>) ls t = fold ProcessLine ls t"
proof (induction ls arbitrary: t)
  case (Cons l ls)
  then have same: "(ProcessLine l t)\<lparr>tp_lineBuf := []\<rparr> = ProcessLine l t" by (simp add: ProcessLine_def tap.equality)
  have "tp_lineBuf (ProcessLine l t) = []" using Cons.prems by simp
  from Cons.IH[OF this] show ?case unfolding fold_Cons comp_def same .
qed simp

lemma fold_lines_lineBuf: "tp_lineBuf (fold ProcessLine ls t) = tp_lineBuf t"
  by (induction ls arbitrary: t) (simp_all add: ProcessLine_def)

lemma write_finish_lines:
  assumes "tp_lineBuf t = []"
  shows "tap_Finish (fold tap_Write chunks t) = tap_flush (fold ProcessLine (stream_lines (concat chunks)) t)"
proof -
  obtain ls l where ps: "str_split (concat chunks) [nl] = ls @ [l]"
    by (metis append_butlast_last_id split_pieces_ne)
  have "fold tap_Write chunks t = (fold ProcessLine ls t)\<lparr>tp_lineBuf := l\<rparr>"
    using tap_lines.feeds_pieces[OF assms, of chunks] by (simp add: fold_res_total fold_lines_reset assms ps)
  moreover have buf: "tp_lineBuf (fold ProcessLine ls t) = []" using assms by (simp add: fold_lines_lineBuf)
  moreover have "(ProcessLine l (fold ProcessLine ls t))\<lparr>tp_lineBuf := []\<rparr> = ProcessLine l (fold ProcessLine ls t)"
    using buf by (simp add: tap.equality)
  moreover have "(fold ProcessLine ls t)\<lparr>tp_lineBuf := []\<rparr> = fold ProcessLine ls t" using buf by (simp add: tap.equality)
  ultimately show ?thesis by (auto simp: tap_Finish_def ProcessLine_def Let_def stream_lines_def ps)
qed

section \<open>Lines\<close>

text \<open>What a tap has collected of the current block, as a list of fields.\<close>

definition step_field :: "field \<Rightarrow> tap \<Rightarrow> tap" where
  "step_field f t =
     (case f of
        Blank \<Rightarrow> tap_flush t
      | Event e \<Rightarrow> t\<lparr>tp_curEvent := e\<rparr>
      | Data d \<Rightarrow> t\<lparr>tp_curData := tp_curData t @ [d]\<rparr>
      | Other \<Rightarrow> t)"

lemma ProcessLine_field: "ProcessLine l = step_field (line_field (trim_cr l))"
  by (rule ext) (simp add: ProcessLine_def processLineBytes_def step_field_def line_field_def)

definition holds_block :: "field list \<Rightarrow> (string \<times> string) list \<Rightarrow> tap \<Rightarrow> bool" where
  "holds_block b log t \<longleftrightarrow> tp_curEvent t = block_name b \<and> tp_curData t = block_data b \<and> tp_log t = log"

lemma holds_step: "f \<noteq> Blank \<Longrightarrow> holds_block b log t \<Longrightarrow> holds_block (b @ [f]) log (step_field f t)"
  by (auto simp: holds_block_def step_field_def block_name_def block_data_def split: field.splits)

lemma holds_flush: "holds_block b log t \<Longrightarrow> holds_block [] (log @ block_event b) (tap_flush t)"
  by (auto simp: holds_block_def tap_flush_def block_event_def Let_def block_name_def block_data_def)

lemma blocks_Cons: "blocks fs \<noteq> []"
  by (induction fs) (auto split: list.splits)

lemma run_fields:
  "holds_block b log t \<Longrightarrow> blocks fs = c # cs \<Longrightarrow>
     tp_log (tap_flush (fold step_field fs t)) = log @ block_event (b @ c) @ concat (map block_event cs)"
proof (induction fs arbitrary: b log t c cs)
  case Nil
  then have "holds_block [] (log @ block_event b) (tap_flush t)" by (intro holds_flush)
  with Nil show ?case by (simp add: holds_block_def)
next
  case (Cons f fs)
  obtain d ds where d: "blocks fs = d # ds" using blocks_Cons[of fs] by (cases "blocks fs") auto
  show ?case
  proof (cases "f = Blank")
    case True
    then have "holds_block [] (log @ block_event b) (step_field f t)"
      using holds_flush[OF Cons.prems(1)] by (simp add: step_field_def)
    moreover have "c = []" "cs = d # ds" using True Cons.prems(2) d by auto
    ultimately show ?thesis using Cons.IH[OF _ d] by simp
  next
    case False
    from Cons.IH[OF holds_step[OF False Cons.prems(1)] d] False Cons.prems(2) d show ?thesis by auto
  qed
qed

text \<open>
  The tap reports the events of the stream, however it is cut: after any sequence of writes and the
  final flush, the handlers have received exactly the events of the concatenated bytes, each with the
  name of its block and its data lines joined, except for blocks without data and the end marker.
\<close>

theorem tap_reports_stream_events:
  "tp_log (tap_Finish (fold tap_Write chunks new_tap)) = stream_events (concat chunks)"
proof -
  let ?fs = "map (\<lambda>l. line_field (trim_cr l)) (stream_lines (concat chunks))"
  obtain c cs where c: "blocks ?fs = c # cs" using blocks_Cons[of ?fs] by (cases "blocks ?fs") auto
  have "holds_block [] [] new_tap" by (simp add: holds_block_def new_tap_def block_name_def block_data_def)
  from run_fields[OF this c] have "tp_log (tap_flush (fold step_field ?fs new_tap)) = concat (map block_event (blocks ?fs))"
    by (simp add: c)
  moreover have "fold step_field ?fs t = fold ProcessLine (stream_lines (concat chunks)) t" for t
    by (simp add: fold_map comp_def ProcessLine_field[abs_def])
  moreover have "tap_Finish (fold tap_Write chunks new_tap) = tap_flush (fold ProcessLine (stream_lines (concat chunks)) new_tap)"
    by (simp add: write_finish_lines new_tap_def)
  ultimately show ?thesis by (simp add: stream_events_def)
qed

end
