(* ===== verification/Response_Phase.thy ===== *)
theory Response_Phase
  imports Upstream Resp_Inline Sse_Tap Sse_Transform
begin

text \<open>
  What the proxy does with the answer of the upstream (\<^verbatim>\<open>onr/internal/proxy/response_nonstream.go\<close>,
  \<^verbatim>\<open>stream_write.go\<close>, \<^verbatim>\<open>buffers.go\<close>, \<^verbatim>\<open>proxy.go\<close>, with \<^verbatim>\<open>onr-core/pkg/apitransform/response_body.go\<close>, \<^verbatim>\<open>response_by_mode.go\<close>
  and \<^verbatim>\<open>sse_by_mode.go\<close>).

  A plain answer is decoded when needed, collected from events, mapped to the client's schema, its links
  inlined, its JSON rewritten, and sent with the headers of the upstream. A stream is copied, converted or
  rewritten event by event while buffers and the metrics tap watch it. Extraction of usage, prices and traffic
  dumps only read and are left out. Decompression, JSON coding, collection of events, the typed chat mappings
  and the stream converters are parameters.

  A body that is nil in Go is \<^const>\<open>None\<close>, as opposed to an empty one.
\<close>

section \<open>Data\<close>

datatype resp_error =
    EncodingUnsupported string
  | GunzipFails
  | ResponseNotJSON
  | OpsNeedObject
  | CollectFails string
  | ResponseMapFails string
  | ResponseRejected upstream_error
  | ResponseMode string
  | ResponseOpFails json_error
  | ResponseMarshal
  | StreamWriteFails
  | StreamReadFails
  | StreamModeFails string

record 'f response_env =
  re_Gunzip :: "string \<Rightarrow> string option"
  re_Unmarshal :: "string \<Rightarrow> jobj option option"
  re_Marshal :: "jobj \<Rightarrow> string option"
  re_Collect :: "string \<Rightarrow> string \<Rightarrow> string + jobj"
  re_typed :: "string \<Rightarrow> jobj option \<Rightarrow> string + jobj"
  re_now :: int
  re_inline :: inline_env
  re_order :: "nat \<Rightarrow> nat list"
  re_maxPrice :: "(string \<times> 'f) list"
  re_float :: "'f float_ops"
  re_headers :: header

record client_answer =
  ca_Status :: int
  ca_Header :: header
  ca_Body :: string

definition contentTypeJSON :: string where
  "contentTypeJSON = ''application/json''"

section \<open>Bodies\<close>

definition DecodeResponseBody :: "'f response_env \<Rightarrow> string \<Rightarrow> string \<Rightarrow> resp_error + (string \<times> bool)" where
  "DecodeResponseBody env body contentEncoding =
     (let ce = to_lower (trim_space contentEncoding) in
      if ce = [] \<or> ce = ''identity'' then Inr (body, False)
      else if ce = ''gzip'' then (case re_Gunzip env body of None \<Rightarrow> Inl GunzipFails | Some decoded \<Rightarrow> Inr (decoded, True))
      else Inl (EncodingUnsupported contentEncoding))"

definition ResponseBodyLooksLikeJSON :: "string \<Rightarrow> string \<Rightarrow> bool" where
  "ResponseBodyLooksLikeJSON contentType body \<longleftrightarrow>
     str_contains (to_lower (trim_space contentType)) ''json'' \<or> has_prefix (trim_space body) ''{''"

definition NormalizeResponseMapMode :: "string \<Rightarrow> string" where
  "NormalizeResponseMapMode mode = to_lower (trim_space mode)"

definition typed_response_modes :: "string list" where
  "typed_response_modes =
     [''openai_responses_to_openai_chat'', ''anthropic_to_openai_chat'', ''gemini_to_openai_chat'', ''gemini_to_openai_images'',
      ''openai_to_anthropic_messages'', ''openai_to_gemini_chat'', ''openai_to_gemini_generate_content'']"

definition media_response_modes :: "string list" where
  "media_response_modes =
     [''minimax_image_to_openai_images'', ''qwen_image_to_openai_images'', ''ppio_video_create_to_openai_videos'',
      ''ppio_video_result_to_openai_videos'']"

definition SupportsResponseMapMode :: "string \<Rightarrow> bool" where
  "SupportsResponseMapMode mode \<longleftrightarrow> NormalizeResponseMapMode mode \<in> set (typed_response_modes @ media_response_modes)"

definition MapResponseObjectByMode :: "'f response_env \<Rightarrow> string \<Rightarrow> jobj option \<Rightarrow> resp_error + jobj" where
  "MapResponseObjectByMode env mode robj =
     (let m = NormalizeResponseMapMode mode; ob = (case robj of None \<Rightarrow> [] | Some ob \<Rightarrow> ob) in
      if m \<in> set typed_response_modes then map_error ResponseMapFails (re_typed env m robj)
      else if m = ''minimax_image_to_openai_images'' then map_error ResponseRejected (MapMinimaxImageToOpenAIImagesResponseObject (re_now env) ob)
      else if m = ''qwen_image_to_openai_images'' then map_error ResponseRejected (MapQwenImageToOpenAIImagesResponseObject (re_now env) ob)
      else if m = ''ppio_video_create_to_openai_videos'' then map_error ResponseRejected (MapPPIOVideoCreateToOpenAIVideoObject (re_now env) ob)
      else if m = ''ppio_video_result_to_openai_videos'' then map_error ResponseRejected (MapPPIOVideoResultToOpenAIVideoObject (re_now env) ob)
      else Inl (ResponseMode mode))"

text \<open>The object, the content type, and whether a transformation was applied.\<close>

definition TransformNonStreamResponseBody ::
    "'f response_env \<Rightarrow> int \<Rightarrow> string \<Rightarrow> jobj option \<Rightarrow> string \<Rightarrow> resp_error + (jobj option \<times> string \<times> bool)" where
  "TransformNonStreamResponseBody env statusCode mode body contentType =
     (if statusCode \<ge> 400 \<or> \<not> SupportsResponseMapMode mode then Inr (None, contentType, False)
      else bind_res (MapResponseObjectByMode env mode body) (\<lambda>ob. Inr (Some ob, contentTypeJSON, True)))"

section \<open>Mapping a plain answer\<close>

type_synonym mapped = "string option \<times> jobj option \<times> string \<times> bool"

text \<open>The answer as an object, when its events are collected; the encoding of the upstream is undone first.\<close>

definition collect_events :: "'f response_env \<Rightarrow> 'f response_directive \<Rightarrow> up_response \<Rightarrow> resp_error + jobj" where
  "collect_events env d resp =
     bind_res (DecodeResponseBody env (us_Body resp) (hdr_Get (us_Header resp) ''Content-Encoding'')) (\<lambda>(decoded, _).
       map_error CollectFails (re_Collect env (rd_SSECollectMode d) decoded))"

definition decode_object :: "'f response_env \<Rightarrow> up_response \<Rightarrow> resp_error + jobj option" where
  "decode_object env resp =
     bind_res (DecodeResponseBody env (us_Body resp) (hdr_Get (us_Header resp) ''Content-Encoding'')) (\<lambda>(decoded, _).
       case re_Unmarshal env decoded of None \<Rightarrow> Inl ResponseNotJSON | Some robj \<Rightarrow> Inr robj)"

definition map_by_directive ::
    "'f response_env \<Rightarrow> up_response \<Rightarrow> 'f response_directive option \<Rightarrow> string option \<Rightarrow> jobj option \<Rightarrow> string \<Rightarrow> resp_error + mapped" where
  "map_by_directive env resp respDir respOutBody robj outCT =
     (case respDir of
        None \<Rightarrow> Inr (if robj \<noteq> None then (None, robj, outCT, True) else (respOutBody, None, outCT, False))
      | Some d \<Rightarrow>
          if rd_Op d \<noteq> ''resp_map'' then Inr (if robj \<noteq> None then (None, robj, outCT, True) else (respOutBody, None, outCT, False))
          else if us_Status resp \<ge> 400 \<or> \<not> SupportsResponseMapMode (rd_Mode d) then Inr (respOutBody, None, outCT, False)
          else
            bind_res (if robj = None then decode_object env resp else Inr robj) (\<lambda>robj'.
            bind_res (TransformNonStreamResponseBody env (us_Status resp) (rd_Mode d) robj' outCT) (\<lambda>(outObj, ct, changed).
              Inr (if changed then (None, outObj, ct, True)
                   else if respOutBody = None \<and> robj' \<noteq> None then (None, robj', ct, True)
                   else (respOutBody, outObj, ct, False)))))"

definition mapNonStreamResponse :: "'f response_env \<Rightarrow> up_response \<Rightarrow> 'f response_directive option \<Rightarrow> resp_error + mapped" where
  "mapNonStreamResponse env resp respDir =
     (let outCT = hdr_Get (us_Header resp) ''Content-Type'' in
      case (if shouldCollectSSE respDir resp then respDir else None) of
        Some d \<Rightarrow>
          if us_Status resp \<ge> 400 then Inr (Some (us_Body resp), None, outCT, False)
          else bind_res (collect_events env d resp) (\<lambda>robj. map_by_directive env resp respDir None (Some robj) contentTypeJSON)
      | None \<Rightarrow> map_by_directive env resp respDir (Some (us_Body resp)) None outCT)"

definition marshal_missing :: "'f response_env \<Rightarrow> string option \<Rightarrow> jobj option \<Rightarrow> resp_error + string option" where
  "marshal_missing env body robj =
     (case (body, robj) of
        (None, Some ob) \<Rightarrow> (case re_Marshal env ob of None \<Rightarrow> Inl ResponseMarshal | Some b \<Rightarrow> Inr (Some b))
      | _ \<Rightarrow> Inr body)"

section \<open>Inlining and JSON operations\<close>

definition bytes_of :: "string option \<Rightarrow> string" where
  "bytes_of body = (case body of None \<Rightarrow> [] | Some b \<Rightarrow> b)"

definition jsonObjectOrNil :: "'f response_env \<Rightarrow> string \<Rightarrow> jobj option" where
  "jsonObjectOrNil env body = (case re_Unmarshal env body of None \<Rightarrow> None | Some robj \<Rightarrow> robj)"

text \<open>Runs the rule on an object; \<open>parsedHere\<close> says that the object was decoded only for this.\<close>

definition inline_object ::
    "'f response_env \<Rightarrow> inline_url_rule \<Rightarrow> jobj option \<Rightarrow> bool \<Rightarrow> jobj \<Rightarrow> string option \<Rightarrow> bool \<Rightarrow> jobj option \<times> string option \<times> bool" where
  "inline_object env rule requestRoot parsedHere robj body didTransform =
     (let (robj', res) = inline_Apply (re_inline env) (re_order env) robj requestRoot rule in
      if ir_Inlined res = 0 then (if parsedHere then None else Some robj, body, didTransform)
      else (case robj' of JObj ob \<Rightarrow> (Some ob, None, True) | _ \<Rightarrow> (None, None, True)))"

definition applyResponseInlineURL ::
    "'f response_env \<Rightarrow> bool \<Rightarrow> jobj option \<Rightarrow> jobj option \<Rightarrow> string option \<Rightarrow> string \<Rightarrow> up_response \<Rightarrow> 'f response_directive option \<Rightarrow> bool
     \<Rightarrow> resp_error + (jobj option \<times> string option \<times> bool)" where
  "applyResponseInlineURL env hasHTTP requestRoot robj body outCT resp respDir didTransform =
     (case (if hasHTTP then Option.bind respDir rd_InlineURL else None) of
        None \<Rightarrow> Inr (robj, body, didTransform)
      | Some rule \<Rightarrow>
          case robj of
            Some ob \<Rightarrow> Inr (inline_object env rule requestRoot False ob body didTransform)
          | None \<Rightarrow>
              if \<not> ResponseBodyLooksLikeJSON outCT (bytes_of body) then Inr (robj, body, didTransform)
              else
                bind_res (DecodeResponseBody env (bytes_of body) (hdr_Get (us_Header resp) ''Content-Encoding'')) (\<lambda>(decoded, _).
                  case jsonObjectOrNil env decoded of
                    None \<Rightarrow> Inr (None, body, didTransform)
                  | Some ob \<Rightarrow> Inr (inline_object env rule requestRoot True ob body didTransform)))"

definition response_ops_env :: "'f response_env \<Rightarrow> meta \<Rightarrow> 'f op_env" where
  "response_ops_env env meta =
     \<lparr>oe_meta = meta, oe_headers = re_headers env, oe_maxPrice = re_maxPrice env, oe_float = re_float env, oe_sharesRoot = False\<rparr>"

definition response_object :: "'f response_env \<Rightarrow> up_response \<Rightarrow> jobj option \<Rightarrow> string option \<Rightarrow> resp_error + jobj" where
  "response_object env resp robj body =
     (case robj of
        Some ob \<Rightarrow> Inr ob
      | None \<Rightarrow>
          bind_res (DecodeResponseBody env (bytes_of body) (hdr_Get (us_Header resp) ''Content-Encoding'')) (\<lambda>(decoded, _).
            case re_Unmarshal env decoded of
              None \<Rightarrow> Inl ResponseNotJSON
            | Some None \<Rightarrow> Inl OpsNeedObject
            | Some (Some ob) \<Rightarrow> Inr ob))"

definition applyNonStreamResponseJSONOps ::
    "'f response_env \<Rightarrow> jobj option \<Rightarrow> string option \<Rightarrow> string \<Rightarrow> up_response \<Rightarrow> meta \<Rightarrow> 'f json_op list \<Rightarrow> bool
     \<Rightarrow> resp_error + (string option \<times> string \<times> bool)" where
  "applyNonStreamResponseJSONOps env robj body outCT resp meta ops didTransform =
     (if ops = [] \<or> (robj = None \<and> \<not> ResponseBodyLooksLikeJSON outCT (bytes_of body)) then Inr (body, outCT, didTransform)
      else
        bind_res (response_object env resp robj body) (\<lambda>ob.
        bind_res (map_error ResponseOpFails (ApplyJSONOps (response_ops_env env meta) (Some ob) ops)) (\<lambda>ob'.
          case re_Marshal env ob' of
            None \<Rightarrow> Inl ResponseMarshal
          | Some b \<Rightarrow> Inr (Some b, if str_contains outCT ''json'' then outCT else ''application/json'', True))))"

section \<open>Headers\<close>

fun add_values :: "string \<Rightarrow> string list \<Rightarrow> header \<Rightarrow> header" where
  "add_values k [] h = h"
| "add_values k (v # vs) h = add_values k vs (hdr_Add k v h)"

fun copyHeadersToClient :: "header \<Rightarrow> bool \<Rightarrow> header \<Rightarrow> header" where
  "copyHeadersToClient [] didTransform h = h"
| "copyHeadersToClient ((k, vs) # hdr) didTransform h =
     copyHeadersToClient hdr didTransform
       (if vs = [] \<or> equal_fold k ''Content-Length'' \<or> (equal_fold k ''Content-Encoding'' \<and> didTransform) then h
        else add_values k vs h)"

section \<open>A plain answer\<close>

text \<open>The headers \<open>wh\<close> are those the server has already set on the answer, \<open>rid\<close> the recorded request identifier.\<close>

definition handleNonStreamResponse ::
    "'f response_env \<Rightarrow> bool \<Rightarrow> upstream_file \<Rightarrow> meta \<Rightarrow> jobj option \<Rightarrow> 'f response_directive option \<Rightarrow> up_response \<Rightarrow> header \<Rightarrow> string option
     \<Rightarrow> resp_error + (client_answer \<times> string option)" where
  "handleNonStreamResponse env hasHTTP uf meta requestRoot respDir resp wh rid =
     bind_res (mapNonStreamResponse env resp respDir) (\<lambda>(body0, ob0, ct0, did0).
     bind_res (marshal_missing env body0 ob0) (\<lambda>body1.
       let rid' = recordUpstreamRequestIDFromJSON (\<lambda>b. jsonObjectOrNil env b) uf (bytes_of body1) rid in
     bind_res (applyResponseInlineURL env hasHTTP requestRoot ob0 body1 ct0 resp respDir did0) (\<lambda>(ob2, body2, did2).
     bind_res (marshal_missing env body2 ob2) (\<lambda>body3.
     bind_res (applyNonStreamResponseJSONOps env ob2 body3 ct0 resp meta (case respDir of None \<Rightarrow> [] | Some d \<Rightarrow> rd_JSONOps d) did2) (\<lambda>(body4, ct4, did4).
       let h = copyHeadersToClient (us_Header resp) did4 wh in
       Inr (\<lparr>ca_Status = us_Status resp,
             ca_Header = (if trim_space ct4 \<noteq> [] then hdr_Set ''Content-Type'' ct4 h else h),
             ca_Body = bytes_of body4\<rparr>, rid'))))))"

section \<open>Headers of the answer\<close>

definition canonical_header :: "header \<Rightarrow> bool" where
  "canonical_header hdr \<longleftrightarrow> distinct (map fst hdr) \<and> list_all (\<lambda>(k, vs). canonical_key k = k) hdr"

lemma lower_upper_byte: "lower_byte (upper_byte c) = lower_byte c"
  by (auto simp: lower_byte_def upper_byte_def byte_in_def Let_def)

lemma to_lower_canonical: "to_lower (canonical_key s) = to_lower s"
proof -
  have "to_lower (canon_bytes upper s) = to_lower s" for upper
    by (induction s arbitrary: upper) (auto simp: to_lower_def lower_upper_byte)
  then show ?thesis by (simp add: canonical_key_def)
qed

lemma hdr_Values_Add: "hdr_Values (hdr_Add k v h) m = (if canonical_key m = canonical_key k then hdr_Values h m @ [v] else hdr_Values h m)"
  by (simp add: hdr_Values_def hdr_Add_def update_conv')

lemma hdr_Values_add_values:
  "hdr_Values (add_values k vs h) m = (if canonical_key m = canonical_key k then hdr_Values h m @ vs else hdr_Values h m)"
  by (induction k vs h rule: add_values.induct) (auto simp: hdr_Values_Add)

lemma copied_values:
  assumes "canonical_header hdr"
  shows "hdr_Values (copyHeadersToClient hdr did h) m = hdr_Values h m @
    (if equal_fold m ''Content-Length'' \<or> (equal_fold m ''Content-Encoding'' \<and> did) then [] else hdr_Values hdr m)"
  using assms
proof (induction hdr did h rule: copyHeadersToClient.induct)
  case (2 k vs hdr did h)
  have canon: "canonical_key k = k" "canonical_header hdr" "k \<notin> fst ` set hdr"
    using "2.prems" by (auto simp: canonical_header_def)
  have fold: "equal_fold m t = equal_fold k t" if "canonical_key m = k" for t
    using that to_lower_canonical[of m] by (simp add: equal_fold_def)
  have "hdr_Values hdr m = []" if "canonical_key m = k"
    using that canon(3) by (simp add: hdr_Values_def map_of_eq_None_iff[THEN iffD2])
  with canon fold "2.IH"[OF canon(2)] show ?case
    by (auto simp: hdr_Values_add_values) (auto simp: hdr_Values_def split: if_splits)
qed (simp add: hdr_Values_def)

section \<open>Bodies of the answer\<close>

text \<open>
  Before any change the body is the upstream's and there is no object; after one the object is what counts,
  and the body is missing or its encoding.
\<close>

definition consistent :: "'f response_env \<Rightarrow> up_response \<Rightarrow> jobj option \<Rightarrow> string option \<Rightarrow> bool \<Rightarrow> bool" where
  "consistent env resp ob body did \<longleftrightarrow>
     (if did then (\<exists>o'. ob = Some o' \<and> (body = None \<or> body = re_Marshal env o')) else body = Some (us_Body resp) \<and> ob = None)"

definition mode_supported :: "'f response_directive option \<Rightarrow> bool" where
  "mode_supported respDir \<longleftrightarrow> (case respDir of None \<Rightarrow> True | Some d \<Rightarrow> rd_Op d = ''resp_map'' \<longrightarrow> SupportsResponseMapMode (rd_Mode d))"

lemma mapped_consistent:
  assumes "mapNonStreamResponse env resp respDir = Inr (body, ob, ct, did)" "mode_supported respDir"
  shows "consistent env resp ob body did \<and> (respDir = None \<longrightarrow> \<not> did)"
  using assms
  by (auto simp: mapNonStreamResponse_def map_by_directive_def TransformNonStreamResponseBody_def consistent_def mode_supported_def
      shouldCollectSSE_def Let_def bind_res_eq_Inr split: option.splits if_splits)

lemma marshal_consistent:
  assumes "marshal_missing env body ob = Inr body'" "consistent env resp ob body did"
  shows "consistent env resp ob body' did" "did \<Longrightarrow> \<exists>o'. ob = Some o' \<and> re_Marshal env o' = Some (bytes_of body')"
  using assms by (auto simp: marshal_missing_def consistent_def bytes_of_def dest: sym split: option.splits if_splits)

lemma update_at_object: "\<exists>m'. update_at a (set_content f g e) (JObj m) = JObj m'"
proof (cases a)
  case (Cons s b)
  then show ?thesis by (cases s) auto
qed (simp add: set_content_def)

lemma inline_Apply_object: "\<exists>m. fst (inline_Apply env order ob req rule) = JObj m"
proof -
  have "\<exists>m. fst (fold (finish_one env rule ts) is s) = JObj m" if "\<exists>m. fst s = JObj m" for ts "is" s
    using that
  proof (induction "is" arbitrary: s)
    case (Cons i later)
    have "\<exists>m. fst (finish_one env rule ts i s) = JObj m"
      using Cons.prems update_at_object
      by (auto simp: finish_one_def Let_def case_prod_unfold split: sum.splits)
    from Cons.IH[OF this] show ?case by simp
  qed simp
  then show ?thesis by (simp add: inline_Apply_def Let_def pool_start_def)
qed

lemma inline_object_consistent:
  assumes "inline_object env rule req here ob body did = (ob', body', did')"
    and "if here then consistent env resp None body did else consistent env resp (Some ob) body did"
  shows "consistent env resp ob' body' did'"
  using assms inline_Apply_object[of "re_inline env" "re_order env" ob req rule]
  by (auto simp: inline_object_def consistent_def Let_def split: prod.splits if_splits)

lemma inline_consistent:
  assumes "applyResponseInlineURL env hasHTTP req ob body ct resp respDir did = Inr (ob', body', did')" "consistent env resp ob body did"
  shows "consistent env resp ob' body' did' \<and> (respDir = None \<longrightarrow> did' = did)"
  using assms
  by (auto simp: applyResponseInlineURL_def bind_res_eq_Inr split: option.splits if_splits Option.bind_splits
      intro: inline_object_consistent[where resp = resp])

lemma ops_consistent:
  assumes "applyNonStreamResponseJSONOps env ob body ct resp meta ops did = Inr (body', ct', did')"
    and "consistent env resp ob body did" "did \<Longrightarrow> \<exists>o'. ob = Some o' \<and> re_Marshal env o' = Some (bytes_of body)"
  shows "(if did' then \<exists>o'. re_Marshal env o' = Some (bytes_of body') else bytes_of body' = us_Body resp) \<and> (ops = [] \<longrightarrow> did' = did)"
  using assms
  by (auto simp: applyNonStreamResponseJSONOps_def bind_res_eq_Inr consistent_def bytes_of_def split: option.splits if_splits)

lemma answer_body:
  assumes "handleNonStreamResponse env hasHTTP uf meta req respDir resp wh rid = Inr (ans, rid')" "mode_supported respDir"
  obtains did ct where
    "if did then \<exists>ob. re_Marshal env ob = Some (ca_Body ans) else ca_Body ans = us_Body resp" "respDir = None \<longrightarrow> \<not> did"
    "ca_Status ans = us_Status resp"
    "ca_Header ans = (let h = copyHeadersToClient (us_Header resp) did wh in if trim_space ct \<noteq> [] then hdr_Set ''Content-Type'' ct h else h)"
proof -
  obtain body0 ob0 ct0 did0 body1 ob2 body2 did2 body3 body4 ct4 did4 where run:
    "mapNonStreamResponse env resp respDir = Inr (body0, ob0, ct0, did0)" "marshal_missing env body0 ob0 = Inr body1"
    "applyResponseInlineURL env hasHTTP req ob0 body1 ct0 resp respDir did0 = Inr (ob2, body2, did2)"
    "marshal_missing env body2 ob2 = Inr body3"
    "applyNonStreamResponseJSONOps env ob2 body3 ct0 resp meta (case respDir of None \<Rightarrow> [] | Some d \<Rightarrow> rd_JSONOps d) did2 = Inr (body4, ct4, did4)"
    and ans: "ca_Status ans = us_Status resp" "ca_Body ans = bytes_of body4"
    "ca_Header ans = (let h = copyHeadersToClient (us_Header resp) did4 wh in if trim_space ct4 \<noteq> [] then hdr_Set ''Content-Type'' ct4 h else h)"
    using assms(1) by (auto simp: handleNonStreamResponse_def bind_res_eq_Inr Let_def)
  note mapped = mapped_consistent[OF run(1) assms(2)]
  note inlined = inline_consistent[OF run(3) marshal_consistent(1)[OF run(2) conjunct1[OF mapped]]]
  note final = ops_consistent[OF run(5) marshal_consistent[OF run(4) conjunct1[OF inlined]]]
  show thesis
    by (rule that[of did4 ct4]) (use final mapped inlined ans in auto)
qed

text \<open>
  What a client gets for a plain answer is labelled as what it is. The status is the upstream's. The body is
  either the upstream's bytes, sent with the upstream's content encoding, or the JSON text of an object,
  sent without one; without response rules it is always the former. Every other header but the type and
  the length is passed on unchanged.
\<close>

theorem plain_answer_labelled:
  assumes "handleNonStreamResponse env hasHTTP uf meta req respDir resp wh rid = Inr (ans, rid')" "mode_supported respDir"
    and "canonical_header (us_Header resp)" "hdr_Values wh ''Content-Encoding'' = []"
  shows "ca_Status ans = us_Status resp \<and>
    (ca_Body ans = us_Body resp \<and> hdr_Values (ca_Header ans) ''Content-Encoding'' = hdr_Values (us_Header resp) ''Content-Encoding'' \<or>
     (\<exists>ob. re_Marshal env ob = Some (ca_Body ans)) \<and> hdr_Values (ca_Header ans) ''Content-Encoding'' = []) \<and>
    (respDir = None \<longrightarrow> ca_Body ans = us_Body resp) \<and>
    (to_lower name \<notin> {''content-length'', ''content-encoding'', ''content-type''} \<longrightarrow>
      hdr_Values (ca_Header ans) name = hdr_Values wh name @ hdr_Values (us_Header resp) name) \<and>
    hdr_Values (ca_Header ans) ''Content-Length'' = hdr_Values wh ''Content-Length''"
proof -
  obtain did ct where ans:
    "if did then \<exists>ob. re_Marshal env ob = Some (ca_Body ans) else ca_Body ans = us_Body resp" "respDir = None \<longrightarrow> \<not> did"
    "ca_Status ans = us_Status resp"
    "ca_Header ans = (let h = copyHeadersToClient (us_Header resp) did wh in if trim_space ct \<noteq> [] then hdr_Set ''Content-Type'' ct h else h)"
    by (rule answer_body[OF assms(1,2)])
  have lower: "to_lower ''Content-Length'' = ''content-length''" "to_lower ''Content-Encoding'' = ''content-encoding''"
    "to_lower ''Content-Type'' = ''content-type''" by code_simp+
  have neq: "canonical_key m \<noteq> canonical_key ''Content-Type''" if "to_lower m \<noteq> ''content-type''" for m
    using that to_lower_canonical[of m] to_lower_canonical[of "''Content-Type''"] lower(3) by metis
  have vals: "hdr_Values (ca_Header ans) m = hdr_Values (copyHeadersToClient (us_Header resp) did wh) m"
    if "to_lower m \<noteq> ''content-type''" for m
    using neq[OF that] unfolding ans(4) by (simp add: Let_def)
  show ?thesis
    using ans(1-3) assms(4) vals[of name] vals[of "''Content-Encoding''"] vals[of "''Content-Length''"]
    by (auto simp: copied_values[OF assms(3)] equal_fold_def lower)
qed

section \<open>Buffers that watch a stream\<close>

record limited_buffer =
  lb_limit :: int
  lb_buf :: string
  lb_truncated :: bool

definition limited_Write :: "string \<Rightarrow> limited_buffer \<Rightarrow> limited_buffer" where
  "limited_Write p b =
     (if lb_limit b \<le> 0 then b
      else
        let remain = lb_limit b - int (length (lb_buf b)) in
        if remain \<le> 0 then b\<lparr>lb_truncated := True\<rparr>
        else if int (length p) > remain then b\<lparr>lb_buf := lb_buf b @ take (nat remain) p, lb_truncated := True\<rparr>
        else b\<lparr>lb_buf := lb_buf b @ p\<rparr>)"

record tail_buffer =
  tb_limit :: int
  tb_buf :: string

definition tail_Write :: "string \<Rightarrow> tail_buffer \<Rightarrow> tail_buffer" where
  "tail_Write p b =
     (if tb_limit b \<le> 0 then b
      else if int (length p) \<ge> tb_limit b then b\<lparr>tb_buf := drop (length p - nat (tb_limit b)) p\<rparr>
      else if int (length (tb_buf b)) + int (length p) \<le> tb_limit b then b\<lparr>tb_buf := tb_buf b @ p\<rparr>
      else
        let needDrop = length (tb_buf b) + length p - nat (tb_limit b) in
        b\<lparr>tb_buf := drop needDrop (tb_buf b) @ p\<rparr>)"

section \<open>Streams\<close>

datatype io_error = WriteError | ReadError

text \<open>What the client has received, and how many bytes were counted.\<close>

record sink =
  sk_client :: string
  sk_n :: int

text \<open>
  \<open>sv_Write\<close> says of a write whether it succeeds (\<^const>\<open>None\<close>) or how many bytes it transmits before it fails;
  \<open>sv_Gunzip\<close> turns the chunks of a compressed stream into those of the plain one, when its header is valid;
  \<open>sv_Convert\<close> gives how many chunks of a source a converter reads, the pieces it writes, and the error it ends with, if any.
\<close>

record 'f stream_env =
  sv_resp :: "'f response_env"
  sv_Write :: "string \<Rightarrow> string \<Rightarrow> nat option"
  sv_Gunzip :: "string list \<Rightarrow> io_error option \<Rightarrow> (string list \<times> io_error option) option"
  sv_Convert :: "string \<Rightarrow> string list \<Rightarrow> io_error option \<Rightarrow> nat \<times> string list \<times> string option"

definition countingWrite :: "'f stream_env \<Rightarrow> string \<Rightarrow> sink \<Rightarrow> (io_error \<times> sink) + sink" where
  "countingWrite env p s =
     (case sv_Write env (sk_client s) p of
        None \<Rightarrow> Inr (s\<lparr>sk_client := sk_client s @ p, sk_n := sk_n s + int (length p)\<rparr>)
      | Some k \<Rightarrow> Inl (WriteError, s\<lparr>sk_client := sk_client s @ take k p, sk_n := sk_n s + int (length (take k p))\<rparr>))"

definition stream_sse_env :: "'f stream_env \<Rightarrow> meta \<Rightarrow> 'f response_directive \<Rightarrow> ('f, sink, io_error) sse_env" where
  "stream_sse_env env meta d =
     \<lparr>se_env = response_ops_env (sv_resp env) meta,
      se_rules = map (\<lambda>(c, e, del). \<lparr>dr_CondPath = c, dr_Equals = e, dr_DelPath = del\<rparr>) (rd_SSEJSONDelIf d),
      se_ops = rd_JSONOps d, se_unmarshal = (\<lambda>s. jsonObjectOrNil (sv_resp env) s), se_marshal = re_Marshal (sv_resp env),
      se_write = countingWrite env\<rparr>"

definition stream_error :: "io_error sse_error \<Rightarrow> resp_error" where
  "stream_error e =
     (case e of
        SseWrite _ \<Rightarrow> StreamWriteFails
      | SseRead _ \<Rightarrow> StreamReadFails
      | SseMarshal \<Rightarrow> ResponseMarshal
      | SseOp je \<Rightarrow> ResponseOpFails je)"

text \<open>
  The outcome of a stream: the headers and status of the answer, what the client got, and the error. What the
  tail buffer and the tap hold is given for streams that were read to their end; after a failed write it depends
  on how far the readers had run ahead.
\<close>

record stream_outcome =
  so_header :: header
  so_status :: "int option"
  so_sink :: sink
  so_error :: "resp_error option"
  so_tail :: "string option"
  so_events :: "(string \<times> string) list option"

definition watched :: "int \<Rightarrow> string list \<Rightarrow> string" where
  "watched limit chunks = tb_buf (fold tail_Write chunks \<lparr>tb_limit = limit, tb_buf = []\<rparr>)"

definition tapped :: "bool \<Rightarrow> string list \<Rightarrow> (string \<times> string) list" where
  "tapped hasTap chunks = (if hasTap then tp_log (tap_Finish (fold tap_Write chunks new_tap)) else [])"

definition decodeUpstreamIfNeeded ::
    "'f stream_env \<Rightarrow> header \<Rightarrow> string list \<Rightarrow> io_error option \<Rightarrow> resp_error + (string list \<times> io_error option \<times> header)" where
  "decodeUpstreamIfNeeded env hdr chunks fin =
     (let ce = to_lower (trim_space (hdr_Get hdr ''Content-Encoding'')) in
      if ce = ''gzip'' then
        (case sv_Gunzip env chunks fin of
           None \<Rightarrow> Inl GunzipFails
         | Some (decoded, fin') \<Rightarrow> Inr (decoded, fin', hdr_Del ''Content-Encoding'' hdr))
      else if ce \<noteq> [] \<and> ce \<noteq> ''identity'' then Inl (EncodingUnsupported (hdr_Get hdr ''Content-Encoding''))
      else Inr (chunks, fin, hdr))"

definition buildPassthroughSource ::
    "'f stream_env \<Rightarrow> header \<Rightarrow> bool \<Rightarrow> string list \<Rightarrow> io_error option \<Rightarrow> resp_error + (string list \<times> io_error option \<times> header)" where
  "buildPassthroughSource env hdr needSSEOps chunks fin =
     (if \<not> needSSEOps then Inr (chunks, fin, hdr) else decodeUpstreamIfNeeded env hdr chunks fin)"

text \<open>\<^verbatim>\<open>io.Copy\<close> and other plain writers: the pieces in order, then the error of the source.\<close>

definition copy_pieces :: "'f stream_env \<Rightarrow> string list \<Rightarrow> resp_error option \<Rightarrow> sink \<Rightarrow> sink \<times> resp_error option" where
  "copy_pieces env pieces fin s =
     (case fold_res (countingWrite env) pieces s of
        Inl (_, s') \<Rightarrow> (s', Some StreamWriteFails)
      | Inr s' \<Rightarrow> (s', fin))"

definition run_transform :: "('f, sink, io_error) sse_env \<Rightarrow> string list \<Rightarrow> io_error option \<Rightarrow> sink \<Rightarrow> sink \<times> resp_error option" where
  "run_transform se chunks fin s =
     (case TransformSSEEventDataJSON se chunks fin s of Inl (e, s') \<Rightarrow> (s', Some (stream_error e)) | Inr s' \<Rightarrow> (s', None))"

text \<open>The event writer that rewrites what a converter produces; it is finished only when the converter succeeded.\<close>

definition run_writer :: "('f, sink, io_error) sse_env \<Rightarrow> string list \<Rightarrow> resp_error option \<Rightarrow> sink \<Rightarrow> sink \<times> resp_error option" where
  "run_writer se pieces fin s =
     (case fold_res (sw_Write se) pieces (NewSSEEventDataJSONWriter se s) of
        Inl (e, s') \<Rightarrow> (s', Some (stream_error e))
      | Inr w \<Rightarrow>
          if fin \<noteq> None then (sw_dst w, fin)
          else (case sw_Finish se w of Inl (e, s') \<Rightarrow> (s', Some (stream_error e)) | Inr w' \<Rightarrow> (sw_dst w', None)))"

definition new_sink :: sink where
  "new_sink = \<lparr>sk_client = [], sk_n = 0\<rparr>"

definition finished :: "header \<Rightarrow> int option \<Rightarrow> sink \<times> resp_error option \<Rightarrow> int \<Rightarrow> bool \<Rightarrow> string list \<Rightarrow> stream_outcome" where
  "finished h status r limit hasTap seen =
     \<lparr>so_header = h, so_status = status, so_sink = fst r, so_error = snd r,
      so_tail = (if snd r = None then Some (watched limit seen) else None),
      so_events = (if snd r = None then Some (tapped hasTap seen) else None)\<rparr>"

definition needs_ops :: "'f response_directive option \<Rightarrow> bool" where
  "needs_ops respDir \<longleftrightarrow> (case respDir of None \<Rightarrow> False | Some d \<Rightarrow> rd_JSONOps d \<noteq> [] \<or> rd_SSEJSONDelIf d \<noteq> [])"

definition SupportsSSETransformMode :: "string \<Rightarrow> bool" where
  "SupportsSSETransformMode mode \<longleftrightarrow> to_lower (trim_space mode) \<in>
     {''openai_responses_to_openai_chat_chunks'', ''anthropic_to_openai_chunks'', ''openai_to_anthropic_chunks'',
      ''openai_to_gemini_chunks'', ''gemini_to_openai_chat_chunks''}"

definition use_strategy :: "'f response_directive option \<Rightarrow> bool" where
  "use_strategy respDir \<longleftrightarrow>
     (case respDir of None \<Rightarrow> False | Some d \<Rightarrow> trim_space (rd_Op d) = ''sse_parse'' \<and> SupportsSSETransformMode (to_lower (trim_space (rd_Mode d))))"

definition streamStrategyTransform ::
    "'f stream_env \<Rightarrow> meta \<Rightarrow> 'f response_directive \<Rightarrow> up_response \<Rightarrow> string list \<Rightarrow> io_error option \<Rightarrow> header \<Rightarrow> int \<Rightarrow> bool \<Rightarrow> bool \<Rightarrow> stream_outcome" where
  "streamStrategyTransform env meta d resp chunks fin h limit hasTap tapRaw =
     (case decodeUpstreamIfNeeded env (us_Header resp) chunks fin of
        Inl e \<Rightarrow> finished h None (new_sink, Some e) limit hasTap []
      | Inr (src, fin', _) \<Rightarrow>
          let h' = hdr_Set ''Cache-Control'' ''no-cache'' (hdr_Set ''Content-Type'' ''text/event-stream'' h);
              (taken, pieces, failure) = sv_Convert env (to_lower (trim_space (rd_Mode d))) src fin';
              e = map_option StreamModeFails failure;
              r = (if needs_ops (Some d) then run_writer (stream_sse_env env meta d) pieces e new_sink
                   else copy_pieces env pieces e new_sink) in
          finished h' (Some (us_Status resp)) r limit hasTap (if tapRaw then take taken src else pieces))"

definition passthrough ::
    "'f stream_env \<Rightarrow> meta \<Rightarrow> 'f response_directive option \<Rightarrow> up_response \<Rightarrow> string list \<Rightarrow> io_error option \<Rightarrow> header \<Rightarrow> int \<Rightarrow> bool \<Rightarrow> stream_outcome" where
  "passthrough env meta respDir resp chunks fin h limit hasTap =
     (case buildPassthroughSource env (us_Header resp) (needs_ops respDir) chunks fin of
        Inl e \<Rightarrow> finished h (Some (us_Status resp)) (new_sink, Some e) limit hasTap []
      | Inr (src, fin', hdr) \<Rightarrow>
          let own = to_lower (trim_space (hdr_Get h ''Content-Type''));
              ct = (if own = [] then to_lower (trim_space (hdr_Get hdr ''Content-Type'')) else own) in
          finished h (Some (us_Status resp))
            (case respDir of
               Some d \<Rightarrow>
                 if needs_ops respDir \<and> str_contains ct ''text/event-stream''
                 then run_transform (stream_sse_env env meta d) src fin' new_sink
                 else copy_pieces env src (map_option (\<lambda>_. StreamReadFails) fin') new_sink
             | None \<Rightarrow> copy_pieces env src (map_option (\<lambda>_. StreamReadFails) fin') new_sink)
            limit hasTap src)"

definition streamToDownstream ::
    "'f stream_env \<Rightarrow> meta \<Rightarrow> 'f response_directive option \<Rightarrow> up_response \<Rightarrow> string list \<Rightarrow> io_error option \<Rightarrow> header \<Rightarrow> int \<Rightarrow> bool \<Rightarrow> bool \<Rightarrow> stream_outcome" where
  "streamToDownstream env meta respDir resp chunks fin h limit hasTap tapRaw =
     (case (if use_strategy respDir then respDir else None) of
        Some d \<Rightarrow> streamStrategyTransform env meta d resp chunks fin h limit hasTap tapRaw
      | None \<Rightarrow> passthrough env meta respDir resp chunks fin h limit hasTap)"

text \<open>The size of the tail is configured, with a default of 256 KiB.\<close>

definition tail_limit :: "int option \<Rightarrow> int" where
  "tail_limit cfg = (case cfg of Some n \<Rightarrow> if n > 0 then n else 262144 | None \<Rightarrow> 262144)"

definition handleStreamResponse ::
    "'f stream_env \<Rightarrow> meta \<Rightarrow> 'f response_directive option \<Rightarrow> up_response \<Rightarrow> string list \<Rightarrow> io_error option \<Rightarrow> header \<Rightarrow> int option \<Rightarrow> bool \<Rightarrow> stream_outcome" where
  "handleStreamResponse env meta respDir resp chunks fin wh cfg tapRaw =
     (let h = copyHeadersToClient (us_Header resp) False wh;
          ct = to_lower (trim_space (hdr_Get (us_Header resp) ''Content-Type'')) in
      streamToDownstream env meta respDir resp chunks fin h (tail_limit cfg) (str_contains ct ''text/event-stream'') tapRaw)"

section \<open>What the buffers hold\<close>

lemma tail_Write_suffix:
  assumes "tb_buf b = drop (length s - nat (tb_limit b)) s" "0 < tb_limit b"
  shows "tb_buf (tail_Write p b) = drop (length (s @ p) - nat (tb_limit b)) (s @ p) \<and> tb_limit (tail_Write p b) = tb_limit b"
proof -
  define n where "n = nat (tb_limit b)"
  then have n: "tb_limit b = int n" "0 < n" using assms(2) by auto
  have buf: "tb_buf b = drop (length s - n) s" using assms(1) by (simp add: n)
  consider "n \<le> length p" | "length p < n" "length (tb_buf b) + length p \<le> n" | "length p < n" "n < length (tb_buf b) + length p"
    by linarith
  then show ?thesis
  proof cases
    case 2
    have "length s + length p \<le> n" if "p \<noteq> []" using 2 that by (cases p) (auto simp: buf)
    with 2 buf show ?thesis by (cases "p = []") (auto simp: tail_Write_def n)
  next
    case 3
    then show ?thesis by (auto simp: tail_Write_def Let_def n buf min_def)
  qed (use n(2) in \<open>auto simp: tail_Write_def n(1)\<close>)
qed

lemma limited_Write_prefix:
  assumes "lb_buf b = take (nat (lb_limit b)) s" "lb_truncated b \<longleftrightarrow> int (length s) > lb_limit b" "0 < lb_limit b" "p \<noteq> []"
  shows "lb_buf (limited_Write p b) = take (nat (lb_limit b)) (s @ p) \<and> lb_limit (limited_Write p b) = lb_limit b \<and>
    (lb_truncated (limited_Write p b) \<longleftrightarrow> int (length (s @ p)) > lb_limit b)"
proof (cases "int (length s) < lb_limit b")
  case True
  then have "length s < nat (lb_limit b)" "take (nat (lb_limit b)) s = s" "nat (lb_limit b - int (length s)) = nat (lb_limit b) - length s"
    by auto
  with assms True show ?thesis by (auto simp: limited_Write_def Let_def)
next
  case False
  then have "min (length s) (nat (lb_limit b)) = nat (lb_limit b)" "nat (lb_limit b) - length s = 0" by auto
  with assms False show ?thesis by (auto simp: limited_Write_def Let_def)
qed

lemma tail_all:
  "tb_buf b = drop (length s - nat (tb_limit b)) s \<Longrightarrow> 0 < tb_limit b \<Longrightarrow>
    tb_buf (fold tail_Write chunks b) = drop (length (s @ concat chunks) - nat (tb_limit b)) (s @ concat chunks)"
proof (induction chunks arbitrary: b s)
  case (Cons p ps)
  from Cons.IH[of "tail_Write p b" "s @ p"] tail_Write_suffix[OF Cons.prems, of p] Cons.prems(2) show ?case by simp
qed simp

lemma limited_all:
  "lb_buf b = take (nat (lb_limit b)) s \<Longrightarrow> (lb_truncated b \<longleftrightarrow> int (length s) > lb_limit b) \<Longrightarrow> 0 < lb_limit b \<Longrightarrow> [] \<notin> set chunks \<Longrightarrow>
    lb_buf (fold limited_Write chunks b) = take (nat (lb_limit b)) (s @ concat chunks) \<and>
    (lb_truncated (fold limited_Write chunks b) \<longleftrightarrow> int (length (s @ concat chunks)) > lb_limit b)"
proof (induction chunks arbitrary: b s)
  case (Cons p ps)
  then have "p \<noteq> []" "[] \<notin> set ps" by auto
  with Cons.IH[of "limited_Write p b" "s @ p"] limited_Write_prefix[OF Cons.prems(1-3), of p] Cons.prems(3) show ?case by simp
qed simp

lemma watched_exact: "0 < limit \<Longrightarrow> watched limit chunks = drop (length (concat chunks) - nat limit) (concat chunks)"
  unfolding watched_def using tail_all[of "\<lparr>tb_limit = limit, tb_buf = []\<rparr>" "[]" chunks] by simp

text \<open>
  However a stream is cut, the tail buffer holds its last bytes and the limited buffer its first ones, up to their
  limits, and the limited buffer says exactly when bytes are missing.
\<close>

theorem stream_buffers_exact:
  assumes "0 < limit" "[] \<notin> set chunks"
  shows "tb_buf (fold tail_Write chunks \<lparr>tb_limit = limit, tb_buf = []\<rparr>) = drop (length (concat chunks) - nat limit) (concat chunks) \<and>
    lb_buf (fold limited_Write chunks \<lparr>lb_limit = limit, lb_buf = [], lb_truncated = False\<rparr>) = take (nat limit) (concat chunks) \<and>
    (lb_truncated (fold limited_Write chunks \<lparr>lb_limit = limit, lb_buf = [], lb_truncated = False\<rparr>) \<longleftrightarrow> int (length (concat chunks)) > limit)"
  using tail_all[of "\<lparr>tb_limit = limit, tb_buf = []\<rparr>" "[]" chunks]
    limited_all[of "\<lparr>lb_limit = limit, lb_buf = [], lb_truncated = False\<rparr>" "[]" chunks] assms by simp

section \<open>Streams that are passed on\<close>

lemma copy_accepted:
  assumes "\<And>s p. sv_Write env s p = None"
  shows "copy_pieces env pieces fin s = (s\<lparr>sk_client := sk_client s @ concat pieces, sk_n := sk_n s + int (length (concat pieces))\<rparr>, fin)"
proof -
  have "fold_res (countingWrite env) pieces s = Inr (s\<lparr>sk_client := sk_client s @ concat pieces, sk_n := sk_n s + int (length (concat pieces))\<rparr>)"
    by (induction pieces arbitrary: s) (simp_all add: countingWrite_def assms add.assoc)
  then show ?thesis by (simp add: copy_pieces_def)
qed

text \<open>
  C36. A stream without response rules reaches a client that takes every byte unchanged, with the status and all
  headers of the upstream but the length; the bytes are counted, the tail buffer ends with the last of
  them, and the metrics tap has seen the events of the stream, however the network cut it.
\<close>

theorem stream_passed_on:
  assumes "\<not> needs_ops respDir" "\<not> use_strategy respDir" "\<And>s p. sv_Write env s p = None" "canonical_header (us_Header resp)"
  shows "so_error (handleStreamResponse env meta respDir resp chunks None wh cfg tapRaw) = None \<and>
    so_status (handleStreamResponse env meta respDir resp chunks None wh cfg tapRaw) = Some (us_Status resp) \<and>
    so_sink (handleStreamResponse env meta respDir resp chunks None wh cfg tapRaw) =
      \<lparr>sk_client = concat chunks, sk_n = int (length (concat chunks))\<rparr> \<and>
    (\<not> equal_fold name ''Content-Length'' \<longrightarrow>
      hdr_Values (so_header (handleStreamResponse env meta respDir resp chunks None wh cfg tapRaw)) name =
        hdr_Values wh name @ hdr_Values (us_Header resp) name) \<and>
    so_tail (handleStreamResponse env meta respDir resp chunks None wh cfg tapRaw) =
      Some (drop (length (concat chunks) - nat (tail_limit cfg)) (concat chunks)) \<and>
    so_events (handleStreamResponse env meta respDir resp chunks None wh cfg tapRaw) =
      Some (if str_contains (to_lower (trim_space (hdr_Get (us_Header resp) ''Content-Type''))) ''text/event-stream''
            then stream_events (concat chunks) else [])"
proof -
  have limit: "0 < tail_limit cfg" by (simp add: tail_limit_def split: option.split)
  have run: "handleStreamResponse env meta respDir resp chunks None wh cfg tapRaw =
      finished (copyHeadersToClient (us_Header resp) False wh) (Some (us_Status resp))
        (copy_pieces env chunks None new_sink) (tail_limit cfg)
        (str_contains (to_lower (trim_space (hdr_Get (us_Header resp) ''Content-Type''))) ''text/event-stream'') chunks"
    using assms(1,2)
    by (cases respDir) (simp_all add: handleStreamResponse_def streamToDownstream_def passthrough_def buildPassthroughSource_def Let_def)
  show ?thesis
    unfolding run copy_accepted[OF assms(3)]
    by (simp add: finished_def new_sink_def copied_values[OF assms(4)] watched_exact[OF limit] tapped_def tap_reports_stream_events)
qed

section \<open>Streams that are decoded\<close>

lemma canonical_Del: "canonical_header hdr \<Longrightarrow> canonical_header (hdr_Del k hdr)"
  by (auto simp: canonical_header_def hdr_Del_def list_all_iff distinct_map AList.delete_eq intro: inj_on_subset)

text \<open>
  C37. A compressed stream that has to be changed reaches the client as plain text under the label of the
  compressed one: the headers were copied before the stream was decoded, so the client gets the bytes of the
  plain stream together with the content encoding of the upstream.
\<close>

theorem stream_encoding_mislabelled:
  assumes "needs_ops respDir \<or> use_strategy respDir" "to_lower (trim_space (hdr_Get (us_Header resp) ''Content-Encoding'')) = ''gzip''"
    and "sv_Gunzip env chunks fin = Some (decoded, fin')" "canonical_header (us_Header resp)"
  shows "so_sink (handleStreamResponse env meta respDir resp chunks fin wh cfg tapRaw) =
      so_sink (handleStreamResponse env meta respDir (resp\<lparr>us_Header := hdr_Del ''Content-Encoding'' (us_Header resp)\<rparr>) decoded fin' wh cfg tapRaw) \<and>
    so_error (handleStreamResponse env meta respDir resp chunks fin wh cfg tapRaw) =
      so_error (handleStreamResponse env meta respDir (resp\<lparr>us_Header := hdr_Del ''Content-Encoding'' (us_Header resp)\<rparr>) decoded fin' wh cfg tapRaw) \<and>
    hdr_Values (so_header (handleStreamResponse env meta respDir resp chunks fin wh cfg tapRaw)) ''Content-Encoding'' =
      hdr_Values wh ''Content-Encoding'' @ hdr_Values (us_Header resp) ''Content-Encoding'' \<and>
    hdr_Values (us_Header resp) ''Content-Encoding'' \<noteq> []"
proof -
  let ?plain = "hdr_Del ''Content-Encoding'' (us_Header resp)"
  have keys: "canonical_key ''Content-Type'' \<noteq> canonical_key ''Content-Encoding''"
    "canonical_key ''Content-Encoding'' \<noteq> canonical_key ''Cache-Control''" "canonical_key ''Content-Encoding'' \<noteq> canonical_key ''Content-Type''"
    "equal_fold ''Content-Type'' ''Content-Length'' = False" "equal_fold ''Content-Type'' ''Content-Encoding'' = False"
    "equal_fold ''Content-Encoding'' ''Content-Length'' = False" "to_lower (trim_space []) = []" by code_simp+
  have get: "hdr_Get ?plain ''Content-Encoding'' = []" "hdr_Get ?plain ''Content-Type'' = hdr_Get (us_Header resp) ''Content-Type''"
    using keys by (simp_all add: hdr_Get_def)
  have copied: "hdr_Get (copyHeadersToClient ?plain False wh) ''Content-Type'' = hdr_Get (copyHeadersToClient (us_Header resp) False wh) ''Content-Type''"
    using keys by (simp add: hdr_Get_def copied_values[OF assms(4)] copied_values[OF canonical_Del[OF assms(4)]])
  have label: "hdr_Values (copyHeadersToClient (us_Header resp) False wh) ''Content-Encoding'' =
      hdr_Values wh ''Content-Encoding'' @ hdr_Values (us_Header resp) ''Content-Encoding''"
    using keys by (simp add: copied_values[OF assms(4)])
  have decode: "decodeUpstreamIfNeeded env (us_Header resp) chunks fin = Inr (decoded, fin', ?plain)"
    "decodeUpstreamIfNeeded env ?plain decoded fin' = Inr (decoded, fin', ?plain)"
    using assms(2,3) get keys by (simp_all add: decodeUpstreamIfNeeded_def Let_def)
  have "hdr_Values (us_Header resp) ''Content-Encoding'' \<noteq> []" using assms(2) keys by (auto simp: hdr_Get_def)
  with assms(1) show ?thesis
    by (cases respDir)
       (auto simp: handleStreamResponse_def streamToDownstream_def streamStrategyTransform_def passthrough_def buildPassthroughSource_def
        Let_def decode get copied label keys finished_def needs_ops_def use_strategy_def case_prod_unfold split: if_splits)
qed

section \<open>The whole call\<close>

datatype proxy_failure =
    PrepareFails proxy_error
  | CallFails up_error
  | AnswerFails resp_error

datatype delivered = Plain client_answer | Streamed stream_outcome

text \<open>
  The parameters of the phases, how the network cuts a body that is streamed, whether there is an HTTP client,
  the configured tail size, and whether usage or finish reason are extracted for a call.
\<close>

record ('f, 'k) proxy_world =
  pw_prepare :: "'f proxy_env"
  pw_upstream :: "('f, 'k) upstream_env"
  pw_stream :: "'f stream_env"
  pw_cut :: "string \<Rightarrow> string list \<times> io_error option"
  pw_hasHTTP :: bool
  pw_tail :: "int option"
  pw_extracts :: "string \<Rightarrow> meta \<Rightarrow> bool"

definition answer_call ::
    "('f, 'k) proxy_world \<Rightarrow> upstream_file \<Rightarrow> string \<Rightarrow> 'f proxy_ctx \<Rightarrow> jobj option \<Rightarrow> up_response \<Rightarrow> meta \<Rightarrow> header \<Rightarrow> string option
     \<Rightarrow> (proxy_failure + delivered) \<times> string option" where
  "answer_call w uf provider ctx published resp meta wh rid =
     (if isEffectiveStream (px_stream ctx) resp (px_respDir ctx) then
        (let (chunks, fin) = pw_cut w (us_Body resp);
             out = handleStreamResponse (pw_stream w) meta (px_respDir ctx) resp chunks fin wh (pw_tail w) (pw_extracts w provider meta) in
         (Inr (Streamed out), rid))
      else
        case handleNonStreamResponse (sv_resp (pw_stream w)) (pw_hasHTTP w) uf meta published (px_respDir ctx) resp wh rid of
          Inl e \<Rightarrow> (Inl (AnswerFails e), rid)
        | Inr (ans, rid') \<Rightarrow> (Inr (Plain ans), rid'))"

definition ProxyJSON ::
    "('f, 'k) proxy_world \<Rightarrow> (string \<Rightarrow> 'f provider_file option) \<Rightarrow> (string \<Rightarrow> upstream_file) \<Rightarrow> gin_ctx \<Rightarrow> http_call \<Rightarrow> string \<Rightarrow> string \<Rightarrow> provider_key
     \<Rightarrow> string \<Rightarrow> bool \<Rightarrow> proxy_state \<Rightarrow> header \<Rightarrow> ((proxy_failure + delivered) \<times> up_request list \<times> proxy_state \<times> string option) option" where
  "ProxyJSON w registry files c call method provider key api stream ps wh =
     (case buildProxyCtx (pw_prepare w) registry c call provider key api stream of
        Inl e \<Rightarrow> Some (Inl (PrepareFails e), [], ps, None)
      | Inr (ctx, published) \<Rightarrow>
          case doUpstreamRequest (pw_upstream w) provider (files provider) method call (px_meta ctx) (px_reqBody ctx) (px_reqContentType ctx) ps None of
            None \<Rightarrow> None
          | Some out \<Rightarrow>
              case os_result out of
                Inl e \<Rightarrow> Some (Inl (CallFails e), os_sent out, os_state out, os_requestID out)
              | Inr resp \<Rightarrow>
                  let (r, rid) = answer_call w (files provider) provider ctx published resp (os_meta out) wh (os_requestID out) in
                  Some (r, os_sent out, os_state out, rid))"


section \<open>Answers that are lost\<close>

text \<open>
  C38. An answer collected from events is lost when the mapping mode is not a known one, which loading a
  configuration does not check: the client gets an empty body under the status of the upstream.
\<close>

theorem collected_answer_lost:
  assumes "shouldCollectSSE (Some d) resp" "us_Status resp < 400" "collect_events env d resp = Inr ob"
    and "rd_Op d = ''resp_map''" "\<not> SupportsResponseMapMode (rd_Mode d)" "rd_JSONOps d = []" "rd_InlineURL d = None"
  shows "\<exists>ans. handleNonStreamResponse env hasHTTP uf meta req (Some d) resp wh rid = Inr (ans, rid) \<and>
    ca_Status ans = us_Status resp \<and> ca_Body ans = []"
proof -
  have "mapNonStreamResponse env resp (Some d) = Inr (None, None, contentTypeJSON, False)"
    using assms by (simp add: mapNonStreamResponse_def map_by_directive_def)
  moreover have "recordUpstreamRequestIDFromJSON f uf [] rid = rid" for f
    by (simp add: recordUpstreamRequestIDFromJSON_def split: option.split)
  ultimately show ?thesis
    using assms(6,7)
    by (simp add: handleNonStreamResponse_def marshal_missing_def applyResponseInlineURL_def applyNonStreamResponseJSONOps_def bytes_of_def Let_def)
qed

text \<open>
  With JSON operations on the response, an answer of a JSON type whose body is no JSON, an empty one for instance,
  is replaced by an error of the proxy, whatever its status: the client does not see the upstream's own
  refusal.
\<close>

theorem unparsed_answer_lost:
  assumes "rd_JSONOps d \<noteq> []" "rd_Op d \<noteq> ''resp_map''" "rd_InlineURL d = None" "\<not> shouldCollectSSE (Some d) resp"
    and "str_contains (to_lower (trim_space (hdr_Get (us_Header resp) ''Content-Type''))) ''json''"
    and "DecodeResponseBody env (us_Body resp) (hdr_Get (us_Header resp) ''Content-Encoding'') = Inr (decoded, changed)" "re_Unmarshal env decoded = None"
  shows "handleNonStreamResponse env hasHTTP uf meta req (Some d) resp wh rid = Inl ResponseNotJSON"
proof -
  have "mapNonStreamResponse env resp (Some d) = Inr (Some (us_Body resp), None, hdr_Get (us_Header resp) ''Content-Type'', False)"
    using assms(2,4) by (simp add: mapNonStreamResponse_def map_by_directive_def)
  then show ?thesis
    using assms(1,3,5-7)
    by (simp add: handleNonStreamResponse_def marshal_missing_def applyResponseInlineURL_def applyNonStreamResponseJSONOps_def bytes_of_def
        ResponseBodyLooksLikeJSON_def response_object_def)
qed

section \<open>Concrete answers\<close>

definition rp_env :: "int response_env" where
  "rp_env = \<lparr>re_Gunzip = (\<lambda>b. Some (drop 1 b)), re_Unmarshal = (\<lambda>b. if b = ''{}'' then Some (Some []) else None), re_Marshal = (\<lambda>_. Some ''{}''),
     re_Collect = (\<lambda>_ _. Inr []), re_typed = (\<lambda>_ _. Inr []), re_now = 0, re_inline = inline_demo_env, re_order = last_first,
     re_maxPrice = [], re_float = demo_floats, re_headers = []\<rparr>"

definition rp_stream :: "int stream_env" where
  "rp_stream = \<lparr>sv_resp = rp_env, sv_Write = (\<lambda>_ _. None), sv_Gunzip = (\<lambda>cs fin. Some (map (drop 1) cs, fin)),
     sv_Convert = (\<lambda>_ cs _. (length cs, cs, None))\<rparr>"

definition rp_directive :: "string \<Rightarrow> string \<Rightarrow> int response_directive" where
  "rp_directive opn mode = \<lparr>rd_Op = opn, rd_Mode = mode, rd_SSECollectMode = [], rd_JSONOps = [], rd_SSEJSONDelIf = [],
     rd_BodyExtract = None, rd_ContentTypeRule = None, rd_SSEBinaryExtract = None, rd_InlineURL = None, rd_ErrorWhen = []\<rparr>"

definition rp_events :: "string \<Rightarrow> up_response" where
  "rp_events encoding = \<lparr>us_Status = 200, us_Header = [(''Content-Encoding'', [encoding]), (''Content-Type'', [''text/event-stream''])], us_Body = ''.data''\<rparr>"

theorem stream_buffers_exact_witness:
  "tb_buf (fold tail_Write [''ab'', ''c''] \<lparr>tb_limit = 2, tb_buf = []\<rparr>) = ''bc''"
  using stream_buffers_exact[of 2 "[''ab'', ''c'']"] by simp

theorem stream_passed_on_witness:
  "sk_client (so_sink (handleStreamResponse rp_stream retry_meta None (rp_events ''br'') [''.da'', ''ta''] None [] None False)) = ''.data''"
proof -
  have hyps: "\<not> needs_ops (None :: int response_directive option)" "\<not> use_strategy (None :: int response_directive option)"
    "\<And>s p. sv_Write rp_stream s p = None" "canonical_header (us_Header (rp_events ''br''))"
    by (simp_all add: needs_ops_def use_strategy_def rp_stream_def) code_simp
  show ?thesis using stream_passed_on[OF hyps, of retry_meta "[''.da'', ''ta'']" "[]" None False "[]"] by simp
qed

theorem stream_encoding_mislabelled_witness:
  "hdr_Values (so_header (handleStreamResponse rp_stream retry_meta (Some (rp_directive ''sse_parse'' ''anthropic_to_openai_chunks''))
      (rp_events ''gzip'') [''.data''] None [] None False)) ''Content-Encoding'' = [''gzip''] \<and>
   sk_client (so_sink (handleStreamResponse rp_stream retry_meta (Some (rp_directive ''sse_parse'' ''anthropic_to_openai_chunks''))
      (rp_events ''gzip'') [''.data''] None [] None False)) = ''data''"
proof -
  let ?d = "Some (rp_directive ''sse_parse'' ''anthropic_to_openai_chunks'')"
  have "needs_ops ?d \<or> use_strategy ?d" "to_lower (trim_space (hdr_Get (us_Header (rp_events ''gzip'')) ''Content-Encoding'')) = ''gzip''"
    "sv_Gunzip rp_stream [''.data''] None = Some ([''data''], None)" "canonical_header (us_Header (rp_events ''gzip''))" by code_simp+
  note both = stream_encoding_mislabelled[OF this, of retry_meta "[]" None False]
  moreover have "hdr_Values (us_Header (rp_events ''gzip'')) ''Content-Encoding'' = [''gzip'']" "hdr_Values [] ''Content-Encoding'' = []" by code_simp+
  moreover have "sk_client (so_sink (handleStreamResponse rp_stream retry_meta ?d
      (rp_events ''gzip''\<lparr>us_Header := hdr_Del ''Content-Encoding'' (us_Header (rp_events ''gzip''))\<rparr>) [''data''] None [] None False)) = ''data''"
    by code_simp
  ultimately show ?thesis by simp
qed

theorem collected_answer_lost_witness:
  "\<exists>ans. handleNonStreamResponse rp_env True retry_file retry_meta None (Some (rp_directive ''resp_map'' ''typo''\<lparr>rd_SSECollectMode := ''openai_responses''\<rparr>))
      (rp_events ''identity'') [] None = Inr (ans, None) \<and> ca_Status ans = 200 \<and> ca_Body ans = []"
proof -
  let ?d = "rp_directive ''resp_map'' ''typo''\<lparr>rd_SSECollectMode := ''openai_responses''\<rparr>"
  have "shouldCollectSSE (Some ?d) (rp_events ''identity'')" "us_Status (rp_events ''identity'') < 400"
    "collect_events rp_env ?d (rp_events ''identity'') = Inr []" "rd_Op ?d = ''resp_map''" "\<not> SupportsResponseMapMode (rd_Mode ?d)"
    "rd_JSONOps ?d = []" "rd_InlineURL ?d = None" by code_simp+
  from collected_answer_lost[OF this, of True retry_file retry_meta None "[]" None]
  show ?thesis by (simp add: rp_events_def)
qed

theorem unparsed_answer_lost_witness:
  "handleNonStreamResponse rp_env True retry_file retry_meta None (Some (rp_directive [] []\<lparr>rd_JSONOps := [demo_op]\<rparr>))
     \<lparr>us_Status = 429, us_Header = [(''Content-Type'', [''application/json''])], us_Body = []\<rparr> [] None = Inl ResponseNotJSON"
  by (rule unparsed_answer_lost[where decoded = "[]" and changed = False]) code_simp+

definition rp_world :: "(int, int) proxy_world" where
  "rp_world = \<lparr>pw_prepare = px_demo_env,
     pw_upstream = retry_env\<lparr>ue_Do := (\<lambda>n hc q. Some \<lparr>us_Status = 200, us_Header = [(''Content-Encoding'', [''br''])], us_Body = ''z''\<rparr>)\<rparr>,
     pw_stream = rp_stream, pw_cut = (\<lambda>b. ([b], None)), pw_hasHTTP = True, pw_tail = None, pw_extracts = (\<lambda>_ _. False)\<rparr>"

definition rp_file :: upstream_file where
  "rp_file = \<lparr>uf_Headers = \<lparr>pvh_Defaults = retry_phase\<lparr>ph_Auth := [], ph_OAuth := demo_oauth\<lparr>oc_Mode := []\<rparr>\<rparr>, pvh_Matches = []\<rparr>,
     uf_RequestIDHeaders = None, uf_RequestIDPath = None\<rparr>"

lemma rp_run:
  "case ProxyJSON rp_world (\<lambda>_. Some (px_file px_map)) (\<lambda>_. rp_file) (px_gin []) px_call ''POST'' ''p'' px_key0 ''chat.completions'' False (retry_state False) [] of
     Some (Inr (Plain ans), sent, _) \<Rightarrow> ca_Body ans = ''z'' \<and> length sent = 1
   | _ \<Rightarrow> False"
  by code_simp


end
