(* ===== verification/Spec2Isabelle.thy ===== *)
theory Spec2Isabelle
  imports Reconciliation Response_Phase
begin

text \<open>
  A verification library of open-next-router, a gateway that gives clients one API in front of many
  language-model providers.

  \<^bold>\<open>The program.\<close> A request enters the HTTP server (\<^verbatim>\<open>onr/internal/onrserver\<close>), which authenticates
  it (\<^verbatim>\<open>onr/internal/auth\<close>) with the master key, a token key, or an access key from the key file
  (\<^verbatim>\<open>onr-core/pkg/keystore\<close>) or from the control plane in Redis (\<^verbatim>\<open>pkg/controlplane\<close>). The server chooses a
  provider for the model (\<^verbatim>\<open>onr-core/pkg/models\<close>), checks the allowlists, the route policy and the balance,
  takes an upstream key and hands the request to the proxy (\<^verbatim>\<open>onr/internal/proxy\<close>). The proxy reads the body
  (\<^verbatim>\<open>onr-core/pkg/requestcanon\<close>) and applies the phases of the provider's configuration
  (\<^verbatim>\<open>onr-core/pkg/dslconfig\<close>): routing, request transform (\<^verbatim>\<open>onr-core/pkg/requesttransform\<close>) with validation
  (\<^verbatim>\<open>onr-core/pkg/requestvalidate\<close>) and schema mapping (\<^verbatim>\<open>onr-core/pkg/apitransform\<close>), headers and response
  rules. Streams are watched by \<^verbatim>\<open>onr-core/pkg/ssemetrics\<close>. Usage is recorded in a ledger in Redis, through a stream
  of billing events with a reconciliation queue (\<^verbatim>\<open>pkg/billing\<close>, \<^verbatim>\<open>pkg/controlplane\<close>).

  \<^bold>\<open>Theories and what they model.\<close>

  \<^item> \<open>Prelude\<close>: results as sums, Go's string functions on bytes (trimming, case, splitting, decimal text),
    64-bit integers, stable sorting, runs of operations, with the lemmas every component shares.
  \<^item> \<open>Encodings\<close>: base64, query strings and their escapes.
  \<^item> \<open>Models_Router\<close> (\<^verbatim>\<open>models.go\<close>): routes, priorities, round robin. Selection is fair, stays within the
    allowlists and serves the highest priority; loading and priority updates keep the invariant.
  \<^item> \<open>Keystore\<close> (\<^verbatim>\<open>keystore.go\<close>): the key file, encrypted values, rotation of upstream keys.
  \<^item> \<open>Auth\<close> (\<^verbatim>\<open>middleware.go\<close>, \<^verbatim>\<open>token.go\<close>, \<^verbatim>\<open>onr-admin/internal/cli/token.go\<close>): token keys round trip through their
    text; the middleware implements an abstract verdict.
  \<^item> \<open>Access_Keys\<close> (\<^verbatim>\<open>redis.go\<close>): the stored access keys and their indices. Every operation keeps one active key
    per account; lookups are exact; revocation takes effect.
  \<^item> \<open>Billing_Store\<close>, \<open>Billing_Ledger\<close>, \<open>Reconciliation\<close> (\<^verbatim>\<open>redis.go\<close>, \<^verbatim>\<open>ledger.go\<close>, \<^verbatim>\<open>reconciliation.go\<close>): the ledger counts
    every event exactly once, no billing event is lost between the stream, its groups and the dead letters,
    amounts are exact, leases exclude each other, candidates persist until they are acknowledged.
  \<^item> \<open>Gateway\<close> (\<^verbatim>\<open>handlers.go\<close>, \<^verbatim>\<open>gemini.go\<close>, \<^verbatim>\<open>router.go\<close>, \<^verbatim>\<open>billing.go\<close>): the request path over all of these.
    What is forwarded is authorised, what is refused has no effect.
  \<^item> \<open>Json_Path\<close> (\<^verbatim>\<open>jsonutil/value.go\<close>): the path language on JSON values.
  \<^item> \<open>Dsl_Expr\<close>, \<open>Dsl_Match\<close>, \<open>Dsl_Headers\<close>, \<open>Json_Ops\<close>, \<open>Dsl_Phases\<close> (\<^verbatim>\<open>dslconfig\<close>): string expressions, selection of match
    blocks, header operations, JSON operations, and the routing, request and response phases.
  \<^item> \<open>Dsl_Scanner\<close>, \<open>Dsl_Validation\<close> (\<^verbatim>\<open>core_scanner.go\<close>, \<^verbatim>\<open>parse_request_validation.go\<close>,
    \<^verbatim>\<open>validate_request_validation.go\<close>, \<^verbatim>\<open>requestvalidate\<close>): from the text of a validation rule to the verdict.
  \<^item> \<open>Sse_Lines\<close>, \<open>Sse_Tap\<close>, \<open>Sse_Transform\<close> (\<^verbatim>\<open>ssemetrics/tap.go\<close>, \<^verbatim>\<open>sse_response_ops.go\<close>): event streams that arrive
    in arbitrary chunks.
  \<^item> \<open>Request_Canon\<close> (\<^verbatim>\<open>requestcanon\<close>), \<open>Media_Mapping\<close> (\<^verbatim>\<open>apitransform\<close>, images and videos), \<open>Request_Transform\<close>
    (\<^verbatim>\<open>requesttransform\<close>), \<open>Proxy_Context\<close> (\<^verbatim>\<open>proxy/context.go\<close>, \<^verbatim>\<open>proxy/request_transform.go\<close>): from the body of a
    request to the call that is prepared, which refines what \<open>Gateway\<close> assumes of the proxy.
  \<^item> \<open>Oauth_Config\<close> (\<^verbatim>\<open>dslconfig/oauth.go\<close>), \<open>Oauth_Client\<close> (\<^verbatim>\<open>oauthclient/client.go\<close>): the OAuth settings of a provider, the
    key under which tokens are cached, and the client that fetches, caches and persists them. Overlapping calls
    are steps of a transition system: one request per key at a time, every call can return, tokens belong to
    their key, and a call that runs alone computes the sequential function.
  \<^item> \<open>Upstream\<close> (\<^verbatim>\<open>proxy/upstream.go\<close>, \<^verbatim>\<open>proxy/oauth.go\<close>): the attempts of one upstream call, with tokens, proxies and
    the recorded request identifiers.
  \<^item> \<open>Resp_Inline\<close> (\<^verbatim>\<open>respinline/respinline.go\<close>): links in an answer are replaced by their content. The workers are a step
    relation over references into the document; every schedule stays within its bound, can finish and agrees
    with the rule as a function, and exactly the objects whose fetch succeeded change.
  \<^item> \<open>Response_Phase\<close> (\<^verbatim>\<open>proxy/response_nonstream.go\<close>, \<^verbatim>\<open>stream_write.go\<close>, \<^verbatim>\<open>response_stream.go\<close>, \<^verbatim>\<open>buffers.go\<close>, \<^verbatim>\<open>proxy.go\<close>, and
    the dispatch of \<^verbatim>\<open>apitransform\<close>): what the client receives, and the whole call from the prepared request to the
    answer. Plain answers are labelled as what they are, streams without rules are passed on byte for byte, and
    the cases in which an answer is mislabelled or lost are stated.

  \<^bold>\<open>Correspondence.\<close> Definitions carry the names of the functions they translate, with the receiver in
  front where two types share a name. Structs are records, string-valued enumerations stay strings, tagged
  errors are datatypes, fallible functions return sums. Go maps are association lists read with
  \<^const>\<open>map_of\<close>; where the order of a Go map iteration could matter, the lemmas assume distinct keys. State is
  passed explicitly; a Redis script is one step, and commands outside scripts are separate steps, so
  that interleavings are sequences of operations. Aliasing is written out where it matters: the request
  root is one map that the metadata, the published context and the transform share.

  \<^bold>\<open>Interfaces.\<close> Locales state what components rely on: ordered selection of match blocks (\<open>first_match\<close>, with an
  interpretation for each phase), an update along a key path (\<open>key_update\<close>, for each JSON operation), assembly
  of lines from chunks (\<open>line_assembler\<close>, for the tap and the event writer), a store whose parts change
  independently (\<open>addressed_store\<close>, for JSON documents), and those of the stores and
  rotations in their theories. Every locale is interpreted on the definitions of the model.

  \<^bold>\<open>Parameters and bounds.\<close> Cryptography, clocks, randomness, file access, JSON, YAML and multipart coding, media types,
  URL splitting and floating-point numbers are records of functions, and a theorem names what it needs
  of them. Mappings through the typed chat requests are a parameter of the request transform. What the token
  endpoint answers, the clock and the success of a file write are given to each step by a \<open>world\<close>; the answers of the
  upstream and the AWS transport are functions of the request and the attempt.
  64-bit integers are kept in range with \<open>wrap64\<close> where the code adds. Loops that are not structural have
  termination measures (lengths of the remaining text); the only fuel is in \<open>drop_spaces\<close>, whose argument is the
  length of the string, which each round shortens.

  \<^bold>\<open>Not modelled.\<close> Network transport and calls through the AWS SDK; the collection of events into one answer; the schemas of the provider APIs and
  the mappings between typed chat requests and their streams; token estimation and pricing, which are floating-point
  arithmetic over tables; the statement parsers of provider files other than validation; the admin web
  and terminal interfaces and the SQL store behind them; the editor support for provider files; logging and
  traffic dumps.

  \<^bold>\<open>Open ends.\<close> Extraction of usage and finish reasons reads the answers modelled here and is left out with the
  estimation it feeds, which is floating-point; the converters of streams would replace a parameter of
  \<open>Response_Phase\<close>.
\<close>

end
